(* ===== verification/Prelude.thy ===== *)
theory Prelude
  imports Main "HOL-Library.Word"
begin

text \<open>
  Prelude of the development: the part of JavaScript that the web client of the broker
  uses, as HOL types and total functions, and the lemmas the component theories share.

  \<^item> \<open>jsnum\<close>: a JavaScript number that is either \<open>NaN\<close> or an integer. \<open>undefined\<close> read out of
    a typed array becomes \<open>NaN\<close> in the arithmetic that follows, so \<open>get_byte\<close> yields it.
  \<^item> \<open>js_string\<close>: a string is its list of UTF-16 code units, each a \<^typ>\<open>16 word\<close>.
  \<^item> \<open>bytes\<close>: a \<open>Uint8Array\<close> is a list of \<^typ>\<open>8 word\<close>; a store outside the array is ignored,
    which is what \<open>list_update\<close> does, and a stored number is reduced modulo 256.
  \<^item> \<open>exn\<close> and \<open>'a res\<close>: exceptions are values, \<open>Inl\<close> is a throw.
  \<^item> objects used as dictionaries are association lists with the enumeration order of
    JavaScript for integer keys (ascending); the interface is the locale \<open>js_object\<close>.
\<close>

unbundle bit_operations_syntax

named_theorems res_simps \<open>evaluation of the exception monad\<close>
named_theorems byte_simps \<open>typed array access\<close>

subsection \<open>Numbers, strings, exceptions\<close>

datatype jsnum = NaN | Num int

type_synonym js_string = "16 word list"
type_synonym bytes = "8 word list"

definition js :: "string \<Rightarrow> js_string" where
  "js s = map of_char s"

datatype exn =
    Error js_string \<comment> \<open>\<open>throw new Error(text)\<close>\<close>
  | InvalidStoredData js_string \<comment> \<open>the error text that quotes a storage key and its value\<close>
  | ThrownString js_string \<comment> \<open>\<open>throw text\<close>, not an Error object\<close>
  | TypeError | ReferenceError | RangeError | DOMException

type_synonym 'a res = "exn + 'a"

definition bindr :: "'a res \<Rightarrow> ('a \<Rightarrow> 'b res) \<Rightarrow> 'b res" where
  "bindr m f = (case m of Inl e \<Rightarrow> Inl e | Inr x \<Rightarrow> f x)"

lemma bindr_simps [simp, res_simps]:
  "bindr (Inl e) f = Inl e"
  "bindr (Inr x) f = f x"
  by (simp_all add: bindr_def)

lemma bindr_Inr_iff [res_simps]: "bindr m f = Inr y \<longleftrightarrow> (\<exists>x. m = Inr x \<and> f x = Inr y)"
  by (cases m) auto

lemma bindr_cong [fundef_cong]:
  "m = m' \<Longrightarrow> (\<And>x. m' = Inr x \<Longrightarrow> f x = g x) \<Longrightarrow> bindr m f = bindr m' g"
  by (cases m') auto

lemma bindr_assoc: "bindr (bindr m f) g = bindr m (\<lambda>x. bindr (f x) g)"
  by (cases m) auto

text \<open>The conversion of \<open>>>\<close>, \<open>&\<close> and \<open>|\<close>: operands are taken modulo \<open>2^32\<close>, signed.\<close>

definition to_int32 :: "int \<Rightarrow> int" where
  "to_int32 x = signed_take_bit 31 x"

definition js_shr :: "int \<Rightarrow> nat \<Rightarrow> int" where
  "js_shr x n = drop_bit n (to_int32 x)"

lemma to_int32_id [simp]: "0 \<le> x \<Longrightarrow> x < 2 ^ 31 \<Longrightarrow> to_int32 x = x"
  unfolding to_int32_def by (rule signed_take_bit_int_eq_self) auto

lemma js_shr_eq_div [simp]: "0 \<le> x \<Longrightarrow> x < 2 ^ 31 \<Longrightarrow> js_shr x n = x div 2 ^ n"
  by (simp add: js_shr_def drop_bit_eq_div)

text \<open>Masks and disjoint bit patterns as arithmetic.\<close>

lemma and_mask_mod:
  "(x::int) AND 7 = x mod 8" "(x::int) AND 15 = x mod 16" "(x::int) AND 31 = x mod 32"
  "(x::int) AND 63 = x mod 64" "(x::int) AND 127 = x mod 128" "(x::int) AND 1023 = x mod 1024"
  using take_bit_eq_mask [of 3 x] take_bit_eq_mask [of 4 x] take_bit_eq_mask [of 5 x]
    take_bit_eq_mask [of 6 x] take_bit_eq_mask [of 7 x] take_bit_eq_mask [of 10 x]
  by (simp_all add: mask_eq_exp_minus_1 take_bit_eq_mod)

lemma or_disjoint: "(x::int) AND y = 0 \<Longrightarrow> x OR y = x + y"
  using plus_and_or [of x y] by simp

lemma or_masked: "m AND k = 0 \<Longrightarrow> ((x::int) AND m) OR k = k + (x AND m)"
  by (subst or_disjoint) (simp_all add: and.assoc)

text \<open>\<open>String.fromCharCode\<close> reduces its argument modulo \<open>2^16\<close>; \<open>NaN\<close> gives the unit 0.\<close>

fun fromCharCode :: "jsnum \<Rightarrow> 16 word" where
  "fromCharCode NaN = 0"
| "fromCharCode (Num n) = word_of_int n"

subsection \<open>Typed arrays\<close>

lemma length_splitE:
  assumes "length xs = m + n"
  obtains ys zs where "xs = ys @ zs" "length ys = m" "length zs = n"
proof
  show "xs = take m xs @ drop m xs" by simp
qed (use assms in simp_all)

fun get_byte :: "bytes \<Rightarrow> jsnum \<Rightarrow> jsnum" where
  "get_byte b NaN = NaN"
| "get_byte b (Num i) = (if 0 \<le> i \<and> i < int (length b) then Num (uint (b ! nat i)) else NaN)"

declare get_byte.simps(2) [simp del]

definition rd :: "bytes \<Rightarrow> nat \<Rightarrow> jsnum" where
  "rd b i = get_byte b (Num (int i))"

definition to_byte :: "int \<Rightarrow> 8 word" where
  "to_byte x = word_of_int x"

definition put_byte :: "bytes \<Rightarrow> nat \<Rightarrow> int \<Rightarrow> bytes" where
  "put_byte b i v = b[i := to_byte v]"

definition set_bytes :: "bytes \<Rightarrow> nat \<Rightarrow> bytes \<Rightarrow> bytes res" where
  "set_bytes b off src =
     (if off + length src \<le> length b
      then Inr (take off b @ src @ drop (off + length src) b)
      else Inl RangeError)"

text \<open>\<open>subarray\<close>: \<open>NaN\<close> counts as 0, both ends are clamped to the array.\<close>

fun to_index :: "jsnum \<Rightarrow> nat" where
  "to_index NaN = 0"
| "to_index (Num i) = nat i"

definition subarray :: "bytes \<Rightarrow> jsnum \<Rightarrow> jsnum \<Rightarrow> bytes" where
  "subarray b s e = take (to_index e - to_index s) (drop (to_index s) b)"

lemma uint_to_byte: "uint (to_byte x) = x mod 256"
  by (simp add: to_byte_def uint_word_of_int take_bit_eq_mod)

lemma uint_to_byte_id [simp, byte_simps]: "0 \<le> x \<Longrightarrow> x < 256 \<Longrightarrow> uint (to_byte x) = x"
  by (simp add: uint_to_byte)

lemma to_byte_uint [simp, byte_simps]: "to_byte (uint b) = b"
  by (simp add: to_byte_def)

lemma length_put_byte [simp, byte_simps]: "length (put_byte b i v) = length b"
  by (simp add: put_byte_def)

lemma put_byte_cons [simp, byte_simps]:
  "put_byte (x # xs) 0 v = to_byte v # xs"
  "put_byte (x # xs) (Suc n) v = x # put_byte xs n v"
  by (simp_all add: put_byte_def)

lemma put_byte_append [simp, byte_simps]:
  "put_byte (pre @ xs) (length pre) v = pre @ put_byte xs 0 v"
  "put_byte (pre @ xs) (Suc (length pre)) v = pre @ put_byte xs (Suc 0) v"
  "put_byte (pre @ xs) (Suc (Suc (length pre))) v = pre @ put_byte xs (Suc (Suc 0)) v"
  "put_byte (pre @ xs) (Suc (Suc (Suc (length pre)))) v = pre @ put_byte xs (Suc (Suc (Suc 0))) v"
  by (induction pre) simp_all

lemma rd_nil [simp, byte_simps]: "rd [] n = NaN"
  by (simp add: rd_def get_byte.simps(2))

lemma rd_cons [simp, byte_simps]: "rd (x # xs) 0 = Num (uint x)" "rd (x # xs) (Suc n) = rd xs n"
  by (auto simp: rd_def get_byte.simps(2) nat_add_distrib)

lemma rd_append [simp, byte_simps]:
  "rd (pre @ xs) (length pre) = rd xs 0"
  "rd (pre @ xs) (length pre + n) = rd xs n"
  "rd (pre @ xs) (Suc (length pre)) = rd xs (Suc 0)"
  "rd (pre @ xs) (Suc (Suc (length pre))) = rd xs (Suc (Suc 0))"
  "rd (pre @ xs) (Suc (Suc (Suc (length pre)))) = rd xs (Suc (Suc (Suc 0)))"
  by (induction pre) simp_all

lemma set_bytes_append [byte_simps]:
  "length mid = length src \<Longrightarrow> set_bytes (pre @ mid @ post) (length pre) src = Inr (pre @ src @ post)"
  by (simp add: set_bytes_def)

fun nadd :: "jsnum \<Rightarrow> jsnum \<Rightarrow> jsnum" where
  "nadd (Num a) (Num b) = Num (a + b)"
| "nadd _ _ = NaN"

fun nmul :: "int \<Rightarrow> jsnum \<Rightarrow> jsnum" where
  "nmul k (Num a) = Num (k * a)"
| "nmul k NaN = NaN"

text \<open>Every comparison with \<open>NaN\<close> is false.\<close>

fun nless :: "jsnum \<Rightarrow> jsnum \<Rightarrow> bool" where
  "nless (Num a) (Num b) = (a < b)"
| "nless _ _ = False"

subsection \<open>Printing numbers and searching strings\<close>

definition digit_char :: "nat \<Rightarrow> 16 word" where
  "digit_char d = (if d < 10 then of_nat (48 + d) else of_nat (87 + d))"

fun show_base :: "nat \<Rightarrow> nat \<Rightarrow> js_string" where
  "show_base b n =
     (if b < 2 \<or> n < b then [digit_char n] else show_base b (n div b) @ [digit_char (n mod b)])"

declare show_base.simps [simp del]

definition show_int :: "nat \<Rightarrow> int \<Rightarrow> js_string" where
  "show_int b x = (if x < 0 then of_nat 45 # show_base b (nat (- x)) else show_base b (nat x))"

fun show_num :: "nat \<Rightarrow> jsnum \<Rightarrow> js_string" where
  "show_num b NaN = js ''NaN''"
| "show_num b (Num x) = show_int b x"

fun prefix_of :: "'a list \<Rightarrow> 'a list \<Rightarrow> bool" where
  "prefix_of [] ys = True"
| "prefix_of (x # xs) [] = False"
| "prefix_of (x # xs) (y # ys) = (x = y \<and> prefix_of xs ys)"

fun indexOf :: "'a list \<Rightarrow> 'a list \<Rightarrow> nat option" where
  "indexOf [] pat = (if pat = [] then Some 0 else None)"
| "indexOf (x # xs) pat =
     (if prefix_of pat (x # xs) then Some 0 else map_option Suc (indexOf xs pat))"

lemma prefix_of_iff: "prefix_of xs ys \<longleftrightarrow> (\<exists>zs. ys = xs @ zs)"
  by (induction xs ys rule: prefix_of.induct) auto

lemma prefix_of_append [simp]: "prefix_of xs (xs @ ys)"
  by (simp add: prefix_of_iff)

lemma indexOf_eq_0: "indexOf xs pat = Some 0 \<longleftrightarrow> prefix_of pat xs"
  by (cases xs; cases pat) auto

subsection \<open>Decimal digits\<close>

definition is_digit :: "16 word \<Rightarrow> bool" where
  "is_digit u \<longleftrightarrow> 48 \<le> u \<and> u \<le> 57"

lemma decimal_digits:
  "\<forall>d \<in> set [0..<10]. is_digit (digit_char d) \<and> uint (digit_char d) = 48 + int d"
  by code_simp

lemma is_digit_char: "d < 10 \<Longrightarrow> is_digit (digit_char d)"
  using decimal_digits by simp

lemma uint_decimal_digit: "d < 10 \<Longrightarrow> uint (digit_char d) = 48 + int d"
  using decimal_digits by simp

lemma show_base_digits: "x \<in> set (show_base 10 n) \<Longrightarrow> is_digit x"
proof (induction n rule: less_induct)
  case (less n)
  then show ?case
    by (cases "n < 10") (auto simp: show_base.simps [of 10 n] is_digit_char intro: less.IH [of "n div 10"])
qed

lemma show_base_nonempty [simp]: "show_base b n \<noteq> []"
  by (subst show_base.simps) simp

text \<open>Printed numbers can be read back, so that printing is injective.\<close>

definition digit_val :: "16 word \<Rightarrow> nat" where
  "digit_val u = (if uint u < 58 then nat (uint u - 48) else nat (uint u - 87))"

definition base_val :: "nat \<Rightarrow> js_string \<Rightarrow> nat" where
  "base_val b s = foldl (\<lambda>acc u. acc * b + digit_val u) 0 s"

lemma uint_digit_char:
  assumes "d < 36"
  shows "uint (digit_char d) = (if d < 10 then 48 + int d else 87 + int d)"
proof -
  have "uint (of_nat n :: 16 word) = int n" if "n < 65536" for n
    using that by (simp add: uint_nat unat_of_nat)
  from this [of "48 + d"] this [of "87 + d"] assms show ?thesis by (simp add: digit_char_def)
qed

lemma digit_val_char [simp]: "d < 36 \<Longrightarrow> digit_val (digit_char d) = d"
  by (simp add: digit_val_def uint_digit_char)

lemma base_val_append: "base_val b (xs @ [u]) = base_val b xs * b + digit_val u"
  by (simp add: base_val_def)

lemma base_val_show_base: "2 \<le> b \<Longrightarrow> b \<le> 36 \<Longrightarrow> base_val b (show_base b n) = n"
proof (induction b n rule: show_base.induct)
  case (1 b n)
  show ?case
  proof (cases "n < b")
    case True
    then show ?thesis using 1 by (subst show_base.simps) (simp add: base_val_def)
  next
    case False
    have "n mod b < 36" using 1(2,3) by (intro less_le_trans [OF mod_less_divisor]) simp_all
    then show ?thesis using 1 False by (subst show_base.simps) (simp add: base_val_append)
  qed
qed

lemma show_base_inj: "2 \<le> b \<Longrightarrow> b \<le> 36 \<Longrightarrow> show_base b m = show_base b n \<Longrightarrow> m = n"
  by (metis base_val_show_base)

end
