(* ===== verification/Errors.thy ===== *)
theory Errors
  imports Prelude
begin

text \<open>
  The error table of the MQTT client and the message formatter of \<open>mqttws31.js\<close>.
  Error texts are kept as they are in the source, since they end up in exceptions and in
  the objects handed to the application's failure callbacks.
\<close>

datatype ERROR =
    OK | CONNECT_TIMEOUT | SUBSCRIBE_TIMEOUT | UNSUBSCRIBE_TIMEOUT | PING_TIMEOUT
  | INTERNAL_ERROR | CONNACK_RETURNCODE | SOCKET_ERROR | SOCKET_CLOSE | MALFORMED_UTF
  | UNSUPPORTED | INVALID_STATE | INVALID_TYPE | INVALID_ARGUMENT | UNSUPPORTED_OPERATION
  | INVALID_STORED_DATA | INVALID_MQTT_MESSAGE_TYPE | MALFORMED_UNICODE

fun error_code :: "ERROR \<Rightarrow> nat" where
  "error_code OK = 0"
| "error_code CONNECT_TIMEOUT = 1"
| "error_code SUBSCRIBE_TIMEOUT = 2"
| "error_code UNSUBSCRIBE_TIMEOUT = 3"
| "error_code PING_TIMEOUT = 4"
| "error_code INTERNAL_ERROR = 5"
| "error_code CONNACK_RETURNCODE = 6"
| "error_code SOCKET_ERROR = 7"
| "error_code SOCKET_CLOSE = 8"
| "error_code MALFORMED_UTF = 9"
| "error_code UNSUPPORTED = 10"
| "error_code INVALID_STATE = 11"
| "error_code INVALID_TYPE = 12"
| "error_code INVALID_ARGUMENT = 13"
| "error_code UNSUPPORTED_OPERATION = 14"
| "error_code INVALID_STORED_DATA = 15"
| "error_code INVALID_MQTT_MESSAGE_TYPE = 16"
| "error_code MALFORMED_UNICODE = 17"

fun error_text :: "ERROR \<Rightarrow> string" where
  "error_text OK = ''AMQJSC0000I OK.''"
| "error_text CONNECT_TIMEOUT = ''AMQJSC0001E Connect timed out.''"
| "error_text SUBSCRIBE_TIMEOUT = ''AMQJS0002E Subscribe timed out.''"
| "error_text UNSUBSCRIBE_TIMEOUT = ''AMQJS0003E Unsubscribe timed out.''"
| "error_text PING_TIMEOUT = ''AMQJS0004E Ping timed out.''"
| "error_text INTERNAL_ERROR =
     ''AMQJS0005E Internal error. Error Message: {0}, Stack trace: {1}''"
| "error_text CONNACK_RETURNCODE = ''AMQJS0006E Bad Connack return code:{0} {1}.''"
| "error_text SOCKET_ERROR = ''AMQJS0007E Socket error:{0}.''"
| "error_text SOCKET_CLOSE = ''AMQJS0008I Socket closed.''"
| "error_text MALFORMED_UTF = ''AMQJS0009E Malformed UTF data:{0} {1} {2}.''"
| "error_text UNSUPPORTED = ''AMQJS0010E {0} is not supported by this browser.''"
| "error_text INVALID_STATE = ''AMQJS0011E Invalid state {0}.''"
| "error_text INVALID_TYPE = ''AMQJS0012E Invalid type {0} for {1}.''"
| "error_text INVALID_ARGUMENT = ''AMQJS0013E Invalid argument {0} for {1}.''"
| "error_text UNSUPPORTED_OPERATION = ''AMQJS0014E Unsupported operation.''"
| "error_text INVALID_STORED_DATA =
     ''AMQJS0015E Invalid data in local storage key={0} value={1}.''"
| "error_text INVALID_MQTT_MESSAGE_TYPE = ''AMQJS0016E Invalid MQTT message type {0}.''"
| "error_text MALFORMED_UNICODE = ''AMQJS0017E Malformed Unicode string:{0} {1}.''"

text \<open>\<open>CONNACK_RC\<close>: an index outside the table is \<open>undefined\<close>, printed as such by \<open>format\<close>.\<close>

definition CONNACK_RC :: "nat \<Rightarrow> string" where
  "CONNACK_RC n =
     (if n = 0 then ''Connection Accepted''
      else if n = 1 then ''Connection Refused: unacceptable protocol version''
      else if n = 2 then ''Connection Refused: identifier rejected''
      else if n = 3 then ''Connection Refused: server unavailable''
      else if n = 4 then ''Connection Refused: bad user name or password''
      else if n = 5 then ''Connection Refused: not authorized''
      else ''undefined'')"

text \<open>
  \<open>format\<close> replaces, for each substitution in turn, the first occurrence of its field; a
  field at index 0 is left alone because the source tests \<open>start > 0\<close>.
\<close>

definition field :: "nat \<Rightarrow> js_string" where
  "field i = js ''{'' @ show_base 10 i @ js ''}''"

definition substitute :: "js_string \<Rightarrow> nat \<Rightarrow> js_string \<Rightarrow> js_string" where
  "substitute text i s =
     (case indexOf text (field i) of
        Some start \<Rightarrow> (if start > 0
                        then take start text @ s @ drop (start + length (field i)) text
                        else text)
      | None \<Rightarrow> text)"

fun format_from :: "nat \<Rightarrow> js_string \<Rightarrow> js_string list \<Rightarrow> js_string" where
  "format_from i text [] = text"
| "format_from i text (s # ss) = format_from (Suc i) (substitute text i s) ss"

definition format :: "ERROR \<Rightarrow> js_string list \<Rightarrow> js_string" where
  "format e ss = format_from 0 (js (error_text e)) ss"

lemma format_none [simp]: "format e [] = js (error_text e)"
  by (simp add: format_def)

text \<open>The callbacks receive numeric codes only; distinct errors have distinct codes.\<close>

lemma error_code_inj: "error_code a = error_code b \<Longrightarrow> a = b"
  by (cases a; cases b) simp_all

lemma error_code_bound: "error_code e \<le> 17"
  by (cases e) simp_all

end
