(* ===== verification/Utf8.thy ===== *)
theory Utf8
  imports Errors
begin

text \<open>
  The UTF-8 codec of the client: \<open>UTF8Length\<close>, \<open>stringToUTF8\<close> and \<open>parseUTF8\<close> of
  \<open>mqttws31.js\<close>. The encoder writes into a typed array at an offset, the decoder reads from
  one; both are refined to a functional code-point encoder \<open>utf8_of\<close>, and decoding
  inverts encoding on every string in which a high surrogate is followed by a low one.
\<close>

subsection \<open>The source's functions\<close>

definition is_high :: "int \<Rightarrow> bool" where
  "is_high c \<longleftrightarrow> 0xD800 \<le> c \<and> c \<le> 0xDBFF"

function UTF8Length :: "js_string \<Rightarrow> nat" where
  "UTF8Length [] = 0"
| "UTF8Length (u # us) =
     (let charCode = uint u in
      if charCode > 0x7FF
      then if is_high charCode then 4 + UTF8Length (tl us) else 3 + UTF8Length us
      else if charCode > 0x7F then 2 + UTF8Length us
      else 1 + UTF8Length us)"
  by pat_completeness auto
termination
  by (relation "measure length") auto

text \<open>The four-way store of one code point.\<close>

definition write_code :: "int \<Rightarrow> bytes \<Rightarrow> nat \<Rightarrow> bytes \<times> nat" where
  "write_code c out pos =
     (if c \<le> 0x7F then (put_byte out pos c, pos + 1)
      else if c \<le> 0x7FF then
        (put_byte (put_byte out pos (js_shr c 6 AND 0x1F OR 0xC0))
           (pos + 1) (c AND 0x3F OR 0x80), pos + 2)
      else if c \<le> 0xFFFF then
        (put_byte (put_byte (put_byte out pos (js_shr c 12 AND 0x0F OR 0xE0))
           (pos + 1) (js_shr c 6 AND 0x3F OR 0x80))
           (pos + 2) (c AND 0x3F OR 0x80), pos + 3)
      else
        (put_byte (put_byte (put_byte (put_byte out pos (js_shr c 18 AND 0x07 OR 0xF0))
           (pos + 1) (js_shr c 12 AND 0x3F OR 0x80))
           (pos + 2) (js_shr c 6 AND 0x3F OR 0x80))
           (pos + 3) (c AND 0x3F OR 0x80), pos + 4))"

definition combine :: "int \<Rightarrow> int \<Rightarrow> int" where
  "combine charCode lowCharCode =
     push_bit 10 (charCode - 0xD800) + (lowCharCode - 0xDC00) + 0x10000"

fun stringToUTF8 :: "js_string \<Rightarrow> bytes \<Rightarrow> nat \<Rightarrow> bytes res" where
  "stringToUTF8 [] out pos = Inr out"
| "stringToUTF8 (u # us) out pos =
     (if is_high (uint u)
      then (case us of
              [] \<Rightarrow> Inl (Error (format MALFORMED_UNICODE [show_int 10 (uint u), js ''NaN'']))
            | l # us' \<Rightarrow>
                (let (out', pos') = write_code (combine (uint u) (uint l)) out pos
                 in stringToUTF8 us' out' pos'))
      else (let (out', pos') = write_code (uint u) out pos in stringToUTF8 us out' pos'))"

text \<open>One iteration of the decoder's loop; reading past the array yields \<open>NaN\<close>.\<close>

definition malformed :: "jsnum \<Rightarrow> js_string list \<Rightarrow> exn" where
  "malformed byte1 rest =
     (if byte1 = NaN then TypeError
      else Error (format MALFORMED_UTF (show_num 16 byte1 # rest)))"

definition parse_char :: "bytes \<Rightarrow> nat \<Rightarrow> (jsnum \<times> nat) res" where
  "parse_char input pos =
     (let byte1 = rd input pos in
      if nless byte1 (Num 128) then Inr (byte1, pos + 1)
      else let byte2 = nadd (rd input (pos + 1)) (Num (- 128)) in
      if nless byte2 (Num 0) then Inl (malformed byte1 [show_num 16 byte2, js ''''])
      else if nless byte1 (Num 0xE0)
      then Inr (nadd (nmul 64 (nadd byte1 (Num (- 0xC0)))) byte2, pos + 2)
      else let byte3 = nadd (rd input (pos + 2)) (Num (- 128)) in
      if nless byte3 (Num 0) then Inl (malformed byte1 [show_num 16 byte2, show_num 16 byte3])
      else if nless byte1 (Num 0xF0)
      then Inr (nadd (nadd (nmul 4096 (nadd byte1 (Num (- 0xE0)))) (nmul 64 byte2)) byte3, pos + 3)
      else let byte4 = nadd (rd input (pos + 3)) (Num (- 128)) in
      if nless byte4 (Num 0)
      then Inl (malformed byte1 [show_num 16 byte2, show_num 16 byte3, show_num 16 byte4])
      else if nless byte1 (Num 0xF8)
      then Inr (nadd (nadd (nadd (nmul 262144 (nadd byte1 (Num (- 0xF0)))) (nmul 4096 byte2))
                  (nmul 64 byte3)) byte4, pos + 4)
      else Inl (malformed byte1 [show_num 16 byte2, show_num 16 byte3, show_num 16 byte4]))"

fun emit :: "jsnum \<Rightarrow> js_string" where
  "emit NaN = [fromCharCode NaN]"
| "emit (Num utf16) =
     (if utf16 > 0xFFFF
      then [fromCharCode (Num (0xD800 + js_shr (utf16 - 0x10000) 10)),
            fromCharCode (Num (0xDC00 + (to_int32 (utf16 - 0x10000) AND 0x3FF)))]
      else [fromCharCode (Num utf16)])"

lemma parse_char_progress: "parse_char input pos = Inr (u, pos') \<Longrightarrow> pos < pos'"
  by (auto simp: parse_char_def Let_def split: if_splits)

function parse_from :: "bytes \<Rightarrow> nat \<Rightarrow> nat \<Rightarrow> js_string res" where
  "parse_from input pos e =
     (if pos < e
      then bindr (parse_char input pos) (\<lambda>(u, pos').
             bindr (parse_from input pos' e) (\<lambda>rest. Inr (emit u @ rest)))
      else Inr [])"
  by pat_completeness auto
termination
  by (relation "measure (\<lambda>(input, pos, e). e - pos)") (auto dest: parse_char_progress)

declare parse_from.simps [simp del]

fun parseUTF8 :: "bytes \<Rightarrow> nat \<Rightarrow> jsnum \<Rightarrow> js_string res" where
  "parseUTF8 input offset NaN = Inr []"
| "parseUTF8 input offset (Num len) = parse_from input offset (offset + nat len)"

subsection \<open>Specification: code points and their encodings\<close>

definition utf8_of :: "int \<Rightarrow> bytes" where
  "utf8_of c = map to_byte
     (if c \<le> 0x7F then [c]
      else if c \<le> 0x7FF then [0xC0 + c div 64, 0x80 + c mod 64]
      else if c \<le> 0xFFFF then [0xE0 + c div 4096, 0x80 + c div 64 mod 64, 0x80 + c mod 64]
      else [0xF0 + c div 262144, 0x80 + c div 4096 mod 64, 0x80 + c div 64 mod 64, 0x80 + c mod 64])"

fun code_points :: "js_string \<Rightarrow> int list" where
  "code_points [] = []"
| "code_points (u # us) =
     (if is_high (uint u)
      then (case us of [] \<Rightarrow> [] | l # us' \<Rightarrow> combine (uint u) (uint l) # code_points us')
      else uint u # code_points us)"

definition utf8 :: "js_string \<Rightarrow> bytes" where
  "utf8 s = concat (map utf8_of (code_points s))"

definition is_low :: "int \<Rightarrow> bool" where
  "is_low c \<longleftrightarrow> 0xDC00 \<le> c \<and> c \<le> 0xDFFF"

fun wf_utf16 :: "js_string \<Rightarrow> bool" where
  "wf_utf16 [] = True"
| "wf_utf16 (u # us) =
     (if is_high (uint u) then (case us of [] \<Rightarrow> False | l # us' \<Rightarrow> is_low (uint l) \<and> wf_utf16 us')
      else wf_utf16 us)"

text \<open>A string whose last code unit is a high surrogate that begins a pair.\<close>

fun dangling :: "js_string \<Rightarrow> bool" where
  "dangling [] = False"
| "dangling (u # us) =
     (if is_high (uint u) then (case us of [] \<Rightarrow> True | l # us' \<Rightarrow> dangling us') else dangling us)"

subsection \<open>One code point\<close>

lemma or_prefix:
  "(x::int) AND 31 OR 192 = 192 + x mod 32" "(x::int) AND 15 OR 224 = 224 + x mod 16"
  "(x::int) AND 7 OR 240 = 240 + x mod 8" "(x::int) AND 63 OR 128 = 128 + x mod 64"
  using or_masked [of 31 192 x] or_masked [of 15 224 x] or_masked [of 7 240 x] or_masked [of 63 128 x]
  by (simp_all add: and_mask_mod)

lemma length_utf8_of:
  "length (utf8_of c) = (if c \<le> 0x7F then 1 else if c \<le> 0x7FF then 2 else if c \<le> 0xFFFF then 3 else 4)"
  by (simp add: utf8_of_def)

lemma utf8_width_cases:
  obtains "c \<le> 0x7F" | "0x7F < (c::int)" "c \<le> 0x7FF" | "0x7FF < c" "c \<le> 0xFFFF" | "0xFFFF < c"
  by linarith

lemma length_numeral_conv:
  "length xs = Suc 0 \<longleftrightarrow> (\<exists>a. xs = [a])" "length xs = 2 \<longleftrightarrow> (\<exists>a b. xs = [a, b])"
  "length xs = 3 \<longleftrightarrow> (\<exists>a b c. xs = [a, b, c])" "length xs = 4 \<longleftrightarrow> (\<exists>a b c d. xs = [a, b, c, d])"
  by (auto simp: eval_nat_numeral length_Suc_conv)

lemma write_code_append:
  assumes "0 \<le> c" "c < 0x200000" "length mid = length (utf8_of c)"
  shows "write_code c (pre @ mid @ post) (length pre) =
    (pre @ utf8_of c @ post, length pre + length (utf8_of c))"
proof -
  have sh: "js_shr c n = c div 2 ^ n" for n using assms by simp
  show ?thesis
  proof (cases c rule: utf8_width_cases)
    case 1
    with assms obtain a where "mid = [a]" by (auto simp: length_utf8_of length_numeral_conv)
    with 1 show ?thesis by (simp add: write_code_def utf8_of_def)
  next
    case 2
    with assms obtain a b where "mid = [a, b]" by (auto simp: length_utf8_of length_numeral_conv)
    with 2 show ?thesis by (simp add: write_code_def utf8_of_def sh or_prefix eval_nat_numeral)
  next
    case 3
    with assms obtain a b d where "mid = [a, b, d]" by (auto simp: length_utf8_of length_numeral_conv)
    with 3 show ?thesis by (simp add: write_code_def utf8_of_def sh or_prefix eval_nat_numeral)
  next
    case 4
    with assms obtain a b d e where "mid = [a, b, d, e]" by (auto simp: length_utf8_of length_numeral_conv)
    with 4 assms show ?thesis by (simp add: write_code_def utf8_of_def sh or_prefix eval_nat_numeral)
  qed
qed

lemma parse_char_bytes:
  "0 \<le> a \<Longrightarrow> a < 128 \<Longrightarrow>
    parse_char (pre @ to_byte a # post) (length pre) = Inr (Num a, length pre + 1)"
  "0 \<le> a \<Longrightarrow> a < 32 \<Longrightarrow> 0 \<le> b \<Longrightarrow> b < 64 \<Longrightarrow>
    parse_char (pre @ to_byte (192 + a) # to_byte (128 + b) # post) (length pre) =
      Inr (Num (64 * a + b), length pre + 2)"
  "0 \<le> a \<Longrightarrow> a < 16 \<Longrightarrow> 0 \<le> b \<Longrightarrow> b < 64 \<Longrightarrow> 0 \<le> c \<Longrightarrow> c < 64 \<Longrightarrow>
    parse_char (pre @ to_byte (224 + a) # to_byte (128 + b) # to_byte (128 + c) # post) (length pre) =
      Inr (Num (4096 * a + 64 * b + c), length pre + 3)"
  "0 \<le> a \<Longrightarrow> a < 8 \<Longrightarrow> 0 \<le> b \<Longrightarrow> b < 64 \<Longrightarrow> 0 \<le> c \<Longrightarrow> c < 64 \<Longrightarrow> 0 \<le> d \<Longrightarrow> d < 64 \<Longrightarrow>
    parse_char (pre @ to_byte (240 + a) # to_byte (128 + b) # to_byte (128 + c) # to_byte (128 + d) # post)
      (length pre) = Inr (Num (262144 * a + 4096 * b + 64 * c + d), length pre + 4)"
  by (simp_all add: parse_char_def Let_def eval_nat_numeral)

lemma recombine64:
  fixes c :: int
  shows "64 * (c div 64) + c mod 64 = c"
    and "4096 * (c div 4096) + 64 * (c div 64 mod 64) + c mod 64 = c"
    and "262144 * (c div 262144) + 4096 * (c div 4096 mod 64) + 64 * (c div 64 mod 64) + c mod 64 = c"
proof -
  have d: "c div 64 div 64 = c div 4096" "c div 4096 div 64 = c div 262144"
    by (simp_all add: zdiv_zmult2_eq [symmetric])
  have e: "64 * (x div 64) + x mod 64 = x" for x :: int by (rule mult_div_mod_eq)
  show "64 * (c div 64) + c mod 64 = c" by (rule e)
  show "4096 * (c div 4096) + 64 * (c div 64 mod 64) + c mod 64 = c"
    using e [of c] e [of "c div 64"] d by linarith
  show "262144 * (c div 262144) + 4096 * (c div 4096 mod 64) + 64 * (c div 64 mod 64) + c mod 64 = c"
    using e [of c] e [of "c div 64"] e [of "c div 4096"] d by linarith
qed

lemma parse_char_utf8_of:
  assumes "0 \<le> c" "c < 0x200000"
  shows "parse_char (pre @ utf8_of c @ post) (length pre) =
    Inr (Num c, length pre + length (utf8_of c))"
proof (cases c rule: utf8_width_cases)
  case 1
  with assms show ?thesis by (simp add: utf8_of_def parse_char_bytes)
next
  case 2
  then show ?thesis using recombine64(1) [of c] by (simp add: utf8_of_def parse_char_bytes)
next
  case 3
  then have "c div 4096 < 16" "0 \<le> c div 4096" by simp_all
  from parse_char_bytes(3) [OF this(2,1), of "c div 64 mod 64" "c mod 64" pre post] 3
  show ?thesis by (simp add: utf8_of_def recombine64(2))
next
  case 4
  with assms have "c div 262144 < 8" "0 \<le> c div 262144" by simp_all
  from parse_char_bytes(4) [OF this(2,1), of "c div 4096 mod 64" "c div 64 mod 64" "c mod 64" pre post] 4
  show ?thesis by (simp add: utf8_of_def recombine64(3))
qed

lemma uint16_bounds: "0 \<le> uint (u :: 16 word)" "uint (u :: 16 word) < 0x10000"
  using uint_lt2p [of u] by simp_all

lemma combine_bounds:
  assumes "is_high (uint (u :: 16 word))" "is_low (uint (l :: 16 word))"
  shows "0x10000 \<le> combine (uint u) (uint l)" "combine (uint u) (uint l) < 0x110000"
  using assms by (simp_all add: is_high_def is_low_def combine_def push_bit_eq_mult)

lemma combine_in_range:
  assumes "is_high x" "0 \<le> y" "y < 0x10000"
  shows "0 \<le> combine x y" "combine x y < 0x200000"
  using assms by (simp_all add: combine_def push_bit_eq_mult is_high_def)

lemmas combine_range = combine_in_range [OF _ uint16_bounds]

lemma emit_combine:
  assumes "is_high (uint u)" "is_low (uint l)"
  shows "emit (Num (combine (uint u) (uint l))) = [u, l]"
proof -
  let ?v = "combine (uint u) (uint l) - 0x10000"
  have v: "?v = 1024 * (uint u - 0xD800) + (uint l - 0xDC00)"
    by (simp add: combine_def push_bit_eq_mult)
  have b: "0 \<le> uint l - 0xDC00" "uint l - 0xDC00 < 1024" "0 \<le> ?v" "?v < 2 ^ 31"
    using assms combine_bounds [OF assms] by (simp_all add: is_low_def)
  have "?v div 1024 = uint u - 0xD800" "?v mod 1024 = uint l - 0xDC00"
    using b(1,2) unfolding v mod_mult_self4 div_mult_self4 by simp_all
  then show ?thesis
    using b combine_bounds [OF assms] by (simp add: and_mask_mod)
qed

lemma emit_unit: "emit (Num (uint (u :: 16 word))) = [u]"
  using uint16_bounds [of u] by simp

subsection \<open>Whole strings\<close>

lemma utf8_simps:
  "utf8 [] = []"
  "\<not> is_high (uint u) \<Longrightarrow> utf8 (u # us) = utf8_of (uint u) @ utf8 us"
  "is_high (uint u) \<Longrightarrow> utf8 (u # l # us) = utf8_of (combine (uint u) (uint l)) @ utf8 us"
  by (simp_all add: utf8_def)

lemma wf_utf16_induct [consumes 1, case_names Nil Unit Pair]:
  assumes "wf_utf16 s" and "P []"
    and "\<And>u us. \<not> is_high (uint u) \<Longrightarrow> wf_utf16 us \<Longrightarrow> P us \<Longrightarrow> P (u # us)"
    and "\<And>u l us. is_high (uint u) \<Longrightarrow> is_low (uint l) \<Longrightarrow> wf_utf16 us \<Longrightarrow> P us \<Longrightarrow> P (u # l # us)"
  shows "P s"
  using assms(1)
proof (induction s rule: wf_utf16.induct)
  case 1
  show ?case by (rule assms(2))
next
  case (2 u us)
  then show ?case using assms(3,4) by (auto split: if_splits list.splits)
qed

lemma UTF8Length_eq: "wf_utf16 s \<Longrightarrow> UTF8Length s = length (utf8 s)"
proof (induction rule: wf_utf16_induct)
  case (Unit u us)
  then show ?case using uint16_bounds(2) [of u]
    by (auto simp: utf8_simps length_utf8_of Let_def is_high_def)
next
  case (Pair u l us)
  then show ?case using combine_bounds [OF Pair(1,2)]
    by (simp add: utf8_simps length_utf8_of Let_def is_high_def)
qed (simp add: utf8_simps)

lemma stringToUTF8_append:
  assumes "wf_utf16 s" "length mid = length (utf8 s)"
  shows "stringToUTF8 s (pre @ mid @ post) (length pre) = Inr (pre @ utf8 s @ post)"
  using assms
proof (induction arbitrary: pre mid rule: wf_utf16_induct)
  case (Unit u us)
  let ?c = "utf8_of (uint u)"
  obtain m1 m2 where m: "mid = m1 @ m2" "length m1 = length ?c" "length m2 = length (utf8 us)"
    using length_splitE [of mid "length ?c" "length (utf8 us)"] Unit by (auto simp: utf8_simps)
  have w: "write_code (uint u) (pre @ m1 @ m2 @ post) (length pre) =
      (pre @ ?c @ m2 @ post, length pre + length ?c)"
    using write_code_append [of "uint u" m1 pre "m2 @ post"] m uint16_bounds [of u] by simp
  show ?case using Unit.IH [of m2 "pre @ ?c"] Unit.hyps m w by (simp add: utf8_simps)
next
  case (Pair u l us)
  let ?c = "utf8_of (combine (uint u) (uint l))"
  obtain m1 m2 where m: "mid = m1 @ m2" "length m1 = length ?c" "length m2 = length (utf8 us)"
    using length_splitE [of mid "length ?c" "length (utf8 us)"] Pair by (auto simp: utf8_simps)
  have w: "write_code (combine (uint u) (uint l)) (pre @ m1 @ m2 @ post) (length pre) =
      (pre @ ?c @ m2 @ post, length pre + length ?c)"
    using write_code_append [of "combine (uint u) (uint l)" m1 pre "m2 @ post"] m combine_range [OF Pair(1), of l] by simp
  show ?case using Pair.IH [of m2 "pre @ ?c"] Pair.hyps m w by (simp add: utf8_simps)
qed (simp add: utf8_simps)

lemma parse_from_step:
  "pos < e \<Longrightarrow> parse_char input pos = Inr (u, pos') \<Longrightarrow> parse_from input pos' e = Inr rest \<Longrightarrow>
    parse_from input pos e = Inr (emit u @ rest)"
  by (subst parse_from.simps) simp

lemma parse_from_utf8:
  assumes "wf_utf16 s"
  shows "parse_from (pre @ utf8 s @ post) (length pre) (length pre + length (utf8 s)) = Inr s"
  using assms
proof (induction arbitrary: pre rule: wf_utf16_induct)
  case Nil
  show ?case by (simp add: utf8_simps parse_from.simps)
next
  case (Unit u us)
  let ?c = "utf8_of (uint u)"
  have "parse_char (pre @ ?c @ utf8 us @ post) (length pre) = Inr (Num (uint u), length pre + length ?c)"
    using parse_char_utf8_of uint16_bounds [of u] by simp
  from parse_from_step [OF _ this] Unit.IH [of "pre @ ?c"]
  have "parse_from (pre @ ?c @ utf8 us @ post) (length pre) (length pre + (length ?c + length (utf8 us))) =
      Inr (emit (Num (uint u)) @ us)"
    by (simp add: length_utf8_of add.assoc del: emit.simps)
  with Unit.hyps show ?case by (simp add: utf8_simps emit_unit del: emit.simps)
next
  case (Pair u l us)
  let ?c = "utf8_of (combine (uint u) (uint l))"
  have "parse_char (pre @ ?c @ utf8 us @ post) (length pre) =
      Inr (Num (combine (uint u) (uint l)), length pre + length ?c)"
    using parse_char_utf8_of combine_range [OF Pair(1), of l] by simp
  from parse_from_step [OF _ this] Pair.IH [of "pre @ ?c"]
  have "parse_from (pre @ ?c @ utf8 us @ post) (length pre) (length pre + (length ?c + length (utf8 us))) =
      Inr (emit (Num (combine (uint u) (uint l))) @ us)"
    by (simp add: length_utf8_of add.assoc del: emit.simps)
  with Pair.hyps show ?case by (simp add: utf8_simps emit_combine del: emit.simps)
qed

lemma wf_not_dangling: "wf_utf16 s \<Longrightarrow> \<not> dangling s"
  by (induction rule: wf_utf16_induct) auto

lemma length_write_code: "write_code c out pos = (out', pos') \<Longrightarrow> length out' = length out"
  by (auto simp: write_code_def split: if_splits)

lemma stringToUTF8_length: "stringToUTF8 s out pos = Inr out' \<Longrightarrow> length out' = length out"
proof (induction s arbitrary: out pos rule: dangling.induct)
  case (2 u us)
  show ?case
  proof (cases "is_high (uint u)")
    case True
    with 2(3) obtain l us' where us: "us = l # us'" by (cases us) auto
    obtain o1 p1 where w: "write_code (combine (uint u) (uint l)) out pos = (o1, p1)" by force
    with True us 2(3) have "stringToUTF8 us' o1 p1 = Inr out'" by simp
    with 2(1) [OF True us] have "length out' = length o1" by blast
    with length_write_code [OF w] show ?thesis by simp
  next
    case False
    obtain o1 p1 where w: "write_code (uint u) out pos = (o1, p1)" by force
    with False 2(3) have "stringToUTF8 us o1 p1 = Inr out'" by simp
    with 2(2) [OF False] have "length out' = length o1" by blast
    with length_write_code [OF w] show ?thesis by simp
  qed
qed simp

text \<open>
  C29. Encoding a string into a buffer of \<open>UTF8Length\<close> bytes and decoding that buffer gives the
  string back, for every string in which high surrogates are followed by low ones
  (unpaired low surrogates are allowed: they travel as three-byte sequences).
\<close>

theorem utf8_roundtrip:
  assumes "wf_utf16 s"
  shows "bindr (stringToUTF8 s (replicate (UTF8Length s) 0) 0)
           (\<lambda>b. parseUTF8 b 0 (Num (int (length b)))) = Inr s"
  using stringToUTF8_append [OF assms, of "replicate (UTF8Length s) 0" "[]" "[]"]
    parse_from_utf8 [OF assms, of "[]" "[]"] UTF8Length_eq [OF assms]
  by simp

theorem utf8_roundtrip_witness:
  "wf_utf16 [0x48, 0xE9, 0x20AC, 0xD83D, 0xDE00] \<and>
   bindr (stringToUTF8 [0x48, 0xE9, 0x20AC, 0xD83D, 0xDE00]
       (replicate (UTF8Length [0x48, 0xE9, 0x20AC, 0xD83D, 0xDE00]) 0) 0)
     (\<lambda>b. parseUTF8 b 0 (Num (int (length b)))) = Inr [0x48, 0xE9, 0x20AC, 0xD83D, 0xDE00]"
proof -
  have "wf_utf16 [0x48, 0xE9, 0x20AC, 0xD83D, 0xDE00]"
    by (simp add: is_high_def is_low_def)
  then show ?thesis using utf8_roundtrip by blast
qed

text \<open>
  C37. Whatever the buffer and the offset, the encoder throws exactly on the strings that end in a high
  surrogate which is not itself taken as the second half of a pair, reading from the left. A high
  surrogate in any other place is not checked: it is combined with whatever follows it
  (\<open>lone_surrogate_combined\<close>).
\<close>

theorem stringToUTF8_fails_iff:
  "(\<exists>e. stringToUTF8 s out pos = Inl e) \<longleftrightarrow> dangling s"
proof (induction s arbitrary: out pos rule: dangling.induct)
  case (2 u us)
  then show ?case
    by (cases us; cases "write_code (combine (uint u) (uint (hd us))) out pos";
        cases "write_code (uint u) out pos") auto
qed simp

text \<open>A high surrogate before a letter passes for the character U+2441.\<close>

lemma lone_surrogate_combined:
  "\<not> wf_utf16 [0xD800, 0x41]" "\<not> dangling [0xD800, 0x41]"
  "stringToUTF8 [0xD800, 0x41] (replicate 4 0) 0 = stringToUTF8 [0x2441] (replicate 4 0) 0"
  by code_simp+

end
