(* ===== verification/Wire.thy ===== *)
theory Wire
  imports Utf8
begin

text \<open>
  Messages and the MQTT wire format of \<open>mqttws31.js\<close>: the \<open>Message\<close> class, \<open>WireMessage\<close>
  with its \<open>encode\<close> method, \<open>decodeMessage\<close> and the integer helpers. Positions, buffer
  allocation and the order of the stores are those of the source; the lemmas of
  \<open>Wire_Correct\<close> refine them to plain concatenation of byte lists.
\<close>

named_theorems writes_intros \<open>what a sequence of buffer stores writes\<close>

subsection \<open>Message types\<close>

datatype MESSAGE_TYPE =
    CONNECT | CONNACK | PUBLISH | PUBACK | PUBREC | PUBREL | PUBCOMP | SUBSCRIBE | SUBACK
  | UNSUBSCRIBE | UNSUBACK | PINGREQ | PINGRESP | DISCONNECT | UNKNOWN_TYPE int

fun type_code :: "MESSAGE_TYPE \<Rightarrow> int" where
  "type_code CONNECT = 1"
| "type_code CONNACK = 2"
| "type_code PUBLISH = 3"
| "type_code PUBACK = 4"
| "type_code PUBREC = 5"
| "type_code PUBREL = 6"
| "type_code PUBCOMP = 7"
| "type_code SUBSCRIBE = 8"
| "type_code SUBACK = 9"
| "type_code UNSUBSCRIBE = 10"
| "type_code UNSUBACK = 11"
| "type_code PINGREQ = 12"
| "type_code PINGRESP = 13"
| "type_code DISCONNECT = 14"
| "type_code (UNKNOWN_TYPE n) = n"

definition type_of_code :: "int \<Rightarrow> MESSAGE_TYPE" where
  "type_of_code n =
     (case List.find (\<lambda>t. type_code t = n)
        [CONNECT, CONNACK, PUBLISH, PUBACK, PUBREC, PUBREL, PUBCOMP, SUBSCRIBE, SUBACK,
         UNSUBSCRIBE, UNSUBACK, PINGREQ, PINGRESP, DISCONNECT] of
        Some t \<Rightarrow> t | None \<Rightarrow> UNKNOWN_TYPE n)"

subsection \<open>The Message class\<close>

text \<open>
  A payload is a string, a \<open>Uint8Array\<close> or a plain \<open>ArrayBuffer\<close>. The last one has no
  \<open>length\<close> property, which the source reads in two places.
\<close>

datatype array = Uint8Array bytes | ArrayBuffer bytes

datatype payload = PString js_string | PArray array

record message =
  payload :: payload
  destinationName :: "js_string option"
  qos :: int
  retained :: bool
  duplicate :: bool

definition Message :: "payload \<Rightarrow> message" where
  "Message newPayload =
     \<lparr>payload = newPayload, destinationName = None, qos = 0, retained = False, duplicate = False\<rparr>"

fun array_bytes :: "array \<Rightarrow> bytes" where
  "array_bytes (Uint8Array b) = b"
| "array_bytes (ArrayBuffer b) = b"

fun array_length :: "array \<Rightarrow> jsnum" where
  "array_length (Uint8Array b) = Num (int (length b))"
| "array_length (ArrayBuffer b) = NaN"

definition getPayloadString :: "message \<Rightarrow> js_string res" where
  "getPayloadString m =
     (case payload m of
        PString s \<Rightarrow> Inr s
      | PArray a \<Rightarrow> parseUTF8 (array_bytes a) 0 (array_length a))"

definition getPayloadBytes :: "message \<Rightarrow> array res" where
  "getPayloadBytes m =
     (case payload m of
        PString s \<Rightarrow>
          bindr (stringToUTF8 s (replicate (UTF8Length s) 0) 0) (\<lambda>b. Inr (Uint8Array b))
      | PArray a \<Rightarrow> Inr a)"

definition setDestinationName :: "js_string \<Rightarrow> message \<Rightarrow> message" where
  "setDestinationName newDestinationName m = m\<lparr>destinationName := Some newDestinationName\<rparr>"

definition setQos :: "int \<Rightarrow> message \<Rightarrow> message res" where
  "setQos newQos m =
     (if newQos = 0 \<or> newQos = 1 \<or> newQos = 2 then Inr (m\<lparr>qos := newQos\<rparr>)
      else Inl (Error (js ''Invalid argument:'' @ show_int 10 newQos)))"

definition setRetained :: "bool \<Rightarrow> message \<Rightarrow> message" where
  "setRetained newRetained m = m\<lparr>retained := newRetained\<rparr>"

definition setDuplicate :: "bool \<Rightarrow> message \<Rightarrow> message" where
  "setDuplicate newDuplicate m = m\<lparr>duplicate := newDuplicate\<rparr>"

subsection \<open>WireMessage\<close>

text \<open>
  The attributes that \<open>connect\<close> copies into the CONNECT packet, and the wire message with
  its optional properties; \<open>None\<close> is \<open>undefined\<close>. Callbacks and timers are identified by
  numbers.
\<close>

record connect_fields =
  mqttVersion :: int
  clientId :: js_string
  willMessage :: "message option"
  userName :: "js_string option"
  password :: "js_string option"
  cleanSession :: bool
  keepAliveInterval :: int

datatype return_code = ReturnCode jsnum | ReturnCodes bytes

record wire_message =
  mtype :: MESSAGE_TYPE
  messageIdentifier :: "jsnum option"
  payloadMessage :: "message option"
  topics :: "js_string list"
  requestedQos :: "int list"
  connect :: "connect_fields option"
  returnCode :: "return_code option"
  sessionPresent :: bool
  pubRecReceived :: bool
  sequence :: "nat option"
  onSuccess :: "nat option"
  onFailure :: "nat option"
  callback :: "nat option"
  timeOut :: "nat option"

definition WireMessage :: "MESSAGE_TYPE \<Rightarrow> wire_message" where
  "WireMessage t =
     \<lparr>mtype = t, messageIdentifier = None, payloadMessage = None, topics = [], requestedQos = [],
      connect = None, returnCode = None, sessionPresent = False, pubRecReceived = False,
      sequence = None, onSuccess = None, onFailure = None, callback = None, timeOut = None\<rparr>"

subsection \<open>Integers on the wire\<close>

fun num_int :: "jsnum \<Rightarrow> int" where
  "num_int NaN = 0"
| "num_int (Num n) = n"

definition js_rem :: "int \<Rightarrow> int \<Rightarrow> int" where
  "js_rem a b = (if a < 0 then - ((- a) mod b) else a mod b)"

definition writeUint16 :: "int \<Rightarrow> bytes \<Rightarrow> nat \<Rightarrow> bytes \<times> nat" where
  "writeUint16 input buffer offset =
     (put_byte (put_byte buffer offset (js_shr input 8)) (offset + 1) (js_rem input 256), offset + 2)"

definition readUint16 :: "bytes \<Rightarrow> jsnum \<Rightarrow> jsnum" where
  "readUint16 buffer offset =
     nadd (nmul 256 (get_byte buffer offset)) (get_byte buffer (nadd offset (Num 1)))"

definition writeString :: "js_string \<Rightarrow> nat \<Rightarrow> bytes \<Rightarrow> nat \<Rightarrow> (bytes \<times> nat) res" where
  "writeString input utf8Length buffer offset =
     (let (buffer', offset') = writeUint16 (int utf8Length) buffer offset in
      bindr (stringToUTF8 input buffer' offset') (\<lambda>b. Inr (b, offset' + utf8Length)))"

text \<open>\<open>encodeMBI\<close>: at most four digits, the first argument counts the ones left.\<close>

fun mbi_digits :: "nat \<Rightarrow> int \<Rightarrow> int list" where
  "mbi_digits 0 number = []"
| "mbi_digits (Suc left) number =
     (let digit = number mod 128; number' = js_shr number 7 in
      (if number' > 0 then digit OR 0x80 else digit) #
      (if number' > 0 then mbi_digits left number' else []))"

definition encodeMBI :: "int \<Rightarrow> bytes" where
  "encodeMBI number = map to_byte (mbi_digits 4 number)"

subsection \<open>encode\<close>

definition MqttProtoIdentifierv3 :: bytes where
  "MqttProtoIdentifierv3 = [0x00,0x06,0x4d,0x51,0x49,0x73,0x64,0x70,0x03]"

definition MqttProtoIdentifierv4 :: bytes where
  "MqttProtoIdentifierv4 = [0x00,0x04,0x4d,0x51,0x54,0x54,0x04]"

definition protoIdentifier :: "connect_fields \<Rightarrow> bytes" where
  "protoIdentifier c =
     (if mqttVersion c = 3 then MqttProtoIdentifierv3
      else if mqttVersion c = 4 then MqttProtoIdentifierv4 else [])"

text \<open>A property read on \<open>undefined\<close> is a \<open>TypeError\<close>.\<close>

definition deref :: "'a option \<Rightarrow> 'a res" where
  "deref x = (case x of None \<Rightarrow> Inl TypeError | Some v \<Rightarrow> Inr v)"

text \<open>
  The payload of a will message. When it is not a \<open>Uint8Array\<close> the source builds one from
  \<open>payloadBytes\<close>, a variable of the PUBLISH branch that is still \<open>undefined\<close> here, so the
  array is empty.
\<close>

definition willMessagePayloadBytes :: "message \<Rightarrow> bytes res" where
  "willMessagePayloadBytes m =
     bindr (getPayloadBytes m) (\<lambda>a. case a of Uint8Array b \<Rightarrow> Inr b | ArrayBuffer _ \<Rightarrow> Inr [])"

definition opt_string_length :: "js_string option \<Rightarrow> nat" where
  "opt_string_length x = (case x of None \<Rightarrow> 0 | Some s \<Rightarrow> UTF8Length s + 2)"

definition will_length :: "message option \<Rightarrow> nat res" where
  "will_length x =
     (case x of
        None \<Rightarrow> Inr 0
      | Some m \<Rightarrow> bindr (deref (destinationName m)) (\<lambda>d.
                  bindr (willMessagePayloadBytes m) (\<lambda>b.
                  Inr (UTF8Length d + 2 + (length b + 2)))))"

definition body_length :: "wire_message \<Rightarrow> nat res" where
  "body_length w =
     (case mtype w of
        CONNECT \<Rightarrow>
          bindr (deref (connect w)) (\<lambda>c.
          bindr (will_length (willMessage c)) (\<lambda>wl.
          Inr ((if mqttVersion c = 3 \<or> mqttVersion c = 4 then length (protoIdentifier c) + 3 else 0)
               + (UTF8Length (clientId c) + 2) + wl
               + opt_string_length (userName c) + opt_string_length (password c))))
      | SUBSCRIBE \<Rightarrow>
          Inr (sum_list (map (\<lambda>t. UTF8Length t + 2) (topics w)) + length (requestedQos w))
      | UNSUBSCRIBE \<Rightarrow> Inr (sum_list (map (\<lambda>t. UTF8Length t + 2) (topics w)))
      | PUBLISH \<Rightarrow>
          bindr (deref (payloadMessage w)) (\<lambda>m.
          bindr (deref (destinationName m)) (\<lambda>d.
          bindr (getPayloadBytes m) (\<lambda>p. Inr (UTF8Length d + 2 + length (array_bytes p)))))
      | _ \<Rightarrow> Inr 0)"

definition remLength :: "wire_message \<Rightarrow> nat res" where
  "remLength w =
     bindr (body_length w) (\<lambda>n. Inr ((if messageIdentifier w \<noteq> None then 2 else 0) + n))"

definition first_byte :: "wire_message \<Rightarrow> int" where
  "first_byte w =
     (let first = push_bit 4 (type_code (mtype w) AND 0x0f) in
      case mtype w of
        SUBSCRIBE \<Rightarrow> first OR 0x02
      | UNSUBSCRIBE \<Rightarrow> first OR 0x02
      | PUBREL \<Rightarrow> first OR 0x02
      | PUBLISH \<Rightarrow>
          (case payloadMessage w of
             None \<Rightarrow> first
           | Some m \<Rightarrow>
               (let first = (if duplicate m then first OR 0x08 else first);
                    first = first OR push_bit 1 (qos m)
                in if retained m then first OR 0x01 else first))
      | _ \<Rightarrow> first)"

text \<open>The stores: each step takes the buffer and the position and returns them updated.\<close>

type_synonym cursor = "bytes \<times> nat"
type_synonym writer = "cursor \<Rightarrow> cursor res"

definition seqw :: "writer \<Rightarrow> writer \<Rightarrow> writer" where
  "seqw f g s = bindr (f s) g"

definition w_nothing :: writer where
  "w_nothing s = Inr s"

definition w_byte :: "int \<Rightarrow> writer" where
  "w_byte v s = Inr (put_byte (fst s) (snd s) v, snd s + 1)"

definition w_uint16 :: "int \<Rightarrow> writer" where
  "w_uint16 v s = Inr (writeUint16 v (fst s) (snd s))"

definition w_string :: "js_string \<Rightarrow> writer" where
  "w_string x s = writeString x (UTF8Length x) (fst s) (snd s)"

definition w_set :: "bytes \<Rightarrow> writer" where
  "w_set src s = bindr (set_bytes (fst s) (snd s) src) (\<lambda>b. Inr (b, snd s + length src))"

definition w_opt_string :: "js_string option \<Rightarrow> writer" where
  "w_opt_string x = (case x of None \<Rightarrow> w_nothing | Some s \<Rightarrow> w_string s)"

fun w_seq :: "writer list \<Rightarrow> writer" where
  "w_seq [] = w_nothing"
| "w_seq (f # fs) = seqw f (w_seq fs)"

definition connectFlags :: "connect_fields \<Rightarrow> int" where
  "connectFlags c =
     (let f = (if cleanSession c then 0x02 else 0);
          f = (case willMessage c of
                 None \<Rightarrow> f
               | Some m \<Rightarrow> (let f = f OR 0x04; f = f OR push_bit 3 (qos m)
                            in if retained m then f OR 0x20 else f));
          f = (if userName c \<noteq> None then f OR 0x80 else f)
      in if password c \<noteq> None then f OR 0x40 else f)"

definition write_variable_header :: "wire_message \<Rightarrow> writer" where
  "write_variable_header w =
     (case mtype w of
        PUBLISH \<Rightarrow> (\<lambda>s. bindr (deref (payloadMessage w)) (\<lambda>m.
                         bindr (deref (destinationName m)) (\<lambda>d. w_string d s)))
      | CONNECT \<Rightarrow> (\<lambda>s. bindr (deref (connect w)) (\<lambda>c.
                         w_seq [w_set (protoIdentifier c), w_byte (connectFlags c),
                                w_uint16 (keepAliveInterval c)] s))
      | _ \<Rightarrow> w_nothing)"

definition write_identifier :: "wire_message \<Rightarrow> writer" where
  "write_identifier w =
     (case messageIdentifier w of None \<Rightarrow> w_nothing | Some n \<Rightarrow> w_uint16 (num_int n))"

definition write_will :: "message option \<Rightarrow> writer" where
  "write_will x =
     (case x of
        None \<Rightarrow> w_nothing
      | Some m \<Rightarrow> (\<lambda>s. bindr (deref (destinationName m)) (\<lambda>d.
                       bindr (willMessagePayloadBytes m) (\<lambda>b.
                       w_seq [w_string d, w_uint16 (int (length b)), w_set b] s))))"

text \<open>In SUBSCRIBE, a missing \<open>requestedQos[i]\<close> is \<open>undefined\<close> and stores the byte 0.\<close>

fun write_subscriptions :: "js_string list \<Rightarrow> int list \<Rightarrow> writer" where
  "write_subscriptions [] qs = w_nothing"
| "write_subscriptions (t # ts) [] = seqw (w_string t) (seqw (w_byte 0) (write_subscriptions ts []))"
| "write_subscriptions (t # ts) (q # qs) =
     seqw (w_string t) (seqw (w_byte q) (write_subscriptions ts qs))"

definition write_payload :: "wire_message \<Rightarrow> writer" where
  "write_payload w =
     (case mtype w of
        CONNECT \<Rightarrow> (\<lambda>s. bindr (deref (connect w)) (\<lambda>c.
                         w_seq [w_string (clientId c), write_will (willMessage c),
                                w_opt_string (userName c), w_opt_string (password c)] s))
      | PUBLISH \<Rightarrow> (\<lambda>s. bindr (deref (payloadMessage w)) (\<lambda>m.
                         bindr (getPayloadBytes m) (\<lambda>p. w_set (array_bytes p) s)))
      | SUBSCRIBE \<Rightarrow> write_subscriptions (topics w) (requestedQos w)
      | UNSUBSCRIBE \<Rightarrow> w_seq (map w_string (topics w))
      | _ \<Rightarrow> w_nothing)"

definition encode :: "wire_message \<Rightarrow> bytes res" where
  "encode w =
     bindr (remLength w) (\<lambda>n.
     let mbi = encodeMBI (int n); pos = length mbi + 1;
         byteStream = put_byte (replicate (n + pos) 0) 0 (first_byte w) in
     bindr (set_bytes byteStream 1 mbi) (\<lambda>b.
     bindr (w_seq [write_variable_header w, write_identifier w, write_payload w] (b, pos)) (\<lambda>s.
     Inr (fst s))))"

subsection \<open>decodeMessage\<close>

text \<open>The loop over the digits of the remaining length.\<close>

function decode_length :: "bytes \<Rightarrow> nat \<Rightarrow> int \<Rightarrow> int \<Rightarrow> (int \<times> nat) option" where
  "decode_length input pos rem multiplier =
     (if pos = length input then None
      else case rd input pos of
             NaN \<Rightarrow> Some (rem, pos + 1)
           | Num digit \<Rightarrow>
               (let rem' = rem + (digit AND 0x7F) * multiplier in
                if digit AND 0x80 \<noteq> 0
                then decode_length input (pos + 1) rem' (multiplier * 128)
                else Some (rem', pos + 1)))"
  by pat_completeness auto
termination
  by (relation "measure (\<lambda>(input, pos, rem, multiplier). length input - pos)")
    (auto simp: rd_def get_byte.simps(2) split: if_splits)

declare decode_length.simps [simp del]

definition decode_publish :: "int \<Rightarrow> bytes \<Rightarrow> nat \<Rightarrow> nat \<Rightarrow> wire_message res" where
  "decode_publish messageInfo input pos endPos =
     (let q = drop_bit 1 messageInfo AND 0x03;
          len = readUint16 input (Num (int pos)) in
      bindr (parseUTF8 input (pos + 2) len) (\<lambda>topicName.
      let p = nadd (Num (int (pos + 2))) len;
          ident = (if q > 0 then Some (readUint16 input p) else None);
          p' = (if q > 0 then nadd p (Num 2) else p);
          m = Message (PArray (Uint8Array (subarray input p' (Num (int endPos)))));
          m = (if messageInfo AND 0x01 = 0x01 then setRetained True m else m);
          m = (if messageInfo AND 0x08 = 0x08 then setDuplicate True m else m) in
      bindr (setQos q m) (\<lambda>m.
      Inr ((WireMessage PUBLISH)\<lparr>messageIdentifier := ident,
             payloadMessage := Some (setDestinationName topicName m)\<rparr>))))"

definition decode_body :: "MESSAGE_TYPE \<Rightarrow> int \<Rightarrow> bytes \<Rightarrow> nat \<Rightarrow> nat \<Rightarrow> wire_message res" where
  "decode_body t messageInfo input pos endPos =
     (case t of
        CONNACK \<Rightarrow>
          Inr ((WireMessage t)\<lparr>sessionPresent := (num_int (rd input pos) AND 0x01 \<noteq> 0),
                 returnCode := Some (ReturnCode (rd input (pos + 1)))\<rparr>)
      | PUBLISH \<Rightarrow> decode_publish messageInfo input pos endPos
      | PUBACK \<Rightarrow> Inr ((WireMessage t)\<lparr>messageIdentifier := Some (readUint16 input (Num (int pos)))\<rparr>)
      | PUBREC \<Rightarrow> Inr ((WireMessage t)\<lparr>messageIdentifier := Some (readUint16 input (Num (int pos)))\<rparr>)
      | PUBREL \<Rightarrow> Inr ((WireMessage t)\<lparr>messageIdentifier := Some (readUint16 input (Num (int pos)))\<rparr>)
      | PUBCOMP \<Rightarrow> Inr ((WireMessage t)\<lparr>messageIdentifier := Some (readUint16 input (Num (int pos)))\<rparr>)
      | UNSUBACK \<Rightarrow> Inr ((WireMessage t)\<lparr>messageIdentifier := Some (readUint16 input (Num (int pos)))\<rparr>)
      | SUBACK \<Rightarrow>
          Inr ((WireMessage t)\<lparr>messageIdentifier := Some (readUint16 input (Num (int pos))),
                 returnCode := Some (ReturnCodes
                   (subarray input (Num (int (pos + 2))) (Num (int endPos))))\<rparr>)
      | _ \<Rightarrow> Inr (WireMessage t))"

definition decodeMessage :: "bytes \<Rightarrow> nat \<Rightarrow> (wire_message option \<times> nat) res" where
  "decodeMessage input pos =
     (let startingPos = pos;
          first = num_int (rd input pos);
          t = type_of_code (drop_bit 4 first);
          messageInfo = first AND 0x0f in
      case decode_length input (pos + 1) 0 1 of
        None \<Rightarrow> Inr (None, startingPos)
      | Some (n, pos) \<Rightarrow>
          (let endPos = pos + nat n in
           if endPos > length input then Inr (None, startingPos)
           else bindr (decode_body t messageInfo input pos endPos) (\<lambda>w. Inr (Some w, endPos))))"

end
