(* ===== verification/Wire_Correct.thy ===== *)
theory Wire_Correct
  imports Wire
begin

text \<open>
  Correctness of the wire format. \<open>writes f xs\<close> says that the buffer writer \<open>f\<close> stores exactly
  the bytes \<open>xs\<close> at the cursor and moves the cursor behind them; the rules compose along the
  source's sequence of stores, so that \<open>encode\<close> is shown to be plain concatenation. The
  remaining length is inverted by the decoder's digit loop, and \<open>decodeMessage\<close> inverts
  \<open>encode\<close>.
\<close>

subsection \<open>What the writers store\<close>

definition writes :: "writer \<Rightarrow> bytes \<Rightarrow> bool" where
  "writes f xs \<longleftrightarrow> (\<forall>pre mid post. length mid = length xs \<longrightarrow>
     f (pre @ mid @ post, length pre) = Inr (pre @ xs @ post, length pre + length xs))"

lemma writesI:
  assumes "\<And>pre mid post. length mid = length xs \<Longrightarrow>
    f (pre @ mid @ post, length pre) = Inr (pre @ xs @ post, length pre + length xs)"
  shows "writes f xs"
  using assms by (simp add: writes_def)

lemma writesD:
  "writes f xs \<Longrightarrow> length mid = length xs \<Longrightarrow>
    f (pre @ mid @ post, length pre) = Inr (pre @ xs @ post, length pre + length xs)"
  by (simp add: writes_def)

definition be16 :: "int \<Rightarrow> bytes" where
  "be16 v = [to_byte (js_shr v 8), to_byte (js_rem v 256)]"

definition str_field :: "js_string \<Rightarrow> bytes" where
  "str_field s = be16 (int (length (utf8 s))) @ utf8 s"

definition opt_field :: "js_string option \<Rightarrow> bytes" where
  "opt_field x = (case x of None \<Rightarrow> [] | Some s \<Rightarrow> str_field s)"

lemma length_be16 [simp]: "length (be16 v) = 2"
  by (simp add: be16_def)

lemma length_str_field [simp]: "length (str_field s) = length (utf8 s) + 2"
  by (simp add: str_field_def)

lemma writes_nothing [writes_intros]: "writes w_nothing []"
  by (rule writesI) (simp add: w_nothing_def)

lemma writes_byte [writes_intros]: "writes (w_byte v) [to_byte v]"
  by (rule writesI) (auto simp: w_byte_def length_Suc_conv)

lemma writeUint16_append:
  "length mid = 2 \<Longrightarrow>
    writeUint16 v (pre @ mid @ post) (length pre) = (pre @ be16 v @ post, length pre + 2)"
  by (auto simp: writeUint16_def be16_def length_numeral_conv)

lemma writes_uint16 [writes_intros]: "writes (w_uint16 v) (be16 v)"
  by (rule writesI) (simp add: w_uint16_def writeUint16_append)

lemma writes_set [writes_intros]: "writes (w_set b) b"
  by (rule writesI) (simp add: w_set_def set_bytes_append)

lemma writes_string [writes_intros]:
  assumes "wf_utf16 s"
  shows "writes (w_string s) (str_field s)"
proof (rule writesI)
  fix pre mid post :: bytes
  assume "length mid = length (str_field s)"
  then obtain m1 m2 where m: "mid = m1 @ m2" "length m1 = 2" "length m2 = length (utf8 s)"
    using length_splitE [of mid 2 "length (utf8 s)"] by auto
  have "writeUint16 (int (UTF8Length s)) (pre @ m1 @ m2 @ post) (length pre) =
      (pre @ be16 (int (UTF8Length s)) @ m2 @ post, length pre + 2)"
    using writeUint16_append [OF m(2)] by simp
  moreover have "stringToUTF8 s ((pre @ be16 v) @ m2 @ post) (length (pre @ be16 v)) =
      Inr ((pre @ be16 v) @ utf8 s @ post)" for v
    by (rule stringToUTF8_append [OF assms m(3)])
  ultimately show "w_string s (pre @ mid @ post, length pre) =
      Inr (pre @ str_field s @ post, length pre + length (str_field s))"
    using m by (simp add: w_string_def writeString_def str_field_def UTF8Length_eq [OF assms])
qed

lemma writes_seq [writes_intros]:
  assumes "writes f xs" "writes g ys"
  shows "writes (seqw f g) (xs @ ys)"
proof (rule writesI)
  fix pre mid post :: bytes
  assume "length mid = length (xs @ ys)"
  then obtain m1 m2 where m: "mid = m1 @ m2" "length m1 = length xs" "length m2 = length ys"
    using length_splitE [of mid "length xs" "length ys"] by auto
  have "f (pre @ m1 @ m2 @ post, length pre) = Inr (pre @ xs @ m2 @ post, length pre + length xs)"
    using writesD [OF assms(1) m(2)] .
  moreover have "g ((pre @ xs) @ m2 @ post, length (pre @ xs)) =
      Inr ((pre @ xs) @ ys @ post, length (pre @ xs) + length ys)"
    using writesD [OF assms(2) m(3)] .
  ultimately show "seqw f g (pre @ mid @ post, length pre) =
      Inr (pre @ (xs @ ys) @ post, length pre + length (xs @ ys))"
    using m by (simp add: seqw_def add.assoc)
qed

lemma writes_w_seq_Nil [writes_intros]: "writes (w_seq []) []"
  by (simp add: writes_nothing)

lemma writes_w_seq_Cons [writes_intros]:
  "writes f xs \<Longrightarrow> writes (w_seq fs) ys \<Longrightarrow> writes (w_seq (f # fs)) (xs @ ys)"
  by (simp add: writes_seq)

lemma writes_opt_string [writes_intros]:
  "(\<And>s. x = Some s \<Longrightarrow> wf_utf16 s) \<Longrightarrow> writes (w_opt_string x) (opt_field x)"
  by (cases x) (auto simp: w_opt_string_def opt_field_def writes_nothing writes_string)

lemma writes_eq: "writes f xs \<Longrightarrow> xs = ys \<Longrightarrow> writes f ys"
  by simp

subsection \<open>Well-formed wire messages and their bodies\<close>

fun payload_bytes :: "payload \<Rightarrow> bytes" where
  "payload_bytes (PString s) = utf8 s"
| "payload_bytes (PArray a) = array_bytes a"

fun will_bytes :: "payload \<Rightarrow> bytes" where
  "will_bytes (PString s) = utf8 s"
| "will_bytes (PArray (Uint8Array b)) = b"
| "will_bytes (PArray (ArrayBuffer b)) = []"

definition wf_message :: "message \<Rightarrow> bool" where
  "wf_message m \<longleftrightarrow>
     (case destinationName m of None \<Rightarrow> False | Some d \<Rightarrow> wf_utf16 d) \<and>
     (case payload m of PString s \<Rightarrow> wf_utf16 s | PArray _ \<Rightarrow> True)"

definition wf_opt :: "('a \<Rightarrow> bool) \<Rightarrow> 'a option \<Rightarrow> bool" where
  "wf_opt P x \<longleftrightarrow> (case x of None \<Rightarrow> True | Some v \<Rightarrow> P v)"

definition wf_connect :: "connect_fields \<Rightarrow> bool" where
  "wf_connect c \<longleftrightarrow> (mqttVersion c = 3 \<or> mqttVersion c = 4) \<and> wf_utf16 (clientId c) \<and>
     wf_opt wf_message (willMessage c) \<and> wf_opt wf_utf16 (userName c) \<and>
     wf_opt wf_utf16 (password c)"

definition wf_wire :: "wire_message \<Rightarrow> bool" where
  "wf_wire w \<longleftrightarrow>
     (case mtype w of
        CONNECT \<Rightarrow> (case connect w of None \<Rightarrow> False | Some c \<Rightarrow> wf_connect c)
      | PUBLISH \<Rightarrow> (case payloadMessage w of None \<Rightarrow> False | Some m \<Rightarrow> wf_message m)
      | SUBSCRIBE \<Rightarrow> list_all wf_utf16 (topics w) \<and> length (requestedQos w) = length (topics w)
      | UNSUBSCRIBE \<Rightarrow> list_all wf_utf16 (topics w)
      | _ \<Rightarrow> True)"

definition will_field :: "message option \<Rightarrow> bytes" where
  "will_field x =
     (case x of
        None \<Rightarrow> []
      | Some m \<Rightarrow> str_field (the (destinationName m)) @
                  be16 (int (length (will_bytes (payload m)))) @ will_bytes (payload m))"

definition header_bytes :: "wire_message \<Rightarrow> bytes" where
  "header_bytes w =
     (case mtype w of
        PUBLISH \<Rightarrow> str_field (the (destinationName (the (payloadMessage w))))
      | CONNECT \<Rightarrow> protoIdentifier (the (connect w)) @ [to_byte (connectFlags (the (connect w)))] @
                    be16 (keepAliveInterval (the (connect w)))
      | _ \<Rightarrow> [])"

definition ident_bytes :: "wire_message \<Rightarrow> bytes" where
  "ident_bytes w = (case messageIdentifier w of None \<Rightarrow> [] | Some n \<Rightarrow> be16 (num_int n))"

definition content_bytes :: "wire_message \<Rightarrow> bytes" where
  "content_bytes w =
     (case mtype w of
        CONNECT \<Rightarrow> (let c = the (connect w) in
           str_field (clientId c) @ will_field (willMessage c) @
           opt_field (userName c) @ opt_field (password c))
      | PUBLISH \<Rightarrow> payload_bytes (payload (the (payloadMessage w)))
      | SUBSCRIBE \<Rightarrow>
          concat (map (\<lambda>(t, q). str_field t @ [to_byte q]) (zip (topics w) (requestedQos w)))
      | UNSUBSCRIBE \<Rightarrow> concat (map str_field (topics w))
      | _ \<Rightarrow> [])"

definition wire_body :: "wire_message \<Rightarrow> bytes" where
  "wire_body w = header_bytes w @ ident_bytes w @ content_bytes w"

lemma getPayloadBytes_ok:
  assumes "wf_message m"
  shows "\<exists>a. getPayloadBytes m = Inr a \<and> array_bytes a = payload_bytes (payload m)"
proof (cases "payload m")
  case (PString s)
  with assms have "wf_utf16 s" by (simp add: wf_message_def)
  from stringToUTF8_append [OF this, of "replicate (UTF8Length s) 0" "[]" "[]"] this PString
  show ?thesis by (simp add: getPayloadBytes_def UTF8Length_eq)
qed (simp add: getPayloadBytes_def)

lemma willMessagePayloadBytes_ok:
  assumes "wf_message m"
  shows "willMessagePayloadBytes m = Inr (will_bytes (payload m))"
proof (cases "payload m")
  case (PString s)
  with assms have "wf_utf16 s" by (simp add: wf_message_def)
  from stringToUTF8_append [OF this, of "replicate (UTF8Length s) 0" "[]" "[]"] this PString
  show ?thesis by (simp add: getPayloadBytes_def willMessagePayloadBytes_def UTF8Length_eq)
next
  case (PArray a)
  then show ?thesis by (cases a) (simp_all add: getPayloadBytes_def willMessagePayloadBytes_def)
qed

lemma deref_Some [simp]: "deref (Some x) = Inr x"
  by (simp add: deref_def)

subsection \<open>encode is concatenation\<close>

lemma wf_opt_simps [simp]: "wf_opt P None" "wf_opt P (Some x) = P x"
  by (simp_all add: wf_opt_def)

lemma wf_message_destination: "wf_message m \<Longrightarrow> \<exists>d. destinationName m = Some d \<and> wf_utf16 d"
  by (auto simp: wf_message_def split: option.splits)

lemma writes_will [writes_intros]:
  assumes "wf_opt wf_message x"
  shows "writes (write_will x) (will_field x)"
proof (cases x)
  case None
  then show ?thesis by (simp add: write_will_def will_field_def writes_nothing)
next
  case (Some m)
  with assms have m: "wf_message m" by simp
  obtain d where d: "destinationName m = Some d" "wf_utf16 d"
    using wf_message_destination [OF m] by blast
  let ?b = "will_bytes (payload m)"
  have "writes (w_seq [w_string d, w_uint16 (int (length ?b)), w_set ?b])
      (str_field d @ be16 (int (length ?b)) @ ?b @ [])"
    by (intro writes_intros d)
  then show ?thesis
    using Some d m by (simp add: write_will_def will_field_def willMessagePayloadBytes_ok)
qed

lemma writes_subscriptions:
  "list_all wf_utf16 ts \<Longrightarrow> length qs = length ts \<Longrightarrow>
    writes (write_subscriptions ts qs) (concat (map (\<lambda>(t, q). str_field t @ [to_byte q]) (zip ts qs)))"
proof (induction ts qs rule: write_subscriptions.induct)
  case (3 t ts q qs)
  then have "writes (seqw (w_string t) (seqw (w_byte q) (write_subscriptions ts qs)))
    (str_field t @ [to_byte q] @ concat (map (\<lambda>(t, q). str_field t @ [to_byte q]) (zip ts qs)))"
    by (intro writes_intros) simp_all
  then show ?case by simp
qed (simp_all add: writes_nothing)

lemma writes_strings: "list_all wf_utf16 ts \<Longrightarrow> writes (w_seq (map w_string ts)) (concat (map str_field ts))"
  by (induction ts) (auto intro!: writes_intros)

lemma writes_header:
  assumes "wf_wire w"
  shows "writes (write_variable_header w) (header_bytes w)"
proof (cases "mtype w")
  case CONNECT
  with assms obtain c where c: "connect w = Some c" by (auto simp: wf_wire_def split: option.splits)
  have "writes (w_seq [w_set (protoIdentifier c), w_byte (connectFlags c), w_uint16 (keepAliveInterval c)])
     (protoIdentifier c @ [to_byte (connectFlags c)] @ be16 (keepAliveInterval c) @ [])"
    by (intro writes_intros)
  with CONNECT c show ?thesis by (simp add: write_variable_header_def header_bytes_def)
next
  case PUBLISH
  with assms obtain m d where m: "payloadMessage w = Some m" "destinationName m = Some d" "wf_utf16 d"
    by (auto simp: wf_wire_def wf_message_def split: option.splits)
  with PUBLISH show ?thesis
    by (simp add: write_variable_header_def header_bytes_def writes_string)
qed (simp_all add: write_variable_header_def header_bytes_def writes_nothing)

lemma writes_identifier: "writes (write_identifier w) (ident_bytes w)"
  by (auto simp: write_identifier_def ident_bytes_def writes_nothing writes_uint16 split: option.splits)

lemma writes_payload:
  assumes "wf_wire w"
  shows "writes (write_payload w) (content_bytes w)"
proof (cases "mtype w")
  case CONNECT
  with assms obtain c where c: "connect w = Some c" "wf_connect c"
    by (auto simp: wf_wire_def split: option.splits)
  have "writes (w_seq [w_string (clientId c), write_will (willMessage c),
        w_opt_string (userName c), w_opt_string (password c)])
     (str_field (clientId c) @ will_field (willMessage c) @ opt_field (userName c) @ opt_field (password c) @ [])"
    using c(2) by (intro writes_intros) (auto simp: wf_connect_def)
  with CONNECT c(1) show ?thesis by (simp add: write_payload_def content_bytes_def)
next
  case PUBLISH
  with assms obtain m where m: "payloadMessage w = Some m" "wf_message m"
    by (auto simp: wf_wire_def split: option.splits)
  obtain a where a: "getPayloadBytes m = Inr a" "array_bytes a = payload_bytes (payload m)"
    using getPayloadBytes_ok [OF m(2)] by blast
  with PUBLISH m(1) show ?thesis by (simp add: write_payload_def content_bytes_def writes_set)
qed (use assms in \<open>simp_all add: write_payload_def content_bytes_def writes_nothing wf_wire_def
       writes_subscriptions writes_strings\<close>)

lemma length_concat_str_field:
  "list_all wf_utf16 ts \<Longrightarrow> sum_list (map (\<lambda>t. Suc (Suc (UTF8Length t))) ts) = length (concat (map str_field ts))"
  by (induction ts) (auto simp: UTF8Length_eq)

lemma length_concat_subscriptions:
  "length qs = length ts \<Longrightarrow>
    length (concat (map (\<lambda>(t, q). str_field t @ [to_byte q]) (zip ts qs))) =
    length (concat (map str_field ts)) + length ts"
  by (induction ts qs rule: write_subscriptions.induct) auto

lemma length_opt_field: "wf_opt wf_utf16 x \<Longrightarrow> opt_string_length x = length (opt_field x)"
  by (cases x) (auto simp: opt_string_length_def opt_field_def UTF8Length_eq)

lemma will_length_ok: "wf_opt wf_message x \<Longrightarrow> will_length x = Inr (length (will_field x))"
  by (cases x) (auto simp: will_length_def will_field_def willMessagePayloadBytes_ok UTF8Length_eq
      dest: wf_message_destination)

lemma body_length_ok:
  assumes "wf_wire w"
  shows "body_length w = Inr (length (header_bytes w) + length (content_bytes w))"
proof (cases "mtype w")
  case CONNECT
  with assms obtain c where c: "connect w = Some c" "wf_connect c"
    by (auto simp: wf_wire_def split: option.splits)
  then have "mqttVersion c = 3 \<or> mqttVersion c = 4" by (simp add: wf_connect_def)
  with CONNECT c show ?thesis
    by (simp add: body_length_def header_bytes_def content_bytes_def wf_connect_def will_length_ok
        length_opt_field UTF8Length_eq Let_def)
next
  case PUBLISH
  with assms obtain m where m: "payloadMessage w = Some m" "wf_message m"
    by (auto simp: wf_wire_def split: option.splits)
  obtain a where a: "getPayloadBytes m = Inr a" "array_bytes a = payload_bytes (payload m)"
    using getPayloadBytes_ok [OF m(2)] by blast
  obtain d where d: "destinationName m = Some d" "wf_utf16 d"
    using wf_message_destination [OF m(2)] by blast
  with PUBLISH m(1) a show ?thesis
    by (simp add: body_length_def header_bytes_def content_bytes_def UTF8Length_eq)
qed (use assms in \<open>simp_all add: body_length_def header_bytes_def content_bytes_def wf_wire_def
       length_concat_str_field length_concat_subscriptions\<close>)

lemma remLength_ok: "wf_wire w \<Longrightarrow> remLength w = Inr (length (wire_body w))"
  by (cases "messageIdentifier w") (simp_all add: remLength_def body_length_ok wire_body_def ident_bytes_def)

lemma encode_ok:
  assumes "wf_wire w"
  shows "encode w = Inr (to_byte (first_byte w) # encodeMBI (int (length (wire_body w))) @ wire_body w)"
proof -
  let ?n = "length (wire_body w)"
  let ?mbi = "encodeMBI (int ?n)"
  let ?f = "to_byte (first_byte w)"
  have r: "put_byte (replicate (?n + (length ?mbi + 1)) 0) 0 (first_byte w) =
      [?f] @ replicate (length ?mbi) 0 @ replicate ?n 0"
    by (simp add: replicate_add [symmetric] add.commute)
  have s: "set_bytes ([?f] @ replicate (length ?mbi) 0 @ replicate ?n 0) 1 ?mbi =
      Inr ([?f] @ ?mbi @ replicate ?n 0)"
    using set_bytes_append [of "replicate (length ?mbi) 0" ?mbi "[?f]" "replicate ?n 0"] by simp
  have "writes (w_seq [write_variable_header w, write_identifier w, write_payload w])
      (header_bytes w @ ident_bytes w @ content_bytes w @ [])"
    by (intro writes_intros writes_header writes_identifier writes_payload assms)
  then have "writes (w_seq [write_variable_header w, write_identifier w, write_payload w]) (wire_body w)"
    by (simp add: wire_body_def)
  from writesD [OF this, of "replicate ?n 0" "?f # ?mbi" "[]"]
  have "w_seq [write_variable_header w, write_identifier w, write_payload w]
      (?f # ?mbi @ replicate ?n 0, length ?mbi + 1) =
      Inr (?f # ?mbi @ wire_body w, length ?mbi + 1 + ?n)" by simp
  then show ?thesis
    unfolding encode_def remLength_ok [OF assms] bindr_simps Let_def r s by simp
qed


subsection \<open>The remaining length\<close>

lemma bit7:
  assumes "0 \<le> d" "d < (128::int)"
  shows "d AND 128 = 0" "(d OR 128) AND 128 = 128" "(d OR 128) AND 127 = d" "d OR 128 = d + 128"
proof -
  have d: "d AND 127 = d" using assms by (simp add: and_mask_mod)
  have "(d AND 127) AND 128 = 0" by (simp add: and.assoc)
  then show 1: "d AND 128 = 0" by (simp add: d)
  show "(d OR 128) AND 128 = 128" by (simp add: bit.conj_disj_distrib2 1)
  show "(d OR 128) AND 127 = d" by (simp add: bit.conj_disj_distrib2 d)
  show "d OR 128 = d + 128" by (rule or_disjoint [OF 1])
qed

lemma length_mbi_digits: "0 < k \<Longrightarrow> 0 < length (mbi_digits k n)"
  by (cases k) (simp_all add: Let_def)

lemma mbi_digit_step:
  fixes n :: int
  assumes "0 \<le> n" "n < 2 ^ 31"
  defines "d \<equiv> n mod 128"
  shows "mbi_digits (Suc k) n =
    (if n div 128 > 0 then (d + 128) # mbi_digits k (n div 128) else [d])"
  using assms bit7(4) [of "n mod 128"] by (simp add: Let_def)

lemma decode_length_last:
  assumes "0 \<le> d" "d < 128"
  shows "decode_length (pre @ to_byte d # post) (length pre) rem mult =
    Some (rem + d * mult, length pre + 1)"
  using assms bit7 [OF assms] by (subst decode_length.simps) (simp add: and_mask_mod)

lemma decode_length_more:
  assumes "0 \<le> d" "d < 128"
  shows "decode_length (pre @ to_byte (d + 128) # post) (length pre) rem mult =
    decode_length (pre @ to_byte (d + 128) # post) (length pre + 1) (rem + d * mult) (mult * 128)"
proof -
  have "(d + 128) AND 128 = 128" "(d + 128) AND 127 = d"
    using bit7 [OF assms] by simp_all
  then show ?thesis using assms by (subst decode_length.simps) simp
qed

lemma power128: "(128::int) ^ k \<le> 2 ^ 28" if "k \<le> 4"
proof -
  have "(128::int) ^ k \<le> 128 ^ 4" using that by (intro power_increasing) auto
  then show ?thesis by simp
qed

lemma decode_mbi:
  assumes "0 \<le> n" "n < 128 ^ k" "0 < k" "k \<le> 4"
  shows "decode_length (pre @ map to_byte (mbi_digits k n) @ post) (length pre) rem mult =
    Some (rem + n * mult, length pre + length (mbi_digits k n))"
  using assms
proof (induction k arbitrary: n pre rem mult)
  case (Suc k)
  have n: "n < 2 ^ 31" using Suc.prems power128 [of "Suc k"] by simp
  have d: "0 \<le> n mod 128" "n mod 128 < 128" by simp_all
  note step = mbi_digit_step [OF Suc.prems(1) n, of k]
  show ?case
  proof (cases "n div 128 > 0")
    case False
    then have "n mod 128 = n" using Suc.prems by simp
    then show ?thesis using decode_length_last [OF d, of pre post rem mult] False step by simp
  next
    case True
    then have k: "0 < k" using Suc.prems by (cases k) auto
    have "n div 128 < 128 ^ k" using Suc.prems by (simp add: div_less_iff_less_mult mult.commute)
    with Suc.IH [OF _ this k, where pre = "pre @ [to_byte (n mod 128 + 128)]"] Suc.prems(1,4) True
    have "decode_length (pre @ to_byte (n mod 128 + 128) # map to_byte (mbi_digits k (n div 128)) @ post)
        (length pre + 1) (rem + n mod 128 * mult) (mult * 128) =
        Some (rem + n mod 128 * mult + n div 128 * (mult * 128), length pre + 1 + length (mbi_digits k (n div 128)))"
      by simp
    moreover have "n mod 128 * mult + n div 128 * (mult * 128) = n * mult"
      by (metis (no_types, opaque_lifting) add.commute distrib_right div_mult_mod_eq mult.assoc mult.commute)
    ultimately show ?thesis using decode_length_more [OF d] True step by (simp add: add.assoc)
  qed
qed simp

lemma decode_mbi_incomplete:
  assumes "0 \<le> n" "n < 128 ^ k" "k \<le> 4" "xs @ ys = map to_byte (mbi_digits k n)" "ys \<noteq> []"
  shows "decode_length (pre @ xs) (length pre) rem mult = None"
  using assms
proof (induction k arbitrary: n pre rem mult xs)
  case (Suc k)
  have n: "n < 2 ^ 31" using Suc.prems power128 [of "Suc k"] by simp
  have d: "0 \<le> n mod 128" "n mod 128 < 128" by simp_all
  note step = mbi_digit_step [OF Suc.prems(1) n, of k]
  show ?case
  proof (cases xs)
    case Nil
    then show ?thesis by (subst decode_length.simps) simp
  next
    case (Cons x xs')
    with Suc.prems step have t: "n div 128 > 0" "x = to_byte (n mod 128 + 128)"
      "xs' @ ys = map to_byte (mbi_digits k (n div 128))" by (auto split: if_splits)
    have "n div 128 < 128 ^ k" using Suc.prems by (simp add: div_less_iff_less_mult mult.commute)
    with Suc.IH [OF _ this _ t(3) Suc.prems(5), where pre = "pre @ [x]"] Suc.prems(1,3) t(1)
    have "decode_length (pre @ x # xs') (length pre + 1) (rem + n mod 128 * mult) (mult * 128) = None" by simp
    then show ?thesis using decode_length_more [OF d] Cons t(2) by simp
  qed
qed simp

lemmas decode_encodeMBI = decode_mbi [where k = 4, folded encodeMBI_def, simplified]

subsection \<open>Frames\<close>

text \<open>A frame is a first byte, the length of the body and the body.\<close>

definition frame :: "8 word \<Rightarrow> bytes \<Rightarrow> bytes" where
  "frame f body = f # encodeMBI (int (length body)) @ body"

lemma frame_nonempty [simp]: "frame f body \<noteq> []"
  by (simp add: frame_def)

lemma decode_frame:
  assumes "length body < 2 ^ 28"
  defines "hd_len \<equiv> 1 + length (encodeMBI (int (length body)))"
  shows "decodeMessage (pre @ frame f body @ post) (length pre) =
    bindr (decode_body (type_of_code (uint f div 16)) (uint f mod 16) (pre @ frame f body @ post)
             (length pre + hd_len) (length pre + length (frame f body)))
      (\<lambda>w. Inr (Some w, length pre + length (frame f body)))"
proof -
  let ?mbi = "encodeMBI (int (length body))"
  have "decode_length ((pre @ [f]) @ ?mbi @ body @ post) (length (pre @ [f])) 0 1 =
      Some (0 + int (length body) * 1, length (pre @ [f]) + length ?mbi)"
    using assms unfolding encodeMBI_def by (subst decode_mbi) simp_all
  then have "decode_length (pre @ f # ?mbi @ body @ post) (length pre + 1) 0 1 =
      Some (int (length body), length pre + hd_len)"
    by (simp add: hd_len_def)
  then show ?thesis
    by (simp add: decodeMessage_def frame_def drop_bit_eq_div and_mask_mod Let_def hd_len_def add.assoc)
qed

lemma decode_frame_incomplete:
  assumes "length body < 2 ^ 28" "xs @ ys = frame f body" "xs \<noteq> []" "ys \<noteq> []"
  shows "decodeMessage (pre @ xs) (length pre) = Inr (None, length pre)"
proof -
  let ?mbi = "encodeMBI (int (length body))"
  obtain xs' where xs: "xs = f # xs'" "xs' @ ys = ?mbi @ body"
    using assms by (cases xs) (auto simp: frame_def)
  show ?thesis
  proof (cases "length xs' < length ?mbi")
    case True
    with xs(2) have "xs' @ drop (length xs') ?mbi = ?mbi"
      by (metis append_eq_append_conv_if append_take_drop_id less_imp_le)
    with True assms(1) have "decode_length ((pre @ [f]) @ xs') (length (pre @ [f])) 0 1 = None"
      unfolding encodeMBI_def
      by (intro decode_mbi_incomplete [of "int (length body)" 4 _ "drop (length xs') ?mbi"])
        (simp_all add: encodeMBI_def)
    then show ?thesis by (simp add: decodeMessage_def xs Let_def)
  next
    case False
    with xs(2) obtain zs where zs: "xs' = ?mbi @ zs" "body = zs @ ys"
      by (metis append_eq_append_conv_if not_less append_eq_conv_conj)
    have "decode_length ((pre @ [f]) @ ?mbi @ zs) (length (pre @ [f])) 0 1 =
        Some (0 + int (length body) * 1, length (pre @ [f]) + length ?mbi)"
      using assms(1) unfolding encodeMBI_def by (subst decode_mbi) simp_all
    then show ?thesis using zs assms(4) by (simp add: decodeMessage_def xs Let_def nat_int_add)
  qed
qed

lemma encode_frame:
  "wf_wire w \<Longrightarrow> encode w = Inr (frame (to_byte (first_byte w)) (wire_body w))"
  by (simp add: encode_ok frame_def)

end
