(* ===== verification/Framing.thy ===== *)
theory Framing
  imports Wire_Correct
begin

text \<open>
  Reassembly of MQTT packets from WebSocket messages: \<open>_deframeMessages\<close> of \<open>mqttws31.js\<close>. The
  locale \<open>packet_stream\<close> states what the reassembly needs of the packet decoder (a complete
  packet is decoded whatever surrounds it, a truncated one is reported as incomplete) and
  proves once that the packets of a byte stream come out the same however the stream is
  cut into chunks. It is interpreted on \<open>decodeMessage\<close> and the packets a server sends.
\<close>

subsection \<open>The source's loop\<close>

lemma decode_length_progress: "decode_length input pos rem mult = Some (n, pos') \<Longrightarrow> pos < pos'"
proof (induction input pos rem mult rule: decode_length.induct)
  case (1 input pos rem mult)
  show ?case
  proof (cases "\<exists>d. pos \<noteq> length input \<and> rd input pos = Num d \<and> d AND 0x80 \<noteq> 0")
    case True
    then obtain d where d: "pos \<noteq> length input" "rd input pos = Num d" "d AND 0x80 \<noteq> 0" by blast
    with 1(2) have "decode_length input (pos + 1) (rem + (d AND 0x7F) * mult) (mult * 128) = Some (n, pos')"
      by (subst (asm) decode_length.simps) simp
    then show ?thesis using 1(1) [OF d(1,2) refl d(3)] by simp
  next
    case False
    with 1(2) show ?thesis
      by (subst (asm) decode_length.simps) (auto simp: Let_def split: if_splits jsnum.splits)
  qed
qed

lemma decodeMessage_progress:
  assumes "decodeMessage input pos = Inr (Some w, pos')"
  shows "pos < pos'"
proof -
  from assms obtain n p where "decode_length input (pos + 1) 0 1 = Some (n, p)" "pos' = p + nat n"
    by (auto simp: decodeMessage_def Let_def bindr_Inr_iff split: option.splits prod.splits if_splits)
  then show ?thesis using decode_length_progress by fastforce
qed

function deframe_loop :: "bytes \<Rightarrow> nat \<Rightarrow> (wire_message list \<times> nat) res" where
  "deframe_loop byteArray offset =
     (if offset < length byteArray
      then bindr (decodeMessage byteArray offset) (\<lambda>(wireMessage, offset').
             case wireMessage of
               None \<Rightarrow> Inr ([], offset')
             | Some m \<Rightarrow> bindr (deframe_loop byteArray offset') (\<lambda>(ms, offset'').
                            Inr (m # ms, offset'')))
      else Inr ([], offset))"
  by pat_completeness auto
termination
  by (relation "measure (\<lambda>(byteArray, offset). length byteArray - offset)")
    (auto dest: decodeMessage_progress)

declare deframe_loop.simps [simp del]

definition concat_buffer :: "bytes option \<Rightarrow> bytes \<Rightarrow> bytes" where
  "concat_buffer receiveBuffer data = (case receiveBuffer of None \<Rightarrow> data | Some b \<Rightarrow> b @ data)"

definition rest_buffer :: "bytes \<Rightarrow> nat \<Rightarrow> bytes option" where
  "rest_buffer byteArray offset =
     (if offset < length byteArray then Some (drop offset byteArray) else None)"

text \<open>
  The result is the list of messages and the new receive buffer; an exception leaves the
  buffer empty, since it was deleted before the loop.
\<close>

definition deframeMessages :: "bytes option \<Rightarrow> bytes \<Rightarrow> (wire_message list \<times> bytes option) res" where
  "deframeMessages receiveBuffer data =
     (let byteArray = concat_buffer receiveBuffer data in
      bindr (deframe_loop byteArray 0) (\<lambda>(messages, offset).
        Inr (messages, rest_buffer byteArray offset)))"

text \<open>Feeding successive WebSocket messages.\<close>

fun feed ::
  "(bytes option \<Rightarrow> bytes \<Rightarrow> ('w list \<times> bytes option) res) \<Rightarrow> bytes option \<Rightarrow> bytes list
    \<Rightarrow> ('w list \<times> bytes option) res" where
  "feed deframe buf [] = Inr ([], buf)"
| "feed deframe buf (c # cs) =
     bindr (deframe buf c) (\<lambda>(ms, buf').
     bindr (feed deframe buf' cs) (\<lambda>(ms', buf''). Inr (ms @ ms', buf'')))"

subsection \<open>Cutting a stream into chunks\<close>

lemma prefix_of_concat:
  assumes "p @ r = concat bss" "\<And>b. b \<in> set bss \<Longrightarrow> b \<noteq> []"
  shows "\<exists>bs1 bs2 t. bss = bs1 @ bs2 \<and> p = concat bs1 @ t \<and> t @ r = concat bs2 \<and>
    (t = [] \<or> (\<exists>u bs3. bs2 = (t @ u) # bs3 \<and> u \<noteq> []))"
  using assms
proof (induction bss arbitrary: p)
  case (Cons b bss)
  show ?case
  proof (cases "length p < length b")
    case True
    with Cons.prems(1) obtain u where u: "b = p @ u" "u \<noteq> []" "r = u @ concat bss"
      by (auto simp: append_eq_append_conv2)
    show ?thesis
      by (rule exI [of _ "[]"], rule exI [of _ "b # bss"], rule exI [of _ p]) (use u in auto)
  next
    case False
    with Cons.prems(1) obtain p' where p': "p = b @ p'" "p' @ r = concat bss"
      by (auto simp: append_eq_append_conv2)
    from Cons.IH [OF p'(2)] Cons.prems(2) obtain bs1 bs2 t where
      "bss = bs1 @ bs2" "p' = concat bs1 @ t" "t @ r = concat bs2"
      "t = [] \<or> (\<exists>u bs3. bs2 = (t @ u) # bs3 \<and> u \<noteq> [])" by auto
    with p' show ?thesis
      by (intro exI [of _ "b # bs1"] exI [of _ bs2] exI [of _ t]) auto
  qed
qed auto

locale packet_stream =
  fixes decode :: "bytes \<Rightarrow> nat \<Rightarrow> ('w option \<times> nat) res"
    and loop :: "bytes \<Rightarrow> nat \<Rightarrow> ('w list \<times> nat) res"
    and deframe :: "bytes option \<Rightarrow> bytes \<Rightarrow> ('w list \<times> bytes option) res"
    and packet :: "bytes \<Rightarrow> 'w \<Rightarrow> bool"
  assumes nonempty: "packet bs w \<Longrightarrow> bs \<noteq> []"
    and complete: "packet bs w \<Longrightarrow>
      decode (pre @ bs @ post) (length pre) = Inr (Some w, length pre + length bs)"
    and incomplete: "packet (xs @ ys) w \<Longrightarrow> xs \<noteq> [] \<Longrightarrow> ys \<noteq> [] \<Longrightarrow>
      decode (pre @ xs) (length pre) = Inr (None, length pre)"
    and loop_unfold: "loop b off =
      (if off < length b
       then bindr (decode b off) (\<lambda>(m, off').
              case m of None \<Rightarrow> Inr ([], off')
              | Some m \<Rightarrow> bindr (loop b off') (\<lambda>(ms, off''). Inr (m # ms, off'')))
       else Inr ([], off))"
    and deframe_unfold: "deframe buf d =
      bindr (loop (concat_buffer buf d) 0) (\<lambda>(ms, off). Inr (ms, rest_buffer (concat_buffer buf d) off))"
begin

lemma loop_packets:
  assumes "list_all2 packet bss ws" "t = [] \<or> (\<exists>u w. packet (t @ u) w \<and> u \<noteq> [])"
  shows "loop (pre @ concat bss @ t) (length pre) = Inr (ws, length pre + length (concat bss))"
  using assms(1)
proof (induction arbitrary: pre rule: list_all2_induct)
  case Nil
  show ?case
  proof (cases "t = []")
    case True
    then show ?thesis by (subst loop_unfold) simp
  next
    case False
    with assms(2) obtain u w where "packet (t @ u) w" "u \<noteq> []" by blast
    from incomplete [OF this(1) False this(2)] False show ?thesis by (subst loop_unfold) simp
  qed
next
  case (Cons b bs w ws)
  have "decode (pre @ b @ concat bs @ t) (length pre) = Inr (Some w, length pre + length b)"
    by (rule complete) (rule Cons.hyps)
  moreover have "length pre < length (pre @ b @ concat bs @ t)"
    using nonempty [OF Cons.hyps(1)] by simp
  ultimately show ?case using Cons.IH [of "pre @ b"] by (subst loop_unfold) (simp add: add.assoc)
qed

lemma feed_packets:
  assumes "list_all2 packet bss ws" "b @ concat chunks = concat bss"
    "b = [] \<or> (\<exists>u bs. bss = (b @ u) # bs \<and> u \<noteq> [])"
    "buf = (if b = [] then None else Some b)"
  shows "feed deframe buf chunks = Inr (ws, None)"
  using assms
proof (induction chunks arbitrary: b bss ws buf)
  case Nil
  have "b = []"
  proof (rule ccontr)
    assume "b \<noteq> []"
    with Nil.prems(3) obtain u bs where "bss = (b @ u) # bs" "u \<noteq> []" by blast
    with Nil.prems(2) show False by simp
  qed
  with Nil have "bss = []" using nonempty by (cases bss; cases ws) auto
  with Nil \<open>b = []\<close> show ?case by simp
next
  case (Cons c cs)
  have ne: "\<And>x. x \<in> set bss \<Longrightarrow> x \<noteq> []"
    using Cons.prems(1) nonempty by (auto simp: list_all2_conv_all_nth in_set_conv_nth)
  have "(b @ c) @ concat cs = concat bss" using Cons.prems(2) by simp
  from prefix_of_concat [OF this ne] obtain bs1 bs2 t where bs: "bss = bs1 @ bs2"
    "b @ c = concat bs1 @ t" "t @ concat cs = concat bs2"
    and t: "t = [] \<or> (\<exists>u bs3. bs2 = (t @ u) # bs3 \<and> u \<noteq> [])" by blast
  obtain ws1 ws2 where ws: "ws = ws1 @ ws2" "list_all2 packet bs1 ws1" "list_all2 packet bs2 ws2"
    using Cons.prems(1) bs(1) by (auto simp: list_all2_append1)
  have t': "t = [] \<or> (\<exists>u w. packet (t @ u) w \<and> u \<noteq> [])"
    using t ws(3) by (fastforce simp: list_all2_Cons1)
  have cb: "concat_buffer buf c = concat bs1 @ t"
    using Cons.prems(4) bs(2) by (auto simp: concat_buffer_def split: if_splits)
  have "deframe buf c = Inr (ws1, if t = [] then None else Some t)"
    using loop_packets [OF ws(2) t', of "[]"] by (subst deframe_unfold) (auto simp: cb rest_buffer_def)
  with Cons.IH [OF ws(3) bs(3) t refl] show ?case using ws(1) by simp
qed

theorem chunking:
  "list_all2 packet bss ws \<Longrightarrow> concat chunks = concat bss \<Longrightarrow> feed deframe None chunks = Inr (ws, None)"
  by (rule feed_packets [of bss ws "[]"]) auto

end

subsection \<open>Packets a server sends\<close>

text \<open>
  The well-formed packets of MQTT 3.1.1 from server to client, as bytes, with the wire
  message the client should see. \<open>flags\<close> are the low four bits of the first byte.
\<close>

definition first_of :: "MESSAGE_TYPE \<Rightarrow> int \<Rightarrow> 8 word" where
  "first_of t flags = to_byte (16 * type_code t + flags)"

definition publish_flags :: "bool \<Rightarrow> int \<Rightarrow> bool \<Rightarrow> int" where
  "publish_flags dup q ret = (if dup then 8 else 0) + 2 * q + (if ret then 1 else 0)"

definition publish_body :: "js_string \<Rightarrow> int \<Rightarrow> int \<Rightarrow> bytes \<Rightarrow> bytes" where
  "publish_body d q n p = str_field d @ (if q > 0 then be16 n else []) @ p"

definition publish_wire :: "bool \<Rightarrow> int \<Rightarrow> bool \<Rightarrow> js_string \<Rightarrow> int \<Rightarrow> bytes \<Rightarrow> wire_message" where
  "publish_wire dup q ret d n p =
     (WireMessage PUBLISH)\<lparr>messageIdentifier := (if q > 0 then Some (Num n) else None),
       payloadMessage := Some \<lparr>payload = PArray (Uint8Array p), destinationName = Some d, qos = q,
                                retained = ret, duplicate = dup\<rparr>\<rparr>"

inductive server_packet :: "bytes \<Rightarrow> wire_message \<Rightarrow> bool" where
  connack: "0 \<le> f \<Longrightarrow> f < 16 \<Longrightarrow>
    server_packet (frame (first_of CONNACK f) [flags, rc])
      ((WireMessage CONNACK)\<lparr>sessionPresent := (uint flags AND 1 \<noteq> 0),
         returnCode := Some (ReturnCode (Num (uint rc)))\<rparr>)"
| publish: "q \<in> {0, 1, 2} \<Longrightarrow> wf_utf16 d \<Longrightarrow> length (utf8 d) < 2 ^ 16 \<Longrightarrow> 0 \<le> n \<Longrightarrow> n < 2 ^ 16 \<Longrightarrow>
    length (publish_body d q n p) < 2 ^ 28 \<Longrightarrow>
    server_packet (frame (first_of PUBLISH (publish_flags dup q ret)) (publish_body d q n p))
      (publish_wire dup q ret d n p)"
| ack: "t \<in> {PUBACK, PUBREC, PUBREL, PUBCOMP, UNSUBACK} \<Longrightarrow> 0 \<le> f \<Longrightarrow> f < 16 \<Longrightarrow> 0 \<le> n \<Longrightarrow> n < 2 ^ 16 \<Longrightarrow>
    server_packet (frame (first_of t f) (be16 n)) ((WireMessage t)\<lparr>messageIdentifier := Some (Num n)\<rparr>)"
| suback: "0 \<le> f \<Longrightarrow> f < 16 \<Longrightarrow> 0 \<le> n \<Longrightarrow> n < 2 ^ 16 \<Longrightarrow> length codes + 2 < 2 ^ 28 \<Longrightarrow>
    server_packet (frame (first_of SUBACK f) (be16 n @ codes))
      ((WireMessage SUBACK)\<lparr>messageIdentifier := Some (Num n), returnCode := Some (ReturnCodes codes)\<rparr>)"
| pingresp: "0 \<le> f \<Longrightarrow> f < 16 \<Longrightarrow> server_packet (frame (first_of PINGRESP f) []) (WireMessage PINGRESP)"

lemma type_of_first:
  assumes "0 \<le> f" "f < 16" "0 \<le> type_code t" "type_code t < 16"
  shows "uint (first_of t f) div 16 = type_code t" "uint (first_of t f) mod 16 = f"
  using assms by (simp_all add: first_of_def)

lemma type_of_code_code: "(\<forall>n. t \<noteq> UNKNOWN_TYPE n) \<Longrightarrow> type_of_code (type_code t) = t"
  by (cases t) (simp_all add: type_of_code_def)

lemma readUint16_rd: "readUint16 b (Num (int i)) = nadd (nmul 256 (rd b i)) (rd b (Suc i))"
  by (simp add: readUint16_def rd_def add.commute)

lemma readUint16_be16:
  assumes "0 \<le> n" "n < 2 ^ 16"
  shows "readUint16 (pre @ be16 n @ post) (Num (int (length pre))) = Num n"
  using assms by (simp add: readUint16_rd be16_def js_rem_def)

lemma subarray_append:
  "subarray (pre @ xs @ post) (Num (int (length pre))) (Num (int (length pre + length xs))) = xs"
  by (simp add: subarray_def)

lemma decode_frame_body:
  fixes pre :: bytes and f :: "8 word"
  assumes "length body < 2 ^ 28"
  defines "P \<equiv> pre @ f # encodeMBI (int (length body))"
  shows "decodeMessage (pre @ frame f body @ post) (length pre) =
    bindr (decode_body (type_of_code (uint f div 16)) (uint f mod 16) (P @ body @ post)
             (length P) (length P + length body))
      (\<lambda>w. Inr (Some w, length pre + length (frame f body)))"
  using decode_frame [OF assms(1), of pre f post] by (simp add: P_def frame_def add.assoc)

lemma publish_flags_bits:
  assumes "q \<in> {0, 1, 2}"
  shows "drop_bit 1 (publish_flags dup q ret) AND 3 = q"
    "publish_flags dup q ret AND 1 = 1 \<longleftrightarrow> ret" "publish_flags dup q ret AND 8 = 8 \<longleftrightarrow> dup"
    "0 \<le> publish_flags dup q ret" "publish_flags dup q ret < 16"
  using assms by (cases dup; cases ret; auto simp: publish_flags_def)+

lemma parse_str_field:
  assumes "wf_utf16 d" "length (utf8 d) < 2 ^ 16"
  shows "readUint16 (P @ str_field d @ post) (Num (int (length P))) = Num (int (length (utf8 d)))"
    "parseUTF8 (P @ str_field d @ post) (length P + 2) (Num (int (length (utf8 d)))) = Inr d"
proof -
  show "readUint16 (P @ str_field d @ post) (Num (int (length P))) = Num (int (length (utf8 d)))"
    using readUint16_be16 [of "int (length (utf8 d))" P "utf8 d @ post"] assms(2)
    by (simp add: str_field_def)
  show "parseUTF8 (P @ str_field d @ post) (length P + 2) (Num (int (length (utf8 d)))) = Inr d"
    using parse_from_utf8 [OF assms(1), of "P @ be16 (int (length (utf8 d)))" post]
    by (simp add: str_field_def)
qed

lemma decode_publish_body:
  assumes q: "q \<in> {0, 1, 2}" and d: "wf_utf16 d" "length (utf8 d) < 2 ^ 16" and n: "0 \<le> n" "n < 2 ^ 16"
  shows "decode_publish (publish_flags dup q ret) (P @ publish_body d q n p @ post) (length P)
      (length P + length (publish_body d q n p)) = Inr (publish_wire dup q ret d n p)"
proof -
  let ?id = "if q > 0 then be16 n else []"
  let ?in = "P @ str_field d @ ?id @ p @ post"
  have pos: "nadd (Num (int (length P + 2))) (Num (int (length (utf8 d)))) =
      Num (int (length (P @ str_field d)))" by simp
  have id: "q > 0 \<Longrightarrow> readUint16 ?in (Num (int (length (P @ str_field d)))) = Num n"
    using readUint16_be16 [OF n, of "P @ str_field d" "p @ post"] by simp
  have sub: "subarray ?in (Num (int (length (P @ str_field d @ ?id))))
      (Num (int (length (P @ str_field d @ ?id) + length p))) = p"
    using subarray_append [of "P @ str_field d @ ?id" p post] by simp
  show ?thesis
  proof (cases "q > 0")
    case True
    then show ?thesis
      using parse_str_field [OF d, of P "be16 n @ p @ post"] publish_flags_bits [OF q, of dup ret] id sub q
      by (auto simp: decode_publish_def publish_body_def publish_wire_def Let_def setQos_def Message_def
          setRetained_def setDuplicate_def setDestinationName_def WireMessage_def algebra_simps)
  next
    case False
    then show ?thesis
      using parse_str_field [OF d, of P "p @ post"] publish_flags_bits [OF q, of dup ret] sub q
      by (auto simp: decode_publish_def publish_body_def publish_wire_def Let_def setQos_def Message_def
          setRetained_def setDuplicate_def setDestinationName_def WireMessage_def algebra_simps)
  qed
qed

lemma server_packet_frame:
  assumes "server_packet bs w"
  obtains f body where "bs = frame f body" "length body < 2 ^ 28"
  using assms by cases (auto intro: that)

lemma decode_frame_via:
  assumes "length body < 2 ^ 28" "0 \<le> f" "f < 16" "0 \<le> type_code t" "type_code t < 16"
    "\<forall>n. t \<noteq> UNKNOWN_TYPE n"
    "\<And>P. decode_body t f (P @ body @ post) (length P) (length P + length body) = Inr w"
  shows "decodeMessage (pre @ frame (first_of t f) body @ post) (length pre) =
    Inr (Some w, length pre + length (frame (first_of t f) body))"
  unfolding decode_frame_body [OF assms(1)] type_of_first [OF assms(2-5)]
    type_of_code_code [OF assms(6)] assms(7) by simp

lemma server_packet_decode:
  assumes "server_packet bs w"
  shows "decodeMessage (pre @ bs @ post) (length pre) = Inr (Some w, length pre + length bs)"
  using assms
proof cases
  case (connack f flags rc)
  show ?thesis unfolding connack(1,2)
    by (rule decode_frame_via) (use connack in \<open>simp_all add: decode_body_def\<close>)
next
  case (publish q d n p dup ret)
  show ?thesis unfolding publish(1,2)
    by (rule decode_frame_via)
      (use publish publish_flags_bits [OF publish(3)] decode_publish_body [OF publish(3-7)]
       in \<open>simp_all add: decode_body_def\<close>)
next
  case (ack t f n)
  have "decode_body t i (P @ be16 n @ post) (length P) e =
      Inr ((WireMessage t)\<lparr>messageIdentifier := Some (Num n)\<rparr>)" for i P e
    using ack(3) readUint16_be16 [OF ack(6,7), of P post] by (auto simp: decode_body_def)
  then show ?thesis unfolding ack(1,2)
    by (intro decode_frame_via) (use ack in auto)
next
  case (suback f n codes)
  have "decode_body SUBACK i (P @ (be16 n @ codes) @ post) (length P) (length P + length (be16 n @ codes)) =
      Inr ((WireMessage SUBACK)\<lparr>messageIdentifier := Some (Num n), returnCode := Some (ReturnCodes codes)\<rparr>)"
    for i P
    using readUint16_be16 [OF suback(5,6), of P "codes @ post"]
      subarray_append [of "P @ be16 n" codes post]
    by (simp add: decode_body_def algebra_simps)
  then show ?thesis unfolding suback(1,2)
    by (intro decode_frame_via) (use suback in auto)
next
  case (pingresp f)
  show ?thesis unfolding pingresp(1,2)
    by (rule decode_frame_via) (use pingresp in \<open>simp_all add: decode_body_def\<close>)
qed

interpretation mqtt: packet_stream decodeMessage deframe_loop deframeMessages server_packet
proof
  show "server_packet bs w \<Longrightarrow> bs \<noteq> []" for bs w
    by (erule server_packet_frame) simp
  show "server_packet bs w \<Longrightarrow>
      decodeMessage (pre @ bs @ post) (length pre) = Inr (Some w, length pre + length bs)"
    for bs w pre post
    by (rule server_packet_decode)
  show "server_packet (xs @ ys) w \<Longrightarrow> xs \<noteq> [] \<Longrightarrow> ys \<noteq> [] \<Longrightarrow>
      decodeMessage (pre @ xs) (length pre) = Inr (None, length pre)" for xs ys w pre
    by (elim server_packet_frame decode_frame_incomplete)
qed (rule deframe_loop.simps, simp add: deframeMessages_def Let_def)

subsection \<open>Properties\<close>

text \<open>
  C1. The packets of a byte stream are delivered the same however the network cuts the
  stream into WebSocket messages: for any well-formed server packets and any chunks whose
  concatenation is the packets' bytes, \<open>_deframeMessages\<close> yields exactly the packets' messages
  in order and leaves no byte in the receive buffer.
\<close>

theorem deframe_chunking:
  assumes "list_all2 server_packet bss ws" "concat chunks = concat bss"
  shows "feed deframeMessages None chunks = Inr (ws, None)"
  by (rule mqtt.chunking [OF assms])

theorem deframe_chunking_witness:
  "list_all2 server_packet [frame (first_of PINGRESP 0) [], frame (first_of PUBACK 0) (be16 7)]
     [WireMessage PINGRESP, (WireMessage PUBACK)\<lparr>messageIdentifier := Some (Num 7)\<rparr>] \<and>
   feed deframeMessages None [[first_of PINGRESP 0], [0, first_of PUBACK 0], [2, 0, 7]] =
     Inr ([WireMessage PINGRESP, (WireMessage PUBACK)\<lparr>messageIdentifier := Some (Num 7)\<rparr>], None)"
proof -
  have l: "list_all2 server_packet [frame (first_of PINGRESP 0) [], frame (first_of PUBACK 0) (be16 7)]
     [WireMessage PINGRESP, (WireMessage PUBACK)\<lparr>messageIdentifier := Some (Num 7)\<rparr>]"
    using server_packet.pingresp [of 0] server_packet.ack [of PUBACK 0 7] by simp
  have "concat [[first_of PINGRESP 0], [0, first_of PUBACK 0], [2, 0, 7]] =
      concat [frame (first_of PINGRESP 0) [], frame (first_of PUBACK 0) (be16 7)]"
    by (simp add: frame_def be16_def encodeMBI_def js_rem_def eval_nat_numeral Let_def to_byte_def)
  with l show ?thesis using deframe_chunking [OF l] by blast
qed

lemma first_byte_publish:
  assumes "mtype w = PUBLISH" "payloadMessage w = Some m" "qos m \<in> {0, 1, 2}"
  shows "to_byte (first_byte w) = first_of PUBLISH (publish_flags (duplicate m) (qos m) (retained m))"
  using assms
  by (cases "duplicate m"; cases "retained m")
    (auto simp: first_byte_def first_of_def publish_flags_def Let_def push_bit_eq_mult)

text \<open>
  C2. A PUBLISH packet that the client encodes is decoded by \<open>decodeMessage\<close> to the same
  message: flags, topic, identifier and payload bytes, with all bytes consumed.
\<close>

theorem publish_roundtrip:
  assumes "mtype w = PUBLISH" "payloadMessage w = Some m" "wf_message m" "qos m \<in> {0, 1, 2}"
    and "destinationName m = Some d" "length (utf8 d) < 2 ^ 16"
    and "messageIdentifier w = (if qos m > 0 then Some (Num n) else None)" "0 \<le> n" "n < 2 ^ 16"
    and "length (wire_body w) < 2 ^ 28"
  shows "\<exists>b. encode w = Inr b \<and>
    decodeMessage b 0 = Inr (Some (publish_wire (duplicate m) (qos m) (retained m) d n
                                     (payload_bytes (payload m))), length b)"
proof -
  have wf: "wf_wire w" using assms(1-3) by (simp add: wf_wire_def)
  have d: "wf_utf16 d" using assms(3,5) by (simp add: wf_message_def)
  have body: "wire_body w = publish_body d (qos m) n (payload_bytes (payload m))"
    using assms by (simp add: wire_body_def header_bytes_def ident_bytes_def content_bytes_def publish_body_def)
  have "server_packet (frame (to_byte (first_byte w)) (wire_body w))
      (publish_wire (duplicate m) (qos m) (retained m) d n (payload_bytes (payload m)))"
    unfolding first_byte_publish [OF assms(1,2,4)] body
    by (rule server_packet.publish) (use assms d body in simp_all)
  from server_packet_decode [OF this, of "[]" "[]"] encode_frame [OF wf] show ?thesis by simp
qed

definition example_publish :: wire_message where
  "example_publish =
     (WireMessage PUBLISH)\<lparr>messageIdentifier := Some (Num 10),
        payloadMessage := Some \<lparr>payload = PString [0x68, 0x69], destinationName = Some [0x61, 0x2F, 0x62],
                                 qos = 1, retained = True, duplicate = False\<rparr>\<rparr>"

lemma example_publish_wf:
  "wf_message (the (payloadMessage example_publish))" "length (wire_body example_publish) < 2 ^ 28"
  by (simp_all add: example_publish_def wf_message_def is_high_def wire_body_def header_bytes_def
      ident_bytes_def content_bytes_def WireMessage_def utf8_def length_utf8_of)

theorem publish_roundtrip_witness:
  "\<exists>b. encode example_publish = Inr b \<and>
    decodeMessage b 0 = Inr (Some (publish_wire False 1 True [0x61, 0x2F, 0x62] 10 (utf8 [0x68, 0x69])), length b)"
  using publish_roundtrip [of example_publish "the (payloadMessage example_publish)" "[0x61, 0x2F, 0x62]" 10]
    example_publish_wf
  by (simp add: example_publish_def WireMessage_def utf8_def length_utf8_of is_high_def)

text \<open>
  C3. \<open>encode\<close> with its length computation, buffer allocation and stores at offsets produces
  the concatenation of the fixed header, the length digits and the body fields, for every
  well-formed message of every type.
\<close>

theorem encode_refines:
  assumes "wf_wire w"
  shows "encode w = Inr (to_byte (first_byte w) # encodeMBI (int (length (wire_body w))) @
    header_bytes w @ ident_bytes w @ content_bytes w)"
  using encode_ok [OF assms] by (simp add: wire_body_def)

theorem encode_refines_witness:
  "wf_wire example_publish \<and>
   encode example_publish = Inr (to_byte (first_byte example_publish) #
     encodeMBI (int (length (wire_body example_publish))) @
     header_bytes example_publish @ ident_bytes example_publish @ content_bytes example_publish)"
proof -
  have "wf_wire example_publish"
    using example_publish_wf by (simp add: wf_wire_def example_publish_def WireMessage_def)
  then show ?thesis using encode_refines by blast
qed

text \<open>
  The remaining-length field: below \<open>2^28\<close> the decoder's digit loop inverts \<open>encodeMBI\<close> and
  the field has one to four bytes.
\<close>

theorem mbi_roundtrip:
  assumes "0 \<le> n" "n < 2 ^ 28"
  shows "decode_length (encodeMBI n @ post) 0 0 1 = Some (n, length (encodeMBI n))
    \<and> 1 \<le> length (encodeMBI n) \<and> length (encodeMBI n) \<le> 4"
proof -
  have "length (mbi_digits k n) \<le> k" for k
    by (induction k arbitrary: n) (auto simp: Let_def)
  with length_mbi_digits [of 4 n] decode_encodeMBI [of n "[]" post 0 1] assms show ?thesis
    by (auto simp: encodeMBI_def Suc_le_eq)
qed

theorem mbi_roundtrip_witness:
  "decode_length (encodeMBI 321 @ [9]) 0 0 1 = Some (321, length (encodeMBI 321))
    \<and> 1 \<le> length (encodeMBI 321) \<and> length (encodeMBI 321) \<le> 4"
  using mbi_roundtrip [of 321 "[9]"] by simp

end
