(* ===== verification/Objects.thy ===== *)
theory Objects
  imports Prelude "HOL-Library.AList"
begin

text \<open>
  JavaScript objects used as dictionaries. The locale \<open>js_object\<close> is the interface the client
  relies on: reading, assigning and deleting properties. It is interpreted twice: on the
  tables keyed by message identifiers, which enumerate integer keys in ascending order, and
  on \<open>localStorage\<close>, keyed by strings. The identifier search of \<open>_requires_ack\<close> is
  specified against the interface.
\<close>

subsection \<open>Property keys\<close>

text \<open>Identifiers as property keys: integer keys ascending, the string key \<open>NaN\<close> last.\<close>

instantiation jsnum :: linorder
begin

fun less_eq_jsnum :: "jsnum \<Rightarrow> jsnum \<Rightarrow> bool" where
  "less_eq_jsnum (Num a) (Num b) = (a \<le> b)"
| "less_eq_jsnum _ NaN = True"
| "less_eq_jsnum NaN (Num _) = False"

definition less_jsnum :: "jsnum \<Rightarrow> jsnum \<Rightarrow> bool" where
  "less_jsnum a b \<longleftrightarrow> a \<le> b \<and> \<not> b \<le> a"

instance
proof
  fix x y z :: jsnum
  show "x < y \<longleftrightarrow> x \<le> y \<and> \<not> y \<le> x" by (rule less_jsnum_def)
  show "x \<le> x" by (cases x) simp_all
  show "x \<le> y \<Longrightarrow> y \<le> z \<Longrightarrow> x \<le> z" by (cases x; cases y; cases z) simp_all
  show "x \<le> y \<Longrightarrow> y \<le> x \<Longrightarrow> x = y" by (cases x; cases y) simp_all
  show "x \<le> y \<or> y \<le> x" by (cases x; cases y) auto
qed

end

lemma less_jsnum_simps [simp]:
  "Num a < Num b \<longleftrightarrow> a < b" "Num a < NaN" "\<not> NaN < x"
  by (cases x; auto simp: less_jsnum_def)+

subsection \<open>Tables keyed by identifiers\<close>

type_synonym 'v table = "(jsnum \<times> 'v) list"

fun obj_set :: "('k::linorder) \<Rightarrow> 'v \<Rightarrow> ('k \<times> 'v) list \<Rightarrow> ('k \<times> 'v) list" where
  "obj_set k v [] = [(k, v)]"
| "obj_set k v ((k', v') # t) =
     (if k < k' then (k, v) # (k', v') # t
      else if k = k' then (k, v) # t
      else (k', v') # obj_set k v t)"

definition obj_del :: "'k \<Rightarrow> ('k \<times> 'v) list \<Rightarrow> ('k \<times> 'v) list" where
  "obj_del k t = filter (\<lambda>p. fst p \<noteq> k) t"

definition obj_get :: "('k \<times> 'v) list \<Rightarrow> 'k \<Rightarrow> 'v option" where
  "obj_get t k = map_of t k"

definition obj_ok :: "('k::linorder \<times> 'v) list \<Rightarrow> bool" where
  "obj_ok t \<longleftrightarrow> sorted_wrt (<) (map fst t)"

lemma obj_set_keys: "set (map fst (obj_set k v t)) = insert k (set (map fst t))"
  by (induction k v t rule: obj_set.induct) auto

lemma obj_set_ok: "obj_ok t \<Longrightarrow> obj_ok (obj_set k v t)"
proof (induction t)
  case (Cons p t)
  then show ?case
    using obj_set_keys [of k v t] by (cases p) (fastforce simp: obj_ok_def)
qed (simp add: obj_ok_def)

lemma obj_del_ok: "obj_ok t \<Longrightarrow> obj_ok (obj_del k t)"
  by (induction t) (auto simp: obj_ok_def obj_del_def)

lemma obj_get_set: "obj_get (obj_set k v t) k' = (if k' = k then Some v else obj_get t k')" if "obj_ok t"
  using that
proof (induction t)
  case (Cons p t)
  then show ?case
    by (cases p) (auto simp: obj_get_def obj_ok_def map_of_eq_None_iff)
qed (simp add: obj_get_def)

lemma obj_get_del: "obj_get (obj_del k t) k' = (if k' = k then None else obj_get t k')"
  by (induction t) (auto simp: obj_get_def obj_del_def)

lemma obj_get_mem: "obj_ok t \<Longrightarrow> obj_get t k = Some v \<longleftrightarrow> (k, v) \<in> set t"
  unfolding obj_get_def obj_ok_def
  by (rule map_of_eq_Some_iff) (simp add: strict_sorted_iff)

subsection \<open>The dictionary interface\<close>

locale js_object =
  fixes empty :: 'o
    and get :: "'o \<Rightarrow> 'k \<Rightarrow> 'v option"
    and set :: "'k \<Rightarrow> 'v \<Rightarrow> 'o \<Rightarrow> 'o"
    and del :: "'k \<Rightarrow> 'o \<Rightarrow> 'o"
    and ok :: "'o \<Rightarrow> bool"
  assumes ok_empty: "ok empty"
    and ok_set: "ok t \<Longrightarrow> ok (set k v t)"
    and ok_del: "ok t \<Longrightarrow> ok (del k t)"
    and get_empty: "get empty k = None"
    and get_set: "ok t \<Longrightarrow> get (set k v t) k' = (if k' = k then Some v else get t k')"
    and get_del: "ok t \<Longrightarrow> get (del k t) k' = (if k' = k then None else get t k')"
begin

lemma get_set_same: "ok t \<Longrightarrow> get (set k v t) k = Some v"
  by (simp add: get_set)

lemma del_set: "ok t \<Longrightarrow> get (del k (set k v t)) k' = get (del k t) k'"
  by (simp add: get_set get_del ok_set ok_del)

text \<open>Assigning a free key and deleting it later restores every lookup.\<close>

lemma set_del_fresh: "ok t \<Longrightarrow> get t k = None \<Longrightarrow> get (del k (set k v t)) k' = get t k'"
  by (simp add: get_set get_del ok_set)

lemma fold_del: "ok t \<Longrightarrow> get (fold del ks t) k = (if k \<in> List.set ks then None else get t k)
    \<and> ok (fold del ks t)"
  by (induction ks arbitrary: t) (auto simp: get_del ok_del)

end

interpretation msgs: js_object "[]" obj_get obj_set obj_del obj_ok
  by unfold_locales (simp_all add: obj_ok_def obj_get_def obj_get_set [unfolded obj_get_def]
      obj_set_ok [unfolded obj_ok_def] obj_del_ok [unfolded obj_ok_def] obj_get_del [unfolded obj_get_def])

text \<open>\<open>localStorage\<close>: \<open>setItem\<close>, \<open>getItem\<close> and \<open>removeItem\<close>.\<close>

definition getItem :: "('k \<times> 'v) list \<Rightarrow> 'k \<Rightarrow> 'v option" where
  "getItem st k = map_of st k"

definition setItem :: "'k \<Rightarrow> 'v \<Rightarrow> ('k \<times> 'v) list \<Rightarrow> ('k \<times> 'v) list" where
  "setItem k v st = AList.update k v st"

definition removeItem :: "'k \<Rightarrow> ('k \<times> 'v) list \<Rightarrow> ('k \<times> 'v) list" where
  "removeItem k st = AList.delete k st"

definition storage_ok :: "('k \<times> 'v) list \<Rightarrow> bool" where
  "storage_ok st \<longleftrightarrow> distinct (map fst st)"

interpretation storage: js_object "[]" getItem setItem removeItem storage_ok
  by unfold_locales (auto simp: getItem_def setItem_def removeItem_def storage_ok_def
      update_conv' delete_conv' distinct_update distinct_delete)

end
