(* ===== verification/Store.thy ===== *)
theory Store
  imports Framing Objects
begin

text \<open>
  The persistent form of in-flight messages: the bodies of \<open>store\<close> and \<open>restore\<close> of
  \<open>mqttws31.js\<close>, without the client state they are called on. A stored message is the object
  that goes through \<open>JSON.stringify\<close> and \<open>JSON.parse\<close>, which are inverse on such objects as
  long as the identifier is a number; payload bytes are written as two hexadecimal digits.
\<close>

record stored_message =
  s_type :: MESSAGE_TYPE
  s_messageIdentifier :: jsnum
  s_pubRecReceived :: bool
  s_payloadHex :: js_string
  s_qos :: int
  s_destinationName :: "js_string option"
  s_duplicate :: bool
  s_retained :: bool
  s_sequence :: "nat option"

subsection \<open>Hexadecimal payloads\<close>

definition hex_byte :: "8 word \<Rightarrow> js_string" where
  "hex_byte b =
     (if uint b \<le> 0xF then js ''0'' @ show_base 16 (unat b) else show_base 16 (unat b))"

definition hex_bytes :: "bytes \<Rightarrow> js_string" where
  "hex_bytes bs = concat (map hex_byte bs)"

text \<open>The loop runs to \<open>messageBytes.length\<close>, which an \<open>ArrayBuffer\<close> does not have.\<close>

fun payload_hex :: "array \<Rightarrow> js_string" where
  "payload_hex (Uint8Array b) = hex_bytes b"
| "payload_hex (ArrayBuffer b) = []"

definition hex_value :: "16 word \<Rightarrow> int option" where
  "hex_value u =
     (let c = uint u in
      if 48 \<le> c \<and> c \<le> 57 then Some (c - 48)
      else if 97 \<le> c \<and> c \<le> 102 then Some (c - 87)
      else if 65 \<le> c \<and> c \<le> 70 then Some (c - 55)
      else None)"

definition is_space :: "16 word \<Rightarrow> bool" where
  "is_space u \<longleftrightarrow>
     (let c = uint u in (9 \<le> c \<and> c \<le> 13) \<or> c = 32 \<or> c = 160 \<or> c = 0x1680 \<or>
        (0x2000 \<le> c \<and> c \<le> 0x200A) \<or> c = 0x2028 \<or> c = 0x2029 \<or> c = 0x202F \<or> c = 0x205F \<or>
        c = 0x3000 \<or> c = 0xFEFF)"

text \<open>\<open>parseInt\<close> with radix 16 on two characters: leading space and sign are skipped, the
  longest run of digits counts, no digit at all is \<open>NaN\<close>.\<close>

definition parseInt16 :: "16 word \<Rightarrow> 16 word \<Rightarrow> jsnum" where
  "parseInt16 a b =
     (case (hex_value a, hex_value b) of
        (Some x, Some y) \<Rightarrow> Num (16 * x + y)
      | (Some x, None) \<Rightarrow> Num x
      | (None, Some y) \<Rightarrow> (if is_space a \<or> uint a = 43 then Num y
                           else if uint a = 45 then Num (- y) else NaN)
      | (None, None) \<Rightarrow> NaN)"

fun unhex :: "js_string \<Rightarrow> bytes" where
  "unhex (a # b # hex) = to_byte (num_int (parseInt16 a b)) # unhex hex"
| "unhex _ = []"

subsection \<open>store and restore on one message\<close>

definition store_message :: "bool \<Rightarrow> nat \<Rightarrow> wire_message \<Rightarrow> (stored_message \<times> nat option \<times> nat) res" where
  "store_message is_sent seq w =
     (case mtype w of
        PUBLISH \<Rightarrow>
          bindr (deref (payloadMessage w)) (\<lambda>m.
          bindr (getPayloadBytes m) (\<lambda>messageBytes.
          let (wseq, seq') =
                (if is_sent
                 then (case sequence w of None \<Rightarrow> (Some (Suc seq), Suc seq) | Some n \<Rightarrow> (Some n, seq))
                 else (sequence w, seq)) in
          Inr (\<lparr>s_type = PUBLISH,
                s_messageIdentifier = (case messageIdentifier w of Some n \<Rightarrow> n | None \<Rightarrow> NaN),
                s_pubRecReceived = pubRecReceived w,
                s_payloadHex = payload_hex messageBytes,
                s_qos = qos m,
                s_destinationName = destinationName m,
                s_duplicate = duplicate m,
                s_retained = retained m,
                s_sequence = (if is_sent then wseq else None)\<rparr>, wseq, seq')))
      | _ \<Rightarrow> Inl ReferenceError)"

definition restore_message :: "js_string \<Rightarrow> bool \<Rightarrow> stored_message \<Rightarrow> wire_message res" where
  "restore_message key is_sent st =
     (case s_type st of
        PUBLISH \<Rightarrow>
          bindr (setQos (s_qos st) (Message (PArray (Uint8Array (unhex (s_payloadHex st)))))) (\<lambda>m.
          bindr (deref (s_destinationName st)) (\<lambda>d.
          let m = setDestinationName d m;
              m = (if s_duplicate st then setDuplicate True m else m);
              m = (if s_retained st then setRetained True m else m);
              m = (if is_sent then setDuplicate True m else m) in
          Inr ((WireMessage PUBLISH)\<lparr>messageIdentifier := Some (s_messageIdentifier st),
                 pubRecReceived := s_pubRecReceived st, sequence := s_sequence st,
                 payloadMessage := Some m\<rparr>)))
      | _ \<Rightarrow> Inl (InvalidStoredData key))"

subsection \<open>Hexadecimal is inverted\<close>

lemma digit_char_0: "js ''0'' = [digit_char 0]"
  by (simp add: js_def digit_char_def of_char_def)

lemma unat_byte_bound: "unat (b :: 8 word) < 256"
  by (rule order_less_le_trans [OF unsigned_less]) simp

lemma hex_byte_eq: "hex_byte b = [digit_char (unat b div 16), digit_char (unat b mod 16)]"
proof -
  have u: "uint b \<le> 0xF \<longleftrightarrow> unat b < 16"
    using uint_nat [of b] by linarith
  have d: "show_base 16 n = [digit_char n]" if "n < 16" for n
    using that by (subst show_base.simps) simp
  show ?thesis
  proof (cases "unat b < 16")
    case True
    then show ?thesis by (simp add: hex_byte_def u d digit_char_0)
  next
    case False
    have "unat b div 16 < 16" using unat_byte_bound [of b] by simp
    then have "show_base 16 (unat b) = [digit_char (unat b div 16), digit_char (unat b mod 16)]"
      using False d by (subst show_base.simps) simp
    with False show ?thesis by (simp add: hex_byte_def u)
  qed
qed

lemma hex_value_digit: "d < 16 \<Longrightarrow> hex_value (digit_char d) = Some (int d)"
  by (auto simp: hex_value_def uint_digit_char)

lemma unhex_hex_bytes: "unhex (hex_bytes bs) = bs"
proof (induction bs)
  case (Cons b bs)
  have "to_byte (16 * int (unat b div 16) + int (unat b mod 16)) = b"
  proof -
    have "16 * int (unat b div 16) + int (unat b mod 16) = int (unat b)"
      by (metis mult_div_mod_eq of_nat_add of_nat_mult of_nat_numeral)
    then show ?thesis by (simp add: to_byte_def)
  qed
  then show ?case
    using Cons unat_byte_bound [of b]
    by (simp add: hex_bytes_def hex_byte_eq parseInt16_def hex_value_digit)
qed (simp add: hex_bytes_def)

subsection \<open>Properties\<close>

text \<open>The message that comes back: the same, as bytes, with the duplicate flag of a resend.\<close>

definition restored :: "bool \<Rightarrow> wire_message \<Rightarrow> message \<Rightarrow> nat option \<Rightarrow> wire_message" where
  "restored is_sent w m wseq =
     (WireMessage PUBLISH)\<lparr>messageIdentifier := messageIdentifier w, pubRecReceived := pubRecReceived w,
       sequence := (if is_sent then wseq else None),
       payloadMessage := Some (m\<lparr>payload := PArray (Uint8Array (payload_bytes (payload m))),
                                   duplicate := is_sent \<or> duplicate m\<rparr>)\<rparr>"

definition storable :: "message \<Rightarrow> bool" where
  "storable m \<longleftrightarrow> wf_message m \<and> qos m \<in> {0, 1, 2} \<and>
     (case payload m of PArray (ArrayBuffer _) \<Rightarrow> False | _ \<Rightarrow> True)"

lemma storable_bytes:
  assumes "storable m"
  shows "getPayloadBytes m = Inr (Uint8Array (payload_bytes (payload m)))"
proof -
  from assms have wf: "wf_message m" by (simp add: storable_def)
  obtain a where a: "getPayloadBytes m = Inr a" "array_bytes a = payload_bytes (payload m)"
    using getPayloadBytes_ok [OF wf] by blast
  show ?thesis
    using a assms by (cases a)
      (auto simp: getPayloadBytes_def storable_def bindr_Inr_iff split: payload.splits array.splits)
qed

lemma store_restore:
  assumes "mtype w = PUBLISH" "payloadMessage w = Some m" "messageIdentifier w = Some n" "storable m"
    and "store_message is_sent seq w = Inr (st, wseq, seq')"
  shows "restore_message key is_sent st = Inr (restored is_sent w m wseq)"
proof -
  obtain d where d: "destinationName m = Some d"
    using assms(4) wf_message_destination by (auto simp: storable_def)
  have "st = \<lparr>s_type = PUBLISH, s_messageIdentifier = n, s_pubRecReceived = pubRecReceived w,
      s_payloadHex = hex_bytes (payload_bytes (payload m)), s_qos = qos m, s_destinationName = Some d,
      s_duplicate = duplicate m, s_retained = retained m, s_sequence = (if is_sent then wseq else None)\<rparr>"
    using assms d by (auto simp: store_message_def storable_bytes Let_def split: if_splits option.splits)
  then show ?thesis
    using assms(3,4) d
    by (auto simp: restore_message_def setQos_def Message_def unhex_hex_bytes restored_def Let_def
        setDestinationName_def setDuplicate_def setRetained_def WireMessage_def storable_def)
qed

text \<open>
  C28. An in-flight PUBLISH that is stored and read back after a restart is the same message:
  identifier, topic, payload bytes, QoS, retained flag, PUBREC state and sequence number, with
  the duplicate flag raised when it is one the client sent. (Payloads given as a plain
  \<open>ArrayBuffer\<close> are excluded: see \<open>arraybuffer_payload_lost\<close>.)
\<close>

theorem store_restore_roundtrip:
  assumes "mtype w = PUBLISH" "payloadMessage w = Some m" "messageIdentifier w = Some n" "storable m"
  shows "\<exists>st wseq seq'. store_message is_sent seq w = Inr (st, wseq, seq') \<and>
    restore_message key is_sent st = Inr (restored is_sent w m wseq)"
proof -
  have "\<exists>st wseq seq'. store_message is_sent seq w = Inr (st, wseq, seq')"
    using assms by (auto simp: store_message_def storable_bytes Let_def split: prod.splits)
  with store_restore [OF assms] show ?thesis by blast
qed

theorem store_restore_roundtrip_witness:
  "\<exists>st wseq seq'. store_message True 4 example_publish = Inr (st, wseq, seq') \<and>
    restore_message (js ''Sent:h:1:c:10'') True st =
      Inr (restored True example_publish (the (payloadMessage example_publish)) wseq)"
  using store_restore_roundtrip [of example_publish "the (payloadMessage example_publish)" "Num 10"
      True 4 "js ''Sent:h:1:c:10''"]
  by (simp add: example_publish_def WireMessage_def storable_def wf_message_def is_high_def)

text \<open>
  A message whose payload is an \<open>ArrayBuffer\<close> is persisted without its bytes: the loop bound
  \<open>messageBytes.length\<close> is undefined for it. After a restart the message that is sent again is
  empty.
\<close>

theorem arraybuffer_payload_lost:
  assumes "mtype w = PUBLISH" "payloadMessage w = Some m" "payload m = PArray (ArrayBuffer b)"
    and "destinationName m = Some d" "qos m \<in> {0, 1, 2}"
  shows "\<exists>st wseq seq' w' m'. store_message True seq w = Inr (st, wseq, seq') \<and>
    restore_message key True st = Inr w' \<and> payloadMessage w' = Some m' \<and>
    payload m' = PArray (Uint8Array [])"
  using assms
  by (auto simp: store_message_def getPayloadBytes_def restore_message_def setQos_def Message_def Let_def
      setDestinationName_def setDuplicate_def setRetained_def WireMessage_def split: option.splits)

definition example_buffer_publish :: wire_message where
  "example_buffer_publish =
     (WireMessage PUBLISH)\<lparr>messageIdentifier := Some (Num 3),
        payloadMessage := Some \<lparr>payload = PArray (ArrayBuffer [1, 2, 3]), destinationName = Some [0x61],
                                 qos = 1, retained = False, duplicate = False\<rparr>\<rparr>"

theorem arraybuffer_payload_lost_witness:
  "\<exists>st wseq seq' w' m'. store_message True 0 example_buffer_publish = Inr (st, wseq, seq') \<and>
    restore_message (js ''k'') True st = Inr w' \<and> payloadMessage w' = Some m' \<and>
    payload m' = PArray (Uint8Array [])"
  using arraybuffer_payload_lost [of example_buffer_publish "the (payloadMessage example_buffer_publish)"
      "[1, 2, 3]" "[0x61]" 0 "js ''k''"]
  by (simp add: example_buffer_publish_def WireMessage_def)

end
