(* ===== verification/Client.thy ===== *)
theory Client
  imports Store
begin

text \<open>
  The connection state machine \<open>ClientImpl\<close> of \<open>mqttws31.js\<close>: its fields as a record, every
  method that changes them as an action on that record. An action returns normally or
  throws, and keeps the changes made before a throw, as in the source.

  What the client does to its surroundings (sockets, callbacks) is appended to the field
  \<open>out\<close>. Timers are flags that say whether a timeout is pending; their firing, the events of
  the socket and the calls of the application are the inputs of \<open>client_step\<close>. Callbacks
  are taken not to call back into the client, and tracing is left to \<open>Trace\<close>.
\<close>

subsection \<open>State\<close>

datatype socket = Connecting | Open

record pinger =
  isReset :: bool
  interval :: int
  armed :: bool

record connect_options =
  uris :: "js_string list option"
  useSSL :: bool
  mqttVersionExplicit :: bool
  hasOnSuccess :: bool
  hasOnFailure :: bool
  connectFields :: connect_fields

datatype event =
    NewWebSocket js_string js_string
  | SocketSend bytes
  | SocketClose
  | MessageArrived "message option"
  | MessageDelivered "message option"
  | ConnectionLost nat js_string
  | ConnectSucceeded
  | ConnectFailed nat js_string
  | SubscribeSucceeded nat bytes
  | SubscribeFailed nat bytes
  | Unsubscribed nat
  | RequestTimedOut nat nat

record client =
  uri :: js_string
  localKey :: js_string
  cid :: js_string
  connected :: bool
  socket :: "socket option"
  connectOptions :: "connect_options option"
  hostIndex :: nat
  maxMessageIdentifier :: int
  message_identifier :: int
  msg_sequence :: nat
  msg_queue :: "wire_message list"
  sentMessages :: "wire_message table"
  receivedMessages :: "wire_message table"
  notify_msg_sent :: bool
  receiveBuffer :: "bytes option"
  sendPinger :: "pinger option"
  receivePinger :: "pinger option"
  connectTimeout :: bool
  timers :: "(nat \<times> nat option \<times> nat) list"
  nextTimer :: nat
  localStorage :: "(js_string \<times> stored_message) list"
  hasOnConnectionLost :: bool
  hasOnMessageDelivered :: bool
  hasOnMessageArrived :: bool
  out :: "event list"

subsection \<open>Actions\<close>

type_synonym 'a action = "client \<Rightarrow> 'a res \<times> client"

definition returnc :: "'a \<Rightarrow> 'a action" where
  "returnc x c = (Inr x, c)"

definition throwc :: "exn \<Rightarrow> 'a action" where
  "throwc e c = (Inl e, c)"

definition bindc :: "'a action \<Rightarrow> ('a \<Rightarrow> 'b action) \<Rightarrow> 'b action" where
  "bindc f g c = (case f c of (Inl e, c') \<Rightarrow> (Inl e, c') | (Inr x, c') \<Rightarrow> g x c')"

definition thenc :: "unit action \<Rightarrow> 'b action \<Rightarrow> 'b action" where
  "thenc f g = bindc f (\<lambda>_. g)"

definition modifyc :: "(client \<Rightarrow> client) \<Rightarrow> unit action" where
  "modifyc h c = (Inr (), h c)"

definition getc :: "(client \<Rightarrow> 'a action) \<Rightarrow> 'a action" where
  "getc f c = f c c"

definition liftc :: "'a res \<Rightarrow> 'a action" where
  "liftc r c = (r, c)"

definition catchc :: "unit action \<Rightarrow> (exn \<Rightarrow> unit action) \<Rightarrow> unit action" where
  "catchc f h c = (case f c of (Inl e, c') \<Rightarrow> h e c' | (Inr x, c') \<Rightarrow> (Inr x, c'))"

definition whenc :: "bool \<Rightarrow> unit action \<Rightarrow> unit action" where
  "whenc b f = (if b then f else returnc ())"

definition emit_event :: "event \<Rightarrow> unit action" where
  "emit_event e = modifyc (\<lambda>c. c\<lparr>out := out c @ [e]\<rparr>)"

fun eachc :: "('a \<Rightarrow> unit action) \<Rightarrow> 'a list \<Rightarrow> unit action" where
  "eachc f [] = returnc ()"
| "eachc f (x # xs) = thenc (f x) (eachc f xs)"

named_theorems action_defs \<open>definitions of the action combinators\<close>

lemmas action_simps [action_defs] =
  returnc_def throwc_def bindc_def thenc_def modifyc_def getc_def liftc_def catchc_def whenc_def
  emit_event_def

subsection \<open>Pinger and Timeout\<close>

definition new_pinger :: "int \<Rightarrow> pinger" where
  "new_pinger keepAlive = \<lparr>isReset = False, interval = keepAlive * 1000, armed = False\<rparr>"

definition pinger_reset :: "pinger \<Rightarrow> pinger" where
  "pinger_reset p = p\<lparr>isReset := True, armed := (interval p > 0)\<rparr>"

definition pinger_cancel :: "pinger \<Rightarrow> pinger" where
  "pinger_cancel p = p\<lparr>armed := False\<rparr>"

definition reset_sendPinger :: "unit action" where
  "reset_sendPinger =
     getc (\<lambda>c. case sendPinger c of
                 None \<Rightarrow> throwc TypeError
               | Some p \<Rightarrow> modifyc (\<lambda>c. c\<lparr>sendPinger := Some (pinger_reset p)\<rparr>))"

definition reset_receivePinger :: "unit action" where
  "reset_receivePinger =
     getc (\<lambda>c. case receivePinger c of
                 None \<Rightarrow> throwc TypeError
               | Some p \<Rightarrow> modifyc (\<lambda>c. c\<lparr>receivePinger := Some (pinger_reset p)\<rparr>))"

text \<open>A request timer: its number, the failure callback and the error code it reports.\<close>

definition start_timer :: "nat option \<Rightarrow> nat \<Rightarrow> nat action" where
  "start_timer cb code =
     getc (\<lambda>c. thenc (modifyc (\<lambda>c. c\<lparr>timers := timers c @ [(nextTimer c, cb, code)],
                                      nextTimer := Suc (nextTimer c)\<rparr>))
                 (returnc (nextTimer c)))"

definition cancel_timer :: "nat option \<Rightarrow> unit action" where
  "cancel_timer t =
     (case t of
        None \<Rightarrow> returnc ()
      | Some n \<Rightarrow> modifyc (\<lambda>c. c\<lparr>timers := filter (\<lambda>x. fst x \<noteq> n) (timers c)\<rparr>))"

subsection \<open>Connecting and disconnecting\<close>

definition ssl_url :: "js_string \<Rightarrow> js_string" where
  "ssl_url wsurl = js ''wss'' @ dropWhile (\<lambda>u. u \<noteq> 58) wsurl"

definition doConnect :: "js_string \<Rightarrow> unit action" where
  "doConnect wsurl =
     getc (\<lambda>c. case connectOptions c of
        None \<Rightarrow> throwc TypeError
      | Some opts \<Rightarrow>
          (let url = (if useSSL opts then ssl_url wsurl else wsurl);
               proto = (if mqttVersion (connectFields opts) < 4 then js ''mqttv3.1'' else js ''mqtt'');
               p = new_pinger (keepAliveInterval (connectFields opts)) in
           thenc (modifyc (\<lambda>c. c\<lparr>connected := False, socket := Some Connecting\<rparr>))
          (thenc (emit_event (NewWebSocket url proto))
                 (modifyc (\<lambda>c. c\<lparr>sendPinger := Some p, receivePinger := Some p,
                                  connectTimeout := True\<rparr>)))))"

text \<open>The cleanup half of \<open>_disconnected\<close>: timers, queues, socket.\<close>

definition cancel_pinger :: "pinger option \<Rightarrow> pinger option" where
  "cancel_pinger p = map_option pinger_cancel p"

definition drop_connection :: "unit action" where
  "drop_connection =
     getc (\<lambda>c.
       if sendPinger c = None \<or> receivePinger c = None then throwc TypeError
       else thenc (modifyc (\<lambda>c. c\<lparr>sendPinger := cancel_pinger (sendPinger c),
                                    receivePinger := cancel_pinger (receivePinger c),
                                    connectTimeout := False, msg_queue := [],
                                    notify_msg_sent := False\<rparr>))
           (thenc (whenc (socket c = Some Open) (emit_event SocketClose))
                  (modifyc (\<lambda>c. c\<lparr>socket := None\<rparr>))))"

definition connect_first :: "connect_options \<Rightarrow> unit action" where
  "connect_first opts =
     (case uris opts of
        Some us \<Rightarrow> thenc (modifyc (\<lambda>c. c\<lparr>hostIndex := 0\<rparr>))
                         (doConnect (case us of [] \<Rightarrow> js ''undefined'' | u # _ \<Rightarrow> u))
      | None \<Rightarrow> getc (\<lambda>c. doConnect (uri c)))"

text \<open>The callback half: no further host is tried.\<close>

definition report_disconnect :: "nat \<Rightarrow> js_string \<Rightarrow> unit action" where
  "report_disconnect errorCode errorText =
     getc (\<lambda>c. case connectOptions c of
        None \<Rightarrow> throwc TypeError
      | Some opts \<Rightarrow>
          if connected c
          then thenc (modifyc (\<lambda>c. c\<lparr>connected := False\<rparr>))
                     (whenc (hasOnConnectionLost c) (emit_event (ConnectionLost errorCode errorText)))
          else if mqttVersion (connectFields opts) = 4 \<and> \<not> mqttVersionExplicit opts
          then (let opts' = opts\<lparr>connectFields := (connectFields opts)\<lparr>mqttVersion := 3\<rparr>\<rparr> in
                thenc (modifyc (\<lambda>c. c\<lparr>connectOptions := Some opts'\<rparr>)) (connect_first opts'))
          else whenc (hasOnFailure opts) (emit_event (ConnectFailed errorCode errorText)))"

definition disconnected :: "(nat \<times> js_string) option \<Rightarrow> unit action" where
  "disconnected err =
     thenc drop_connection
     (getc (\<lambda>c. case connectOptions c of
        None \<Rightarrow> throwc TypeError
      | Some opts \<Rightarrow>
          (case uris opts of
             Some us \<Rightarrow>
               if hostIndex c + 1 < length us
               then thenc (modifyc (\<lambda>c. c\<lparr>hostIndex := hostIndex c + 1\<rparr>))
                          (doConnect (us ! (hostIndex c + 1)))
               else (case err of
                       None \<Rightarrow> report_disconnect (error_code OK) (format OK [])
                     | Some (code, text) \<Rightarrow> report_disconnect code text)
           | None \<Rightarrow>
               (case err of
                  None \<Rightarrow> report_disconnect (error_code OK) (format OK [])
                | Some (code, text) \<Rightarrow> report_disconnect code text))))"

definition fail_with :: "ERROR \<Rightarrow> js_string list \<Rightarrow> unit action" where
  "fail_with e args = disconnected (Some (error_code e, format e args))"

text \<open>
  The handlers that catch an exception report its message and stack trace. The texts of
  the engine's own errors and the stack trace differ between engines; they are not
  interpreted anywhere and stand here as fixed strings.
\<close>

fun exn_message :: "exn \<Rightarrow> js_string" where
  "exn_message (Error s) = s"
| "exn_message (InvalidStoredData k) = k"
| "exn_message TypeError = js ''TypeError''"
| "exn_message ReferenceError = js ''ReferenceError''"
| "exn_message RangeError = js ''RangeError''"
| "exn_message DOMException = js ''DOMException''"
| "exn_message (ThrownString s) = js ''undefined''"

definition internal_error :: "exn \<Rightarrow> unit action" where
  "internal_error e = fail_with INTERNAL_ERROR [exn_message e, js ''stack'']"

subsection \<open>Sending\<close>

definition socket_send :: "wire_message \<Rightarrow> unit action" where
  "socket_send w =
     getc (\<lambda>c. if socket c = None then throwc TypeError
       else bindc (liftc (encode w)) (\<lambda>b.
            if socket c = Some Connecting then throwc DOMException
            else thenc (emit_event (SocketSend b)) reset_sendPinger))"

text \<open>
  \<open>_process_queue\<close>. The queue is reversed in place and popped from its end, so \<open>msg_queue\<close>
  holds the unsent messages in reverse while the loop runs; \<open>aliased\<close> becomes false when
  \<open>_disconnected\<close> installs a new queue. All messages are the same property key in
  \<open>_notify_msg_sent\<close> (an object is converted to the string \<open>[object Object]\<close>), so the
  dictionary is one slot; it only ever holds the callback of \<open>disconnect\<close>.
\<close>

fun process_fifo :: "wire_message list \<Rightarrow> bool \<Rightarrow> unit action" where
  "process_fifo [] aliased = returnc ()"
| "process_fifo (m # rest) aliased =
     thenc (whenc aliased (modifyc (\<lambda>c. c\<lparr>msg_queue := rev rest\<rparr>)))
    (thenc (socket_send m)
    (getc (\<lambda>c. if notify_msg_sent c
               then thenc (disconnected None)
                   (thenc (modifyc (\<lambda>c. c\<lparr>notify_msg_sent := False\<rparr>)) (process_fifo rest False))
               else process_fifo rest aliased)))"

definition process_queue :: "unit action" where
  "process_queue =
     getc (\<lambda>c. thenc (modifyc (\<lambda>c. c\<lparr>msg_queue := rev (msg_queue c)\<rparr>))
                     (process_fifo (msg_queue c) True))"

definition schedule_message :: "wire_message \<Rightarrow> unit action" where
  "schedule_message m =
     thenc (modifyc (\<lambda>c. c\<lparr>msg_queue := msg_queue c @ [m]\<rparr>))
           (getc (\<lambda>c. whenc (connected c) process_queue))"

subsection \<open>Persistence\<close>

definition sent_prefix :: js_string where "sent_prefix = js ''Sent:''"
definition received_prefix :: js_string where "received_prefix = js ''Received:''"

definition storage_key :: "js_string \<Rightarrow> client \<Rightarrow> jsnum \<Rightarrow> js_string" where
  "storage_key prefix c n = prefix @ localKey c @ show_num 10 n"

definition ident :: "wire_message \<Rightarrow> jsnum" where
  "ident w = (case messageIdentifier w of Some n \<Rightarrow> n | None \<Rightarrow> NaN)"

text \<open>\<open>store\<close>: the sequence number it assigns is returned with the message.\<close>

definition store :: "js_string \<Rightarrow> wire_message \<Rightarrow> wire_message action" where
  "store prefix w =
     getc (\<lambda>c.
       bindc (liftc (store_message (prefix = sent_prefix) (msg_sequence c) w)) (\<lambda>(st, wseq, seq).
       thenc (modifyc (\<lambda>c. c\<lparr>msg_sequence := seq,
                              localStorage := setItem (storage_key prefix c (ident w)) st (localStorage c)\<rparr>))
             (returnc (w\<lparr>sequence := wseq\<rparr>))))"

definition remove_stored :: "js_string \<Rightarrow> jsnum \<Rightarrow> unit action" where
  "remove_stored prefix n =
     modifyc (\<lambda>c. c\<lparr>localStorage := removeItem (storage_key prefix c n) (localStorage c)\<rparr>)"

definition restore :: "js_string \<Rightarrow> unit action" where
  "restore key =
     getc (\<lambda>c. case getItem (localStorage c) key of
        None \<Rightarrow> throwc TypeError
      | Some st \<Rightarrow>
          (let is_sent = prefix_of (sent_prefix @ localKey c) key in
           bindc (liftc (restore_message key is_sent st)) (\<lambda>w.
           if is_sent
           then modifyc (\<lambda>c. c\<lparr>sentMessages := obj_set (ident w) w (sentMessages c)\<rparr>)
           else whenc (prefix_of (received_prefix @ localKey c) key)
                  (modifyc (\<lambda>c. c\<lparr>receivedMessages := obj_set (ident w) w (receivedMessages c)\<rparr>)))))"

text \<open>The constructor: empty state, then every key of this client in local storage is restored.\<close>

definition fresh_client ::
  "js_string \<Rightarrow> js_string \<Rightarrow> js_string \<Rightarrow> (js_string \<times> stored_message) list \<Rightarrow> client" where
  "fresh_client u key clientid st =
     \<lparr>uri = u, localKey = key, cid = clientid, connected = False, socket = None, connectOptions = None,
      hostIndex = 0, maxMessageIdentifier = 65536, message_identifier = 1, msg_sequence = 0,
      msg_queue = [], sentMessages = [], receivedMessages = [], notify_msg_sent = False,
      receiveBuffer = None, sendPinger = None, receivePinger = None, connectTimeout = False,
      timers = [], nextTimer = 0, localStorage = st, hasOnConnectionLost = False,
      hasOnMessageDelivered = False, hasOnMessageArrived = False, out = []\<rparr>"

definition own_key :: "js_string \<Rightarrow> js_string \<Rightarrow> bool" where
  "own_key lkey k \<longleftrightarrow> prefix_of (sent_prefix @ lkey) k \<or> prefix_of (received_prefix @ lkey) k"

definition local_key :: "js_string \<Rightarrow> jsnum \<Rightarrow> js_string \<Rightarrow> js_string \<Rightarrow> js_string" where
  "local_key host port path clientid =
     host @ js '':'' @ show_num 10 port @
     (if path \<noteq> js ''/mqtt'' then js '':'' @ path else []) @ js '':'' @ clientid @ js '':''"

definition ClientImpl ::
  "js_string \<Rightarrow> js_string \<Rightarrow> jsnum \<Rightarrow> js_string \<Rightarrow> js_string \<Rightarrow> (js_string \<times> stored_message) list
    \<Rightarrow> unit res \<times> client" where
  "ClientImpl u host port path clientid st =
     (let key = local_key host port path clientid in
      eachc restore (filter (own_key key) (map fst st)) (fresh_client u key clientid st))"

subsection \<open>Identifiers\<close>

text \<open>The search for a free identifier; it ends because the table is finite.\<close>

lemma keys_above_decrease:
  assumes "obj_get t (Num n) \<noteq> None"
  shows "card {k \<in> fst ` set t. Num (n + 1) \<le> k} < card {k \<in> fst ` set t. Num n \<le> k}"
proof (rule psubset_card_mono)
  have "Num n \<in> fst ` set t"
    using assms unfolding obj_get_def by (simp add: map_of_eq_None_iff)
  moreover have "\<not> Num (n + 1) \<le> Num n" by simp
  moreover have "Num (n + 1) \<le> k \<Longrightarrow> Num n \<le> k" for k by (cases k) simp_all
  ultimately show "{k \<in> fst ` set t. Num (n + 1) \<le> k} \<subset> {k \<in> fst ` set t. Num n \<le> k}"
    by (metis (mono_tags, lifting) mem_Collect_eq order_refl psubsetI subsetI)
qed simp

function next_free :: "'v table \<Rightarrow> int \<Rightarrow> int" where
  "next_free t n = (if obj_get t (Num n) \<noteq> None then next_free t (n + 1) else n)"
  by pat_completeness auto
termination
  by (relation "measure (\<lambda>(t, n). card {k \<in> fst ` set t. Num n \<le> k})")
    (auto intro!: keys_above_decrease)

declare next_free.simps [simp del]

definition requires_ack :: "wire_message \<Rightarrow> wire_message action" where
  "requires_ack wireMessage =
     getc (\<lambda>c.
       let messageCount = int (length (sentMessages c)) in
       if messageCount > maxMessageIdentifier c
       then throwc (Error (js ''Too many messages:'' @ show_int 10 messageCount))
       else (let n = next_free (sentMessages c) (message_identifier c);
                 w = wireMessage\<lparr>messageIdentifier := Some (Num n)\<rparr> in
             thenc (modifyc (\<lambda>c. c\<lparr>message_identifier := n,
                                     sentMessages := obj_set (Num n) w (sentMessages c)\<rparr>))
            (bindc (if mtype w = PUBLISH then store sent_prefix w else returnc w) (\<lambda>w'.
             thenc (modifyc (\<lambda>c. c\<lparr>sentMessages := obj_set (Num n) w' (sentMessages c),
                                     message_identifier := (if n = maxMessageIdentifier c then 1 else n)\<rparr>))
                   (returnc w')))))"

subsection \<open>Application calls\<close>

definition invalid_state :: "string \<Rightarrow> exn" where
  "invalid_state s = Error (format INVALID_STATE [js s])"

definition connectc :: "connect_options \<Rightarrow> unit action" where
  "connectc opts =
     getc (\<lambda>c. if connected c then throwc (invalid_state ''already connected'')
       else if socket c \<noteq> None then throwc (invalid_state ''already connected'')
       else thenc (modifyc (\<lambda>c. c\<lparr>connectOptions := Some opts\<rparr>)) (connect_first opts))"

text \<open>The callbacks of a client, once a function is assigned to them.\<close>

datatype handler = OnConnectionLost | OnMessageDelivered | OnMessageArrived

fun set_handler :: "handler \<Rightarrow> unit action" where
  "set_handler OnConnectionLost = modifyc (\<lambda>c. c\<lparr>hasOnConnectionLost := True\<rparr>)"
| "set_handler OnMessageDelivered = modifyc (\<lambda>c. c\<lparr>hasOnMessageDelivered := True\<rparr>)"
| "set_handler OnMessageArrived = modifyc (\<lambda>c. c\<lparr>hasOnMessageArrived := True\<rparr>)"

record request_options =
  r_qos :: "int option"
  r_onSuccess :: "nat option"
  r_onFailure :: "nat option"
  r_timeout :: bool

text \<open>\<open>new Timeout(..., onFailure, ...)\<close>; an undefined action throws when the timer fires.\<close>

definition request_timer :: "ERROR \<Rightarrow> request_options \<Rightarrow> nat option action" where
  "request_timer e opts =
     (if r_timeout opts
      then bindc (start_timer (r_onFailure opts) (error_code e)) (\<lambda>t. returnc (Some t))
      else returnc None)"

definition subscribe :: "js_string \<Rightarrow> request_options \<Rightarrow> unit action" where
  "subscribe topic opts =
     getc (\<lambda>c. if \<not> connected c then throwc (invalid_state ''not connected'')
       else bindc (request_timer SUBSCRIBE_TIMEOUT opts) (\<lambda>t.
            bindc (requires_ack ((WireMessage SUBSCRIBE)\<lparr>topics := [topic],
                     requestedQos := [case r_qos opts of Some q \<Rightarrow> q | None \<Rightarrow> 0],
                     onSuccess := r_onSuccess opts, onFailure := r_onFailure opts, timeOut := t\<rparr>)) (\<lambda>w.
            schedule_message w)))"

definition unsubscribe :: "js_string \<Rightarrow> request_options \<Rightarrow> unit action" where
  "unsubscribe topic opts =
     getc (\<lambda>c. if \<not> connected c then throwc (invalid_state ''not connected'')
       else bindc (request_timer UNSUBSCRIBE_TIMEOUT opts) (\<lambda>t.
            bindc (requires_ack ((WireMessage UNSUBSCRIBE)\<lparr>topics := [topic],
                     callback := r_onSuccess opts, timeOut := t\<rparr>)) (\<lambda>w.
            schedule_message w)))"

text \<open>At QoS 0 the delivery callback runs at once; its result replaces the notification slot.\<close>

definition send :: "message \<Rightarrow> unit action" where
  "send m =
     getc (\<lambda>c. if \<not> connected c then throwc (invalid_state ''not connected'')
       else (let w = (WireMessage PUBLISH)\<lparr>payloadMessage := Some m\<rparr> in
             if qos m > 0 then bindc (requires_ack w) schedule_message
             else thenc (whenc (hasOnMessageDelivered c)
                           (thenc (emit_event (MessageDelivered (Some m)))
                                  (modifyc (\<lambda>c. c\<lparr>notify_msg_sent := False\<rparr>))))
                        (schedule_message w)))"

definition disconnect :: "unit action" where
  "disconnect =
     getc (\<lambda>c. if socket c = None then throwc (invalid_state ''not connecting or connected'')
       else thenc (modifyc (\<lambda>c. c\<lparr>notify_msg_sent := True\<rparr>))
                  (schedule_message (WireMessage DISCONNECT)))"

subsection \<open>Incoming packets\<close>

definition receiveMessage :: "wire_message \<Rightarrow> unit action" where
  "receiveMessage w =
     getc (\<lambda>c. whenc (hasOnMessageArrived c) (emit_event (MessageArrived (payloadMessage w))))"

definition reply :: "MESSAGE_TYPE \<Rightarrow> jsnum \<Rightarrow> wire_message" where
  "reply t n = (WireMessage t)\<lparr>messageIdentifier := Some n\<rparr>"

definition receivePublish :: "wire_message \<Rightarrow> unit action" where
  "receivePublish w =
     bindc (liftc (deref (payloadMessage w))) (\<lambda>m.
       if qos m = 0 then receiveMessage w
       else if qos m = 1
       then thenc (schedule_message (reply PUBACK (ident w))) (receiveMessage w)
       else if qos m = 2
       then thenc (modifyc (\<lambda>c. c\<lparr>receivedMessages := obj_set (ident w) w (receivedMessages c)\<rparr>))
           (bindc (store received_prefix w) (\<lambda>_. schedule_message (reply PUBREC (ident w))))
       else throwc ReferenceError)"

text \<open>\<open>sort\<close> with the comparator \<open>a.sequence - b.sequence\<close>; a missing number compares equal.\<close>

definition seq_greater :: "wire_message \<Rightarrow> wire_message \<Rightarrow> bool" where
  "seq_greater a b =
     (case (sequence a, sequence b) of (Some x, Some y) \<Rightarrow> x > y | _ \<Rightarrow> False)"

fun insert_sequenced :: "wire_message \<Rightarrow> wire_message list \<Rightarrow> wire_message list" where
  "insert_sequenced x [] = [x]"
| "insert_sequenced x (y # ys) =
     (if seq_greater x y then y # insert_sequenced x ys else x # y # ys)"

definition sequencedMessages :: "wire_message table \<Rightarrow> wire_message list" where
  "sequencedMessages t = foldr insert_sequenced (map snd t) []"

definition resend :: "wire_message \<Rightarrow> unit action" where
  "resend w =
     schedule_message (if mtype w = PUBLISH \<and> pubRecReceived w then reply PUBREL (ident w) else w)"

definition clear_session :: "unit action" where
  "clear_session =
     getc (\<lambda>c. thenc (eachc (\<lambda>p. remove_stored sent_prefix (ident (snd p))) (sentMessages c))
              (thenc (modifyc (\<lambda>c. c\<lparr>sentMessages := []\<rparr>))
              (thenc (eachc (\<lambda>p. remove_stored received_prefix (ident (snd p))) (receivedMessages c))
                     (modifyc (\<lambda>c. c\<lparr>receivedMessages := []\<rparr>)))))"

definition connack_text :: "jsnum \<Rightarrow> js_string list" where
  "connack_text rc =
     [show_num 10 rc, js (case rc of Num n \<Rightarrow> CONNACK_RC (nat n) | NaN \<Rightarrow> ''undefined'')]"

definition handle_connack :: "wire_message \<Rightarrow> unit action" where
  "handle_connack w =
     thenc (modifyc (\<lambda>c. c\<lparr>connectTimeout := False\<rparr>))
    (getc (\<lambda>c. case connectOptions c of
        None \<Rightarrow> throwc TypeError
      | Some opts \<Rightarrow>
          thenc (whenc (cleanSession (connectFields opts)) clear_session)
          (let rc = (case returnCode w of Some (ReturnCode n) \<Rightarrow> n | _ \<Rightarrow> NaN) in
           if rc = Num 0
           then thenc (modifyc (\<lambda>c. c\<lparr>connected := True,
                          hostIndex := (case uris opts of Some us \<Rightarrow> length us | None \<Rightarrow> hostIndex c)\<rparr>))
               (thenc (getc (\<lambda>c. eachc resend (sequencedMessages (sentMessages c))))
               (thenc (whenc (hasOnSuccess opts) (emit_event ConnectSucceeded))
                      process_queue))
           else fail_with CONNACK_RETURNCODE (connack_text rc))))"

definition with_sent :: "wire_message \<Rightarrow> (wire_message \<Rightarrow> unit action) \<Rightarrow> unit action" where
  "with_sent w f =
     getc (\<lambda>c. case obj_get (sentMessages c) (ident w) of None \<Rightarrow> returnc () | Some s \<Rightarrow> f s)"

definition forget_sent :: "wire_message \<Rightarrow> unit action" where
  "forget_sent w = modifyc (\<lambda>c. c\<lparr>sentMessages := obj_del (ident w) (sentMessages c)\<rparr>)"

text \<open>For a message that is not a PUBLISH the callback gets \<open>undefined\<close>.\<close>

definition notify_delivered :: "wire_message \<Rightarrow> unit action" where
  "notify_delivered s =
     getc (\<lambda>c. whenc (hasOnMessageDelivered c) (emit_event (MessageDelivered (payloadMessage s))))"

definition handle_puback :: "wire_message \<Rightarrow> unit action" where
  "handle_puback w =
     with_sent w (\<lambda>s. thenc (forget_sent w)
       (thenc (remove_stored sent_prefix (ident w)) (notify_delivered s)))"

definition handle_pubrec :: "wire_message \<Rightarrow> unit action" where
  "handle_pubrec w =
     with_sent w (\<lambda>s. let s' = s\<lparr>pubRecReceived := True\<rparr> in
       thenc (modifyc (\<lambda>c. c\<lparr>sentMessages := obj_set (ident w) s' (sentMessages c)\<rparr>))
      (bindc (store sent_prefix s') (\<lambda>s''.
       thenc (modifyc (\<lambda>c. c\<lparr>sentMessages := obj_set (ident w) s'' (sentMessages c)\<rparr>))
             (schedule_message (reply PUBREL (ident w))))))"

definition handle_pubrel :: "wire_message \<Rightarrow> unit action" where
  "handle_pubrel w =
     getc (\<lambda>c. thenc (remove_stored received_prefix (ident w))
       (thenc (case obj_get (receivedMessages c) (ident w) of
                 None \<Rightarrow> returnc ()
               | Some r \<Rightarrow> thenc (receiveMessage r)
                   (modifyc (\<lambda>c. c\<lparr>receivedMessages := obj_del (ident w) (receivedMessages c)\<rparr>)))
              (schedule_message (reply PUBCOMP (ident w)))))"

definition handle_pubcomp :: "wire_message \<Rightarrow> unit action" where
  "handle_pubcomp w =
     getc (\<lambda>c. thenc (forget_sent w)
       (thenc (remove_stored sent_prefix (ident w))
       (if hasOnMessageDelivered c
        then (case obj_get (sentMessages c) (ident w) of
                None \<Rightarrow> throwc TypeError
              | Some s \<Rightarrow> notify_delivered s)
        else returnc ())))"

definition handle_suback :: "wire_message \<Rightarrow> unit action" where
  "handle_suback w =
     with_sent w (\<lambda>s.
       thenc (cancel_timer (timeOut s))
      (thenc (case returnCode w of
                Some (ReturnCodes codes) \<Rightarrow>
                  if codes \<noteq> [] \<and> hd codes = 0x80
                  then (case onFailure s of Some f \<Rightarrow> emit_event (SubscribeFailed f codes) | None \<Rightarrow> returnc ())
                  else (case onSuccess s of Some f \<Rightarrow> emit_event (SubscribeSucceeded f codes) | None \<Rightarrow> returnc ())
              | _ \<Rightarrow> throwc TypeError)
             (forget_sent w)))"

definition handle_unsuback :: "wire_message \<Rightarrow> unit action" where
  "handle_unsuback w =
     with_sent w (\<lambda>s.
       thenc (cancel_timer (timeOut s))
      (thenc (case callback s of Some f \<Rightarrow> emit_event (Unsubscribed f) | None \<Rightarrow> returnc ())
             (forget_sent w)))"

definition dispatch :: "wire_message \<Rightarrow> unit action" where
  "dispatch w =
     (case mtype w of
        CONNACK \<Rightarrow> handle_connack w
      | PUBLISH \<Rightarrow> receivePublish w
      | PUBACK \<Rightarrow> handle_puback w
      | PUBREC \<Rightarrow> handle_pubrec w
      | PUBREL \<Rightarrow> handle_pubrel w
      | PUBCOMP \<Rightarrow> handle_pubcomp w
      | SUBACK \<Rightarrow> handle_suback w
      | UNSUBACK \<Rightarrow> handle_unsuback w
      | PINGRESP \<Rightarrow> reset_sendPinger
      | _ \<Rightarrow> fail_with INVALID_MQTT_MESSAGE_TYPE [show_int 10 (type_code (mtype w))])"

definition handleMessage :: "wire_message \<Rightarrow> unit action" where
  "handleMessage w = catchc (dispatch w) internal_error"

subsection \<open>Socket events and timers\<close>

definition on_socket_open :: "unit action" where
  "on_socket_open =
     thenc (modifyc (\<lambda>c. c\<lparr>socket := Some Open\<rparr>))
    (getc (\<lambda>c. case connectOptions c of
        None \<Rightarrow> throwc TypeError
      | Some opts \<Rightarrow> socket_send ((WireMessage CONNECT)
                       \<lparr>connect := Some ((connectFields opts)\<lparr>clientId := cid c\<rparr>)\<rparr>)))"

text \<open>
  When deframing throws, the connection is dropped and \<open>messages\<close> is \<open>undefined\<close>, so that
  reading its length throws again.
\<close>

definition on_socket_message :: "bytes \<Rightarrow> unit action" where
  "on_socket_message data =
     thenc reset_receivePinger
    (getc (\<lambda>c. case deframeMessages (receiveBuffer c) data of
        Inl e \<Rightarrow> thenc (modifyc (\<lambda>c. c\<lparr>receiveBuffer := None\<rparr>))
                   (thenc (internal_error e) (throwc TypeError))
      | Inr (messages, buf) \<Rightarrow>
          thenc (modifyc (\<lambda>c. c\<lparr>receiveBuffer := buf\<rparr>)) (eachc handleMessage messages)))"

definition on_socket_error :: "js_string \<Rightarrow> unit action" where
  "on_socket_error data = fail_with SOCKET_ERROR [data]"

definition on_socket_close :: "unit action" where
  "on_socket_close = fail_with SOCKET_CLOSE []"

text \<open>\<open>doPing\<close> of the two pingers; the timer that fired is no longer pending.\<close>

definition pingreq_bytes :: bytes where
  "pingreq_bytes = [0xC0, 0]"

definition ping_now :: "unit action" where
  "ping_now =
     getc (\<lambda>c. case socket c of
        None \<Rightarrow> throwc TypeError
      | Some Connecting \<Rightarrow> throwc DOMException
      | Some Open \<Rightarrow> emit_event (SocketSend pingreq_bytes))"

definition sendPinger_fires :: "unit action" where
  "sendPinger_fires =
     getc (\<lambda>c. case sendPinger c of
        None \<Rightarrow> throwc TypeError
      | Some p \<Rightarrow>
          thenc (modifyc (\<lambda>c. c\<lparr>sendPinger := Some (p\<lparr>armed := False\<rparr>)\<rparr>))
          (if \<not> isReset p then fail_with PING_TIMEOUT []
           else thenc (modifyc (\<lambda>c. c\<lparr>sendPinger := Some (p\<lparr>armed := False, isReset := False\<rparr>)\<rparr>))
               (thenc ping_now
                      (modifyc (\<lambda>c. c\<lparr>sendPinger := Some (p\<lparr>armed := True, isReset := False\<rparr>)\<rparr>)))))"

definition receivePinger_fires :: "unit action" where
  "receivePinger_fires =
     getc (\<lambda>c. case receivePinger c of
        None \<Rightarrow> throwc TypeError
      | Some p \<Rightarrow>
          thenc (modifyc (\<lambda>c. c\<lparr>receivePinger := Some (p\<lparr>armed := False\<rparr>)\<rparr>))
          (if \<not> isReset p then fail_with PING_TIMEOUT []
           else thenc (modifyc (\<lambda>c. c\<lparr>receivePinger := Some (p\<lparr>armed := False, isReset := False\<rparr>)\<rparr>))
               (thenc ping_now
                      (modifyc (\<lambda>c. c\<lparr>receivePinger := Some (p\<lparr>armed := True, isReset := False\<rparr>)\<rparr>)))))"

definition connectTimeout_fires :: "unit action" where
  "connectTimeout_fires =
     thenc (modifyc (\<lambda>c. c\<lparr>connectTimeout := False\<rparr>)) (fail_with CONNECT_TIMEOUT [])"

definition timer_fires :: "nat \<Rightarrow> unit action" where
  "timer_fires n =
     getc (\<lambda>c. case List.find (\<lambda>t. fst t = n) (timers c) of
        None \<Rightarrow> returnc ()
      | Some (_, cb, code) \<Rightarrow>
          thenc (modifyc (\<lambda>c. c\<lparr>timers := filter (\<lambda>t. fst t \<noteq> n) (timers c)\<rparr>))
                (case cb of None \<Rightarrow> throwc TypeError | Some f \<Rightarrow> emit_event (RequestTimedOut f code)))"

lemma pingreq_encode: "encode (WireMessage PINGREQ) = Inr pingreq_bytes"
  by (simp add: encode_ok wf_wire_def WireMessage_def wire_body_def header_bytes_def ident_bytes_def
      content_bytes_def first_byte_def encodeMBI_def eval_nat_numeral push_bit_eq_mult to_byte_def pingreq_bytes_def)

end
