(* ===== verification/Client_Invariants.thy ===== *)
theory Client_Invariants
  imports Client
begin

text \<open>
  Steps of the client and the invariants of its reachable states. \<open>keeps P f\<close> says that the
  action \<open>f\<close> preserves \<open>P\<close> whether it returns or throws; the rules in \<open>keeps_intros\<close> follow
  the structure of the actions.
\<close>

named_theorems keeps_intros \<open>preservation rules for actions\<close>

subsection \<open>Preservation\<close>

definition keeps :: "(client \<Rightarrow> bool) \<Rightarrow> 'a action \<Rightarrow> bool" where
  "keeps P f \<longleftrightarrow> (\<forall>c. P c \<longrightarrow> P (snd (f c)))"

lemma keepsD: "keeps P f \<Longrightarrow> P c \<Longrightarrow> P (snd (f c))"
  by (simp add: keeps_def)

lemma keepsI: "(\<And>c. P c \<Longrightarrow> P (snd (f c))) \<Longrightarrow> keeps P f"
  by (simp add: keeps_def)

lemma keeps_return [keeps_intros]: "keeps P (returnc x)"
  by (simp add: keeps_def returnc_def)

lemma keeps_throw [keeps_intros]: "keeps P (throwc e)"
  by (simp add: keeps_def throwc_def)

lemma keeps_lift [keeps_intros]: "keeps P (liftc r)"
  by (simp add: keeps_def liftc_def)

lemma keeps_bind [keeps_intros]: "keeps P f \<Longrightarrow> (\<And>x. keeps P (g x)) \<Longrightarrow> keeps P (bindc f g)"
  by (fastforce simp: keeps_def bindc_def split: prod.splits sum.splits)

lemma keeps_then [keeps_intros]: "keeps P f \<Longrightarrow> keeps P g \<Longrightarrow> keeps P (thenc f g)"
  by (simp add: thenc_def keeps_bind)

lemma keeps_when [keeps_intros]: "(b \<Longrightarrow> keeps P f) \<Longrightarrow> keeps P (whenc b f)"
  by (simp add: whenc_def keeps_return)

lemma keeps_catch [keeps_intros]: "keeps P f \<Longrightarrow> (\<And>e. keeps P (h e)) \<Longrightarrow> keeps P (catchc f h)"
  by (fastforce simp: keeps_def catchc_def split: prod.splits sum.splits)

lemma keeps_each [keeps_intros]: "(\<And>x. x \<in> set xs \<Longrightarrow> keeps P (f x)) \<Longrightarrow> keeps P (eachc f xs)"
  by (induction xs) (auto intro: keeps_intros)

lemma keeps_modify: "(\<And>c. P c \<Longrightarrow> P (h c)) \<Longrightarrow> keeps P (modifyc h)"
  by (simp add: keeps_def modifyc_def)

text \<open>Reading the state: the continuation is run in the state that was read.\<close>

lemma keeps_get: "(\<And>c. P c \<Longrightarrow> P (snd (f c c))) \<Longrightarrow> keeps P (getc f)"
  by (simp add: keeps_def getc_def)

lemma keeps_get_any [keeps_intros]: "(\<And>c. keeps P (f c)) \<Longrightarrow> keeps P (getc f)"
  by (simp add: keeps_def getc_def)

lemma keeps_if [keeps_intros]: "(b \<Longrightarrow> keeps P f) \<Longrightarrow> (\<not> b \<Longrightarrow> keeps P g) \<Longrightarrow> keeps P (if b then f else g)"
  by simp

lemma keeps_case_option [keeps_intros]:
  "(x = None \<Longrightarrow> keeps P f) \<Longrightarrow> (\<And>y. x = Some y \<Longrightarrow> keeps P (g y)) \<Longrightarrow>
    keeps P (case x of None \<Rightarrow> f | Some y \<Rightarrow> g y)"
  by (cases x) simp_all

lemma keeps_case_prod [keeps_intros]:
  "(\<And>a b. x = (a, b) \<Longrightarrow> keeps P (f a b)) \<Longrightarrow> keeps P (case x of (a, b) \<Rightarrow> f a b)"
  by (cases x) simp

subsection \<open>The connection invariant\<close>

definition pinger_idle :: "pinger option \<Rightarrow> bool" where
  "pinger_idle p \<longleftrightarrow> (case p of None \<Rightarrow> True | Some q \<Rightarrow> \<not> armed q)"

text \<open>
  Without a socket no keep-alive timer and no connect timer is pending, and nothing is
  marked connected; with one, the pingers and the connect options exist.
\<close>

definition conn_inv :: "client \<Rightarrow> bool" where
  "conn_inv c \<longleftrightarrow>
     (if socket c = None
      then pinger_idle (sendPinger c) \<and> pinger_idle (receivePinger c) \<and> \<not> connectTimeout c \<and> \<not> connected c
      else sendPinger c \<noteq> None \<and> receivePinger c \<noteq> None \<and> connectOptions c \<noteq> None)"

lemma conn_inv_frame:
  "conn_inv c \<Longrightarrow> socket c' = socket c \<Longrightarrow> sendPinger c' = sendPinger c \<Longrightarrow>
   receivePinger c' = receivePinger c \<Longrightarrow> connectTimeout c' = connectTimeout c \<Longrightarrow>
   connected c' = connected c \<Longrightarrow> connectOptions c' = connectOptions c \<Longrightarrow> conn_inv c'"
  by (simp add: conn_inv_def)

lemma keeps_conn_modify [keeps_intros]:
  assumes "\<And>c. socket (h c) = socket c" "\<And>c. sendPinger (h c) = sendPinger c"
    "\<And>c. receivePinger (h c) = receivePinger c" "\<And>c. connectTimeout (h c) = connectTimeout c"
    "\<And>c. connected (h c) = connected c" "\<And>c. connectOptions (h c) = connectOptions c"
  shows "keeps conn_inv (modifyc h)"
  by (rule keeps_modify) (erule conn_inv_frame, simp_all add: assms)

lemma keeps_emit [keeps_intros]: "keeps conn_inv (emit_event e)"
  unfolding emit_event_def by (intro keeps_intros) simp_all

lemma keeps_doConnect [keeps_intros]: "keeps conn_inv (doConnect u)"
  by (rule keepsI) (auto simp: doConnect_def action_defs Let_def conn_inv_def split: option.split if_splits)

lemma keeps_connect_first [keeps_intros]: "keeps conn_inv (connect_first opts)"
  unfolding connect_first_def by (intro keeps_intros) simp_all

lemma pinger_idle_cancel [simp]: "pinger_idle (cancel_pinger p)"
  by (cases p) (simp_all add: pinger_idle_def cancel_pinger_def pinger_cancel_def)

text \<open>After the cleanup half there is no socket, and the flag \<open>connected\<close> is still to be reset.\<close>

definition dropped :: "client \<Rightarrow> bool" where
  "dropped c \<longleftrightarrow> socket c = None \<and> pinger_idle (sendPinger c) \<and> pinger_idle (receivePinger c) \<and>
     \<not> connectTimeout c \<and> connectOptions c \<noteq> None"

lemma drop_connection_cases:
  obtains (throws) e where "drop_connection c = (Inl e, c)"
  | (drops) c' where "drop_connection c = (Inr (), c')" "connectOptions c' = connectOptions c"
      "socket c' = None" "pinger_idle (sendPinger c')" "pinger_idle (receivePinger c')"
      "\<not> connectTimeout c'" "connected c' = connected c"
proof (cases "sendPinger c = None \<or> receivePinger c = None")
  case True
  then show ?thesis by (auto simp: drop_connection_def getc_def throwc_def intro: throws)
next
  case False
  then have "drop_connection c = (Inr (), c\<lparr>sendPinger := cancel_pinger (sendPinger c),
      receivePinger := cancel_pinger (receivePinger c), connectTimeout := False, msg_queue := [],
      notify_msg_sent := False, out := out c @ (if socket c = Some Open then [SocketClose] else []), socket := None\<rparr>)"
    by (auto simp: drop_connection_def action_defs)
  then show ?thesis by (rule drops) simp_all
qed

lemma doConnect_dropped: "dropped c \<Longrightarrow> conn_inv (snd (doConnect u c))"
  by (simp add: doConnect_def action_defs Let_def conn_inv_def dropped_def split: option.split)
    auto

lemma dropped_update [simp]: "dropped (c\<lparr>hostIndex := n\<rparr>) = dropped c"
  by (simp add: dropped_def)

lemma connect_first_dropped: "dropped c \<Longrightarrow> conn_inv (snd (connect_first opts c))"
  by (auto simp: connect_first_def action_defs doConnect_dropped split: option.split)

lemma report_disconnect_inv: "dropped c \<Longrightarrow> conn_inv (snd (report_disconnect e t c))"
proof (cases "connectOptions c")
  case (Some opts)
  assume d: "dropped c"
  have 1: "dropped (c\<lparr>connectOptions := Some o'\<rparr>)" for o'
    using d by (simp add: dropped_def)
  have 2: "\<not> connected c' \<Longrightarrow> dropped c' \<Longrightarrow> conn_inv c'" for c'
    by (simp add: conn_inv_def dropped_def)
  have 3: "dropped (c\<lparr>connected := b\<rparr>)" "dropped (c\<lparr>out := l\<rparr>)" "dropped (c\<lparr>connected := b, out := l\<rparr>)" for b l
    using d by (simp_all add: dropped_def)
  show ?thesis
    by (simp add: report_disconnect_def action_defs Some Let_def connect_first_dropped 1 2 3 d)
qed (simp add: dropped_def)

lemma keeps_disconnected [keeps_intros]: "keeps conn_inv (disconnected err)"
proof (rule keepsI)
  fix c assume inv: "conn_inv c"
  show "conn_inv (snd (disconnected err c))"
  proof (cases c rule: drop_connection_cases)
    case (throws e)
    then show ?thesis using inv by (simp add: disconnected_def action_defs)
  next
    case (drops c')
    show ?thesis
    proof (cases "connectOptions c'")
      case None
      then show ?thesis using drops inv
        by (simp add: disconnected_def action_defs conn_inv_def split: if_splits)
    next
      case (Some opts)
      then have "dropped c'" using drops by (simp add: dropped_def)
      then show ?thesis using drops(1) Some
        by (auto simp: disconnected_def action_defs report_disconnect_inv doConnect_dropped
            split: option.split prod.split)
    qed
  qed
qed

lemma keeps_fail_with [keeps_intros]: "keeps conn_inv (fail_with e a)"
  unfolding fail_with_def by (intro keeps_intros)

lemma keeps_internal_error [keeps_intros]: "keeps conn_inv (internal_error e)"
  unfolding internal_error_def by (intro keeps_intros)

lemma keeps_socket_send [keeps_intros]: "keeps conn_inv (socket_send w)"
  by (rule keepsI)
    (auto simp: socket_send_def action_defs conn_inv_def reset_sendPinger_def split: option.split sum.split if_splits)

lemma keeps_process_fifo [keeps_intros]: "keeps conn_inv (process_fifo ms a)"
  by (induction ms arbitrary: a) (auto intro!: keeps_intros)

lemma keeps_process_queue [keeps_intros]: "keeps conn_inv process_queue"
  unfolding process_queue_def by (intro keeps_intros) simp_all

lemma keeps_schedule [keeps_intros]: "keeps conn_inv (schedule_message m)"
  unfolding schedule_message_def by (intro keeps_intros) simp_all

lemma keeps_store [keeps_intros]: "keeps conn_inv (store p w)"
  unfolding store_def by (intro keeps_intros) simp_all

lemma keeps_remove_stored [keeps_intros]: "keeps conn_inv (remove_stored p n)"
  unfolding remove_stored_def by (intro keeps_intros) simp_all

lemma keeps_requires_ack [keeps_intros]: "keeps conn_inv (requires_ack w)"
  unfolding requires_ack_def Let_def by (intro keeps_intros) simp_all

lemma keeps_start_timer [keeps_intros]: "keeps conn_inv (start_timer cb n)"
  unfolding start_timer_def by (intro keeps_intros) simp_all

lemma keeps_cancel_timer [keeps_intros]: "keeps conn_inv (cancel_timer t)"
  unfolding cancel_timer_def by (intro keeps_intros) simp_all

lemma keeps_request_timer [keeps_intros]: "keeps conn_inv (request_timer e opts)"
  unfolding request_timer_def by (intro keeps_intros)

lemma keeps_subscribe: "keeps conn_inv (subscribe t opts)"
  unfolding subscribe_def by (intro keeps_intros)

lemma keeps_unsubscribe: "keeps conn_inv (unsubscribe t opts)"
  unfolding unsubscribe_def by (intro keeps_intros)

lemma keeps_send: "keeps conn_inv (send m)"
  unfolding send_def Let_def by (intro keeps_intros) simp_all

lemma keeps_disconnect: "keeps conn_inv disconnect"
  unfolding disconnect_def by (intro keeps_intros) simp_all

lemma keeps_receiveMessage [keeps_intros]: "keeps conn_inv (receiveMessage m)"
  unfolding receiveMessage_def by (intro keeps_intros)

lemma keeps_receivePublish [keeps_intros]: "keeps conn_inv (receivePublish m)"
  unfolding receivePublish_def by (intro keeps_intros) simp_all

lemma keeps_with_sent [keeps_intros]: "(\<And>s. keeps conn_inv (f s)) \<Longrightarrow> keeps conn_inv (with_sent m f)"
  unfolding with_sent_def by (intro keeps_intros)

lemma keeps_forget_sent [keeps_intros]: "keeps conn_inv (forget_sent m)"
  unfolding forget_sent_def by (intro keeps_intros) simp_all

lemma keeps_notify_delivered [keeps_intros]: "keeps conn_inv (notify_delivered m)"
  unfolding notify_delivered_def by (intro keeps_intros)

lemma keeps_resend [keeps_intros]: "keeps conn_inv (resend m)"
  unfolding resend_def by (intro keeps_intros)

lemma keeps_clear_session [keeps_intros]: "keeps conn_inv clear_session"
  unfolding clear_session_def by (intro keeps_intros) simp_all

lemma keeps_case_return_code [keeps_intros]:
  "(\<And>n. r = ReturnCode n \<Longrightarrow> keeps P (f n)) \<Longrightarrow> (\<And>cs. r = ReturnCodes cs \<Longrightarrow> keeps P (g cs)) \<Longrightarrow>
    keeps P (case r of ReturnCode n \<Rightarrow> f n | ReturnCodes cs \<Rightarrow> g cs)"
  by (cases r) simp_all

lemma keeps_acks [keeps_intros]: 
  "keeps conn_inv (handle_puback w)" "keeps conn_inv (handle_pubrec w)" "keeps conn_inv (handle_pubrel w)"
  "keeps conn_inv (handle_pubcomp w)" "keeps conn_inv (handle_unsuback w)" "keeps conn_inv (handle_suback w)"
  unfolding handle_puback_def handle_pubrec_def handle_pubrel_def handle_pubcomp_def handle_unsuback_def
    handle_suback_def Let_def
  by (intro keeps_intros; simp)+

definition live :: "client \<Rightarrow> bool" where
  "live c \<longleftrightarrow> conn_inv c \<and> socket c \<noteq> None"

lemma keeps_live_modify:
  assumes "\<And>c. socket (h c) = socket c" "\<And>c. sendPinger (h c) = sendPinger c"
    "\<And>c. receivePinger (h c) = receivePinger c" "\<And>c. connectOptions (h c) = connectOptions c"
  shows "keeps live (modifyc h)"
  by (rule keeps_modify) (auto simp: assms live_def conn_inv_def)

lemma keeps_live_clear_session: "keeps live clear_session"
  unfolding clear_session_def remove_stored_def by (intro keeps_intros keeps_live_modify) simp_all

lemma keeps_live_resets: "keeps live reset_sendPinger" "keeps live reset_receivePinger"
  by (rule keepsI; auto simp: reset_sendPinger_def reset_receivePinger_def action_defs live_def conn_inv_def
      split: option.splits)+

definition leads :: "(client \<Rightarrow> bool) \<Rightarrow> (client \<Rightarrow> bool) \<Rightarrow> 'a action \<Rightarrow> bool" where
  "leads P Q f \<longleftrightarrow> (\<forall>c. P c \<longrightarrow> Q (snd (f c)))"

lemma leads_then: "keeps P f \<Longrightarrow> leads P Q g \<Longrightarrow> (\<And>c. P c \<Longrightarrow> Q c) \<Longrightarrow> leads P Q (thenc f g)"
  by (fastforce simp: keeps_def leads_def thenc_def bindc_def split: prod.splits sum.splits)

lemma leads_keeps: "keeps Q f \<Longrightarrow> (\<And>c. P c \<Longrightarrow> Q c) \<Longrightarrow> leads P Q f"
  by (simp add: keeps_def leads_def)

lemma leads_get: "(\<And>c. leads P Q (f c)) \<Longrightarrow> leads P Q (getc f)"
  by (simp add: leads_def getc_def)

lemma live_conn_inv: "live c \<Longrightarrow> conn_inv c"
  by (simp add: live_def)

lemma leads_case_option:
  "leads P Q f \<Longrightarrow> (\<And>y. leads P Q (g y)) \<Longrightarrow> leads P Q (case x of None \<Rightarrow> f | Some y \<Rightarrow> g y)"
  by (cases x) simp_all

lemma leads_if: "leads P Q f \<Longrightarrow> leads P Q g \<Longrightarrow> leads P Q (if b then f else g)"
  by simp

lemma leads_connack: "leads live conn_inv (handle_connack w)"
proof -
  have conn: "keeps live (modifyc (\<lambda>c. c\<lparr>connected := True, hostIndex := f c\<rparr>))" for f
    by (rule keeps_live_modify) simp_all
  have clear: "keeps live (whenc b clear_session)" for b
    by (intro keeps_intros keeps_live_clear_session)
  have rest: "keeps conn_inv (thenc (getc (\<lambda>c. eachc resend (sequencedMessages (sentMessages c))))
               (thenc (whenc b (emit_event ConnectSucceeded)) process_queue))" for b
    by (intro keeps_intros)
  show ?thesis
    unfolding handle_connack_def Let_def
    by (intro leads_then leads_get leads_case_option leads_if conn clear live_conn_inv
        leads_keeps [OF rest] leads_keeps [OF keeps_fail_with] leads_keeps [OF keeps_throw] keeps_live_modify)
      simp_all
qed

lemma leads_dispatch: "leads live conn_inv (dispatch w)"
proof -
  have reset: "leads live conn_inv reset_sendPinger"
    using keepsD [OF keeps_live_resets(1)] live_conn_inv by (auto simp: leads_def)
  have other: "keeps conn_inv f \<Longrightarrow> leads live conn_inv f" for f :: "unit action"
    by (rule leads_keeps) (auto intro: live_conn_inv)
  show ?thesis
    unfolding dispatch_def by (cases "mtype w") (simp_all add: leads_connack reset other keeps_intros)
qed

lemma handleMessage_live: "live c \<Longrightarrow> conn_inv (snd (handleMessage w c))"
  using leads_dispatch [of w] keepsD [OF keeps_internal_error]
  by (fastforce simp: leads_def handleMessage_def catchc_def split: prod.split sum.split)

lemma keeps_live_pinger:
  "keeps live (modifyc (\<lambda>c. c\<lparr>sendPinger := Some p\<rparr>))"
  "keeps live (modifyc (\<lambda>c. c\<lparr>receivePinger := Some p\<rparr>))"
  "keeps live (modifyc (\<lambda>c. c\<lparr>connectTimeout := b\<rparr>))"
  "keeps live (modifyc (\<lambda>c. c\<lparr>socket := Some s\<rparr>))"
  "keeps live (modifyc (\<lambda>c. c\<lparr>receiveBuffer := buf\<rparr>))"
  by (rule keeps_modify; auto simp: live_def conn_inv_def)+

lemma keeps_live_ping: "keeps live ping_now"
  by (rule keepsI) (auto simp: ping_now_def action_defs live_def conn_inv_def split: option.splits socket.splits)

lemma leads_fail: "leads live conn_inv (fail_with e a)"
  by (rule leads_keeps [OF keeps_fail_with live_conn_inv])

lemma leads_throw: "leads live conn_inv (throwc e)"
  by (rule leads_keeps [OF keeps_throw live_conn_inv])

lemma leads_live: "keeps live f \<Longrightarrow> leads live conn_inv f"
  by (simp add: leads_def keeps_def live_conn_inv)

lemmas leads_live_intros =
  leads_then leads_get leads_if leads_case_option live_conn_inv keeps_live_pinger keeps_live_ping
  leads_fail leads_throw

lemma leads_open: "leads live conn_inv on_socket_open"
  unfolding on_socket_open_def
  by (intro leads_live_intros leads_keeps [OF keeps_socket_send])

lemma leads_pingers:
  "leads live conn_inv sendPinger_fires" "leads live conn_inv receivePinger_fires"
  unfolding sendPinger_fires_def receivePinger_fires_def
  by (auto intro!: leads_live_intros leads_live [OF keeps_live_pinger(1)] leads_live [OF keeps_live_pinger(2)])

lemma leads_drop:
  "leads live conn_inv (on_socket_error d)" "leads live conn_inv on_socket_close"
  "leads live conn_inv connectTimeout_fires"
  unfolding on_socket_error_def on_socket_close_def connectTimeout_fires_def
  by (auto intro!: leads_live_intros)

lemma eachc_single: "eachc f [x] = f x"
  by (rule ext) (auto simp: action_defs split: prod.split sum.split)

lemma on_socket_message_live:
  assumes live: "live c"
    and one: "\<And>ms buf. deframeMessages (receiveBuffer c) data = Inr (ms, buf) \<Longrightarrow> length ms \<le> 1" 
  shows "conn_inv (snd (on_socket_message data c))"
proof -
  obtain p where p: "receivePinger c = Some p" using live by (auto simp: live_def conn_inv_def split: if_splits)
  define c1 where "c1 = c\<lparr>receivePinger := Some (pinger_reset p)\<rparr>"
  have run: "on_socket_message data c = (case deframeMessages (receiveBuffer c) data of
        Inl e \<Rightarrow> thenc (internal_error e) (throwc TypeError) (c1\<lparr>receiveBuffer := None\<rparr>)
      | Inr (messages, buf) \<Rightarrow> eachc handleMessage messages (c1\<lparr>receiveBuffer := buf\<rparr>))"
    by (simp add: on_socket_message_def reset_receivePinger_def p c1_def action_defs split: sum.split)
  have live1: "live (c1\<lparr>receiveBuffer := b\<rparr>)" for b
    using live by (auto simp: c1_def live_def conn_inv_def)
  show ?thesis
  proof (cases "deframeMessages (receiveBuffer c) data")
    case (Inl e)
    have "keeps conn_inv (thenc (internal_error e) (throwc TypeError) :: unit action)" by (intro keeps_intros)
    from keepsD [OF this live_conn_inv [OF live1]] show ?thesis by (simp add: run Inl)
  next
    case (Inr r)
    obtain ms buf where r: "r = (ms, buf)" by (cases r)
    then have "ms = [] \<or> (\<exists>w. ms = [w])" using one Inr by (cases ms) auto
    then show ?thesis
      using handleMessage_live [OF live1] live_conn_inv [OF live1]
      by (auto simp: run Inr r returnc_def eachc_single simp del: eachc.simps(2))
  qed
qed

subsection \<open>Steps\<close>

datatype input =
    Set_handler handler
  | Call_connect connect_options
  | Call_subscribe js_string request_options
  | Call_unsubscribe js_string request_options
  | Call_send message
  | Call_disconnect
  | Socket_opened
  | Socket_data bytes
  | Socket_error js_string
  | Socket_closed
  | Send_ping
  | Receive_ping
  | Connect_timeout
  | Request_timeout nat

fun perform :: "input \<Rightarrow> unit action" where
  "perform (Set_handler h) = set_handler h"
| "perform (Call_connect opts) = connectc opts"
| "perform (Call_subscribe t opts) = subscribe t opts"
| "perform (Call_unsubscribe t opts) = unsubscribe t opts"
| "perform (Call_send m) = send m"
| "perform Call_disconnect = disconnect"
| "perform Socket_opened = on_socket_open"
| "perform (Socket_data d) = on_socket_message d"
| "perform (Socket_error d) = on_socket_error d"
| "perform Socket_closed = on_socket_close"
| "perform Send_ping = sendPinger_fires"
| "perform Receive_ping = receivePinger_fires"
| "perform Connect_timeout = connectTimeout_fires"
| "perform (Request_timeout n) = timer_fires n"

definition pinger_armed :: "pinger option \<Rightarrow> bool" where
  "pinger_armed p = (case p of None \<Rightarrow> False | Some q \<Rightarrow> armed q)"

fun enabled :: "input \<Rightarrow> client \<Rightarrow> bool" where
  "enabled Socket_opened c \<longleftrightarrow> socket c = Some Connecting"
| "enabled (Socket_data d) c \<longleftrightarrow> socket c = Some Open"
| "enabled (Socket_error d) c \<longleftrightarrow> socket c \<noteq> None"
| "enabled Socket_closed c \<longleftrightarrow> socket c \<noteq> None"
| "enabled Send_ping c \<longleftrightarrow> pinger_armed (sendPinger c)"
| "enabled Receive_ping c \<longleftrightarrow> pinger_armed (receivePinger c)"
| "enabled Connect_timeout c \<longleftrightarrow> connectTimeout c"
| "enabled (Request_timeout n) c \<longleftrightarrow> n \<in> fst ` set (timers c)"
| "enabled _ c \<longleftrightarrow> True"

inductive reachable :: "(input \<Rightarrow> client \<Rightarrow> bool) \<Rightarrow> client \<Rightarrow> client \<Rightarrow> bool" for ok c0 where
  start: "reachable ok c0 c0"
| step: "reachable ok c0 c \<Longrightarrow> enabled i c \<Longrightarrow> ok i c \<Longrightarrow> reachable ok c0 (snd (perform i c))"

fun one_packet :: "input \<Rightarrow> client \<Rightarrow> bool" where
  "one_packet (Socket_data d) c =
     (case deframeMessages (receiveBuffer c) d of Inr (ms, _) \<Rightarrow> length ms \<le> 1 | Inl _ \<Rightarrow> True)"
| "one_packet _ c = True"

fun run :: "input list \<Rightarrow> client \<Rightarrow> client" where
  "run [] c = c"
| "run (i # is) c = run is (snd (perform i c))"

fun all_steps :: "(input \<Rightarrow> client \<Rightarrow> bool) \<Rightarrow> input list \<Rightarrow> client \<Rightarrow> bool" where
  "all_steps ok [] c \<longleftrightarrow> True"
| "all_steps ok (i # is) c \<longleftrightarrow> enabled i c \<and> ok i c \<and> all_steps ok is (snd (perform i c))"

lemma reachable_run: "reachable ok c0 c \<Longrightarrow> all_steps ok is c \<Longrightarrow> reachable ok c0 (run is c)"
  by (induction "is" arbitrary: c) (auto intro: reachable.step)

lemma armed_live:
  assumes "conn_inv c"
  shows "pinger_armed (sendPinger c) \<Longrightarrow> live c" "pinger_armed (receivePinger c) \<Longrightarrow> live c"
    "connectTimeout c \<Longrightarrow> live c" "socket c = Some s \<Longrightarrow> live c"
  using assms by (auto simp: live_def conn_inv_def pinger_armed_def pinger_idle_def split: option.splits if_splits)

lemma leadsD: "leads P Q f \<Longrightarrow> P c \<Longrightarrow> Q (snd (f c))"
  by (simp add: leads_def)

lemma keeps_connect: "keeps conn_inv (connectc opts)"
proof (rule keepsI)
  fix c assume inv: "conn_inv c"
  have "conn_inv (snd (connect_first opts (c\<lparr>connectOptions := Some opts\<rparr>)))" if "socket c = None"
    using inv that by (intro keepsD [OF keeps_connect_first]) (simp add: conn_inv_def)
  then show "conn_inv (snd (connectc opts c))" using inv
    by (simp add: connectc_def action_defs)
qed

lemma keeps_set_handler: "keeps conn_inv (set_handler h)"
  by (cases h; simp only: set_handler.simps) (rule keeps_conn_modify; simp)+

lemma keeps_timer_fires: "keeps conn_inv (timer_fires n)"
  unfolding timer_fires_def by (intro keeps_intros) simp_all

lemma perform_conn_inv:
  assumes inv: "conn_inv c" and en: "enabled i c" and one: "one_packet i c"
  shows "conn_inv (snd (perform i c))"
proof (cases i)
  case (Socket_data d)
  then have "live c" using en armed_live(4) [OF inv] by simp
  then show ?thesis using on_socket_message_live [of c d] one Socket_data
    by (auto split: sum.splits)
qed (use inv en armed_live [OF inv] in \<open>auto intro: keepsD [OF keeps_set_handler] keepsD [OF keeps_connect] keepsD [OF keeps_subscribe]
    keepsD [OF keeps_unsubscribe] keepsD [OF keeps_send] keepsD [OF keeps_disconnect]
    keepsD [OF keeps_timer_fires] leadsD [OF leads_open] leadsD [OF leads_pingers(1)] leadsD [OF leads_pingers(2)]
    leadsD [OF leads_drop(1)] leadsD [OF leads_drop(2)] leadsD [OF leads_drop(3)]\<close>)

lemma fresh_conn_inv: "conn_inv (fresh_client u key i st)"
  by (simp add: fresh_client_def conn_inv_def pinger_idle_def)

lemma keeps_restore: "keeps conn_inv (restore k)"
  unfolding restore_def Let_def by (intro keeps_intros) simp_all

lemma ClientImpl_conn_inv: "conn_inv (snd (ClientImpl u h p path i st))"
  unfolding ClientImpl_def Let_def
  by (rule keepsD) (intro keeps_each keeps_restore fresh_conn_inv)+


text \<open>A client and options for the examples: MQTT 3.1, clean session, one host.\<close>

definition plain_connect :: connect_fields where
  "plain_connect = \<lparr>mqttVersion = 3, clientId = [], willMessage = None, userName = None, password = None,
     cleanSession = True, keepAliveInterval = 60\<rparr>"

definition plain_options :: connect_options where
  "plain_options = \<lparr>uris = None, useSSL = False, mqttVersionExplicit = True, hasOnSuccess = True, hasOnFailure = True,
     connectFields = plain_connect\<rparr>"
definition plain_client :: client where
  "plain_client = snd (ClientImpl (js ''ws://h:80/mqtt'') (js ''h'') (Num 80) (js ''/mqtt'') (js ''me'') [])"

subsection \<open>Properties\<close>

text \<open>
  C5: In every state reached from the constructor, with callbacks assigned or not, when each chunk of
  the socket completes at most one packet, a client without a socket has neither a keep-alive
  timer nor the connect timer pending and is not marked connected, and one with a socket has its
  pingers and options. (The timers of subscribe requests are not part of it: they outlive a connection.)
\<close>

theorem reachable_conn_inv:
  "reachable one_packet (snd (ClientImpl u h p path i st)) c \<Longrightarrow> conn_inv c"
  by (induction rule: reachable.induct) (auto intro: ClientImpl_conn_inv perform_conn_inv)

lemma plain_run_one_packet:
  "all_steps one_packet [Set_handler OnConnectionLost, Call_connect plain_options, Socket_opened, Socket_data [0x20, 2, 0, 0],
     Socket_closed] plain_client"
  by code_simp

theorem reachable_conn_inv_witness:
  "reachable one_packet plain_client (run [Set_handler OnConnectionLost, Call_connect plain_options, Socket_opened,
     Socket_data [0x20, 2, 0, 0], Socket_closed] plain_client) \<and>
   conn_inv (run [Set_handler OnConnectionLost, Call_connect plain_options, Socket_opened,
     Socket_data [0x20, 2, 0, 0], Socket_closed] plain_client)"
  using reachable_conn_inv reachable_run [OF reachable.start plain_run_one_packet]
  unfolding plain_client_def by blast

text \<open>
  C30: The loop over the packets of one chunk goes on after a packet that drops the connection. When
  a client that waits for its CONNACK receives, in one chunk, a packet that a server may not send and
  a CONNACK that accepts, it closes the socket and reports the failure, and then it reports success:
  it is marked connected without a socket, no timer is left that would notice, and it can
  neither connect again nor disconnect. (The client resumes no session, and has no other host or
  protocol version left to try.)
\<close>

definition client_packets :: "MESSAGE_TYPE set" where
  "client_packets = {CONNECT, SUBSCRIBE, UNSUBSCRIBE, PINGREQ, DISCONNECT}"

definition awaits_connack :: "connect_options \<Rightarrow> client \<Rightarrow> bool" where
  "awaits_connack opts c \<longleftrightarrow>
     socket c = Some Open \<and> \<not> connected c \<and> connectOptions c = Some opts \<and> receiveBuffer c = None \<and>
     sendPinger c \<noteq> None \<and> receivePinger c \<noteq> None"

definition last_attempt :: "connect_options \<Rightarrow> client \<Rightarrow> bool" where
  "last_attempt opts c \<longleftrightarrow>
     (case uris opts of None \<Rightarrow> True | Some us \<Rightarrow> length us \<le> Suc (hostIndex c)) \<and>
     \<not> (mqttVersion (connectFields opts) = 4 \<and> \<not> mqttVersionExplicit opts)"

lemma two_packets:
  assumes "t \<in> client_packets" "0 \<le> f" "f < 16" "length body < 2 ^ 28" "0 \<le> g" "g < 16"
  shows "deframeMessages None (frame (first_of t f) body @ frame (first_of CONNACK g) [flags, rc]) =
    Inr ([WireMessage t, (WireMessage CONNACK)\<lparr>sessionPresent := (uint flags AND 1 \<noteq> 0),
           returnCode := Some (ReturnCode (Num (uint rc)))\<rparr>], None)"
proof -
  let ?x = "frame (first_of t f) body" and ?y = "frame (first_of CONNACK g) [flags, rc]"
  have "decodeMessage ([] @ ?x @ ?y) (length ([] :: bytes)) = Inr (Some (WireMessage t), length ([] :: bytes) + length ?x)"
    by (rule decode_frame_via) (use assms in \<open>auto simp: client_packets_def decode_body_def\<close>)
  moreover have "decodeMessage (?x @ ?y @ []) (length ?x) =
      Inr (Some ((WireMessage CONNACK)\<lparr>sessionPresent := (uint flags AND 1 \<noteq> 0),
        returnCode := Some (ReturnCode (Num (uint rc)))\<rparr>), length ?x + length ?y)"
    by (rule server_packet_decode [OF server_packet.connack [OF assms(5,6)]])
  moreover have "?x \<noteq> []" "?y \<noteq> []" by (simp_all add: frame_def)
  ultimately show ?thesis
    by (simp add: deframeMessages_def concat_buffer_def rest_buffer_def deframe_loop.simps [of _ 0]
        deframe_loop.simps [of _ "length ?x"] deframe_loop.simps [of _ "length ?x + length ?y"])
qed

lemma reject_packet:
  assumes "awaits_connack opts c" "last_attempt opts c" "t \<in> client_packets"
  shows "\<exists>c'. handleMessage (WireMessage t) c = (Inr (), c') \<and>
    c' = c\<lparr>sendPinger := cancel_pinger (sendPinger c), receivePinger := cancel_pinger (receivePinger c),
      connectTimeout := False, msg_queue := [], notify_msg_sent := False, socket := None,
      out := out c @ [SocketClose] @ (if hasOnFailure opts
        then [ConnectFailed (error_code INVALID_MQTT_MESSAGE_TYPE) (format INVALID_MQTT_MESSAGE_TYPE [show_int 10 (type_code t)])] else [])\<rparr>"
proof -
  have "dispatch (WireMessage t) = fail_with INVALID_MQTT_MESSAGE_TYPE [show_int 10 (type_code t)]"
    using assms(3) by (auto simp: client_packets_def dispatch_def WireMessage_def)
  then show ?thesis using assms(1,2)
    by (auto simp: handleMessage_def awaits_connack_def last_attempt_def fail_with_def disconnected_def drop_connection_def
        report_disconnect_def action_defs split: option.splits)
qed

lemma eachc_remove:
  "\<exists>st. eachc (\<lambda>p. remove_stored pre (ident (snd p))) t c = (Inr (), c\<lparr>localStorage := st\<rparr>)"
proof (induction t arbitrary: c)
  case (Cons p t)
  from Cons.IH [of "snd (remove_stored pre (ident (snd p)) c)"] show ?case
    by (auto simp: remove_stored_def action_defs)
next
  case Nil
  show ?case by (rule exI [of _ "localStorage c"]) (simp add: action_defs)
qed

lemma clear_session_run:
  "\<exists>st. clear_session c = (Inr (), c\<lparr>sentMessages := [], localStorage := st, receivedMessages := []\<rparr>)"
proof -
  obtain st where 1: "eachc (\<lambda>p. remove_stored sent_prefix (ident (snd p))) (sentMessages c) c = (Inr (), c\<lparr>localStorage := st\<rparr>)"
    using eachc_remove by blast
  obtain st' where "eachc (\<lambda>p. remove_stored received_prefix (ident (snd p))) (receivedMessages c)
      (c\<lparr>localStorage := st, sentMessages := []\<rparr>) = (Inr (), (c\<lparr>localStorage := st, sentMessages := []\<rparr>)\<lparr>localStorage := st'\<rparr>)"
    using eachc_remove by blast
  with 1 show ?thesis by (auto simp: clear_session_def action_defs)
qed

lemma accept_without_socket:
  assumes "connectOptions c = Some opts" "msg_queue c = []" "cleanSession (connectFields opts) \<or> sentMessages c = []"
  shows "\<exists>c'. handle_connack ((WireMessage CONNACK)\<lparr>sessionPresent := sp, returnCode := Some (ReturnCode (Num 0))\<rparr>) c = (Inr (), c') \<and>
    connected c' \<and> socket c' = socket c \<and> sendPinger c' = sendPinger c \<and> receivePinger c' = receivePinger c \<and>
    \<not> connectTimeout c' \<and> out c' = out c @ (if hasOnSuccess opts then [ConnectSucceeded] else [])"
proof -
  obtain st where "clear_session (c\<lparr>connectTimeout := False\<rparr>) =
      (Inr (), c\<lparr>connectTimeout := False, sentMessages := [], localStorage := st, receivedMessages := []\<rparr>)"
    using clear_session_run [of "c\<lparr>connectTimeout := False\<rparr>"] by auto
  then show ?thesis using assms
    by (auto simp: handle_connack_def WireMessage_def Let_def action_defs sequencedMessages_def process_queue_def)
qed

theorem connected_without_socket:
  assumes "awaits_connack opts c" "last_attempt opts c"
    and "cleanSession (connectFields opts) \<or> sentMessages c = []"
    and "t \<in> client_packets" "0 \<le> f" "f < 16" "length body < 2 ^ 28" "0 \<le> g" "g < 16"
  shows "\<exists>c' txt. perform (Socket_data (frame (first_of t f) body @ frame (first_of CONNACK g) [flags, 0])) c = (Inr (), c') \<and>
    connected c' \<and> socket c' = None \<and>
    out c' = out c @ [SocketClose] @
      (if hasOnFailure opts then [ConnectFailed (error_code INVALID_MQTT_MESSAGE_TYPE) txt] else []) @
      (if hasOnSuccess opts then [ConnectSucceeded] else []) \<and>
    \<not> pinger_armed (sendPinger c') \<and> \<not> pinger_armed (receivePinger c') \<and> \<not> connectTimeout c' \<and>
    (\<forall>other. perform (Call_connect other) c' = (Inl (invalid_state ''already connected''), c')) \<and>
    perform Call_disconnect c' = (Inl (invalid_state ''not connecting or connected''), c')"
proof -
  obtain p where p: "receivePinger c = Some p" "receiveBuffer c = None"
    using assms(1) by (auto simp: awaits_connack_def)
  define c1 where "c1 = c\<lparr>receivePinger := Some (pinger_reset p), receiveBuffer := None\<rparr>"
  have c1: "awaits_connack opts c1" "last_attempt opts c1" "sentMessages c1 = sentMessages c" "out c1 = out c"
    using assms(1,2) by (simp_all add: c1_def awaits_connack_def last_attempt_def split: option.splits)
  let ?ack = "(WireMessage CONNACK)\<lparr>sessionPresent := (uint flags AND 1 \<noteq> 0), returnCode := Some (ReturnCode (Num 0))\<rparr>"
  have run: "perform (Socket_data (frame (first_of t f) body @ frame (first_of CONNACK g) [flags, 0])) c =
      eachc handleMessage [WireMessage t, ?ack] c1"
    using two_packets [OF assms(4-9), of flags 0] p
    by (simp add: on_socket_message_def reset_receivePinger_def getc_def thenc_def bindc_def modifyc_def c1_def
        del: eachc.simps)
  obtain c2 where c2: "handleMessage (WireMessage t) c1 = (Inr (), c2)" "connectOptions c2 = Some opts" "msg_queue c2 = []"
    "sentMessages c2 = sentMessages c" "socket c2 = None" "\<not> pinger_armed (sendPinger c2)" "\<not> pinger_armed (receivePinger c2)"
    "out c2 = out c @ [SocketClose] @ (if hasOnFailure opts
        then [ConnectFailed (error_code INVALID_MQTT_MESSAGE_TYPE) (format INVALID_MQTT_MESSAGE_TYPE [show_int 10 (type_code t)])] else [])"
    using reject_packet [OF c1(1,2) assms(4)] c1
    by (auto simp: awaits_connack_def pinger_armed_def cancel_pinger_def pinger_cancel_def split: option.splits)
  obtain c3 where c3: "handle_connack ?ack c2 = (Inr (), c3)" "connected c3" "socket c3 = None" "sendPinger c3 = sendPinger c2"
    "receivePinger c3 = receivePinger c2" "\<not> connectTimeout c3"
    "out c3 = out c2 @ (if hasOnSuccess opts then [ConnectSucceeded] else [])"
    using accept_without_socket [OF c2(2,3)] assms(3) c2(4,5) by metis
  have "handleMessage ?ack c2 = (Inr (), c3)"
    using c3(1) by (simp add: handleMessage_def dispatch_def WireMessage_def catchc_def)
  then have "eachc handleMessage [WireMessage t, ?ack] c1 = (Inr (), c3)"
    using c2(1) by (simp add: thenc_def bindc_def returnc_def)
  moreover have "perform (Call_connect other) c3 = (Inl (invalid_state ''already connected''), c3)" for other
    using c3(2) by (simp add: connectc_def action_defs)
  moreover have "perform Call_disconnect c3 = (Inl (invalid_state ''not connecting or connected''), c3)"
    using c3(3) by (simp add: disconnect_def action_defs)
  ultimately show ?thesis using c2 c3 run by auto
qed

lemma plain_awaits:
  "awaits_connack plain_options (run [Call_connect plain_options, Socket_opened] plain_client)"
  "last_attempt plain_options (run [Call_connect plain_options, Socket_opened] plain_client)"
  by code_simp+

theorem connected_without_socket_witness:
  "\<exists>c'. perform (Socket_data (frame (first_of CONNECT 0) [] @ frame (first_of CONNACK 0) [0, 0]))
      (run [Call_connect plain_options, Socket_opened] plain_client) = (Inr (), c') \<and> connected c' \<and> socket c' = None"
  using connected_without_socket [OF plain_awaits, of CONNECT 0 "[]" 0 0]
  by (auto simp: client_packets_def plain_options_def plain_connect_def)

end
