(* ===== verification/Api.thy ===== *)
theory Api
  imports Client_Invariants
begin

text \<open>
  The public classes \<open>Paho.MQTT.Client\<close> and \<open>Paho.MQTT.Message\<close> of \<open>mqttws31.js\<close>: argument
  checking, the URI of the server, and the normalisation of the connect options. Arguments
  are dynamically typed values; a function value carries an identity and its source text,
  and has no declared parameters.
\<close>

subsection \<open>Values\<close>

datatype val =
    Undefined | Null
  | Boolean bool
  | Number jsnum
  | Str js_string
  | Func nat js_string
  | Arr "val list"
  | Binary array
  | Msg message
  | Obj "(js_string \<times> val) list"

fun type_of :: "val \<Rightarrow> string" where
  "type_of Undefined = ''undefined''"
| "type_of (Boolean _) = ''boolean''"
| "type_of (Number _) = ''number''"
| "type_of (Str _) = ''string''"
| "type_of (Func _ _) = ''function''"
| "type_of _ = ''object''"

fun truthy :: "val \<Rightarrow> bool" where
  "truthy Undefined = False"
| "truthy Null = False"
| "truthy (Boolean b) = b"
| "truthy (Number n) = (n \<noteq> NaN \<and> n \<noteq> Num 0)"
| "truthy (Str s) = (s \<noteq> [])"
| "truthy _ = True"

fun join :: "js_string list \<Rightarrow> js_string" where
  "join [] = []"
| "join [x] = x"
| "join (x # xs) = x @ js '','' @ join xs"

text \<open>Conversion to a string, as \<open>+\<close> does it.\<close>

fun to_text :: "val \<Rightarrow> js_string" where
  "to_text Undefined = js ''undefined''"
| "to_text Null = js ''null''"
| "to_text (Boolean b) = js (if b then ''true'' else ''false'')"
| "to_text (Number n) = show_num 10 n"
| "to_text (Str s) = s"
| "to_text (Func _ src) = src"
| "to_text (Arr vs) = join (map (\<lambda>v. if v = Undefined \<or> v = Null then [] else to_text v) vs)"
| "to_text (Binary (Uint8Array b)) = join (map (\<lambda>x. show_int 10 (uint x)) b)"
| "to_text (Binary (ArrayBuffer b)) = js ''[object ArrayBuffer]''"
| "to_text (Msg _) = js ''[object Object]''"
| "to_text (Obj _) = js ''[object Object]''"

type_synonym obj = "(js_string \<times> val) list"

definition get_prop :: "obj \<Rightarrow> string \<Rightarrow> val" where
  "get_prop ob k = (case map_of ob (js k) of None \<Rightarrow> Undefined | Some v \<Rightarrow> v)"

definition set_prop :: "string \<Rightarrow> val \<Rightarrow> obj \<Rightarrow> obj" where
  "set_prop k v ob =
     (if map_of ob (js k) = None then ob @ [(js k, v)]
      else map (\<lambda>(k', w). (k', if k' = js k then v else w)) ob)"

text \<open>
  The enumerable own properties of \<open>options || {}\<close>. Strings and arrays have their indices;
  the first property of a \<open>Message\<close> is the method \<open>_getPayloadString\<close>, which no option list
  allows, so that the others are never looked at.
\<close>

definition index_props :: "val list \<Rightarrow> obj" where
  "index_props vs = map (\<lambda>(i, v). (show_base 10 i, v)) (enumerate 0 vs)"

fun own_props :: "val \<Rightarrow> obj" where
  "own_props (Obj ob) = ob"
| "own_props (Str s) = index_props (map (\<lambda>u. Str [u]) s)"
| "own_props (Arr vs) = index_props vs"
| "own_props (Binary (Uint8Array b)) = index_props (map (\<lambda>x. Number (Num (uint x))) b)"
| "own_props (Msg m) = [(js ''_getPayloadString'', Func 0 [])]"
| "own_props _ = []"

definition invalid_type :: "js_string \<Rightarrow> js_string \<Rightarrow> exn" where
  "invalid_type t name = Error (format INVALID_TYPE [t, name])"

definition invalid_argument :: "js_string \<Rightarrow> js_string \<Rightarrow> exn" where
  "invalid_argument t name = Error (format INVALID_ARGUMENT [t, name])"

subsection \<open>validate\<close>

fun validate :: "obj \<Rightarrow> (js_string \<times> string) list \<Rightarrow> unit res" where
  "validate [] keys = Inr ()"
| "validate ((k, v) # ob) keys =
     (case map_of keys k of
        Some t \<Rightarrow> if type_of v \<noteq> t then Inl (invalid_type (js (type_of v)) k) else validate ob keys
      | None \<Rightarrow> Inl (Error (js ''Unknown property, '' @ k @ js ''. Valid properties are:'' @
                             concat (map (\<lambda>p. js '' '' @ fst p) keys))))"

subsection \<open>The server's URI\<close>

definition line_end :: "16 word \<Rightarrow> bool" where
  "line_end u \<longleftrightarrow> u = 10 \<or> u = 13 \<or> u = 0x2028 \<or> u = 0x2029"

fun digits_value :: "int \<Rightarrow> js_string \<Rightarrow> int" where
  "digits_value n [] = n"
| "digits_value n (d # ds) = digits_value (10 * n + (uint d - 48)) ds"

definition path_ok :: "js_string \<Rightarrow> bool" where
  "path_ok r \<longleftrightarrow> (case r of [] \<Rightarrow> False | u # r' \<Rightarrow> u = 47 \<and> (\<forall>x \<in> set r'. \<not> line_end x))"

text \<open>
  The regular expression of \<open>Client\<close> and \<open>connect\<close>: after the scheme a bracketed host
  (longest first) or a host without a slash (shortest first), then an optional port and the
  path. \<open>uri_tail\<close> matches what follows the host; it has at most one match, so the search
  backtracks over the host only.
\<close>

definition uri_tail :: "js_string \<Rightarrow> (jsnum \<times> js_string) option" where
  "uri_tail r =
     (case r of
        [] \<Rightarrow> None
      | u # r' \<Rightarrow>
          if u = 58
          then (let ds = takeWhile is_digit r'; p = dropWhile is_digit r' in
                if ds \<noteq> [] \<and> path_ok p then Some (Num (digits_value 0 ds), p) else None)
          else if path_ok r then Some (NaN, r) else None)"

definition bracketed :: "js_string \<Rightarrow> (js_string \<times> js_string) list" where
  "bracketed r =
     (case r of
        [] \<Rightarrow> []
      | u # r' \<Rightarrow>
          if u = 91
          then rev (filter (\<lambda>(h, t). h \<noteq> [] \<and> (\<forall>x \<in> set h. \<not> line_end x))
                     (concat (map (\<lambda>i. if r' ! i = 93 then [(take i r', drop (Suc i) r')] else [])
                                  [0..<length r'])))
          else [])"

definition unbracketed :: "js_string \<Rightarrow> (js_string \<times> js_string) list" where
  "unbracketed r =
     (let n = length (takeWhile (\<lambda>u. u \<noteq> 47) r) in map (\<lambda>i. (take i r, drop i r)) [1..<Suc n])"

fun first_match :: "(js_string \<times> js_string) list \<Rightarrow> (js_string \<times> jsnum \<times> js_string) option" where
  "first_match [] = None"
| "first_match ((h, t) # hs) =
     (case uri_tail t of Some (port, path) \<Rightarrow> Some (h, port, path) | None \<Rightarrow> first_match hs)"

definition match_uri :: "js_string \<Rightarrow> (js_string \<times> jsnum \<times> js_string) option" where
  "match_uri u =
     (let r = (if prefix_of (js ''ws://'') u then Some (drop 5 u)
               else if prefix_of (js ''wss://'') u then Some (drop 6 u) else None) in
      case r of None \<Rightarrow> None | Some r \<Rightarrow> first_match (bracketed r @ unbracketed r))"

definition has_colon :: "js_string \<Rightarrow> bool" where
  "has_colon h \<longleftrightarrow> 58 \<in> set h"

definition server_uri :: "js_string \<Rightarrow> jsnum \<Rightarrow> js_string \<Rightarrow> js_string" where
  "server_uri host port path =
     (let ipv6AddSBracket = has_colon host \<and> hd host \<noteq> 91 \<and> last host \<noteq> 93 in
      js ''ws://'' @ (if ipv6AddSBracket then js ''['' @ host @ js '']'' else host) @ js '':'' @
      show_num 10 port @ path)"

subsection \<open>The constructor of Client\<close>

record endpoint =
  ep_host :: js_string
  ep_port :: jsnum
  ep_path :: js_string
  ep_uri :: js_string

definition arg :: "val list \<Rightarrow> nat \<Rightarrow> val" where
  "arg args i = (if i < length args then args ! i else Undefined)"

fun clientIdLength :: "js_string \<Rightarrow> nat" where
  "clientIdLength [] = 0"
| "clientIdLength [u] = 1"
| "clientIdLength (u # v # us) = Suc (if is_high (uint u) then clientIdLength us else clientIdLength (v # us))"

definition check_clientId :: "val \<Rightarrow> js_string res" where
  "check_clientId v =
     (let bad = Inl (invalid_argument (to_text v) (js ''clientId'')) in
      case v of
        Str s \<Rightarrow> if clientIdLength s > 65535 then bad else Inr s
      | Undefined \<Rightarrow> Inl TypeError
      | Null \<Rightarrow> Inl TypeError
      | Arr (_ # _) \<Rightarrow> Inl TypeError
      | Binary (Uint8Array (_ # _)) \<Rightarrow> Inl TypeError
      | Obj ob \<Rightarrow> (case get_prop ob ''length'' of
                    Number (Num n) \<Rightarrow> if n > 0 then Inl TypeError else bad
                  | _ \<Rightarrow> bad)
      | _ \<Rightarrow> bad)"

definition check_endpoint :: "val list \<Rightarrow> endpoint res" where
  "check_endpoint args =
     (case arg args 0 of
        Str host \<Rightarrow>
          if length args = 2
          then (case match_uri host of
                  Some (h, port, path) \<Rightarrow> Inr \<lparr>ep_host = h, ep_port = port, ep_path = path, ep_uri = host\<rparr>
                | None \<Rightarrow> Inl (invalid_argument host (js ''host'')))
          else (let path = (if length args = 3 then Str (js ''/mqtt'') else arg args 2) in
                case arg args 1 of
                  Number port \<Rightarrow>
                    if nless port (Num 0) then Inl (invalid_type (js ''number'') (js ''port''))
                    else (case path of
                            Str p \<Rightarrow> Inr \<lparr>ep_host = host, ep_port = port, ep_path = p,
                                           ep_uri = server_uri host port p\<rparr>
                          | _ \<Rightarrow> Inl (invalid_type (js (type_of path)) (js ''path'')))
                | v \<Rightarrow> Inl (invalid_type (js (type_of v)) (js ''port'')))
      | v \<Rightarrow> Inl (invalid_type (js (type_of v)) (js ''host'')))"

definition clientId_arg :: "val list \<Rightarrow> val" where
  "clientId_arg args = (if length args = 2 then arg args 1 else if length args = 3 then arg args 2 else arg args 3)"

definition new_client :: "val list \<Rightarrow> (js_string \<times> stored_message) list \<Rightarrow> (endpoint \<times> client) res" where
  "new_client args st =
     bindr (check_endpoint args) (\<lambda>e.
     bindr (check_clientId (clientId_arg args)) (\<lambda>i.
     case ClientImpl (ep_uri e) (ep_host e) (ep_port e) (ep_path e) i st of
       (Inl x, _) \<Rightarrow> Inl x
     | (Inr _, c) \<Rightarrow> Inr (e, c)))"

text \<open>The callback properties take functions only; the endpoint properties cannot be set.\<close>

definition setOnConnectionLost :: "val \<Rightarrow> unit action" where
  "setOnConnectionLost f =
     (if type_of f = ''function'' then set_handler OnConnectionLost
      else throwc (invalid_type (js (type_of f)) (js ''onConnectionLost'')))"

definition setOnMessageDelivered :: "val \<Rightarrow> unit action" where
  "setOnMessageDelivered f =
     (if type_of f = ''function'' then set_handler OnMessageDelivered
      else throwc (invalid_type (js (type_of f)) (js ''onMessageDelivered'')))"

definition setOnMessageArrived :: "val \<Rightarrow> unit action" where
  "setOnMessageArrived f =
     (if type_of f = ''function'' then set_handler OnMessageArrived
      else throwc (invalid_type (js (type_of f)) (js ''onMessageArrived'')))"

definition set_endpoint_property :: "unit action" where
  "set_endpoint_property = throwc (Error (format UNSUPPORTED_OPERATION []))"

definition isConnected :: "client \<Rightarrow> bool" where
  "isConnected c = connected c"

subsection \<open>connect\<close>

definition connect_keys :: "(js_string \<times> string) list" where
  "connect_keys = map (\<lambda>(k, t). (js k, t))
     [(''timeout'', ''number''), (''userName'', ''string''), (''password'', ''string''),
      (''willMessage'', ''object''), (''keepAliveInterval'', ''number''), (''cleanSession'', ''boolean''),
      (''useSSL'', ''boolean''), (''invocationContext'', ''object''), (''onSuccess'', ''function''),
      (''onFailure'', ''function''), (''hosts'', ''object''), (''ports'', ''object''),
      (''mqttVersion'', ''number'')]"

definition default_keepAlive :: "obj \<Rightarrow> obj" where
  "default_keepAlive ob =
     (if get_prop ob ''keepAliveInterval'' = Undefined
      then set_prop ''keepAliveInterval'' (Number (Num 60)) ob else ob)"

definition check_version :: "obj \<Rightarrow> obj res" where
  "check_version ob =
     (case get_prop ob ''mqttVersion'' of
        Undefined \<Rightarrow> Inr (set_prop ''mqttVersion'' (Number (Num 4))
                           (set_prop ''mqttVersionExplicit'' (Boolean False) ob))
      | Number v \<Rightarrow>
          if nless (Num 4) v \<or> nless v (Num 3)
          then Inl (invalid_argument (show_num 10 v) (js ''connectOptions.mqttVersion''))
          else Inr (set_prop ''mqttVersionExplicit'' (Boolean True) ob)
      | _ \<Rightarrow> Inr (set_prop ''mqttVersionExplicit'' (Boolean True) ob))"

definition check_password :: "obj \<Rightarrow> obj res" where
  "check_password ob =
     (if get_prop ob ''password'' = Undefined \<and> get_prop ob ''userName'' \<noteq> Undefined
      then Inl (invalid_argument (js ''undefined'') (js ''connectOptions.password''))
      else Inr ob)"

definition check_will :: "obj \<Rightarrow> obj res" where
  "check_will ob =
     (let w = get_prop ob ''willMessage'' in
      if \<not> truthy w then Inr ob
      else (case w of
              Msg m \<Rightarrow> if destinationName m = None
                        then Inl (invalid_type (js ''undefined'') (js ''connectOptions.willMessage.destinationName''))
                        else Inr ob
            | _ \<Rightarrow> Inl (invalid_type (to_text w) (js ''connectOptions.willMessage''))))"

definition default_cleanSession :: "obj \<Rightarrow> obj" where
  "default_cleanSession ob =
     (if get_prop ob ''cleanSession'' = Undefined then set_prop ''cleanSession'' (Boolean True) ob else ob)"

definition indexed :: "string \<Rightarrow> nat \<Rightarrow> js_string" where
  "indexed s i = js s @ js ''['' @ show_base 10 i @ js '']''"

fun scan_hosts :: "nat \<Rightarrow> bool \<Rightarrow> val list \<Rightarrow> bool res" where
  "scan_hosts i usingURIs [] = Inr usingURIs"
| "scan_hosts i usingURIs (Str h # hs) =
     (let bad = Inl (invalid_argument h (indexed ''connectOptions.hosts'' i)) in
      if match_uri h \<noteq> None
      then (if i = 0 then scan_hosts (Suc i) True hs
            else if \<not> usingURIs then bad else scan_hosts (Suc i) usingURIs hs)
      else if usingURIs then bad else scan_hosts (Suc i) usingURIs hs)"
| "scan_hosts i usingURIs (v # hs) =
     Inl (invalid_type (js (type_of v)) (indexed ''connectOptions.hosts'' i))"

definition host_uri :: "js_string \<Rightarrow> jsnum \<Rightarrow> js_string \<Rightarrow> js_string" where
  "host_uri host port path =
     js ''ws://'' @ (if has_colon host then js ''['' @ host @ js '']'' else host) @ js '':'' @
     show_num 10 port @ path"

fun make_uris :: "js_string \<Rightarrow> nat \<Rightarrow> val list \<Rightarrow> val list \<Rightarrow> js_string list res" where
  "make_uris path i (h # hs) (p # ps) =
     (case p of
        Number n \<Rightarrow>
          if nless n (Num 0) then Inl (invalid_type (js ''number'') (indexed ''connectOptions.ports'' i))
          else bindr (make_uris path (Suc i) hs ps) (\<lambda>us. Inr (host_uri (to_text h) n path # us))
      | _ \<Rightarrow> Inl (invalid_type (js (type_of p)) (indexed ''connectOptions.ports'' i)))"
| "make_uris path i _ _ = Inr []"

definition resolve_hosts :: "js_string \<Rightarrow> obj \<Rightarrow> obj res" where
  "resolve_hosts path ob =
     (let hosts = get_prop ob ''hosts''; ports = get_prop ob ''ports'';
          bad_hosts = Inl (invalid_argument (to_text hosts) (js ''connectOptions.hosts''));
          bad_ports = Inl (invalid_argument (to_text ports) (js ''connectOptions.ports'')) in
      if \<not> truthy hosts then Inr ob
      else (case hosts of
              Arr hs \<Rightarrow>
                if hs = [] then bad_hosts
                else bindr (scan_hosts 0 False hs) (\<lambda>usingURIs.
                     if usingURIs then Inr (set_prop ''uris'' hosts ob)
                     else (case ports of
                             Arr ps \<Rightarrow>
                               if length hs \<noteq> length ps then bad_ports
                               else bindr (make_uris path 0 hs ps)
                                      (\<lambda>us. Inr (set_prop ''uris'' (Arr (map Str us)) ob))
                           | _ \<Rightarrow> bad_ports))
            | _ \<Rightarrow> bad_hosts))"

text \<open>The checks in the order of the source; the result is the options object as it is left.\<close>

definition prepare_connect :: "js_string \<Rightarrow> obj \<Rightarrow> obj res" where
  "prepare_connect path ob =
     bindr (validate ob connect_keys) (\<lambda>_.
     bindr (check_version (default_keepAlive ob)) (\<lambda>ob.
     bindr (check_password ob) (\<lambda>ob.
     bindr (check_will ob) (\<lambda>ob.
     resolve_hosts path (default_cleanSession ob)))))"

text \<open>
  The options as \<open>ClientImpl.connect\<close> reads them. A keep-alive interval \<open>NaN\<close> acts as 0 (no
  pings, two zero bytes), a version \<open>NaN\<close> as any version that is neither 3 nor 4 and not
  below 4.
\<close>

fun num_or :: "int \<Rightarrow> val \<Rightarrow> int" where
  "num_or d (Number (Num n)) = n"
| "num_or d _ = d"

fun str_opt :: "val \<Rightarrow> js_string option" where
  "str_opt (Str s) = Some s"
| "str_opt _ = None"

fun msg_opt :: "val \<Rightarrow> message option" where
  "msg_opt (Msg m) = Some m"
| "msg_opt _ = None"

definition uris_of :: "val \<Rightarrow> js_string list option" where
  "uris_of v = (case v of Arr us \<Rightarrow> Some (map to_text us) | _ \<Rightarrow> None)"

definition read_options :: "obj \<Rightarrow> connect_options" where
  "read_options ob =
     \<lparr>uris = uris_of (get_prop ob ''uris''), useSSL = truthy (get_prop ob ''useSSL''),
      mqttVersionExplicit = truthy (get_prop ob ''mqttVersionExplicit''),
      hasOnSuccess = truthy (get_prop ob ''onSuccess''), hasOnFailure = truthy (get_prop ob ''onFailure''),
      connectFields =
        \<lparr>mqttVersion = num_or 5 (get_prop ob ''mqttVersion''), clientId = [],
         willMessage = msg_opt (get_prop ob ''willMessage''), userName = str_opt (get_prop ob ''userName''),
         password = str_opt (get_prop ob ''password''), cleanSession = truthy (get_prop ob ''cleanSession''),
         keepAliveInterval = num_or 0 (get_prop ob ''keepAliveInterval'')\<rparr>\<rparr>"

definition connect_api :: "endpoint \<Rightarrow> val \<Rightarrow> unit action" where
  "connect_api e options =
     bindc (liftc (prepare_connect (ep_path e) (own_props options))) (\<lambda>ob.
     connectc (read_options ob))"

subsection \<open>subscribe, unsubscribe, send, disconnect\<close>

definition func_opt :: "val \<Rightarrow> nat option" where
  "func_opt v = (case v of Func n _ \<Rightarrow> Some n | _ \<Rightarrow> None)"

definition read_request :: "obj \<Rightarrow> request_options" where
  "read_request ob =
     \<lparr>r_qos = (case get_prop ob ''qos'' of Number (Num n) \<Rightarrow> Some n | _ \<Rightarrow> None),
      r_onSuccess = func_opt (get_prop ob ''onSuccess''), r_onFailure = func_opt (get_prop ob ''onFailure''),
      r_timeout = truthy (get_prop ob ''timeout'')\<rparr>"

definition subscribe_keys :: "(js_string \<times> string) list" where
  "subscribe_keys = map (\<lambda>(k, t). (js k, t))
     [(''qos'', ''number''), (''invocationContext'', ''object''), (''onSuccess'', ''function''),
      (''onFailure'', ''function''), (''timeout'', ''number'')]"

definition unsubscribe_keys :: "(js_string \<times> string) list" where
  "unsubscribe_keys = map (\<lambda>(k, t). (js k, t))
     [(''invocationContext'', ''object''), (''onSuccess'', ''function''),
      (''onFailure'', ''function''), (''timeout'', ''number'')]"

definition check_timeout :: "string \<Rightarrow> obj \<Rightarrow> unit res" where
  "check_timeout name ob =
     (if truthy (get_prop ob ''timeout'') \<and> \<not> truthy (get_prop ob ''onFailure'')
      then Inl (Error (js name @ js ''.timeout specified with no onFailure callback.''))
      else Inr ())"

definition check_qos :: "obj \<Rightarrow> unit res" where
  "check_qos ob =
     (let q = get_prop ob ''qos'' in
      if q \<noteq> Undefined \<and> \<not> (q = Number (Num 0) \<or> q = Number (Num 1) \<or> q = Number (Num 2))
      then Inl (invalid_argument (to_text q) (js ''subscribeOptions.qos''))
      else Inr ())"

definition subscribe_api :: "val \<Rightarrow> val \<Rightarrow> unit action" where
  "subscribe_api topicFilter subscribeOptions =
     (case topicFilter of
        Str f \<Rightarrow>
          (let ob = own_props subscribeOptions in
           bindc (liftc (validate ob subscribe_keys)) (\<lambda>_.
           bindc (liftc (check_timeout ''subscribeOptions'' ob)) (\<lambda>_.
           bindc (liftc (check_qos ob)) (\<lambda>_. subscribe f (read_request ob)))))
      | v \<Rightarrow> throwc (Error (js ''Invalid argument:'' @ to_text v)))"

definition unsubscribe_api :: "val \<Rightarrow> val \<Rightarrow> unit action" where
  "unsubscribe_api topicFilter unsubscribeOptions =
     (case topicFilter of
        Str f \<Rightarrow>
          (let ob = own_props unsubscribeOptions in
           bindc (liftc (validate ob unsubscribe_keys)) (\<lambda>_.
           bindc (liftc (check_timeout ''unsubscribeOptions'' ob)) (\<lambda>_.
           unsubscribe f (read_request ob))))
      | v \<Rightarrow> throwc (Error (js ''Invalid argument:'' @ to_text v)))"

text \<open>The constructor of \<open>Message\<close> throws a string, not an \<open>Error\<close>.\<close>

definition new_message :: "val \<Rightarrow> message res" where
  "new_message newPayload =
     (case newPayload of
        Str s \<Rightarrow> Inr (Message (PString s))
      | Binary a \<Rightarrow> Inr (Message (PArray a))
      | v \<Rightarrow> Inl (ThrownString (format INVALID_ARGUMENT [to_text v, js ''newPayload''])))"

definition put_destinationName :: "val \<Rightarrow> message \<Rightarrow> message res" where
  "put_destinationName v m =
     (case v of Str s \<Rightarrow> Inr (setDestinationName s m)
              | _ \<Rightarrow> Inl (invalid_argument (to_text v) (js ''newDestinationName'')))"

definition put_qos :: "val \<Rightarrow> message \<Rightarrow> message res" where
  "put_qos v m =
     (case v of Number (Num n) \<Rightarrow> setQos n m
              | _ \<Rightarrow> Inl (Error (js ''Invalid argument:'' @ to_text v)))"

definition put_retained :: "val \<Rightarrow> message \<Rightarrow> message res" where
  "put_retained v m =
     (case v of Boolean b \<Rightarrow> Inr (setRetained b m)
              | _ \<Rightarrow> Inl (invalid_argument (to_text v) (js ''newRetained'')))"

definition build_message :: "val list \<Rightarrow> message res" where
  "build_message args =
     bindr (new_message (arg args 1)) (\<lambda>m.
     bindr (put_destinationName (arg args 0) m) (\<lambda>m.
     bindr (if length args \<ge> 3 then put_qos (arg args 2) m else Inr m) (\<lambda>m.
     if length args \<ge> 4 then put_retained (arg args 3) m else Inr m)))"

definition no_destination :: exn where
  "no_destination = invalid_argument (js ''undefined'') (js ''Message.destinationName'')"

definition send_api :: "val list \<Rightarrow> unit action" where
  "send_api args =
     (case args of
        [] \<Rightarrow> throwc (Error (js ''Invalid argument.length''))
      | [Msg m] \<Rightarrow> if destinationName m = None then throwc no_destination else send m
      | [Str s] \<Rightarrow> throwc no_destination
      | [v] \<Rightarrow> throwc (Error (js ''Invalid argument:'' @ js (type_of v)))
      | _ \<Rightarrow> bindc (liftc (build_message args)) send)"

definition disconnect_api :: "unit action" where
  "disconnect_api = disconnect"

subsection \<open>Properties\<close>

lemma digits_value_append: "digits_value n (xs @ [d]) = 10 * digits_value n xs + (uint d - 48)"
  by (induction xs arbitrary: n) simp_all

lemma digits_value_show: "digits_value 0 (show_base 10 n) = int n"
proof (induction n rule: less_induct)
  case (less n)
  show ?case
  proof (cases "n < 10")
    case True
    then show ?thesis by (simp add: show_base.simps [of 10 n] uint_decimal_digit)
  next
    case False
    then have "digits_value 0 (show_base 10 (n div 10)) = int (n div 10)" by (intro less) simp
    then show ?thesis using False
      by (simp add: show_base.simps [of 10 n] digits_value_append uint_decimal_digit zdiv_int zmod_int)
  qed
qed

lemma path_okE: "path_ok p \<Longrightarrow> (\<And>q. p = 47 # q \<Longrightarrow> P) \<Longrightarrow> P"
  by (auto simp: path_ok_def split: list.splits)

lemma uri_tail_port:
  assumes "path_ok path"
  shows "uri_tail (58 # show_base 10 n @ path) = Some (Num (int n), path)"
proof -
  from assms obtain q where q: "path = 47 # q" by (rule path_okE)
  have "takeWhile is_digit (show_base 10 n @ path) = show_base 10 n"
    "dropWhile is_digit (show_base 10 n @ path) = path"
    by (simp_all add: takeWhile_append dropWhile_append show_base_digits takeWhile_eq_all_conv q is_digit_def [of 47])
  then show ?thesis using assms by (simp add: uri_tail_def digits_value_show)
qed

lemma uri_tail_other: "u \<noteq> 58 \<Longrightarrow> u \<noteq> 47 \<Longrightarrow> uri_tail (u # r) = None"
  by (simp add: uri_tail_def path_ok_def)

lemma first_match_skip:
  "(\<And>h t. (h, t) \<in> set xs \<Longrightarrow> uri_tail t = None) \<Longrightarrow> first_match (xs @ ys) = first_match ys"
proof (induction xs)
  case (Cons x xs)
  then have "uri_tail (snd x) = None" by (metis list.set_intros(1) prod.collapse)
  then show ?case using Cons by (cases x) auto
qed simp

lemma upt_at:
  assumes "i \<le> k" "k < n" shows "[i..<n] = [i..<k] @ k # [Suc k..<n]"
proof -
  have "[i..<n] = [i..<k] @ [k..<n]"
    using assms upt_add_eq_append [of i k "n - k"] by simp
  then show ?thesis using assms(2) upt_conv_Cons [of k n] by simp
qed

lemma unbracketed_match:
  assumes "host \<noteq> []" "47 \<notin> set host" "58 \<notin> set host" "path_ok path"
  shows "first_match (unbracketed (host @ 58 # show_base 10 n @ path)) = Some (host, Num (int n), path)"
proof -
  let ?r = "host @ 58 # show_base 10 n @ path"
  let ?m = "length host + 1 + length (show_base 10 n)"
  obtain q where q: "path = 47 # q" using assms(4) by (rule path_okE)
  have nd: "x \<in> set (show_base 10 n) \<Longrightarrow> x \<noteq> 47" for x using show_base_digits [of x n] by (auto simp: is_digit_def)
  then have "length (takeWhile (\<lambda>u. u \<noteq> 47) ?r) = ?m"
    using assms(2) by (subst takeWhile_append2) (auto simp: takeWhile_append2 q)
  then have u: "unbracketed ?r = map (\<lambda>i. (take i ?r, drop i ?r)) [1..<Suc ?m]"
    by (simp add: unbracketed_def)
  have split: "[1..<Suc ?m] = [1..<length host] @ length host # [Suc (length host)..<Suc ?m]"
    using assms(1) by (intro upt_at) (cases host, auto)
  have skip: "uri_tail (drop i ?r) = None" if "i < length host" for i
  proof -
    have "drop i ?r = host ! i # drop (Suc i) ?r"
      using that by (subst Cons_nth_drop_Suc [symmetric]) (simp_all add: nth_append)
    moreover have "host ! i \<in> set host" using that by simp
    ultimately show ?thesis using assms by (metis uri_tail_other)
  qed
  show ?thesis
    unfolding u split map_append list.map
    by (subst first_match_skip) (auto simp: skip uri_tail_port assms simp del: drop_append upt_Suc
        simp: append_eq_conv_conj [of host, THEN iffD1, OF refl, THEN conjunct2, symmetric])
qed

lemma filter_nth_unique:
  assumes "a \<notin> set pre" "a \<notin> set post"
  shows "filter (\<lambda>i. (pre @ a # post) ! i = a) [0..<length (pre @ a # post)] = [length pre]"
proof -
  have "[0..<length (pre @ a # post)] = [0..<length pre] @ length pre # [Suc (length pre)..<length (pre @ a # post)]"
    by (rule upt_at) simp_all
  moreover have "filter (\<lambda>i. (pre @ a # post) ! i = a) [0..<length pre] = []"
    using assms(1) by (auto simp: filter_empty_conv nth_append)
  moreover have "filter (\<lambda>i. (pre @ a # post) ! i = a) [Suc (length pre)..<length (pre @ a # post)] = []"
  proof -
    have "(pre @ a # post) ! i \<in> set post" if "Suc (length pre) \<le> i" "i < length (pre @ a # post)" for i
      using that by (auto simp: nth_append nth_Cons' )
    then show ?thesis using assms(2) by (auto simp: filter_empty_conv simp del: upt_Suc) metis
  qed
  ultimately show ?thesis by simp
qed

lemma concat_if: "concat (map (\<lambda>i. if P i then [f i] else []) xs) = map f (filter P xs)"
  by (induction xs) auto

lemma bracketed_match:
  assumes "host \<noteq> []" "93 \<notin> set host" "93 \<notin> set path" "\<forall>x \<in> set host. \<not> line_end x" "path_ok path"
  shows "first_match (bracketed (91 # host @ 93 # 58 # show_base 10 n @ path) @ hs) =
    Some (host, Num (int n), path)"
proof -
  let ?post = "58 # show_base 10 n @ path"
  have "93 \<notin> set (show_base 10 n)" using show_base_digits [of 93 n] by (auto simp: is_digit_def)
  then have "93 \<notin> set ?post" using assms by auto
  from filter_nth_unique [OF assms(2) this]
  have "bracketed (91 # host @ 93 # ?post) = [(host, ?post)]"
    using assms unfolding bracketed_def concat_if by (simp del: upt_Suc length_append)
  then show ?thesis using uri_tail_port [OF assms(5)] by simp
qed

text \<open>
  The URI that the four-argument constructor builds from host, port and path is parsed
  back by the constructor that takes a URI into the same host, port and path, for a name or
  IPv4 address as well as for a bare IPv6 address, which is put in brackets. The two forms
  therefore use the same keys in local storage.
\<close>

theorem uri_roundtrip:
  assumes "host \<noteq> []" "\<forall>x \<in> set host. x \<noteq> 47 \<and> x \<noteq> 91 \<and> x \<noteq> 93 \<and> \<not> line_end x"
    "path_ok path" "93 \<notin> set path" "0 \<le> port"
  shows "match_uri (server_uri host (Num port) path) = Some (host, Num port, path)"
proof -
  obtain n where n: "port = int n" using assms(5) nonneg_int_cases by blast
  have ws: "match_uri (js ''ws://'' @ r) = first_match (bracketed r @ unbracketed r)" for r
    by (simp add: match_uri_def js_def prefix_of_iff)
  show ?thesis
  proof (cases "has_colon host")
    case True
    then have "server_uri host (Num port) path = js ''ws://'' @ 91 # host @ 93 # 58 # show_base 10 n @ path"
      using assms(1,2) hd_in_set [OF assms(1)] last_in_set [OF assms(1)]
      by (auto simp: server_uri_def n show_int_def js_def)
    moreover have "93 \<notin> set host" using assms(2) by auto
    ultimately show ?thesis using bracketed_match [of host path] assms by (simp add: ws n)
  next
    case False
    then have "server_uri host (Num port) path = js ''ws://'' @ host @ 58 # show_base 10 n @ path"
      by (simp add: server_uri_def n show_int_def js_def)
    moreover have "bracketed (host @ 58 # show_base 10 n @ path) = []"
      using assms(1,2) by (cases host) (auto simp: bracketed_def)
    ultimately show ?thesis using unbracketed_match [of host path] assms False
      by (auto simp: ws n has_colon_def)
  qed
qed

theorem uri_roundtrip_witness:
  "match_uri (server_uri (js ''::1'') (Num 8080) (js ''/mqtt'')) = Some (js ''::1'', Num 8080, js ''/mqtt'')"
  by (rule uri_roundtrip) code_simp+

definition keys_of :: "(js_string \<times> 'a) list \<Rightarrow> js_string set" where
  "keys_of ob = set (map fst ob)"

lemma map_of_key: "map_of ob k = Some v \<Longrightarrow> k \<in> keys_of ob"
  by (auto simp: keys_of_def dest!: map_of_SomeD intro: rev_image_eqI)

lemma set_prop_keys: "keys_of (set_prop k v ob) = insert (js k) (keys_of ob)"
proof (cases "map_of ob (js k)")
  case (Some w)
  have "map fst (map (\<lambda>(k', w). (k', if k' = js k then v else w)) ob) = map fst ob"
    by (simp add: case_prod_beta)
  then show ?thesis using Some map_of_key [OF Some] by (auto simp: set_prop_def keys_of_def)
qed (simp add: set_prop_def keys_of_def)

lemma validate_known: "validate ob keys = Inr u \<Longrightarrow> keys_of ob \<subseteq> keys_of keys"
proof (induction ob keys rule: validate.induct)
  case (2 k v ob keys)
  then obtain t where "map_of keys k = Some t" "validate ob keys = Inr u" "type_of v = t"
    by (auto split: option.splits if_splits)
  then show ?case using 2 map_of_key [of keys k t] by (simp add: keys_of_def)
qed (simp add: keys_of_def)

lemma check_version_marks: "check_version ob = Inr ob' \<Longrightarrow> js ''mqttVersionExplicit'' \<in> keys_of ob'"
  unfolding check_version_def
  by (auto split: val.splits if_splits simp: set_prop_keys)

lemma bindr_Inr: "bindr r f = Inr y \<longleftrightarrow> (\<exists>x. r = Inr x \<and> f x = Inr y)"
  by (cases r) (auto simp: bindr_def)

lemma resolve_hosts_keys: "resolve_hosts path ob = Inr ob' \<Longrightarrow> keys_of ob \<subseteq> keys_of ob'"
  unfolding resolve_hosts_def Let_def
  by (auto split: val.splits if_splits simp: bindr_Inr set_prop_keys)

lemma prepare_connect_steps:
  assumes "prepare_connect path ob = Inr ob'"
  obtains ob1 where "validate ob connect_keys = Inr ()" "check_version (default_keepAlive ob) = Inr ob1"
    "check_password ob1 = Inr ob1" "check_will ob1 = Inr ob1"
    "resolve_hosts path (default_cleanSession ob1) = Inr ob'"
proof -
  have same: "check_password x = Inr y \<Longrightarrow> y = x" "check_will x = Inr y \<Longrightarrow> y = x" for x y
    by (auto simp: check_password_def check_will_def Let_def split: if_splits val.splits)
  show ?thesis using assms unfolding prepare_connect_def bindr_Inr by (metis same that old.unit.exhaust)
qed

text \<open>
  An options object that \<open>connect\<close> has accepted is rejected when it is passed again: the
  first call stores \<open>mqttVersionExplicit\<close> in it, which the check of the property names refuses.
\<close>

theorem connect_options_not_reusable:
  assumes "prepare_connect path ob = Inr ob'"
  shows "prepare_connect path' ob' \<noteq> Inr ob''"
proof
  assume again: "prepare_connect path' ob' = Inr ob''"
  from assms obtain ob1 where ob1: "check_version (default_keepAlive ob) = Inr ob1"
    and r: "resolve_hosts path (default_cleanSession ob1) = Inr ob'"
    by (rule prepare_connect_steps)
  have "js ''mqttVersionExplicit'' \<in> keys_of (default_cleanSession ob1)"
    using check_version_marks [OF ob1] by (simp add: default_cleanSession_def set_prop_keys)
  then have "js ''mqttVersionExplicit'' \<in> keys_of ob'" using resolve_hosts_keys [OF r] by blast
  moreover have "js ''mqttVersionExplicit'' \<notin> keys_of connect_keys" by code_simp
  moreover from again have "keys_of ob' \<subseteq> keys_of connect_keys"
    by (rule prepare_connect_steps) (rule validate_known)
  ultimately show False by blast
qed

theorem connect_options_not_reusable_witness:
  "prepare_connect (js ''/mqtt'') [] =
     Inr (own_props (Obj [(js ''keepAliveInterval'', Number (Num 60)), (js ''mqttVersionExplicit'', Boolean False),
       (js ''mqttVersion'', Number (Num 4)), (js ''cleanSession'', Boolean True)])) \<and>
   prepare_connect (js ''/mqtt'') [(js ''keepAliveInterval'', Number (Num 60)), (js ''mqttVersionExplicit'', Boolean False),
       (js ''mqttVersion'', Number (Num 4)), (js ''cleanSession'', Boolean True)] \<noteq> Inr []"
proof 
  show 1: "prepare_connect (js ''/mqtt'') [] =
     Inr (own_props (Obj [(js ''keepAliveInterval'', Number (Num 60)), (js ''mqttVersionExplicit'', Boolean False),
       (js ''mqttVersion'', Number (Num 4)), (js ''cleanSession'', Boolean True)]))" by code_simp
  show "prepare_connect (js ''/mqtt'') [(js ''keepAliveInterval'', Number (Num 60)), (js ''mqttVersionExplicit'', Boolean False),
       (js ''mqttVersion'', Number (Num 4)), (js ''cleanSession'', Boolean True)] \<noteq> Inr []"
    using connect_options_not_reusable [OF 1] by simp
qed

text \<open>
  A message that \<open>send(topic, payload, qos, retained)\<close> builds without throwing has a
  destination, a QoS of 0, 1 or 2 and the duplicate flag cleared.
\<close>

theorem build_message_sendable:
  assumes "build_message args = Inr m"
  shows "qos m \<in> {0, 1, 2} \<and> destinationName m \<noteq> None \<and> \<not> duplicate m"
  using assms
  by (auto simp: build_message_def bindr_Inr new_message_def put_destinationName_def put_qos_def put_retained_def setQos_def
      setDestinationName_def setRetained_def Message_def split: val.splits if_splits jsnum.splits)

theorem build_message_sendable_witness:
  "qos ((Message (PString (js ''hi'')))\<lparr>destinationName := Some (js ''a/b''), qos := 2\<rparr>) \<in> {0, 1, 2} \<and>
   destinationName ((Message (PString (js ''hi'')))\<lparr>destinationName := Some (js ''a/b''), qos := 2\<rparr>) \<noteq> None \<and>
   \<not> duplicate ((Message (PString (js ''hi'')))\<lparr>destinationName := Some (js ''a/b''), qos := 2\<rparr>)"
  by (rule build_message_sendable [of "[Str (js ''a/b''), Str (js ''hi''), Number (Num 2)]"]) code_simp

subsection \<open>Typing of the connect options\<close>

text \<open>
  The options that \<open>ClientImpl.connect\<close> may rely on: every property has the type its name
  declares; the version, the keep-alive interval and the session flag are there; a user name
  comes with a password; a will is a message with a destination; the URIs are strings.
\<close>

definition prepared_keys :: "(js_string \<times> string) list" where
  "prepared_keys = connect_keys @ [(js ''mqttVersionExplicit'', ''boolean''), (js ''uris'', ''object'')]"

definition declared :: "obj \<Rightarrow> bool" where
  "declared ob \<longleftrightarrow> (\<forall>(k, v) \<in> set ob. map_of prepared_keys k = Some (type_of v))"

definition well_typed_options :: "obj \<Rightarrow> bool" where
  "well_typed_options ob \<longleftrightarrow>
     declared ob \<and>
     (\<exists>n. get_prop ob ''keepAliveInterval'' = Number n) \<and>
     (\<exists>n. get_prop ob ''mqttVersion'' = Number n \<and> \<not> nless n (Num 3) \<and> \<not> nless (Num 4) n) \<and>
     (\<exists>b. get_prop ob ''mqttVersionExplicit'' = Boolean b) \<and>
     (\<exists>b. get_prop ob ''cleanSession'' = Boolean b) \<and>
     (get_prop ob ''userName'' \<noteq> Undefined \<longrightarrow>
       (\<exists>u p. get_prop ob ''userName'' = Str u \<and> get_prop ob ''password'' = Str p)) \<and>
     (truthy (get_prop ob ''willMessage'') \<longrightarrow>
       (\<exists>m. get_prop ob ''willMessage'' = Msg m \<and> destinationName m \<noteq> None)) \<and>
     (truthy (get_prop ob ''hosts'') \<longrightarrow> (\<exists>us. get_prop ob ''uris'' = Arr (map Str us) \<and> us \<noteq> []))"

lemma get_set_prop: "get_prop (set_prop k v ob) j = (if js j = js k then v else get_prop ob j)"
proof (cases "map_of ob (js k)")
  case None
  then show ?thesis by (auto simp: set_prop_def get_prop_def map_add_def split: option.splits)
next
  case (Some w)
  have "map_of (map (\<lambda>(k', w). (k', if k' = x then v else w)) ob) j =
      (if j = x \<and> map_of ob x \<noteq> None then Some v else map_of ob j)" for x j
    by (induction ob) auto
  then show ?thesis using Some by (simp add: set_prop_def get_prop_def)
qed

lemma declared_set_prop: "declared ob \<Longrightarrow> map_of prepared_keys (js k) = Some (type_of v) \<Longrightarrow> declared (set_prop k v ob)"
  by (auto simp: declared_def set_prop_def)

lemma declared_get_prop:
  assumes "declared ob" "get_prop ob k \<noteq> Undefined"
  shows "map_of prepared_keys (js k) = Some (type_of (get_prop ob k))"
proof -
  obtain v where v: "map_of ob (js k) = Some v" using assms(2) by (auto simp: get_prop_def split: option.splits)
  then have "(js k, v) \<in> set ob" by (rule map_of_SomeD)
  with assms(1) v show ?thesis by (fastforce simp: declared_def get_prop_def)
qed

lemma validate_declared: "validate ob connect_keys = Inr u \<Longrightarrow> declared ob"
proof -
  have "validate ob keys = Inr u \<Longrightarrow> (k, v) \<in> set ob \<Longrightarrow> map_of keys k = Some (type_of v)" for keys k v
    by (induction ob keys rule: validate.induct) (auto split: option.splits if_splits)
  moreover have "map_of connect_keys k = Some t \<Longrightarrow> map_of prepared_keys k = Some t" for k t
    by (simp add: prepared_keys_def map_add_def)
  moreover assume "validate ob connect_keys = Inr u"
  ultimately show ?thesis by (auto simp: declared_def)
qed

lemma prepared_types:
  "map_of prepared_keys (js ''keepAliveInterval'') = Some ''number''"
  "map_of prepared_keys (js ''mqttVersion'') = Some ''number''"
  "map_of prepared_keys (js ''mqttVersionExplicit'') = Some ''boolean''"
  "map_of prepared_keys (js ''cleanSession'') = Some ''boolean''"
  "map_of prepared_keys (js ''userName'') = Some ''string''"
  "map_of prepared_keys (js ''password'') = Some ''string''"
  "map_of prepared_keys (js ''uris'') = Some ''object''"
  by code_simp+

lemma type_ofD:
  "''number'' = type_of v \<Longrightarrow> \<exists>n. v = Number n"
  "''string'' = type_of v \<Longrightarrow> \<exists>s. v = Str s"
  "''boolean'' = type_of v \<Longrightarrow> \<exists>b. v = Boolean b"
  by (cases v; simp)+

lemma js_eq: "js a = js b \<longleftrightarrow> a = b"
proof -
  have "inj (of_char :: char \<Rightarrow> 16 word)"
  proof (rule injI)
    fix c d :: char assume "(of_char c :: 16 word) = of_char d"
    moreover have "unat (of_char c :: 16 word) = of_char c" for c :: char
    proof -
      have "of_char c < (65536 :: nat)" using nat_of_char_less_256 [of c] by linarith
      then have "unat (of_nat (of_char c) :: 16 word) = of_char c" by (simp only: unat_of_nat) simp
      then show ?thesis by (simp only: of_nat_of_char)
    qed
    ultimately show "c = d" by (metis of_char_eq_iff)
  qed
  then show ?thesis by (simp add: js_def inj_map_eq_map)
qed

lemma default_keepAlive_typed:
  assumes "declared ob"
  shows "declared (default_keepAlive ob)" "\<exists>n. get_prop (default_keepAlive ob) ''keepAliveInterval'' = Number n"
  using assms declared_get_prop [OF assms, of "''keepAliveInterval''"]
  by (auto simp: default_keepAlive_def get_set_prop prepared_types declared_set_prop intro!: type_ofD)

lemma check_version_typed:
  assumes "declared ob" "check_version ob = Inr ob'"
  shows "declared ob'" "\<exists>b. get_prop ob' ''mqttVersionExplicit'' = Boolean b"
    "\<exists>n. get_prop ob' ''mqttVersion'' = Number n \<and> \<not> nless n (Num 3) \<and> \<not> nless (Num 4) n"
    "k \<notin> {''mqttVersion'', ''mqttVersionExplicit''} \<Longrightarrow> get_prop ob' k = get_prop ob k"
proof -
  have "get_prop ob ''mqttVersion'' = Undefined \<or> (\<exists>n. get_prop ob ''mqttVersion'' = Number n)"
    using declared_get_prop [OF assms(1), of "''mqttVersion''"] by (auto simp: prepared_types dest: type_ofD)
  then consider (absent) "ob' = set_prop ''mqttVersion'' (Number (Num 4)) (set_prop ''mqttVersionExplicit'' (Boolean False) ob)"
    | (given) n where "get_prop ob ''mqttVersion'' = Number n" "\<not> nless n (Num 3)" "\<not> nless (Num 4) n"
        "ob' = set_prop ''mqttVersionExplicit'' (Boolean True) ob"
    using assms(2) by (auto simp: check_version_def split: if_splits)
  note cases = this
  have d: "declared (set_prop ''mqttVersionExplicit'' (Boolean b) ob)" for b
    using assms(1) by (rule declared_set_prop) (simp add: prepared_types)
  show "declared ob'"
    by (rule cases) (use assms(1) in \<open>auto simp: prepared_types intro!: d declared_set_prop\<close>)
  show "\<exists>b. get_prop ob' ''mqttVersionExplicit'' = Boolean b"
    by (rule cases) (auto simp: get_set_prop js_eq)
  show "\<exists>n. get_prop ob' ''mqttVersion'' = Number n \<and> \<not> nless n (Num 3) \<and> \<not> nless (Num 4) n"
    by (rule cases) (auto simp: get_set_prop js_eq)
  show "k \<notin> {''mqttVersion'', ''mqttVersionExplicit''} \<Longrightarrow> get_prop ob' k = get_prop ob k"
    by (rule cases) (auto simp: get_set_prop js_eq)
qed

lemma default_cleanSession_typed:
  assumes "declared ob"
  shows "declared (default_cleanSession ob)" "\<exists>b. get_prop (default_cleanSession ob) ''cleanSession'' = Boolean b"
    "k \<noteq> ''cleanSession'' \<Longrightarrow> get_prop (default_cleanSession ob) k = get_prop ob k"
  using assms declared_get_prop [OF assms, of "''cleanSession''"]
  by (auto simp: default_cleanSession_def get_set_prop js_eq prepared_types declared_set_prop intro!: type_ofD)

lemma scan_hosts_strings: "scan_hosts i b hs = Inr b' \<Longrightarrow> \<exists>us. hs = map Str us"
proof (induction i b hs arbitrary: b' rule: scan_hosts.induct)
  case (2 i b h hs)
  then obtain us where "hs = map Str us" by (auto simp: Let_def split: if_splits)
  then show ?case by (intro exI [of _ "h # us"]) simp
qed auto

lemma make_uris_nonempty: "make_uris path i hs ps = Inr us \<Longrightarrow> hs \<noteq> [] \<Longrightarrow> length hs = length ps \<Longrightarrow> us \<noteq> []"
  by (cases hs; cases ps) (auto simp: bindr_Inr split: val.splits if_splits)

lemma resolve_hosts_typed:
  assumes "declared ob" "resolve_hosts path ob = Inr ob'"
  shows "declared ob'" "k \<noteq> ''uris'' \<Longrightarrow> get_prop ob' k = get_prop ob k"
    "truthy (get_prop ob ''hosts'') \<Longrightarrow> \<exists>us. get_prop ob' ''uris'' = Arr (map Str us) \<and> us \<noteq> []"
proof -
  show "declared ob'" "k \<noteq> ''uris'' \<Longrightarrow> get_prop ob' k = get_prop ob k"
    using assms unfolding resolve_hosts_def Let_def
    by (auto split: val.splits if_splits simp: bindr_Inr get_set_prop js_eq prepared_types declared_set_prop)
  show "\<exists>us. get_prop ob' ''uris'' = Arr (map Str us) \<and> us \<noteq> []" if "truthy (get_prop ob ''hosts'')"
    using assms(2) that unfolding resolve_hosts_def Let_def
    by (auto split: val.splits if_splits simp: bindr_Inr get_set_prop dest!: scan_hosts_strings make_uris_nonempty)
qed

text \<open>
  C39: Options that \<open>connect\<close> accepts are well typed when they reach the client: every property has
  its declared type, the fields the client always reads are present and in range, a user name has
  a password, a will is a message with a destination, and the URIs are a list of strings.
\<close>

theorem connect_options_typed:
  assumes "prepare_connect path ob = Inr ob'"
  shows "well_typed_options ob'"
proof -
  from assms obtain ob1 where v: "validate ob connect_keys = Inr ()"
    and ob1: "check_version (default_keepAlive ob) = Inr ob1"
    and pw: "check_password ob1 = Inr ob1" and will: "check_will ob1 = Inr ob1"
    and r: "resolve_hosts path (default_cleanSession ob1) = Inr ob'"
    by (rule prepare_connect_steps)
  note ka = default_keepAlive_typed [OF validate_declared [OF v]]
  note ver = check_version_typed [OF ka(1) ob1]
  note cs = default_cleanSession_typed [OF ver(1)]
  note rh = resolve_hosts_typed [OF cs(1) r]
  have same: "get_prop ob' k = get_prop ob1 k" if "k \<notin> {''uris'', ''cleanSession''}" for k
    using rh(2) [of k] cs(3) [of k] that by simp
  have user: "\<exists>u p. get_prop ob1 ''userName'' = Str u \<and> get_prop ob1 ''password'' = Str p"
    if "get_prop ob1 ''userName'' \<noteq> Undefined"
  proof -
    have "get_prop ob1 ''password'' \<noteq> Undefined" using pw that by (auto simp: check_password_def split: if_splits)
    then show ?thesis
      using declared_get_prop [OF ver(1) that] declared_get_prop [OF ver(1), of "''password''"]
      by (metis option.inject prepared_types(5,6) type_ofD(2))
  qed
  have msg: "\<exists>m. get_prop ob1 ''willMessage'' = Msg m \<and> destinationName m \<noteq> None"
    if "truthy (get_prop ob1 ''willMessage'')"
    using will that by (auto simp: check_will_def Let_def split: val.splits if_splits)
  show ?thesis
    unfolding well_typed_options_def
    using rh(1) ka(2) ver(2-4) cs(2) rh(2) [of "''cleanSession''"] rh(3) cs(3) [of "''hosts''"] user msg
    by (simp add: same)
qed

lemma connect_options_typed_witness:
  "\<exists>ob'. prepare_connect (js ''/mqtt'') [(js ''userName'', Str (js ''u'')), (js ''password'', Str (js ''p'')),
      (js ''hosts'', Arr [Str (js ''ws://h/m'')])] = Inr ob' \<and> well_typed_options ob'"
proof -
  have "case prepare_connect (js ''/mqtt'') [(js ''userName'', Str (js ''u'')), (js ''password'', Str (js ''p'')),
      (js ''hosts'', Arr [Str (js ''ws://h/m'')])] of Inr _ \<Rightarrow> True | Inl _ \<Rightarrow> False" by code_simp
  then obtain ob' where "prepare_connect (js ''/mqtt'') [(js ''userName'', Str (js ''u'')), (js ''password'', Str (js ''p'')),
      (js ''hosts'', Arr [Str (js ''ws://h/m'')])] = Inr ob'" by (auto split: sum.splits)
  with connect_options_typed [OF this] show ?thesis by blast
qed

end
