(* ===== verification/Session.thy ===== *)
theory Session
  imports Client_Invariants
begin

text \<open>
  The session a client keeps across connections and restarts: the PUBLISH messages that wait for an
  acknowledgement (\<open>_sentMessages\<close>) and their stored form in \<open>localStorage\<close>. The invariant
  \<open>persist_inv\<close> relates the two; every input of the client keeps it, and the constructor
  establishes it on whatever an earlier client left behind.
\<close>

subsection \<open>Actions that leave the session alone\<close>

text \<open>
  A predicate on the session: the messages in flight and local storage. Connecting,
  disconnecting, timers, queues and callbacks do not change them.
\<close>

locale session_predicate =
  fixes P :: "client \<Rightarrow> bool"
  assumes frame: "P c \<Longrightarrow> sentMessages c' = sentMessages c \<Longrightarrow> localStorage c' = localStorage c \<Longrightarrow>
    localKey c' = localKey c \<Longrightarrow> P c'"
begin

lemma session_frame:
  assumes "\<And>c. sentMessages (h c) = sentMessages c" "\<And>c. localStorage (h c) = localStorage c"
    "\<And>c. localKey (h c) = localKey c"
  shows "keeps P (modifyc h)"
  by (rule keeps_modify) (erule frame, simp_all add: assms)

lemma session_emit: "keeps P (emit_event e)"
  unfolding emit_event_def by (rule session_frame) simp_all

lemma session_resets: "keeps P reset_sendPinger" "keeps P reset_receivePinger"
  unfolding reset_sendPinger_def reset_receivePinger_def by (intro keeps_intros session_frame; simp)+

lemma session_timers: "keeps P (start_timer cb n)" "keeps P (cancel_timer t)" "keeps P (request_timer e opts)"
  unfolding start_timer_def cancel_timer_def request_timer_def by (intro keeps_intros session_frame; simp)+

lemma session_doConnect: "keeps P (doConnect u)"
  unfolding doConnect_def Let_def by (intro keeps_intros session_frame session_emit) simp_all

lemma session_connect_first: "keeps P (connect_first opts)"
  unfolding connect_first_def by (intro keeps_intros session_frame session_doConnect) simp_all

lemma session_disconnected: "keeps P (disconnected err)"
  unfolding disconnected_def drop_connection_def report_disconnect_def Let_def
  by (intro keeps_intros session_frame session_doConnect session_connect_first session_emit) simp_all

lemma session_fail: "keeps P (fail_with e a)" "keeps P (internal_error x)"
  unfolding fail_with_def internal_error_def by (intro session_disconnected)+

lemma session_socket_send: "keeps P (socket_send w)"
  unfolding socket_send_def by (intro keeps_intros session_emit session_resets)

lemma session_process_fifo: "keeps P (process_fifo ms a)"
  by (induction ms arbitrary: a)
    (auto intro!: keeps_intros session_frame session_socket_send session_disconnected)

lemma session_schedule: "keeps P process_queue" "keeps P (schedule_message m)"
  unfolding schedule_message_def process_queue_def
  by (intro keeps_intros session_frame session_process_fifo; simp)+

lemma session_receiveMessage: "keeps P (receiveMessage w)" "keeps P (notify_delivered w)"
  unfolding receiveMessage_def notify_delivered_def by (intro keeps_intros session_emit)+

lemma session_pings: "keeps P ping_now" "keeps P sendPinger_fires" "keeps P receivePinger_fires"
    "keeps P connectTimeout_fires" "keeps P (timer_fires n)"
proof -
  show ping: "keeps P ping_now"
    by (rule keepsI) (auto simp: ping_now_def action_defs split: option.splits socket.splits elim: frame)
  show "keeps P sendPinger_fires" "keeps P receivePinger_fires" "keeps P connectTimeout_fires"
    "keeps P (timer_fires n)"
    unfolding sendPinger_fires_def receivePinger_fires_def connectTimeout_fires_def timer_fires_def
    by (intro keeps_intros session_frame session_fail ping session_emit; simp)+
qed

lemmas session_intros = session_frame session_emit session_resets session_timers session_doConnect session_connect_first
  session_disconnected session_fail session_socket_send session_schedule session_receiveMessage session_pings

lemma session_calls:
  "keeps P (connectc opts)" "keeps P disconnect" "keeps P on_socket_open" "keeps P (on_socket_error d)"
  "keeps P on_socket_close"
  unfolding connectc_def disconnect_def on_socket_open_def on_socket_error_def on_socket_close_def
  by (intro keeps_intros session_intros; simp)+

lemma session_set_handler: "keeps P (set_handler h)"
  by (cases h; simp only: set_handler.simps) (rule session_frame; simp)+
end

subsection \<open>Messages in flight are persisted\<close>

lemma show_num_inj: "show_num 10 a = show_num 10 b \<Longrightarrow> a = b"
proof -
  have d: "hd (show_base 10 n) \<noteq> 78 \<and> hd (show_base 10 n) \<noteq> 45" for n
    using show_base_digits [OF hd_in_set [OF show_base_nonempty [of 10 n]]] by (auto simp: is_digit_def)
  assume eq: "show_num 10 a = show_num 10 b"
  show ?thesis
  proof (cases a; cases b)
    fix x y assume "a = Num x" "b = Num y"
    then have e: "show_int 10 x = show_int 10 y" using eq by simp
    have "x < 0 \<longleftrightarrow> y < 0" using arg_cong [OF e, of hd] d [of "nat x"] d [of "nat y"]
      by (auto simp: show_int_def split: if_splits)
    then show ?thesis using e show_base_inj [of 10] \<open>a = Num x\<close> \<open>b = Num y\<close>
      by (fastforce simp: show_int_def split: if_splits)
  next
    fix y assume "a = NaN" "b = Num y"
    then show ?thesis using arg_cong [OF eq, of hd] d [of "nat y"] by (simp add: show_int_def js_def split: if_splits)
  next
    fix x assume "a = Num x" "b = NaN"
    then show ?thesis using arg_cong [OF eq, of hd] d [of "nat x"] by (simp add: show_int_def js_def split: if_splits)
  qed simp
qed

lemma storage_key_inj: "localKey c = localKey c' \<Longrightarrow> storage_key p c a = storage_key p c' b \<Longrightarrow> a = b"
  by (simp add: storage_key_def show_num_inj)

lemma storage_key_prefix: "storage_key received_prefix c a \<noteq> storage_key sent_prefix c' b"
  by (simp add: storage_key_def sent_prefix_def received_prefix_def js_def)

text \<open>The parts of a message that its delivery depends on.\<close>

definition same_delivery :: "wire_message \<Rightarrow> wire_message \<Rightarrow> bool" where
  "same_delivery w w' \<longleftrightarrow>
     messageIdentifier w' = messageIdentifier w \<and> pubRecReceived w' = pubRecReceived w \<and>
     (\<exists>m m'. payloadMessage w = Some m \<and> payloadMessage w' = Some m' \<and>
        destinationName m' = destinationName m \<and> qos m' = qos m \<and> retained m' = retained m \<and>
        payload_bytes (payload m') = payload_bytes (payload m))"

definition persisted :: "client \<Rightarrow> jsnum \<Rightarrow> wire_message \<Rightarrow> bool" where
  "persisted c k w \<longleftrightarrow>
     (\<exists>st w'. getItem (localStorage c) (storage_key sent_prefix c k) = Some st \<and>
        restore_message (storage_key sent_prefix c k) True st = Inr w' \<and> same_delivery w w')"

definition in_flight :: "jsnum \<Rightarrow> wire_message \<Rightarrow> bool" where
  "in_flight k w \<longleftrightarrow> messageIdentifier w = Some k \<and> (\<exists>m. payloadMessage w = Some m \<and> storable m)"

definition session_ok :: "client \<Rightarrow> bool" where
  "session_ok c \<longleftrightarrow> obj_ok (sentMessages c) \<and> storage_ok (localStorage c)"

text \<open>The stored entries of this client can be read back, under the key of their identifier.\<close>

definition restorable :: "stored_message \<Rightarrow> bool" where
  "restorable s \<longleftrightarrow> s_type s = PUBLISH \<and> s_qos s \<in> {0, 1, 2} \<and> s_destinationName s \<noteq> None"

definition entry_ok :: "js_string \<Rightarrow> js_string \<Rightarrow> stored_message \<Rightarrow> bool" where
  "entry_ok lk k s \<longleftrightarrow> restorable s \<and>
     (k = received_prefix @ lk @ show_num 10 (s_messageIdentifier s) \<or>
      k = sent_prefix @ lk @ show_num 10 (s_messageIdentifier s) \<and> wf_utf16 (the (s_destinationName s)))"

definition entries_ok :: "js_string \<Rightarrow> (js_string \<times> stored_message) list \<Rightarrow> bool" where
  "entries_ok lk st \<longleftrightarrow> (\<forall>k s. (k, s) \<in> set st \<and> own_key lk k \<longrightarrow> entry_ok lk k s)"

lemma entries_ok_remove: "entries_ok lk st \<Longrightarrow> entries_ok lk (removeItem k st)"
  by (auto simp: entries_ok_def removeItem_def AList.delete_eq)

lemma entries_ok_Cons: "entries_ok lk (p # st) \<longleftrightarrow> (own_key lk (fst p) \<longrightarrow> entry_ok lk (fst p) (snd p)) \<and> entries_ok lk st"
  by (cases p) (auto simp: entries_ok_def)

lemma entries_ok_set: "entries_ok lk st \<Longrightarrow> entry_ok lk k s \<Longrightarrow> entries_ok lk (setItem k s st)"
  unfolding setItem_def by (induction st) (auto simp: entries_ok_Cons)

definition persist_inv :: "js_string \<Rightarrow> client \<Rightarrow> bool" where
  "persist_inv lk c \<longleftrightarrow> localKey c = lk \<and> session_ok c \<and> entries_ok lk (localStorage c) \<and>
     (\<forall>k w. obj_get (sentMessages c) k = Some w \<and> mtype w = PUBLISH \<longrightarrow> in_flight k w \<and> persisted c k w)"

lemma persisted_cong:
  "localStorage c' = localStorage c \<Longrightarrow> localKey c' = localKey c \<Longrightarrow> persisted c' k w = persisted c k w"
  by (simp add: persisted_def storage_key_def)

interpretation persist: session_predicate "persist_inv lk" for lk
proof
  fix c c' :: client
  assume "persist_inv lk c" "sentMessages c' = sentMessages c" "localStorage c' = localStorage c" "localKey c' = localKey c"
  then show "persist_inv lk c'" using persisted_cong [of c' c] by (simp add: persist_inv_def session_ok_def)
qed

lemma persisted_other:
  assumes "storage_ok (localStorage c)" "localKey c' = localKey c" "persisted c k w"
    and "localStorage c' = setItem key st (localStorage c) \<or> localStorage c' = removeItem key (localStorage c)"
    and "key \<noteq> storage_key sent_prefix c k"
  shows "persisted c' k w"
proof -
  have "getItem (localStorage c') (storage_key sent_prefix c' k) = getItem (localStorage c) (storage_key sent_prefix c k)"
    using assms by (auto simp: storage_key_def storage.get_set storage.get_del)
  moreover have "storage_key sent_prefix c' k = storage_key sent_prefix c k" using assms by (simp add: storage_key_def)
  ultimately show ?thesis using assms(3) by (simp add: persisted_def)
qed

lemma restored_delivery:
  assumes "payloadMessage w = Some m" "messageIdentifier w = Some k"
  shows "same_delivery w (restored True w m sq)"
  using assms by (simp add: same_delivery_def restored_def WireMessage_def)

lemma store_message_fields:
  assumes "store_message b n w = Inr (st, sq, sq')"
  shows "mtype w = PUBLISH" "s_type st = PUBLISH" "s_messageIdentifier st = ident w"
    "payloadMessage w = Some m \<Longrightarrow> s_qos st = qos m \<and> s_destinationName st = destinationName m"
  using assms
  by (auto simp: store_message_def ident_def bindr_Inr_iff Let_def split: MESSAGE_TYPE.splits option.splits if_splits)

lemma store_sent_ok:
  assumes "in_flight k w" "mtype w = PUBLISH"
  obtains st sq sq' where "store_message True n w = Inr (st, sq, sq')"
    "\<And>key. \<exists>w'. restore_message key True st = Inr w' \<and> same_delivery w w'"
    "\<And>c. entry_ok (localKey c) (storage_key sent_prefix c k) st"
proof -
  from assms obtain m where m: "payloadMessage w = Some m" "storable m" "messageIdentifier w = Some k"
    by (auto simp: in_flight_def)
  obtain st sq sq' where st: "store_message True n w = Inr (st, sq, sq')"
    using assms m by (fastforce simp: store_message_def storable_bytes Let_def split: prod.splits)
  have "wf_message m" "qos m \<in> {0, 1, 2}" using m(2) by (simp_all add: storable_def)
  then have "entry_ok (localKey c) (storage_key sent_prefix c k) st" for c
    using store_message_fields [OF st] m assms(2)
    by (auto simp: entry_ok_def restorable_def storage_key_def wf_message_def ident_def split: option.splits)
  then show ?thesis
    using that [OF st] store_restore [OF assms(2) m(1,3,2) st] restored_delivery [OF m(1,3)] by blast
qed

text \<open>The operations on the session, one by one.\<close>

lemma persist_ok: "persist_inv lk c \<Longrightarrow> storage_ok (localStorage c)" "persist_inv lk c \<Longrightarrow> obj_ok (sentMessages c)"
  "persist_inv lk c \<Longrightarrow> entries_ok lk (localStorage c)" "persist_inv lk c \<Longrightarrow> localKey c = lk"
  by (simp_all add: persist_inv_def session_ok_def)

lemma persistD: "persist_inv lk c \<Longrightarrow> obj_get (sentMessages c) k = Some w \<Longrightarrow> mtype w = PUBLISH \<Longrightarrow>
    in_flight k w \<and> persisted c k w"
  by (simp add: persist_inv_def)

lemma persistI: "localKey c = lk \<Longrightarrow> obj_ok (sentMessages c) \<Longrightarrow> storage_ok (localStorage c) \<Longrightarrow>
    entries_ok lk (localStorage c) \<Longrightarrow>
    (\<And>k w. obj_get (sentMessages c) k = Some w \<Longrightarrow> mtype w = PUBLISH \<Longrightarrow> in_flight k w \<and> persisted c k w) \<Longrightarrow>
    persist_inv lk c"
  by (simp add: persist_inv_def session_ok_def)

lemma persist_remove_received: "keeps (persist_inv lk) (remove_stored received_prefix k)"
proof (rule keepsI)
  fix c assume inv: "persist_inv lk c"
  let ?c = "c\<lparr>localStorage := removeItem (storage_key received_prefix c k) (localStorage c)\<rparr>"
  have "persist_inv lk ?c"
  proof (rule persistI)
    fix j w assume "obj_get (sentMessages ?c) j = Some w" "mtype w = PUBLISH"
    then have "in_flight j w" "persisted c j w" using persistD [OF inv] by simp_all
    then show "in_flight j w \<and> persisted ?c j w"
      using persisted_other [OF persist_ok(1) [OF inv], of ?c j w "storage_key received_prefix c k"] storage_key_prefix
      by simp
  qed (use persist_ok [OF inv] in \<open>simp_all add: storage.ok_del entries_ok_remove\<close>)
  then show "persist_inv lk (snd (remove_stored received_prefix k c))"
    by (simp add: remove_stored_def modifyc_def)
qed

lemma persist_store_received:
  assumes w: "payloadMessage w = Some m" "destinationName m \<noteq> None" "qos m \<in> {0, 1, 2}"
  shows "keeps (persist_inv lk) (store received_prefix w)"
proof (rule keepsI)
  fix c assume inv: "persist_inv lk c"
  show "persist_inv lk (snd (store received_prefix w c))"
  proof (cases "store_message (received_prefix = sent_prefix) (msg_sequence c) w")
    case (Inl e)
    then show ?thesis using inv by (simp add: store_def action_defs)
  next
    case (Inr r)
    obtain st sq sq' where r: "r = (st, sq, sq')" by (cases r)
    let ?c = "c\<lparr>msg_sequence := sq', localStorage := setItem (storage_key received_prefix c (ident w)) st (localStorage c)\<rparr>"
    have entry: "entry_ok (localKey c) (storage_key received_prefix c (ident w)) st"
      using store_message_fields [OF Inr [unfolded r]] w
      by (simp add: entry_ok_def restorable_def storage_key_def)
    have "persist_inv lk ?c"
    proof (rule persistI)
      fix j v assume "obj_get (sentMessages ?c) j = Some v" "mtype v = PUBLISH"
      then have "in_flight j v" "persisted c j v" using persistD [OF inv] by simp_all
      then show "in_flight j v \<and> persisted ?c j v"
        using persisted_other [OF persist_ok(1) [OF inv], of ?c j v "storage_key received_prefix c (ident w)" st]
          storage_key_prefix
        by simp
    qed (use persist_ok [OF inv] entry in \<open>simp_all add: storage.ok_set entries_ok_set\<close>)
    then show ?thesis using Inr r by (simp add: store_def action_defs storage_key_def)
  qed
qed

text \<open>Dropping an identifier from the table, with or without its stored form.\<close>

lemma persist_forget: "keeps (persist_inv lk) (forget_sent w)"
proof (rule keepsI)
  fix c assume inv: "persist_inv lk c"
  have "persisted (c\<lparr>sentMessages := t\<rparr>) k v = persisted c k v" for t k v
    by (rule persisted_cong) simp_all
  then show "persist_inv lk (snd (forget_sent w c))" using inv
    by (simp add: forget_sent_def modifyc_def persist_inv_def session_ok_def obj_del_ok obj_get_del)
qed

lemma persist_forget_remove: "keeps (persist_inv lk) (thenc (forget_sent w) (remove_stored sent_prefix (ident w)))"
proof (rule keepsI)
  fix c assume inv: "persist_inv lk c"
  let ?c = "c\<lparr>sentMessages := obj_del (ident w) (sentMessages c),
      localStorage := removeItem (storage_key sent_prefix c (ident w)) (localStorage c)\<rparr>"
  have "persist_inv lk ?c"
  proof (rule persistI)
    fix j v assume "obj_get (sentMessages ?c) j = Some v" "mtype v = PUBLISH"
    then have "in_flight j v" "persisted c j v" "j \<noteq> ident w"
      using persistD [OF inv] by (simp_all add: obj_get_del split: if_splits)
    then show "in_flight j v \<and> persisted ?c j v"
      using persisted_other [OF persist_ok(1) [OF inv], of ?c j v "storage_key sent_prefix c (ident w)"]
        storage_key_inj [of c c sent_prefix] by auto
  qed (use persist_ok [OF inv] in \<open>simp_all add: storage.ok_del obj_del_ok entries_ok_remove\<close>)
  then show "persist_inv lk (snd (thenc (forget_sent w) (remove_stored sent_prefix (ident w)) c))"
    by (simp add: action_defs forget_sent_def remove_stored_def storage_key_def)
qed

text \<open>Storing a message in flight and entering it in the table.\<close>

lemma persist_enter:
  assumes ok: "obj_ok t" "storage_ok (localStorage c)" "entries_ok lk (localStorage c)" "localKey c = lk"
    and entry: "entry_ok lk (storage_key sent_prefix c k) st" and v: "in_flight k v"
    and others: "\<And>j v. j \<noteq> k \<Longrightarrow> obj_get t j = Some v \<Longrightarrow> mtype v = PUBLISH \<Longrightarrow> in_flight j v \<and> persisted c j v"
    and st: "restore_message (storage_key sent_prefix c k) True st = Inr w'" "same_delivery v w'"
  shows "persist_inv lk (c\<lparr>localStorage := setItem (storage_key sent_prefix c k) st (localStorage c),
      sentMessages := obj_set k v t\<rparr>)"
proof (rule persistI)
  let ?c = "c\<lparr>localStorage := setItem (storage_key sent_prefix c k) st (localStorage c), sentMessages := obj_set k v t\<rparr>"
  fix j u assume u: "obj_get (sentMessages ?c) j = Some u" "mtype u = PUBLISH"
  show "in_flight j u \<and> persisted ?c j u"
  proof (cases "j = k")
    case True
    then have "u = v" using u ok(1) by (simp add: obj_get_set)
    moreover have "persisted ?c k v"
      using st ok(2) by (simp add: persisted_def storage_key_def storage.get_set)
    ultimately show ?thesis using True v by simp
  next
    case False
    then have "in_flight j u" "persisted c j u" using others u ok(1) by (simp_all add: obj_get_set)
    then show ?thesis
      using persisted_other [OF ok(2), of ?c j u "storage_key sent_prefix c k" st] False
        storage_key_inj [of c c sent_prefix] by auto
  qed
qed (use ok entry in \<open>simp_all add: storage.ok_set obj_set_ok entries_ok_set\<close>)

lemma next_free_unused: "obj_get t (Num (next_free t n)) = None"
  by (induction t n rule: next_free.induct) (subst next_free.simps, simp)

lemma next_free_least: "n \<le> next_free t n"
  by (induction t n rule: next_free.induct) (subst next_free.simps, auto)

text \<open>What \<open>_requires_ack\<close> does when it does not throw.\<close>

definition assigned :: "wire_message \<Rightarrow> client \<Rightarrow> wire_message" where
  "assigned w c = w\<lparr>messageIdentifier := Some (Num (next_free (sentMessages c) (message_identifier c)))\<rparr>"

lemma requires_ack_other:
  assumes "mtype w \<noteq> PUBLISH" "int (length (sentMessages c)) \<le> maxMessageIdentifier c"
  shows "requires_ack w c = (Inr (assigned w c),
    c\<lparr>sentMessages := obj_set (ident (assigned w c)) (assigned w c)
         (obj_set (ident (assigned w c)) (assigned w c) (sentMessages c)),
      message_identifier := (if ident (assigned w c) = Num (maxMessageIdentifier c) then 1
         else next_free (sentMessages c) (message_identifier c))\<rparr>)"
  using assms by (simp add: requires_ack_def action_defs Let_def assigned_def ident_def)

lemma requires_ack_publish:
  assumes "mtype w = PUBLISH" "int (length (sentMessages c)) \<le> maxMessageIdentifier c"
    "store_message True (msg_sequence c) (assigned w c) = Inr (st, sq, sq')"
  shows "requires_ack w c = (Inr ((assigned w c)\<lparr>sequence := sq\<rparr>),
    c\<lparr>msg_sequence := sq',
      localStorage := setItem (storage_key sent_prefix c (ident (assigned w c))) st (localStorage c),
      sentMessages := obj_set (ident (assigned w c)) ((assigned w c)\<lparr>sequence := sq\<rparr>)
         (obj_set (ident (assigned w c)) (assigned w c) (sentMessages c)),
      message_identifier := (if ident (assigned w c) = Num (maxMessageIdentifier c) then 1
         else next_free (sentMessages c) (message_identifier c))\<rparr>)"
  using assms
  by (simp add: requires_ack_def action_defs Let_def assigned_def ident_def store_def storage_key_def)

lemma requires_ack_full:
  "int (length (sentMessages c)) > maxMessageIdentifier c \<Longrightarrow> snd (requires_ack w c) = c"
  by (simp add: requires_ack_def action_defs Let_def)

lemma persist_requires_ack_other: "mtype w \<noteq> PUBLISH \<Longrightarrow> keeps (persist_inv lk) (requires_ack w)"
proof (rule keepsI)
  fix c assume w: "mtype w \<noteq> PUBLISH" and inv: "persist_inv lk c"
  let ?w = "assigned w c" let ?t = "obj_set (ident ?w) ?w (obj_set (ident ?w) ?w (sentMessages c))"
  show "persist_inv lk (snd (requires_ack w c))"
  proof (cases "int (length (sentMessages c)) \<le> maxMessageIdentifier c")
    case True
    have "mtype ?w \<noteq> PUBLISH" using w by (simp add: assigned_def)
    then have "persist_inv lk (c\<lparr>sentMessages := ?t, message_identifier := i\<rparr>)" for i
      using persist_ok [OF inv] persistD [OF inv] persisted_cong [of "c\<lparr>sentMessages := ?t, message_identifier := i\<rparr>" c]
      by (intro persistI) (auto simp: obj_get_set obj_set_ok split: if_splits)
    then show ?thesis using True by (simp add: requires_ack_other [OF w])
  next
    case False
    then show ?thesis using inv requires_ack_full by simp
  qed
qed

lemma persist_requires_ack:
  assumes "storable m"
  shows "keeps (persist_inv lk) (requires_ack ((WireMessage PUBLISH)\<lparr>payloadMessage := Some m\<rparr>))"
proof (rule keepsI)
  fix c assume inv: "persist_inv lk c"
  define w where "w = (WireMessage PUBLISH)\<lparr>payloadMessage := Some m\<rparr>"
  let ?w = "assigned w c"
  have w: "mtype w = PUBLISH" "mtype ?w = PUBLISH" by (simp_all add: w_def WireMessage_def assigned_def)
  have fl: "in_flight (ident ?w) ?w" "\<And>sq. in_flight (ident ?w) (?w\<lparr>sequence := sq\<rparr>)"
    using assms by (simp_all add: in_flight_def assigned_def ident_def w_def WireMessage_def)
  obtain st sq sq' w' where st: "store_message True (msg_sequence c) ?w = Inr (st, sq, sq')"
    "restore_message (storage_key sent_prefix c (ident ?w)) True st = Inr w'" "same_delivery ?w w'"
    and entry: "entry_ok (localKey c) (storage_key sent_prefix c (ident ?w)) st"
    using store_sent_ok [OF fl(1) w(2)] by metis
  let ?t = "obj_set (ident ?w) ?w (sentMessages c)"
  show "persist_inv lk (snd (requires_ack w c))"
  proof (cases "int (length (sentMessages c)) \<le> maxMessageIdentifier c")
    case True
    have "persist_inv lk (c\<lparr>localStorage := setItem (storage_key sent_prefix c (ident ?w)) st (localStorage c),
        sentMessages := obj_set (ident ?w) (?w\<lparr>sequence := sq\<rparr>) ?t\<rparr>)"
      using persist_ok [OF inv] persistD [OF inv] fl(2) st entry
      by (intro persist_enter) (auto simp: obj_set_ok obj_get_set same_delivery_def split: if_splits)
    then show ?thesis
      unfolding requires_ack_publish [OF w(1) True st(1)] snd_conv by (rule persist.frame) simp_all
  next
    case False
    then show ?thesis using inv requires_ack_full by simp
  qed
qed

lemma persist_pubrec: "keeps (persist_inv lk) (handle_pubrec w)"
proof (rule keepsI)
  fix c assume inv: "persist_inv lk c"
  let ?k = "ident w"
  show "persist_inv lk (snd (handle_pubrec w c))"
  proof (cases "obj_get (sentMessages c) ?k")
    case None
    then show ?thesis using inv by (simp add: handle_pubrec_def with_sent_def action_defs)
  next
    case (Some s)
    let ?s = "s\<lparr>pubRecReceived := True\<rparr>"
    let ?c = "c\<lparr>sentMessages := obj_set ?k ?s (sentMessages c)\<rparr>"
    have run: "handle_pubrec w c = bindc (store sent_prefix ?s) (\<lambda>s''.
         thenc (modifyc (\<lambda>c. c\<lparr>sentMessages := obj_set ?k s'' (sentMessages c)\<rparr>))
               (schedule_message (reply PUBREL ?k))) ?c"
      by (simp add: handle_pubrec_def with_sent_def getc_def Some Let_def thenc_def bindc_def modifyc_def)
    show ?thesis
    proof (cases "mtype s = PUBLISH")
      case False
      then have "store sent_prefix ?s ?c = (Inl ReferenceError, ?c)"
        by (cases "mtype s") (simp_all add: store_def action_defs store_message_def)
      moreover have "persist_inv lk ?c"
        using persist_ok [OF inv] persistD [OF inv] persisted_cong [of ?c c] False
        by (intro persistI) (auto simp: obj_get_set obj_set_ok split: if_splits)
      ultimately show ?thesis by (simp add: run bindc_def)
    next
      case True
      have fl: "in_flight ?k ?s" "\<And>sq. in_flight ?k (?s\<lparr>sequence := sq\<rparr>)" "ident ?s = ?k"
        using persistD [OF inv Some True] by (simp_all add: in_flight_def ident_def)
      have pub: "mtype ?s = PUBLISH" using True by simp
      obtain st sq sq' w' where st: "store_message True (msg_sequence c) ?s = Inr (st, sq, sq')"
        "restore_message (storage_key sent_prefix c ?k) True st = Inr w'" "same_delivery ?s w'"
        and entry: "entry_ok (localKey c) (storage_key sent_prefix c ?k) st"
        using store_sent_ok [OF fl(1) pub] by metis
      let ?c1 = "c\<lparr>localStorage := setItem (storage_key sent_prefix c ?k) st (localStorage c),
          sentMessages := obj_set ?k (?s\<lparr>sequence := sq\<rparr>) (obj_set ?k ?s (sentMessages c))\<rparr>"
      let ?c2 = "c\<lparr>msg_sequence := sq', localStorage := setItem (storage_key sent_prefix c ?k) st (localStorage c),
          sentMessages := obj_set ?k (?s\<lparr>sequence := sq\<rparr>) (obj_set ?k ?s (sentMessages c))\<rparr>"
      have "persist_inv lk ?c1"
        using persist_ok [OF inv] persistD [OF inv] fl(2) st entry
        by (intro persist_enter) (auto simp: obj_set_ok obj_get_set same_delivery_def split: if_splits)
      then have p: "persist_inv lk ?c2" by (rule persist.frame) simp_all
      have "handle_pubrec w c = schedule_message (reply PUBREL ?k) ?c2"
        using st(1) fl(3) by (simp add: run store_def action_defs storage_key_def)
      then show ?thesis using keepsD [OF persist.session_schedule(2) p] by simp
    qed
  qed
qed

lemma eachc_remove_sent: "\<exists>st. eachc (\<lambda>p. remove_stored sent_prefix (f p)) xs c = (Inr (), c\<lparr>localStorage := st\<rparr>) \<and>
    (storage_ok (localStorage c) \<longrightarrow> storage_ok st) \<and>
    (\<forall>lk. entries_ok lk (localStorage c) \<longrightarrow> entries_ok lk st)"
proof (induction xs arbitrary: c)
  case (Cons x xs)
  from Cons [of "c\<lparr>localStorage := removeItem (storage_key sent_prefix c (f x)) (localStorage c)\<rparr>"]
  show ?case by (auto simp: remove_stored_def thenc_def bindc_def modifyc_def storage.ok_del entries_ok_remove)
next
  case Nil
  show ?case by (rule exI [of _ "localStorage c"]) (simp add: returnc_def)
qed

lemma persist_clear_session: "keeps (persist_inv lk) clear_session"
proof (rule keepsI)
  fix c assume inv: "persist_inv lk c"
  obtain st where st: "eachc (\<lambda>p. remove_stored sent_prefix (ident (snd p))) (sentMessages c) c =
      (Inr (), c\<lparr>localStorage := st\<rparr>)" "storage_ok st" "entries_ok lk st"
    using eachc_remove_sent [of "\<lambda>p. ident (snd p)" "sentMessages c" c] persist_ok [OF inv] by auto
  let ?c = "c\<lparr>localStorage := st, sentMessages := []\<rparr>"
  have p: "persist_inv lk ?c" using st(2,3) persist_ok(4) [OF inv] by (simp add: persist_inv_def session_ok_def obj_ok_def obj_get_def)
  have k: "keeps (persist_inv lk) (thenc (eachc (\<lambda>p. remove_stored received_prefix (ident (snd p))) (receivedMessages c))
      (modifyc (\<lambda>c. c\<lparr>receivedMessages := []\<rparr>)))"
    by (intro keeps_intros persist_remove_received persist.session_frame) simp_all
  have "clear_session c = thenc (eachc (\<lambda>p. remove_stored received_prefix (ident (snd p))) (receivedMessages c))
      (modifyc (\<lambda>c. c\<lparr>receivedMessages := []\<rparr>)) ?c"
    by (simp add: clear_session_def getc_def thenc_def [of "eachc _ (sentMessages c)"] bindc_def [of "eachc _ (sentMessages c)"]
        st(1)) (simp add: thenc_def bindc_def modifyc_def)
  then show "persist_inv lk (snd (clear_session c))" using keepsD [OF k p] by simp
qed

lemmas persist_intros = persist.session_intros persist.session_calls persist_remove_received
  persist_forget persist_forget_remove persist_requires_ack_other persist_pubrec persist_clear_session

text \<open>Packets that come out of the decoder: a PUBLISH has a message with a destination.\<close>

definition decoded :: "wire_message \<Rightarrow> bool" where
  "decoded w \<longleftrightarrow> (mtype w = PUBLISH \<longrightarrow> (\<exists>m. payloadMessage w = Some m \<and> destinationName m \<noteq> None))"

lemma persist_receivePublish:
  assumes "decoded w" "mtype w = PUBLISH"
  shows "keeps (persist_inv lk) (receivePublish w)"
proof -
  obtain m where m: "payloadMessage w = Some m" "destinationName m \<noteq> None" using assms by (auto simp: decoded_def)
  show ?thesis
    unfolding receivePublish_def m(1)
    by (auto simp: deref_def liftc_def bindc_def keeps_def
        intro!: keepsD [where P = "persist_inv lk"] keeps_intros persist_intros persist_store_received [OF m])
qed

lemma persist_handlers:
  "keeps (persist_inv lk) (handle_connack w)"
  "keeps (persist_inv lk) (handle_puback w)" "keeps (persist_inv lk) (handle_pubrel w)"
  "keeps (persist_inv lk) (handle_pubcomp w)" "keeps (persist_inv lk) (handle_suback w)" "keeps (persist_inv lk) (handle_unsuback w)"
proof -
  have assoc: "thenc (forget_sent w) (thenc f g) = thenc (thenc (forget_sent w) f) g" for f g :: "unit action"
    by (rule ext) (auto simp: thenc_def bindc_def split: prod.split sum.split)
  show "keeps (persist_inv lk) (handle_connack w)"
    unfolding handle_connack_def resend_def Let_def by (intro keeps_intros persist_intros) simp_all
  show "keeps (persist_inv lk) (handle_puback w)" "keeps (persist_inv lk) (handle_pubcomp w)"
    unfolding handle_puback_def handle_pubcomp_def with_sent_def assoc
    by (intro keeps_intros persist_intros; simp)+
  show "keeps (persist_inv lk) (handle_pubrel w)"
    unfolding handle_pubrel_def by (intro keeps_intros persist_intros) simp_all
  show "keeps (persist_inv lk) (handle_suback w)" "keeps (persist_inv lk) (handle_unsuback w)"
    unfolding handle_suback_def handle_unsuback_def with_sent_def
    by (intro keeps_intros persist_intros; simp)+
qed

lemma persist_handleMessage: "decoded w \<Longrightarrow> keeps (persist_inv lk) (handleMessage w)"
  unfolding handleMessage_def dispatch_def
  by (cases "mtype w") (simp_all, (intro keeps_intros persist_intros persist_handlers persist_receivePublish; simp)+)

lemma decode_body_decoded: "decode_body t info input pos endPos = Inr w \<Longrightarrow> decoded w"
  by (cases t) (auto simp: decode_body_def decode_publish_def decoded_def WireMessage_def setDestinationName_def
      bindr_Inr_iff Let_def)

lemma decodeMessage_decoded: "decodeMessage input pos = Inr (Some w, pos') \<Longrightarrow> decoded w"
  by (auto simp: decodeMessage_def Let_def bindr_Inr_iff decode_body_decoded split: option.splits if_splits prod.splits)

lemma deframe_loop_decoded: "deframe_loop b n = Inr (ms, n') \<Longrightarrow> w \<in> set ms \<Longrightarrow> decoded w"
proof (induction b n arbitrary: ms n' rule: deframe_loop.induct)
  case (1 b n)
  from 1(2,3) obtain m p ms' where "n < length b" "decodeMessage b n = Inr (Some m, p)"
    "deframe_loop b p = Inr (ms', n')" "ms = m # ms'"
    by (subst (asm) deframe_loop.simps) (auto simp: bindr_Inr_iff split: if_splits option.splits)
  then show ?case using 1(1) [of "(Some m, p)" "Some m" p m ms' n'] 1(3) decodeMessage_decoded by auto
qed

lemma persist_on_message: "keeps (persist_inv lk) (on_socket_message d)"
proof -
  have "keeps (persist_inv lk) (eachc handleMessage ms)" if "deframeMessages buf d = Inr (ms, b)" for ms buf b
  proof (rule keeps_each)
    fix w assume "w \<in> set ms"
    then show "keeps (persist_inv lk) (handleMessage w)"
      using that deframe_loop_decoded by (intro persist_handleMessage) (auto simp: deframeMessages_def Let_def bindr_Inr_iff)
  qed
  then have "keeps (persist_inv lk) (case deframeMessages (receiveBuffer c) d of
        Inl e \<Rightarrow> thenc (modifyc (\<lambda>c. c\<lparr>receiveBuffer := None\<rparr>)) (thenc (internal_error e) (throwc TypeError))
      | Inr (ms, b) \<Rightarrow> thenc (modifyc (\<lambda>c. c\<lparr>receiveBuffer := b\<rparr>)) (eachc handleMessage ms))" for c
    by (auto intro!: keeps_then persist_intros keeps_intros(2) split: sum.split)
  then show ?thesis
    unfolding on_socket_message_def by (intro keeps_then persist_intros keeps_get_any)
qed

lemma persist_subscribe: "keeps (persist_inv lk) (subscribe t opts)" "keeps (persist_inv lk) (unsubscribe t opts)"
  unfolding subscribe_def unsubscribe_def
  by (intro keeps_intros persist_intros; simp add: WireMessage_def)+

lemma persist_send: "storable m \<Longrightarrow> keeps (persist_inv lk) (send m)"
  unfolding send_def Let_def
  by (intro keeps_intros persist_intros persist_requires_ack) simp_all

text \<open>Applications that send payloads as strings or typed arrays, to well-formed topics.\<close>

fun storable_sends :: "input \<Rightarrow> client \<Rightarrow> bool" where
  "storable_sends (Call_send m) c = storable m"
| "storable_sends _ c = True"

lemma perform_persist: "persist_inv lk c \<Longrightarrow> storable_sends i c \<Longrightarrow> persist_inv lk (snd (perform i c))"
  by (cases i) (auto intro: keepsD [OF persist_send] keepsD [OF persist_subscribe(1)] keepsD [OF persist_subscribe(2)]
      keepsD [OF persist_on_message] keepsD [OF persist.session_calls(1)] keepsD [OF persist.session_calls(2)]
      keepsD [OF persist.session_calls(3)] keepsD [OF persist.session_calls(4)] keepsD [OF persist.session_calls(5)]
      keepsD [OF persist.session_pings(2)] keepsD [OF persist.session_pings(3)] keepsD [OF persist.session_pings(4)]
      keepsD [OF persist.session_pings(5)] keepsD [OF persist.session_set_handler])

lemma reachable_persist: "reachable storable_sends c0 c \<Longrightarrow> persist_inv lk c0 \<Longrightarrow> persist_inv lk c"
  by (induction rule: reachable.induct) (auto intro: perform_persist)

subsection \<open>Restarting on what is stored\<close>

text \<open>What the constructor reads back under an identifier.\<close>

definition reread :: "(js_string \<times> stored_message) list \<Rightarrow> js_string \<Rightarrow> jsnum \<Rightarrow> wire_message option" where
  "reread st lk k =
     (case getItem st (sent_prefix @ lk @ show_num 10 k) of
        None \<Rightarrow> None
      | Some s \<Rightarrow> (case restore_message (sent_prefix @ lk @ show_num 10 k) True s of
                     Inr w \<Rightarrow> Some w | Inl _ \<Rightarrow> None))"

lemma restore_message_ok:
  assumes "restorable s"
  obtains w m where "restore_message key b s = Inr w" "mtype w = PUBLISH" "ident w = s_messageIdentifier s"
    "messageIdentifier w = Some (s_messageIdentifier s)"
    "payloadMessage w = Some m" "qos m = s_qos s" "destinationName m = s_destinationName s"
    "b \<Longrightarrow> duplicate m" "\<exists>bs. payload m = PArray (Uint8Array bs)"
proof -
  obtain d where "s_destinationName s = Some d" using assms by (auto simp: restorable_def)
  then show ?thesis using assms that
    by (simp add: restore_message_def restorable_def setQos_def Message_def Let_def WireMessage_def ident_def
        setDestinationName_def setDuplicate_def setRetained_def)
qed

lemma sent_key_prefix: "prefix_of (sent_prefix @ lk) (sent_prefix @ lk @ x)"
  "\<not> prefix_of (sent_prefix @ lk) (received_prefix @ x)"
  by (simp_all add: prefix_of_iff sent_prefix_def received_prefix_def js_def)

lemma restore_step:
  assumes "getItem (localStorage c) key = Some s" "entry_ok (localKey c) key s"
  shows "\<exists>w. restore key c =
     (Inr (), if prefix_of (sent_prefix @ localKey c) key
              then c\<lparr>sentMessages := obj_set (s_messageIdentifier s) w (sentMessages c)\<rparr>
              else c\<lparr>receivedMessages := obj_set (s_messageIdentifier s) w (receivedMessages c)\<rparr>) \<and>
    restore_message key (prefix_of (sent_prefix @ localKey c) key) s = Inr w"
proof -
  have "restorable s" using assms(2) by (simp add: entry_ok_def)
  from restore_message_ok [OF this, of key "prefix_of (sent_prefix @ localKey c) key"]
  obtain w where "restore_message key (prefix_of (sent_prefix @ localKey c) key) s = Inr w"
    "ident w = s_messageIdentifier s" by metis
  moreover have "prefix_of (received_prefix @ localKey c) key" if "\<not> prefix_of (sent_prefix @ localKey c) key"
    using assms(2) that by (auto simp: entry_ok_def prefix_of_iff)
  ultimately show ?thesis
    using assms(1) by (simp add: restore_def getc_def Let_def bindc_def liftc_def modifyc_def whenc_def)
qed

lemma restore_keys:
  assumes "\<And>key. key \<in> set ks \<Longrightarrow> \<exists>s. getItem (localStorage c) key = Some s \<and> entry_ok (localKey c) key s"
    and "obj_ok (sentMessages c)"
  shows "\<exists>c'. eachc restore ks c = (Inr (), c') \<and> obj_ok (sentMessages c') \<and>
    localStorage c' = localStorage c \<and> localKey c' = localKey c \<and>
    (\<forall>k. obj_get (sentMessages c') k =
       (if sent_prefix @ localKey c @ show_num 10 k \<in> set ks then reread (localStorage c) (localKey c) k
        else obj_get (sentMessages c) k))"
  using assms
proof (induction ks arbitrary: c)
  case (Cons key ks)
  let ?lk = "localKey c"
  obtain s where s: "getItem (localStorage c) key = Some s" "entry_ok ?lk key s" using Cons(2) by auto
  from restore_step [OF s] obtain w where w: "restore key c =
     (Inr (), if prefix_of (sent_prefix @ ?lk) key
              then c\<lparr>sentMessages := obj_set (s_messageIdentifier s) w (sentMessages c)\<rparr>
              else c\<lparr>receivedMessages := obj_set (s_messageIdentifier s) w (receivedMessages c)\<rparr>)"
    "restore_message key (prefix_of (sent_prefix @ ?lk) key) s = Inr w" by blast
  define c1 where "c1 = snd (restore key c)"
  have frame: "localStorage c1 = localStorage c" "localKey c1 = ?lk" "obj_ok (sentMessages c1)"
    using Cons(3) by (simp_all add: c1_def w obj_set_ok)
  have get1: "obj_get (sentMessages c1) k =
      (if sent_prefix @ ?lk @ show_num 10 k = key then reread (localStorage c) ?lk k else obj_get (sentMessages c) k)" for k
  proof (cases "prefix_of (sent_prefix @ ?lk) key")
    case True
    then have key: "key = sent_prefix @ ?lk @ show_num 10 (s_messageIdentifier s)"
      using s(2) sent_key_prefix by (auto simp: entry_ok_def)
    then have "sent_prefix @ ?lk @ show_num 10 k = key \<longleftrightarrow> k = s_messageIdentifier s" using show_num_inj by auto
    moreover have "reread (localStorage c) ?lk (s_messageIdentifier s) = Some w"
      using s(1) w(2) True key by (simp add: reread_def)
    ultimately show ?thesis using True Cons(3) by (simp add: c1_def w obj_get_set)
  next
    case False
    then have "sent_prefix @ ?lk @ show_num 10 k \<noteq> key" using sent_key_prefix by blast
    then show ?thesis using False by (simp add: c1_def w)
  qed
  obtain c' where c': "eachc restore ks c1 = (Inr (), c')" "obj_ok (sentMessages c')"
    "localStorage c' = localStorage c" "localKey c' = ?lk"
    "\<forall>k. obj_get (sentMessages c') k =
       (if sent_prefix @ ?lk @ show_num 10 k \<in> set ks then reread (localStorage c) ?lk k else obj_get (sentMessages c1) k)"
    using Cons(1) [of c1] Cons(2) frame by auto
  have "eachc restore (key # ks) c = (Inr (), c')"
    using c'(1) w(1) by (simp add: thenc_def bindc_def c1_def)
  then show ?case using c' get1 by (intro exI [of _ c']) auto
qed (simp add: returnc_def)

lemma entries_okD: "entries_ok lk st \<Longrightarrow> key \<in> set (filter (own_key lk) (map fst st)) \<Longrightarrow> storage_ok st \<Longrightarrow>
    \<exists>s. getItem st key = Some s \<and> entry_ok lk key s"
  by (auto simp: entries_ok_def getItem_def storage_ok_def)

lemma getItem_key: "getItem st key = Some s \<Longrightarrow> key \<in> set (map fst st)"
  by (force simp: getItem_def dest: map_of_SomeD)

lemma restart:
  assumes st: "storage_ok st" "entries_ok lk st" and lk: "lk = local_key host port path clientid"
  obtains c' where "ClientImpl u host port path clientid st = (Inr (), c')" "persist_inv lk c'"
    "\<And>k. obj_get (sentMessages c') k = reread st lk k"
proof -
  define f where "f = fresh_client u lk clientid st"
  have f: "localStorage f = st" "localKey f = lk" "sentMessages f = []" by (simp_all add: f_def fresh_client_def)
  let ?ks = "filter (own_key lk) (map fst st)"
  obtain c' where c': "eachc restore ?ks f = (Inr (), c')" "obj_ok (sentMessages c')"
    "localStorage c' = st" "localKey c' = lk"
    "\<forall>k. obj_get (sentMessages c') k =
       (if sent_prefix @ lk @ show_num 10 k \<in> set ?ks then reread st lk k else None)"
    using restore_keys [of ?ks f] entries_okD [OF st(2) _ st(1)] by (auto simp: f obj_ok_def obj_get_def)
  have get: "obj_get (sentMessages c') k = reread st lk k" for k
    using c'(5) getItem_key [of st] sent_key_prefix(1) by (auto simp: reread_def own_key_def split: option.splits)
  have "in_flight k w \<and> persisted c' k w" if "reread st lk k = Some w" for k w
  proof -
    let ?key = "sent_prefix @ lk @ show_num 10 k"
    obtain s where s: "getItem st ?key = Some s" "restore_message ?key True s = Inr w"
      using \<open>reread st lk k = Some w\<close> by (auto simp: reread_def split: option.splits sum.splits)
    then have e: "entry_ok lk ?key s"
      using entries_okD [OF st(2) _ st(1)] getItem_key [OF s(1)] sent_key_prefix(1) by (fastforce simp: own_key_def)
    then have k: "s_messageIdentifier s = k" "wf_utf16 (the (s_destinationName s))"
      using show_num_inj [of k] by (auto simp: entry_ok_def sent_prefix_def received_prefix_def js_def)
    have r: "restorable s" using e by (simp add: entry_ok_def)
    from restore_message_ok [OF r, of ?key True] obtain m where m: "payloadMessage w = Some m" "qos m = s_qos s"
      "destinationName m = s_destinationName s" "\<exists>bs. payload m = PArray (Uint8Array bs)"
      "messageIdentifier w = Some k" using s(2) k(1) by (metis sum.inject(2))
    then have "storable m" using r k(2) by (auto simp: storable_def wf_message_def restorable_def)
    then show ?thesis using s m c' by (auto simp: in_flight_def persisted_def storage_key_def same_delivery_def)
  qed
  then have "persist_inv lk c'" using c' st get by (intro persistI) simp_all
  then show ?thesis using that [of c'] c'(1) get by (simp add: ClientImpl_def Let_def lk f_def)
qed

lemma reread_persisted:
  assumes "persisted c k w" "localKey c = lk"
  shows "\<exists>w'. reread (localStorage c) lk k = Some w' \<and> same_delivery w w'"
  using assms by (auto simp: persisted_def reread_def storage_key_def)

text \<open>
  C6: No message in flight is lost by a restart, as long as the application sends no payload that is a
  plain \<open>ArrayBuffer\<close> (see \<open>arraybuffer_payload_lost\<close>), well-formed texts and a QoS of 0, 1 or 2
  (\<open>storable_sends\<close>), and the storage the client began with holds, under the keys of this client, only
  entries that can be restored (\<open>entries_ok\<close>). In every state that such a client then reaches, with or
  without callbacks, whatever the server, the network and the timers do, and wherever it stops, each
  PUBLISH that waits for an acknowledgement is in local storage in such a form that a new client for
  the same server and client id, constructed on that storage, waits for the same acknowledgement of
  the same message: identifier, topic, QoS, payload bytes, retained flag and PUBREC state. The
  constructor does not throw.
\<close>

theorem in_flight_survives_restart:
  assumes "storage_ok st" "entries_ok (local_key host port path clientid) st"
    and "reachable storable_sends (snd (ClientImpl u host port path clientid st)) c"
    and "obj_get (sentMessages c) k = Some w" "mtype w = PUBLISH"
  shows "\<exists>c' w'. ClientImpl u host port path clientid (localStorage c) = (Inr (), c') \<and>
    obj_get (sentMessages c') k = Some w' \<and> same_delivery w w'"
proof -
  let ?lk = "local_key host port path clientid"
  have "persist_inv ?lk (snd (ClientImpl u host port path clientid st))"
    by (rule restart [OF assms(1,2) refl, of u]) simp
  then have inv: "persist_inv ?lk c" using reachable_persist [OF assms(3)] by blast
  then have "persisted c k w" using persistD assms(4,5) by blast
  with reread_persisted [OF this persist_ok(4) [OF inv]] restart [OF persist_ok(1) [OF inv] persist_ok(3) [OF inv] refl]
  show ?thesis by metis
qed

definition example_message :: message where
  "example_message = \<lparr>payload = PString (js ''on''), destinationName = Some (js ''lamp''), qos = 1,
     retained = False, duplicate = False\<rparr>"

definition example_session :: "input list" where
  "example_session = [Set_handler OnMessageDelivered, Call_connect plain_options, Socket_opened, Socket_data [0x20, 2, 0, 0],
     Call_send example_message]"

lemma example_session_steps: "all_steps storable_sends example_session plain_client"
  by code_simp

lemma example_session_sent:
  "map_option mtype (obj_get (sentMessages (run example_session plain_client)) (Num 1)) = Some PUBLISH"
  by code_simp

theorem in_flight_survives_restart_witness:
  "\<exists>w c' w'. obj_get (sentMessages (run example_session plain_client)) (Num 1) = Some w \<and>
    ClientImpl (js ''ws://h:80/mqtt'') (js ''h'') (Num 80) (js ''/mqtt'') (js ''me'')
      (localStorage (run example_session plain_client)) = (Inr (), c') \<and>
    obj_get (sentMessages c') (Num 1) = Some w' \<and> same_delivery w w'"
proof -
  obtain w where w: "obj_get (sentMessages (run example_session plain_client)) (Num 1) = Some w" "mtype w = PUBLISH"
    using example_session_sent by auto
  show ?thesis
    using in_flight_survives_restart [OF _ _ _ w, of "[]" "js ''h''" "Num 80" "js ''/mqtt''" "js ''me''" "js ''ws://h:80/mqtt''"]
      reachable_run [OF reachable.start example_session_steps] w(1)
    by (simp add: storage_ok_def entries_ok_def plain_client_def)
qed
end
