(* ===== verification/Delivery.thy ===== *)
theory Delivery
  imports Session
begin

text \<open>
  Message flows over a connection that is up: what the application and the server see of QoS 1 and 2
  in both directions. The receiving side refines an abstract receiver of the protocol
  (\<open>qos2_specs\<close>); the sending side completes when the server answers; and the identifiers run over
  their 16 bits.
\<close>

subsection \<open>A client that is connected and idle\<close>

definition ready :: "client \<Rightarrow> bool" where
  "ready c \<longleftrightarrow> connected c \<and> socket c = Some Open \<and> sendPinger c \<noteq> None \<and> receivePinger c \<noteq> None \<and>
     msg_queue c = [] \<and> \<not> notify_msg_sent c \<and> receiveBuffer c = None"

text \<open>The state after bytes went out: the keep-alive timer of the sending side starts again.\<close>

definition sent :: "bytes \<Rightarrow> client \<Rightarrow> client" where
  "sent b c = c\<lparr>sendPinger := map_option pinger_reset (sendPinger c), out := out c @ [SocketSend b]\<rparr>"

lemma sent_fields [simp]:
  "sentMessages (sent b c) = sentMessages c" "receivedMessages (sent b c) = receivedMessages c"
  "localStorage (sent b c) = localStorage c" "localKey (sent b c) = localKey c"
  "out (sent b c) = out c @ [SocketSend b]" "ready (sent b c) = ready c"
  "hasOnMessageArrived (sent b c) = hasOnMessageArrived c"
  "hasOnMessageDelivered (sent b c) = hasOnMessageDelivered c"
  "message_identifier (sent b c) = message_identifier c"
  "maxMessageIdentifier (sent b c) = maxMessageIdentifier c"
  "receivePinger (sent b c) = receivePinger c" "receiveBuffer (sent b c) = receiveBuffer c"
  "msg_sequence (sent b c) = msg_sequence c" 
  by (simp_all add: sent_def ready_def)

lemma schedule_ready: "ready c \<Longrightarrow> encode m = Inr b \<Longrightarrow> schedule_message m c = (Inr (), sent b c)"
  by (auto simp: ready_def schedule_message_def process_queue_def action_defs socket_send_def reset_sendPinger_def
      sent_def)

lemma ready_update [simp]:
  "ready (c\<lparr>receivedMessages := r\<rparr>) = ready c" "ready (c\<lparr>localStorage := st\<rparr>) = ready c"
  "ready (c\<lparr>sentMessages := t\<rparr>) = ready c" "ready (c\<lparr>out := evs\<rparr>) = ready c"
  "ready (c\<lparr>msg_sequence := q\<rparr>) = ready c" "ready (c\<lparr>message_identifier := i\<rparr>) = ready c"
  by (simp_all add: ready_def)

definition ack_bytes :: "MESSAGE_TYPE \<Rightarrow> int \<Rightarrow> bytes" where
  "ack_bytes t n = frame (to_byte (16 * type_code t + (if t = PUBREL then 2 else 0))) (be16 n)"

lemma encode_reply:
  assumes "t \<in> {PUBACK, PUBREC, PUBREL, PUBCOMP}"
  shows "encode (reply t (Num n)) = Inr (ack_bytes t n)"
proof -
  have "wf_wire (reply t (Num n))" using assms by (auto simp: wf_wire_def reply_def WireMessage_def)
  from encode_frame [OF this] show ?thesis using assms
    by (auto simp: ack_bytes_def reply_def WireMessage_def wire_body_def header_bytes_def ident_bytes_def
        content_bytes_def first_byte_def push_bit_eq_mult)
qed

text \<open>One chunk of whole packets: they are handled in order.\<close>

lemma deframe_packets:
  assumes "list_all2 server_packet bss ws"
  shows "deframeMessages None (concat bss) = Inr (ws, None)"
  using mqtt.chunking [OF assms, of "[concat bss]"]
  by (auto simp: bindr_Inr_iff split: prod.splits)

definition heard :: "client \<Rightarrow> client" where
  "heard c = c\<lparr>receivePinger := map_option pinger_reset (receivePinger c)\<rparr>"

lemma heard_fields [simp]:
  "sentMessages (heard c) = sentMessages c" "receivedMessages (heard c) = receivedMessages c"
  "localStorage (heard c) = localStorage c" "localKey (heard c) = localKey c"
  "out (heard c) = out c" "ready (heard c) = ready c"
  "hasOnMessageArrived (heard c) = hasOnMessageArrived c"
  "hasOnMessageDelivered (heard c) = hasOnMessageDelivered c"
  "message_identifier (heard c) = message_identifier c"
  "maxMessageIdentifier (heard c) = maxMessageIdentifier c"
  "msg_sequence (heard c) = msg_sequence c" 
  by (simp_all add: heard_def ready_def)

lemma socket_data_packets:
  assumes "receiveBuffer c = None" "receivePinger c \<noteq> None" "list_all2 server_packet bss ws"
  shows "on_socket_message (concat bss) c = eachc handleMessage ws (heard c)"
proof -
  obtain p where p: "receiveBuffer c = None" "receivePinger c = Some p" using assms(1,2) by auto
  have "on_socket_message (concat bss) c =
      eachc handleMessage ws (c\<lparr>receivePinger := Some (pinger_reset p), receiveBuffer := None\<rparr>)"
    using deframe_packets [OF assms(3)] p
    by (simp add: on_socket_message_def reset_receivePinger_def getc_def thenc_def bindc_def modifyc_def)
  also have "c\<lparr>receivePinger := Some (pinger_reset p), receiveBuffer := None\<rparr> = heard c"
    using p by (cases c) (simp add: heard_def)
  finally show ?thesis .
qed

lemma socket_data_ready:
  "ready c \<Longrightarrow> list_all2 server_packet bss ws \<Longrightarrow>
    on_socket_message (concat bss) c = eachc handleMessage ws (heard c)"
  by (intro socket_data_packets) (simp_all add: ready_def)

subsection \<open>Receiving at QoS 2\<close>

text \<open>
  What the specification of QoS 2 asks of a receiver: a PUBLISH is noted under its identifier and
  confirmed with PUBREC, once more if it comes again; a PUBREL passes the noted message to the
  application, forgets it, and is confirmed with PUBCOMP, whether something was noted or not.
\<close>

datatype qos2_packet =
    Publish2 bool bool js_string int bytes
  | Release int

type_synonym pending = "int \<Rightarrow> message option option"

fun qos2_message :: "bool \<Rightarrow> bool \<Rightarrow> js_string \<Rightarrow> bytes \<Rightarrow> message" where
  "qos2_message dup ret d p =
     \<lparr>payload = PArray (Uint8Array p), destinationName = Some d, qos = 2, retained = ret, duplicate = dup\<rparr>"

fun qos2_spec :: "qos2_packet \<Rightarrow> pending \<Rightarrow> pending \<times> event list" where
  "qos2_spec (Publish2 dup ret d n p) ps =
     (ps(n \<mapsto> Some (qos2_message dup ret d p)), [SocketSend (ack_bytes PUBREC n)])"
| "qos2_spec (Release n) ps =
     (ps(n := None),
      (case ps n of None \<Rightarrow> [] | Some m \<Rightarrow> [MessageArrived m]) @ [SocketSend (ack_bytes PUBCOMP n)])"

fun qos2_specs :: "qos2_packet list \<Rightarrow> pending \<Rightarrow> pending \<times> event list" where
  "qos2_specs [] ps = (ps, [])"
| "qos2_specs (x # xs) ps =
     (let (ps', es) = qos2_spec x ps; (ps'', es') = qos2_specs xs ps' in (ps'', es @ es'))"

fun qos2_wf :: "qos2_packet \<Rightarrow> bool" where
  "qos2_wf (Publish2 dup ret d n p) \<longleftrightarrow> wf_utf16 d \<and> length (utf8 d) < 2 ^ 16 \<and> 0 \<le> n \<and> n < 2 ^ 16 \<and>
     length p < 2 ^ 27"
| "qos2_wf (Release n) \<longleftrightarrow> 0 \<le> n \<and> n < 2 ^ 16"

fun qos2_bytes :: "qos2_packet \<Rightarrow> bytes" where
  "qos2_bytes (Publish2 dup ret d n p) =
     frame (first_of PUBLISH (publish_flags dup 2 ret)) (publish_body d 2 n p)"
| "qos2_bytes (Release n) = frame (first_of PUBREL 2) (be16 n)"

fun qos2_wire :: "qos2_packet \<Rightarrow> wire_message" where
  "qos2_wire (Publish2 dup ret d n p) = publish_wire dup 2 ret d n p"
| "qos2_wire (Release n) = reply PUBREL (Num n)"

lemma qos2_server_packet: "qos2_wf x \<Longrightarrow> server_packet (qos2_bytes x) (qos2_wire x)"
proof (cases x)
  case (Publish2 dup ret d n p)
  assume "qos2_wf x"
  then show ?thesis unfolding Publish2 qos2_bytes.simps qos2_wire.simps
    by (intro server_packet.publish) (simp_all add: publish_body_def)
qed (auto simp: reply_def intro!: server_packet.ack)

definition pending :: "client \<Rightarrow> pending" where
  "pending c n = map_option payloadMessage (obj_get (receivedMessages c) (Num n))"

definition receiving :: "client \<Rightarrow> bool" where
  "receiving c \<longleftrightarrow> ready c \<and> hasOnMessageArrived c \<and> obj_ok (receivedMessages c)"

lemma receive_publish:
  assumes "receiving c"
  shows "\<exists>c'. handleMessage (publish_wire dup 2 ret d n p) c = (Inr (), c') \<and> receiving c' \<and>
    pending c' = (pending c)(n \<mapsto> Some (qos2_message dup ret d p)) \<and>
    out c' = out c @ [SocketSend (ack_bytes PUBREC n)]"
proof -
  let ?w = "publish_wire dup 2 ret d n p"
  let ?c = "c\<lparr>receivedMessages := obj_set (Num n) ?w (receivedMessages c)\<rparr>"
  have w: "mtype ?w = PUBLISH" "payloadMessage ?w = Some (qos2_message dup ret d p)" "ident ?w = Num n"
    "qos (qos2_message dup ret d p) = 2"
    by (simp_all add: publish_wire_def WireMessage_def ident_def)
  have "\<exists>r. store_message (received_prefix = sent_prefix) (msg_sequence ?c) ?w = Inr r"
    by (simp add: store_message_def w getPayloadBytes_def Let_def split: prod.split)
  then obtain st sq sq' where st: "store_message (received_prefix = sent_prefix) (msg_sequence ?c) ?w = Inr (st, sq, sq')"
    by auto
  let ?c1 = "?c\<lparr>msg_sequence := sq', localStorage := setItem (storage_key received_prefix ?c (Num n)) st (localStorage c)\<rparr>"
  have "store received_prefix ?w ?c = (Inr (?w\<lparr>sequence := sq\<rparr>), ?c1)"
    using st by (simp add: store_def action_defs w storage_key_def)
  then have "handleMessage ?w c = (Inr (), sent (ack_bytes PUBREC n) ?c1)"
    using schedule_ready [OF _ encode_reply [of PUBREC n], of ?c1] assms
    by (simp add: handleMessage_def dispatch_def receivePublish_def w deref_def action_defs receiving_def)
  moreover have "pending (sent (ack_bytes PUBREC n) ?c1) = (pending c)(n \<mapsto> Some (qos2_message dup ret d p))"
    using assms by (auto simp: pending_def receiving_def obj_get_set w)
  ultimately show ?thesis using assms by (simp add: receiving_def obj_set_ok)
qed

lemma receive_release:
  assumes "receiving c"
  shows "\<exists>c'. handleMessage (reply PUBREL (Num n)) c = (Inr (), c') \<and> receiving c' \<and>
    pending c' = (pending c)(n := None) \<and>
    out c' = out c @ (case pending c n of None \<Rightarrow> [] | Some m \<Rightarrow> [MessageArrived m]) @ [SocketSend (ack_bytes PUBCOMP n)]"
proof -
  have w: "mtype (reply PUBREL (Num n)) = PUBREL" "ident (reply PUBREL (Num n)) = Num n"
    by (simp_all add: reply_def WireMessage_def ident_def)
  let ?c = "c\<lparr>localStorage := removeItem (storage_key received_prefix c (Num n)) (localStorage c)\<rparr>"
  let ?c1 = "case obj_get (receivedMessages c) (Num n) of None \<Rightarrow> ?c
    | Some r \<Rightarrow> ?c\<lparr>out := out c @ [MessageArrived (payloadMessage r)], receivedMessages := obj_del (Num n) (receivedMessages c)\<rparr>"
  have c1: "ready ?c1" using assms by (auto simp: receiving_def split: option.split)
  have "handleMessage (reply PUBREL (Num n)) c = (Inr (), sent (ack_bytes PUBCOMP n) ?c1)"
    using schedule_ready [OF c1 encode_reply [of PUBCOMP n]] assms
    by (auto simp: handleMessage_def dispatch_def handle_pubrel_def w action_defs remove_stored_def receiveMessage_def
        receiving_def split: option.split)
  moreover have "pending (sent (ack_bytes PUBCOMP n) ?c1) = (pending c)(n := None)"
    by (auto simp: pending_def obj_get_del split: option.split)
  ultimately show ?thesis using assms
    by (auto simp: receiving_def obj_del_ok pending_def split: option.split)
qed

lemma receive_qos2:
  assumes "receiving c"
  shows "\<exists>c'. eachc handleMessage (map qos2_wire xs) c = (Inr (), c') \<and> receiving c' \<and>
    pending c' = fst (qos2_specs xs (pending c)) \<and> out c' = out c @ snd (qos2_specs xs (pending c))"
  using assms
proof (induction xs arbitrary: c)
  case (Cons x xs)
  obtain c1 where c1: "handleMessage (qos2_wire x) c = (Inr (), c1)" "receiving c1"
    "pending c1 = fst (qos2_spec x (pending c))" "out c1 = out c @ snd (qos2_spec x (pending c))"
    using receive_publish [OF Cons(2)] receive_release [OF Cons(2)] by (cases x) fastforce+
  from Cons(1) [OF c1(2)] c1 show ?case
    by (auto simp: thenc_def bindc_def split: prod.split)
qed (simp add: returnc_def)

text \<open>
  C7: At QoS 2 the client implements the receiver of the protocol: whatever sequence of PUBLISH and
  PUBREL packets the server sends, with repeated and unexpected ones, what the application and the
  server see is what the abstract receiver produces.
\<close>

theorem qos2_receiver_refines:
  assumes "receiving c" "list_all qos2_wf xs"
  shows "\<exists>c'. perform (Socket_data (concat (map qos2_bytes xs))) c = (Inr (), c') \<and> receiving c' \<and>
    pending c' = fst (qos2_specs xs (pending c)) \<and> out c' = out c @ snd (qos2_specs xs (pending c))"
proof -
  have "list_all2 server_packet (map qos2_bytes xs) (map qos2_wire xs)"
    using assms(2) qos2_server_packet by (induction xs) auto
  moreover have "receiving (heard c)" "pending (heard c) = pending c"
    using assms(1) by (simp_all add: receiving_def pending_def fun_eq_iff)
  ultimately show ?thesis
    using receive_qos2 [of "heard c" xs] assms(1) socket_data_ready [of c] by (simp add: receiving_def)
qed

subsection \<open>Sending at QoS 1 and 2\<close>

definition publish_bytes :: "message \<Rightarrow> int \<Rightarrow> bytes" where
  "publish_bytes m n =
     frame (first_of PUBLISH (publish_flags (duplicate m) (qos m) (retained m)))
       (publish_body (the (destinationName m)) (qos m) n (payload_bytes (payload m)))"

lemma encode_publish:
  assumes "mtype w = PUBLISH" "payloadMessage w = Some m" "messageIdentifier w = Some (Num n)" "storable m" "qos m > 0"
  shows "encode w = Inr (publish_bytes m n)"
proof -
  have "wf_message m" using assms(4) by (simp add: storable_def)
  then have "wf_wire w" using assms(1,2) by (simp add: wf_wire_def)
  from encode_frame [OF this] show ?thesis using assms first_byte_publish [of w m]
    by (auto simp: publish_bytes_def publish_body_def wire_body_def header_bytes_def ident_bytes_def content_bytes_def
        first_of_def storable_def)
qed

definition sending :: "js_string \<Rightarrow> client \<Rightarrow> bool" where
  "sending lk c \<longleftrightarrow> ready c \<and> persist_inv lk c \<and> hasOnMessageDelivered c"

definition limits :: "client \<Rightarrow> int \<times> int" where
  "limits c = (message_identifier c, maxMessageIdentifier c)"

lemma send_ready:
  assumes c: "sending lk c" and m: "storable m" "qos m > 0"
    and room: "int (length (sentMessages c)) \<le> maxMessageIdentifier c"
    and n: "n = next_free (sentMessages c) (message_identifier c)"
  obtains c' w where "send m c = (Inr (), c')" "sending lk c'"
    "obj_get (sentMessages c') = (obj_get (sentMessages c))(Num n \<mapsto> w)" "mtype w = PUBLISH" "payloadMessage w = Some m"
    "out c' = out c @ [SocketSend (publish_bytes m n)]"
    "limits c' = (if n = maxMessageIdentifier c then 1 else n, maxMessageIdentifier c)"
proof -
  define v where "v = (WireMessage PUBLISH)\<lparr>payloadMessage := Some m\<rparr>"
  let ?v = "assigned v c"
  have v: "mtype v = PUBLISH" "mtype ?v = PUBLISH" "ident ?v = Num n" "in_flight (Num n) ?v"
    using m n by (simp_all add: v_def assigned_def WireMessage_def ident_def in_flight_def)
  obtain st sq sq' where st: "store_message True (msg_sequence c) ?v = Inr (st, sq, sq')"
    using store_sent_ok [OF v(4,2)] by metis
  define w where "w = ?v\<lparr>sequence := sq\<rparr>"
  define c1 where "c1 = snd (requires_ack v c)"
  have r: "requires_ack v c = (Inr w, c1)"
    using requires_ack_publish [OF v(1) room st] by (simp add: c1_def w_def)
  have inv: "persist_inv lk c" and conn: "connected c" using c by (simp_all add: sending_def ready_def)
  then have p: "persist_inv lk c1" unfolding c1_def v_def using keepsD [OF persist_requires_ack [OF m(1)]] by blast
  have ready: "ready c1" "hasOnMessageDelivered c1" "out c1 = out c"
    "limits c1 = (if n = maxMessageIdentifier c then 1 else n, maxMessageIdentifier c)"
    "sentMessages c1 = obj_set (Num n) w (obj_set (Num n) ?v (sentMessages c))"
    using c n requires_ack_publish [OF v(1) room st] v(3) by (simp_all add: c1_def sending_def limits_def w_def)
  have get: "obj_get (sentMessages c1) = (obj_get (sentMessages c))(Num n \<mapsto> w)"
    using persist_ok(2) [OF inv] by (auto simp: ready(5) obj_get_set obj_set_ok fun_eq_iff)
  have w: "mtype w = PUBLISH" "payloadMessage w = Some m" "messageIdentifier w = Some (Num n)"
    using n by (simp_all add: w_def v_def assigned_def WireMessage_def)
  have "send m c = (Inr (), sent (publish_bytes m n) c1)"
    using schedule_ready [OF ready(1) encode_publish [OF w m]] conn m(2) r
    by (simp add: send_def getc_def Let_def bindc_def v_def)
  moreover have "persist_inv lk (sent (publish_bytes m n) c1)" using p by (rule persist.frame) simp_all
  ultimately show ?thesis using that [of "sent (publish_bytes m n) c1" w] ready get w
    by (simp add: sending_def limits_def)
qed

text \<open>Acknowledgements, as packets and as the client handles them.\<close>

lemma ack_server_packet:
  assumes "t \<in> {PUBACK, PUBREC, PUBREL, PUBCOMP}" "0 \<le> n" "n < 2 ^ 16"
  shows "server_packet (ack_bytes t n) (reply t (Num n))"
proof -
  have "ack_bytes t n = frame (first_of t (if t = PUBREL then 2 else 0)) (be16 n)"
    by (simp add: ack_bytes_def first_of_def)
  then show ?thesis using assms by (auto simp: reply_def intro!: server_packet.ack)
qed

lemma receive_ack:
  assumes "ready c" "t \<in> {PUBACK, PUBREC, PUBREL, PUBCOMP}" "0 \<le> n" "n < 2 ^ 16"
    and "handleMessage (reply t (Num n)) (heard c) = (Inr (), c')"
  shows "perform (Socket_data (ack_bytes t n)) c = (Inr (), c')"
  using socket_data_ready [OF assms(1), of "[ack_bytes t n]" "[reply t (Num n)]"] ack_server_packet [OF assms(2-4)] assms(5)
  by (simp add: thenc_def bindc_def returnc_def)

lemma sending_heard: "sending lk c \<Longrightarrow> sending lk (heard c)"
  using persist.frame [of lk c "heard c"] by (simp add: sending_def)

definition forgotten :: "jsnum \<Rightarrow> client \<Rightarrow> client" where
  "forgotten k c = c\<lparr>sentMessages := obj_del k (sentMessages c),
      localStorage := removeItem (storage_key sent_prefix c k) (localStorage c)\<rparr>"

lemma complete_ready:
  assumes "sending lk c" "obj_get (sentMessages c) (Num n) = Some s" "t = PUBACK \<or> t = PUBCOMP"
  obtains c' where "handleMessage (reply t (Num n)) c = (Inr (), c')" "sending lk c'"
    "obj_get (sentMessages c') = (obj_get (sentMessages c))(Num n := None)"
    "getItem (localStorage c') (storage_key sent_prefix c' (Num n)) = None"
    "out c' = out c @ [MessageDelivered (payloadMessage s)]" "limits c' = limits c"
proof -
  define c' where "c' = (forgotten (Num n) c)\<lparr>out := out c @ [MessageDelivered (payloadMessage s)]\<rparr>"
  have k: "ident (reply t (Num n)) = Num n" "mtype (reply t (Num n)) = t" by (simp_all add: reply_def ident_def WireMessage_def)
  have d: "hasOnMessageDelivered c" "ready c" "persist_inv lk c" using assms(1) by (simp_all add: sending_def)
  have "handleMessage (reply t (Num n)) c = (Inr (), c')"
    using assms(2,3) d k
    by (auto simp: handleMessage_def dispatch_def handle_puback_def handle_pubcomp_def with_sent_def action_defs
        forget_sent_def remove_stored_def notify_delivered_def c'_def forgotten_def storage_key_def)
  moreover have "persist_inv lk (forgotten (Num n) c)"
    using keepsD [OF persist_forget_remove d(3), of "reply t (Num n)"]
    by (simp add: k forget_sent_def remove_stored_def action_defs forgotten_def storage_key_def)
  then have "persist_inv lk c'" by (rule persist.frame) (simp_all add: c'_def)
  moreover have "getItem (localStorage c') (storage_key sent_prefix c' (Num n)) = None"
    using persist_ok(1) [OF d(3)] by (simp add: c'_def forgotten_def storage_key_def storage.get_del)
  ultimately show ?thesis using that [of c'] d
    by (simp add: sending_def c'_def forgotten_def obj_get_del fun_eq_iff limits_def)
qed

lemma pubrec_ready:
  assumes "sending lk c" "obj_get (sentMessages c) (Num n) = Some s" "mtype s = PUBLISH"
  obtains c' s' where "handleMessage (reply PUBREC (Num n)) c = (Inr (), c')" "sending lk c'"
    "obj_get (sentMessages c') = (obj_get (sentMessages c))(Num n \<mapsto> s')"
    "payloadMessage s' = payloadMessage s" "mtype s' = PUBLISH"
    "out c' = out c @ [SocketSend (ack_bytes PUBREL n)]" "limits c' = limits c"
proof -
  let ?s = "s\<lparr>pubRecReceived := True\<rparr>"
  have k: "ident (reply PUBREC (Num n)) = Num n" "mtype (reply PUBREC (Num n)) = PUBREC"
    by (simp_all add: reply_def ident_def WireMessage_def)
  have d: "hasOnMessageDelivered c" "ready c" "persist_inv lk c" using assms(1) by (simp_all add: sending_def)
  have fl: "in_flight (Num n) ?s" "ident ?s = Num n" "mtype ?s = PUBLISH"
    using persistD [OF d(3) assms(2,3)] assms(3) by (simp_all add: in_flight_def ident_def)
  obtain st sq sq' where st: "store_message True (msg_sequence c) ?s = Inr (st, sq, sq')"
    using store_sent_ok [OF fl(1,3)] by metis
  define c1 where "c1 = c\<lparr>msg_sequence := sq',
      localStorage := setItem (storage_key sent_prefix c (Num n)) st (localStorage c),
      sentMessages := obj_set (Num n) (?s\<lparr>sequence := sq\<rparr>) (obj_set (Num n) ?s (sentMessages c))\<rparr>"
  have c1: "ready c1" "hasOnMessageDelivered c1" "limits c1 = limits c" "out c1 = out c"
    using d by (simp_all add: c1_def limits_def)
  have "handle_pubrec (reply PUBREC (Num n)) c = schedule_message (reply PUBREL (Num n)) c1"
    using assms(2) st fl(2) k
    by (simp add: handle_pubrec_def with_sent_def Let_def store_def action_defs c1_def storage_key_def)
  then have pr: "handle_pubrec (reply PUBREC (Num n)) c = (Inr (), sent (ack_bytes PUBREL n) c1)"
    using schedule_ready [OF c1(1) encode_reply [of PUBREL n]] by simp
  then have "persist_inv lk (sent (ack_bytes PUBREL n) c1)"
    using keepsD [OF persist_pubrec d(3), of "reply PUBREC (Num n)"] by simp
  moreover have "handleMessage (reply PUBREC (Num n)) c = (Inr (), sent (ack_bytes PUBREL n) c1)"
    using pr k by (simp add: handleMessage_def dispatch_def catchc_def)
  moreover have "obj_get (sentMessages c1) = (obj_get (sentMessages c))(Num n \<mapsto> ?s\<lparr>sequence := sq\<rparr>)"
    using persist_ok(2) [OF d(3)] by (auto simp: c1_def obj_get_set obj_set_ok fun_eq_iff)
  ultimately show ?thesis using that [of "sent (ack_bytes PUBREL n) c1" "?s\<lparr>sequence := sq\<rparr>"] c1 assms(3)
    by (simp add: sending_def limits_def)
qed

text \<open>The answers of the server to one message.\<close>

definition acks :: "message \<Rightarrow> int \<Rightarrow> input list" where
  "acks m n = map Socket_data (if qos m = 1 then [ack_bytes PUBACK n] else [ack_bytes PUBREC n, ack_bytes PUBCOMP n])"

text \<open>
  C8: A message sent at QoS 1 or 2 on an idle connection is delivered when the server answers: the
  PUBLISH goes out with a free identifier, a PUBREC is answered with PUBREL, the last
  acknowledgement calls \<open>onMessageDelivered\<close> once with the message, and nothing of it is left in the
  table of unacknowledged messages or in local storage.
\<close>

theorem delivery_completes:
  assumes c: "sending lk c" and m: "storable m" "qos m > 0"
    and room: "int (length (sentMessages c)) \<le> maxMessageIdentifier c"
    and n: "n = next_free (sentMessages c) (message_identifier c)" "0 \<le> n" "n < 2 ^ 16"
  shows "\<exists>c'. run (Call_send m # acks m n) c = c' \<and> sending lk c' \<and>
    obj_get (sentMessages c') = obj_get (sentMessages c) \<and>
    getItem (localStorage c') (storage_key sent_prefix c' (Num n)) = None \<and>
    out c' = out c @ [SocketSend (publish_bytes m n)] @
      (if qos m = 2 then [SocketSend (ack_bytes PUBREL n)] else []) @ [MessageDelivered (Some m)]"
proof -
  obtain c1 w where c1: "send m c = (Inr (), c1)" "sending lk c1"
    "obj_get (sentMessages c1) = (obj_get (sentMessages c))(Num n \<mapsto> w)" "mtype w = PUBLISH" "payloadMessage w = Some m"
    "out c1 = out c @ [SocketSend (publish_bytes m n)]"
    using send_ready [OF c m room n(1)] by metis
  have free: "(obj_get (sentMessages c))(Num n := None) = obj_get (sentMessages c)"
    using next_free_unused [of "sentMessages c"] n(1) by (simp add: fun_eq_iff)
  have ready1: "ready c1" using c1(2) by (simp add: sending_def)
  have get1: "obj_get (sentMessages (heard c1)) (Num n) = Some w" using c1(3) by simp
  have "qos m = 1 \<or> qos m = 2" using m by (auto simp: storable_def)
  then show ?thesis
  proof
    assume q: "qos m = 1"
    from complete_ready [OF sending_heard [OF c1(2)] get1, of PUBACK] obtain c2 where
      "handleMessage (reply PUBACK (Num n)) (heard c1) = (Inr (), c2)" "sending lk c2"
      "obj_get (sentMessages c2) = (obj_get (sentMessages c1))(Num n := None)"
      "getItem (localStorage c2) (storage_key sent_prefix c2 (Num n)) = None"
      "out c2 = out c1 @ [MessageDelivered (Some m)]" using c1(5) by auto
    with receive_ack [OF ready1, of PUBACK n c2] c1 n(2,3) q free show ?thesis by (simp add: acks_def)
  next
    assume q: "qos m = 2"
    from pubrec_ready [OF sending_heard [OF c1(2)] get1 c1(4)] obtain c2 s where
      c2: "handleMessage (reply PUBREC (Num n)) (heard c1) = (Inr (), c2)" "sending lk c2"
      "obj_get (sentMessages c2) = (obj_get (sentMessages c1))(Num n \<mapsto> s)" "payloadMessage s = Some m"
      "out c2 = out c1 @ [SocketSend (ack_bytes PUBREL n)]" using c1(5) by (metis heard_fields(1,5))
    have get2: "obj_get (sentMessages (heard c2)) (Num n) = Some s" using c2(3) by simp
    from complete_ready [OF sending_heard [OF c2(2)] get2, of PUBCOMP] obtain c3 where
      "handleMessage (reply PUBCOMP (Num n)) (heard c2) = (Inr (), c3)" "sending lk c3"
      "obj_get (sentMessages c3) = (obj_get (sentMessages c2))(Num n := None)"
      "getItem (localStorage c3) (storage_key sent_prefix c3 (Num n)) = None"
      "out c3 = out c2 @ [MessageDelivered (Some m)]" using c2(4) by auto
    with receive_ack [OF ready1, of PUBREC n c2] receive_ack [of c2 PUBCOMP n c3] c1 c2 n(2,3) q free
    show ?thesis by (simp add: acks_def sending_def)
  qed
qed

subsection \<open>Running out of identifiers\<close>

definition listening_client :: client where
  "listening_client = plain_client\<lparr>hasOnMessageDelivered := True, hasOnMessageArrived := True\<rparr>"

definition connecting :: "input list" where
  "connecting = [Call_connect plain_options, Socket_opened, Socket_data [0x20, 2, 0, 0]]"

lemma connecting_steps: "all_steps (\<lambda>_ _. True) connecting listening_client"
  by code_simp

definition plain_key :: js_string where
  "plain_key = local_key (js ''h'') (Num 80) (js ''/mqtt'') (js ''me'')"

definition connected_idle :: "client \<Rightarrow> bool" where
  "connected_idle c \<longleftrightarrow> ready c \<and> hasOnMessageDelivered c \<and> hasOnMessageArrived c \<and> sentMessages c = [] \<and>
     localStorage c = [] \<and> receivedMessages c = [] \<and> localKey c = plain_key \<and> limits c = (1, 65536)"

lemma connected_idle: "connected_idle (run connecting listening_client)"
  by code_simp

lemma connected_fields:
  "ready (run connecting listening_client)" "hasOnMessageDelivered (run connecting listening_client)"
  "hasOnMessageArrived (run connecting listening_client)"
  "sentMessages (run connecting listening_client) = []" "localStorage (run connecting listening_client) = []"
  "receivedMessages (run connecting listening_client) = []"
  "localKey (run connecting listening_client) = plain_key" "limits (run connecting listening_client) = (1, 65536)"
  using connected_idle by (simp_all add: connected_idle_def)

lemma connected_sending: "sending plain_key (run connecting listening_client)"
  using connected_fields
  by (simp add: sending_def persist_inv_def session_ok_def obj_ok_def storage_ok_def entries_ok_def obj_get_def)

lemma connected_reachable: "reachable (\<lambda>_ _. True) listening_client (run connecting listening_client)"
  by (rule reachable_run [OF reachable.start connecting_steps])

lemma reachable_send:
  "reachable (\<lambda>_ _. True) c0 c \<Longrightarrow> send m c = (r, c') \<Longrightarrow> reachable (\<lambda>_ _. True) c0 c'"
  using reachable.step [of "\<lambda>_ _. True" c0 c "Call_send m"] by simp

lemma reachable_data:
  "reachable (\<lambda>_ _. True) c0 c \<Longrightarrow> ready c \<Longrightarrow> perform (Socket_data d) c = (r, c') \<Longrightarrow> reachable (\<lambda>_ _. True) c0 c'"
  using reachable.step [of "\<lambda>_ _. True" c0 c "Socket_data d"] by (simp add: ready_def)

lemma obj_length: "obj_ok t \<Longrightarrow> length t = card (dom (obj_get t))"
proof -
  assume "obj_ok t"
  then have "length t = card (fst ` set t)"
    using distinct_card [of "map fst t"] by (simp add: obj_ok_def strict_sorted_iff)
  moreover have "dom (obj_get t) = fst ` set t" by (simp add: obj_get_def [abs_def] dom_map_of_conv_image_fst)
  ultimately show ?thesis by simp
qed

lemma example_storable: "storable example_message" "qos example_message > 0"
  by code_simp+

text \<open>One message waits, under identifier \<open>n\<close>, which is also where the search starts.\<close>

definition waits :: "int \<Rightarrow> client \<Rightarrow> bool" where
  "waits n c \<longleftrightarrow> reachable (\<lambda>_ _. True) listening_client c \<and> sending plain_key c \<and> limits c = (n, 65536) \<and>
     (\<exists>w. obj_get (sentMessages c) = [Num n \<mapsto> w])"

lemma send_next:
  assumes "waits n c" "n \<le> 65535"
  obtains c' v w where "send example_message c = (Inr (), c')" "sending plain_key c'"
    "obj_get (sentMessages c') = [Num n \<mapsto> v, Num (n + 1) \<mapsto> w]" "mtype w = PUBLISH"
    "reachable (\<lambda>_ _. True) listening_client c'" "limits c' = (if n = 65535 then 1 else n + 1, 65536)"
    "out c' = out c @ [SocketSend (publish_bytes example_message (n + 1))]"
proof -
  from assms obtain v where c: "sending plain_key c" "reachable (\<lambda>_ _. True) listening_client c"
    "obj_get (sentMessages c) = [Num n \<mapsto> v]" "message_identifier c = n" "maxMessageIdentifier c = 65536"
    by (auto simp: waits_def limits_def)
  have "obj_ok (sentMessages c)" using c(1) persist_ok(2) by (auto simp: sending_def)
  then have len: "int (length (sentMessages c)) \<le> maxMessageIdentifier c" by (simp add: obj_length c)
  have nf: "n + 1 = next_free (sentMessages c) (message_identifier c)"
    using c(3,4) by (subst next_free.simps) (simp, subst next_free.simps, simp)
  show ?thesis
    by (rule send_ready [OF c(1) example_storable len nf])
      (use c that reachable_send [OF c(2)] in \<open>fastforce split: if_splits\<close>)
qed

lemma waits_first: "\<exists>c. waits 1 c"
proof -
  let ?c = "run connecting listening_client"
  have nf: "1 = next_free (sentMessages ?c) (message_identifier ?c)"
    using connected_fields by (subst next_free.simps) (simp add: obj_get_def limits_def)
  have len: "int (length (sentMessages ?c)) \<le> maxMessageIdentifier ?c" using connected_fields by (simp add: limits_def)
  obtain c' w where c': "send example_message ?c = (Inr (), c')" "sending plain_key c'" "limits c' = (1, 65536)"
    "obj_get (sentMessages c') = (obj_get (sentMessages ?c))(Num 1 \<mapsto> w)"
    by (rule send_ready [OF connected_sending example_storable len nf])
      (use connected_fields(8) that in \<open>simp add: limits_def\<close>)
  moreover have "obj_get (sentMessages ?c) = Map.empty" by (simp add: connected_fields(4) obj_get_def fun_eq_iff)
  ultimately show ?thesis using reachable_send [OF connected_reachable c'(1)] by (auto simp: waits_def)
qed

lemma waits_next:
  assumes "waits n c" "0 \<le> n" "n < 65535"
  shows "\<exists>c'. waits (n + 1) c'"
proof -
  obtain c1 v w where c1: "sending plain_key c1" "obj_get (sentMessages c1) = [Num n \<mapsto> v, Num (n + 1) \<mapsto> w]"
    "reachable (\<lambda>_ _. True) listening_client c1" "limits c1 = (n + 1, 65536)"
    by (rule send_next [OF assms(1)]) (use assms(3) that in auto)
  have get: "obj_get (sentMessages (heard c1)) (Num n) = Some v" using c1(2) by simp
  obtain c2 where c2: "handleMessage (reply PUBACK (Num n)) (heard c1) = (Inr (), c2)" "sending plain_key c2"
    "obj_get (sentMessages c2) = (obj_get (sentMessages (heard c1)))(Num n := None)" "limits c2 = limits (heard c1)"
    using complete_ready [OF sending_heard [OF c1(1)] get, of PUBACK] by metis
  have "ready c1" using c1(1) by (simp add: sending_def)
  then have "reachable (\<lambda>_ _. True) listening_client c2"
    using receive_ack [of c1 PUBACK n c2] c2(1) assms(2,3) reachable_data [OF c1(3)] by simp
  then show ?thesis using c1(2,4) c2 by (auto simp: waits_def limits_def)
qed

lemma waits_last: "\<exists>c. waits 65535 c"
proof -
  have "k < 65535 \<Longrightarrow> \<exists>c. waits (int k + 1) c" for k
  proof (induction k)
    case (Suc k)
    then obtain c where "waits (int k + 1) c" by auto
    from waits_next [OF this] Suc(2) show ?case by (simp add: algebra_simps)
  qed (simp add: waits_first)
  from this [of 65534] show ?thesis by simp
qed

lemma server_packet_ident: "server_packet bs w \<Longrightarrow> ident w \<noteq> Num 65536"
  by (cases rule: server_packet.cases) (auto simp: ident_def WireMessage_def publish_wire_def)

text \<open>
  C27: The client hands out the identifier 65536, one more than the protocol has. Keeping at most two
  messages unacknowledged at a time, an application gets there with 65536 messages; the identifier
  goes out as the bytes 0, 0 (which the protocol forbids), and no packet of the server can
  acknowledge the message.
\<close>

theorem identifier_overflow:
  "\<exists>c w. reachable (\<lambda>_ _. True) listening_client c \<and>
     obj_get (sentMessages c) (Num 65536) = Some w \<and> mtype w = PUBLISH \<and>
     last (out c) = SocketSend (publish_bytes example_message 0) \<and>
     \<not> (\<exists>bs v. server_packet bs v \<and> ident v = Num 65536)"
proof -
  have "be16 65536 = be16 0" by code_simp
  then have zero: "publish_bytes example_message 65536 = publish_bytes example_message 0"
    by (simp add: publish_bytes_def publish_body_def)
  from waits_last obtain c where "waits 65535 c" ..
  then obtain c' v w where "reachable (\<lambda>_ _. True) listening_client c'"
    "obj_get (sentMessages c') = [Num 65535 \<mapsto> v, Num (65535 + 1) \<mapsto> w]" "mtype w = PUBLISH"
    "out c' = out c @ [SocketSend (publish_bytes example_message (65535 + 1))]"
    by (rule send_next) (use that in simp_all)
  then show ?thesis using zero server_packet_ident by (intro exI [of _ c'] exI [of _ w]) auto
qed

theorem qos2_receiver_refines_witness:
  "\<exists>c'. perform (Socket_data (concat (map qos2_bytes
       [Publish2 False False (js ''t'') 7 [1, 2], Publish2 True False (js ''t'') 7 [1, 2], Release 7, Release 7])))
     (run connecting listening_client) = (Inr (), c') \<and>
   out c' = out (run connecting listening_client) @
     [SocketSend (ack_bytes PUBREC 7), SocketSend (ack_bytes PUBREC 7),
      MessageArrived (Some (qos2_message True False (js ''t'') [1, 2])),
      SocketSend (ack_bytes PUBCOMP 7), SocketSend (ack_bytes PUBCOMP 7)]"
proof -
  let ?c = "run connecting listening_client"
  let ?xs = "[Publish2 False False (js ''t'') 7 [1, 2], Publish2 True False (js ''t'') 7 [1, 2], Release 7, Release 7]"
  have "receiving ?c" "pending ?c = (\<lambda>n. None)"
    using connected_fields by (simp_all add: receiving_def obj_ok_def pending_def obj_get_def fun_eq_iff)
  moreover have "wf_utf16 (js ''t'')" "length (utf8 (js ''t'')) = 1" by code_simp+
  then have "list_all qos2_wf ?xs" by simp
  ultimately show ?thesis using qos2_receiver_refines [of ?c ?xs] by auto
qed

theorem delivery_completes_witness:
  "\<exists>c'. run (Call_send example_message # acks example_message 1) (run connecting listening_client) = c' \<and>
    getItem (localStorage c') (storage_key sent_prefix c' (Num 1)) = None \<and>
    out c' = out (run connecting listening_client) @
      [SocketSend (publish_bytes example_message 1), MessageDelivered (Some example_message)]"
proof -
  let ?c = "run connecting listening_client"
  have "1 = next_free (sentMessages ?c) (message_identifier ?c)"
    using connected_fields by (subst next_free.simps) (simp add: obj_get_def limits_def)
  then show ?thesis
    using delivery_completes [OF connected_sending example_storable, of 1] connected_fields
    by (auto simp: limits_def example_message_def)
qed

end
