(* ===== verification/Connection.thy ===== *)
theory Connection
  imports Delivery "HOL-Library.Multiset"
begin

text \<open>
  The life of a connection: the hosts that are tried until one answers or all failed, the
  keep-alive timers that notice a dead connection, and the messages that are sent again when a
  session is resumed.
\<close>

subsection \<open>Trying the hosts in turn\<close>


text \<open>How an attempt ends: before the socket opens or after it has opened, by an error, a close or the
  connect timeout, or with a CONNACK that refuses the connection.\<close>

datatype ending = Unopened input | Opened input | Refused "8 word" "8 word"


fun ending_inputs :: "ending \<Rightarrow> input list" where
  "ending_inputs (Unopened i) = [i]"
| "ending_inputs (Opened i) = [Socket_opened, i]"
| "ending_inputs (Refused flags rc) = [Socket_opened, Socket_data (frame (first_of CONNACK 0) [flags, rc])]"



















definition all_inputs :: "ending list \<Rightarrow> input list" where
  "all_inputs es = concat (map ending_inputs es)"

lemma all_inputs_simps [simp]:
  "all_inputs [] = []" "all_inputs (e # es) = ending_inputs e @ all_inputs es" "all_inputs (es @ es') = all_inputs es @ all_inputs es'"
  by (simp_all add: all_inputs_def)















subsection \<open>Keep-alive\<close>

definition no_more_hosts :: "client \<Rightarrow> bool" where
  "no_more_hosts c \<longleftrightarrow> (case connectOptions c of None \<Rightarrow> False
     | Some opts \<Rightarrow> (case uris opts of None \<Rightarrow> True | Some us \<Rightarrow> length us \<le> Suc (hostIndex c)))"

definition watched :: "input \<Rightarrow> client \<Rightarrow> pinger option" where
  "watched i c = (case i of Send_ping \<Rightarrow> sendPinger c | Receive_ping \<Rightarrow> receivePinger c | _ \<Rightarrow> None)"

definition lost :: "ERROR \<Rightarrow> client \<Rightarrow> event list" where
  "lost e c = (if hasOnConnectionLost c then [ConnectionLost (error_code e) (format e [])] else [])"

text \<open>A connection that is up, with no other host left to try.\<close>

definition up :: "client \<Rightarrow> bool" where
  "up c \<longleftrightarrow> connected c \<and> socket c = Some Open \<and> sendPinger c \<noteq> None \<and> receivePinger c \<noteq> None \<and> no_more_hosts c"

lemma up_update [simp]:
  "up c \<Longrightarrow> up (c\<lparr>sendPinger := Some p\<rparr>)" "up c \<Longrightarrow> up (c\<lparr>receivePinger := Some p\<rparr>)" "up (c\<lparr>out := evs\<rparr>) = up c"
  "lost e (c\<lparr>sendPinger := x\<rparr>) = lost e c" "lost e (c\<lparr>receivePinger := x\<rparr>) = lost e c" "lost e (c\<lparr>out := evs\<rparr>) = lost e c"
  by (auto simp: up_def no_more_hosts_def lost_def split: option.splits)

lemma connection_lost:
  "up c \<Longrightarrow> \<exists>c'. fail_with e [] c = (Inr (), c') \<and> \<not> connected c' \<and> socket c' = None \<and>
    out c' = out c @ SocketClose # lost e c"
  by (auto simp: up_def fail_with_def disconnected_def drop_connection_def report_disconnect_def action_defs no_more_hosts_def
      lost_def split: option.splits)

lemma watched_cases:
  assumes "watched i c = Some p"
  obtains "i = Send_ping" "sendPinger c = Some p" | "i = Receive_ping" "receivePinger c = Some p"
  using assms by (cases i) (simp_all add: watched_def)

lemma ping_timeout:
  assumes c: "up c" and p: "watched i c = Some p" "\<not> isReset p"
  shows "\<exists>c'. perform i c = (Inr (), c') \<and> \<not> connected c' \<and> socket c' = None \<and>
    out c' = out c @ SocketClose # lost PING_TIMEOUT c"
  using p(1)
proof (cases rule: watched_cases)
  case 1
  then have "perform i c = fail_with PING_TIMEOUT [] (c\<lparr>sendPinger := Some (p\<lparr>armed := False\<rparr>)\<rparr>)"
    using p(2) by (simp add: sendPinger_fires_def getc_def thenc_def bindc_def modifyc_def)
  then show ?thesis using connection_lost [of "c\<lparr>sendPinger := Some (p\<lparr>armed := False\<rparr>)\<rparr>" PING_TIMEOUT] c by simp
next
  case 2
  then have "perform i c = fail_with PING_TIMEOUT [] (c\<lparr>receivePinger := Some (p\<lparr>armed := False\<rparr>)\<rparr>)"
    using p(2) by (simp add: receivePinger_fires_def getc_def thenc_def bindc_def modifyc_def)
  then show ?thesis using connection_lost [of "c\<lparr>receivePinger := Some (p\<lparr>armed := False\<rparr>)\<rparr>" PING_TIMEOUT] c by simp
qed

lemma ping_sent:
  assumes c: "up c" and p: "watched i c = Some p" "isReset p"
  shows "\<exists>c' q. perform i c = (Inr (), c') \<and> up c' \<and> watched i c' = Some q \<and> \<not> isReset q \<and>
    out c' = out c @ [SocketSend pingreq_bytes] \<and> lost PING_TIMEOUT c' = lost PING_TIMEOUT c"
proof -
  have s: "socket c = Some Open" using c by (simp add: up_def)
  show ?thesis
    using p(1)
    by (cases rule: watched_cases)
      (use c p(2) s in \<open>simp_all add: sendPinger_fires_def receivePinger_fires_def action_defs ping_now_def watched_def\<close>)
qed

text \<open>
  C26: A dead connection is noticed. When a keep-alive timer of a connected client fires and
  nothing has reset it by the time it fires again, at most one PINGREQ has gone out in between and
  the client is disconnected, with its socket closed and \<open>onConnectionLost\<close> told about the
  timeout.
\<close>

theorem keepalive_detects:
  assumes c: "up c" and p: "watched i c = Some p"
  shows "\<exists>c'. run (replicate (if isReset p then 2 else 1) i) c = c' \<and> \<not> connected c' \<and> socket c' = None \<and>
    out c' = out c @ (if isReset p then [SocketSend pingreq_bytes] else []) @ SocketClose # lost PING_TIMEOUT c"
proof (cases "isReset p")
  case False
  then show ?thesis using ping_timeout [OF c p] by auto
next
  case True
  from ping_sent [OF c p True] obtain c1 q where "perform i c = (Inr (), c1)" "up c1" "watched i c1 = Some q" "\<not> isReset q"
    "out c1 = out c @ [SocketSend pingreq_bytes]" "lost PING_TIMEOUT c1 = lost PING_TIMEOUT c" by blast
  with ping_timeout [of c1 i q] True show ?thesis by (auto simp: numeral_2_eq_2)
qed

theorem keepalive_detects_witness:
  "\<exists>p c'. watched Receive_ping (run connecting listening_client) = Some p \<and>
     run (replicate (if isReset p then 2 else 1) Receive_ping) (run connecting listening_client) = c' \<and>
     \<not> connected c' \<and> socket c' = None"
proof -
  let ?c = "run connecting listening_client"
  have "ready ?c" using connected_idle by (simp add: connected_idle_def)
  moreover have "no_more_hosts ?c" by code_simp
  moreover obtain p where "receivePinger ?c = Some p" using \<open>ready ?c\<close> by (auto simp: ready_def)
  ultimately show ?thesis using keepalive_detects [of ?c Receive_ping p]
    by (intro exI [of _ p]) (simp add: ready_def up_def watched_def)
qed

subsection \<open>Resending after a reconnect\<close>

definition resend_bytes :: "wire_message \<Rightarrow> bytes" where
  "resend_bytes w =
     (if pubRecReceived w then ack_bytes PUBREL (num_int (ident w))
      else publish_bytes (the (payloadMessage w)) (num_int (ident w)))"

definition resendable :: "jsnum \<times> wire_message \<Rightarrow> bool" where
  "resendable p \<longleftrightarrow> (case p of (k, w) \<Rightarrow> mtype w = PUBLISH \<and> sequence w \<noteq> None \<and> k \<noteq> NaN \<and> in_flight k w \<and>
     qos (the (payloadMessage w)) > 0)"

lemma resend_ready: "ready c \<Longrightarrow> resendable (k, w) \<Longrightarrow> resend w c = (Inr (), sent (resend_bytes w) c)"
proof -
  assume c: "ready c" and w: "resendable (k, w)"
  then obtain n m where n: "k = Num n" "messageIdentifier w = Some (Num n)" "payloadMessage w = Some m" "storable m"
    "mtype w = PUBLISH" "qos m > 0"
    by (cases k) (auto simp: resendable_def in_flight_def)
  have i: "ident w = Num n" using n by (simp add: ident_def)
  show ?thesis
    using schedule_ready [OF c encode_reply [of PUBREL n]] schedule_ready [OF c encode_publish [OF n(5,3,2,4,6)]] n i
    by (simp add: resend_def resend_bytes_def)
qed

lemma resend_all:
  "ready c \<Longrightarrow> (\<And>w. w \<in> set ws \<Longrightarrow> \<exists>k. resendable (k, w)) \<Longrightarrow>
    \<exists>c'. eachc resend ws c = (Inr (), c') \<and> ready c' \<and> sentMessages c' = sentMessages c \<and>
      out c' = out c @ map (\<lambda>w. SocketSend (resend_bytes w)) ws"
proof (induction ws arbitrary: c)
  case (Cons w ws)
  then obtain k where k: "resendable (k, w)" by auto
  from Cons(1) [of "sent (resend_bytes w) c"] Cons(2,3) show ?case
    by (auto simp: thenc_def bindc_def resend_ready [OF Cons(2) k])
qed (simp add: returnc_def)

text \<open>The comparator sorts messages that all have a sequence number.\<close>

lemma mset_insert_sequenced: "mset (insert_sequenced w ws) = add_mset w (mset ws)"
  by (induction ws) auto

lemma mset_sequencedMessages: "mset (sequencedMessages t) = mset (map snd t)"
  by (induction t) (simp_all add: sequencedMessages_def mset_insert_sequenced)

definition sequenced :: "wire_message list \<Rightarrow> bool" where
  "sequenced ws \<longleftrightarrow> sorted_wrt (\<lambda>a b. the (sequence a) \<le> the (sequence b)) ws"

lemma set_insert_sequenced: "set (insert_sequenced w ws) = insert w (set ws)"
  by (induction ws) auto

lemma sequenced_insert:
  "sequenced ws \<Longrightarrow> list_all (\<lambda>w. sequence w \<noteq> None) (w # ws) \<Longrightarrow> sequenced (insert_sequenced w ws)"
proof (induction ws)
  case (Cons y ys)
  then show ?case
    by (fastforce simp: sequenced_def seq_greater_def set_insert_sequenced list_all_iff split: option.splits)
qed (simp add: sequenced_def)

lemma sequenced_sequencedMessages:
  "list_all resendable t \<Longrightarrow> sequenced (sequencedMessages t)"
proof (induction t)
  case (Cons p t)
  have "set (sequencedMessages t) = snd ` set t"
    using arg_cong [OF mset_sequencedMessages [of t], of set_mset] by simp
  then have "list_all (\<lambda>w. sequence w \<noteq> None) (snd p # sequencedMessages t)"
    using Cons(2) by (fastforce simp: list_all_iff resendable_def)
  then show ?case using Cons sequenced_insert by (simp add: sequencedMessages_def)
qed (simp add: sequencedMessages_def sequenced_def)

text \<open>A client whose socket is open and that waits for CONNACK, to resume its session.\<close>

definition resuming :: "connect_options \<Rightarrow> client \<Rightarrow> bool" where
  "resuming opts c \<longleftrightarrow> connectOptions c = Some opts \<and> \<not> cleanSession (connectFields opts) \<and>
     ready (c\<lparr>connected := True\<rparr>)"

lemma connack_resumes:
  assumes c: "resuming opts c" and t: "list_all resendable (sentMessages c)"
  shows "\<exists>c'. handle_connack ((WireMessage CONNACK)\<lparr>sessionPresent := sp, returnCode := Some (ReturnCode (Num 0))\<rparr>) c = (Inr (), c') \<and>
    ready c' \<and> sentMessages c' = sentMessages c \<and>
    out c' = out c @ map (\<lambda>w. SocketSend (resend_bytes w)) (sequencedMessages (sentMessages c)) @
      (if hasOnSuccess opts then [ConnectSucceeded] else [])"
proof -
  define h where "h = (case uris opts of Some us \<Rightarrow> length us | None \<Rightarrow> hostIndex (c\<lparr>connectTimeout := False\<rparr>))"
  define c1 where "c1 = c\<lparr>connectTimeout := False, connected := True, hostIndex := h\<rparr>"
  have c1: "ready c1" "out c1 = out c" "sentMessages c1 = sentMessages c"
    using c by (simp_all add: c1_def resuming_def ready_def)
  have "\<exists>k. resendable (k, w)" if "w \<in> set (sequencedMessages (sentMessages c1))" for w
  proof -
    have "w \<in> snd ` set (sentMessages c)"
      using that arg_cong [OF mset_sequencedMessages [of "sentMessages c"], of set_mset] c1(3) by simp
    then show ?thesis using t by (force simp: list_all_iff)
  qed
  from resend_all [OF c1(1) this] obtain c2 where c2:
    "eachc resend (sequencedMessages (sentMessages c1)) c1 = (Inr (), c2)" "ready c2" "sentMessages c2 = sentMessages c"
    "out c2 = out c @ map (\<lambda>w. SocketSend (resend_bytes w)) (sequencedMessages (sentMessages c))" using c1 by auto
  have q: "process_queue x = (Inr (), x)" if "ready x" for x
    using that by (cases x) (simp add: process_queue_def action_defs ready_def)
  have "eachc resend (sequencedMessages (sentMessages c)) (c\<lparr>connectTimeout := False, connected := True,
      hostIndex := (case uris opts of Some us \<Rightarrow> length us | None \<Rightarrow> hostIndex (c\<lparr>connectTimeout := False\<rparr>))\<rparr>) =
      (Inr (), c2)" using c2(1) c1(3) by (simp only: c1_def h_def)
  then show ?thesis
    using c c2(2-4) q [of c2] q [of "c2\<lparr>out := out c2 @ [ConnectSucceeded]\<rparr>"]
    by (simp add: handle_connack_def action_defs resuming_def WireMessage_def Let_def)
qed

text \<open>
  C25: When a session is resumed, every PUBLISH that is still unacknowledged is sent again exactly
  once, in the order of the sequence numbers it got when it was first sent, before
  \<open>onSuccess\<close> is called; one whose PUBREC has arrived is continued with its PUBREL. (The packet
  is the same as the first time: a resend on the same client does not raise the duplicate flag.)
\<close>

theorem reconnect_resends:
  assumes "resuming opts c" "list_all resendable (sentMessages c)" "0 \<le> f" "f < 16"
  shows "\<exists>ws c'. perform (Socket_data (frame (first_of CONNACK f) [flags, 0])) c = (Inr (), c') \<and> ready c' \<and>
    mset ws = mset (map snd (sentMessages c)) \<and> sequenced ws \<and>
    out c' = out c @ map (\<lambda>w. SocketSend (resend_bytes w)) ws @ (if hasOnSuccess opts then [ConnectSucceeded] else [])"
proof -
  let ?w = "(WireMessage CONNACK)\<lparr>sessionPresent := (uint flags AND 1 \<noteq> 0), returnCode := Some (ReturnCode (Num 0))\<rparr>"
  have p: "list_all2 server_packet [frame (first_of CONNACK f) [flags, 0]] [?w]"
    using server_packet.connack [OF assms(3,4), of flags 0] by simp
  have "receiveBuffer c = None" "receivePinger c \<noteq> None" "resuming opts (heard c)"
    using assms(1) by (simp_all add: resuming_def ready_def heard_def)
  with connack_resumes [of opts "heard c" "uint flags AND 1 \<noteq> 0"] assms(2) obtain c' where
    "perform (Socket_data (frame (first_of CONNACK f) [flags, 0])) c = (Inr (), c')" "ready c'"
    "out c' = out c @ map (\<lambda>w. SocketSend (resend_bytes w)) (sequencedMessages (sentMessages c)) @
      (if hasOnSuccess opts then [ConnectSucceeded] else [])"
    using socket_data_packets [OF _ _ p, of c]
    by (auto simp: handleMessage_def dispatch_def WireMessage_def catchc_def thenc_def bindc_def returnc_def)
  then show ?thesis
    using mset_sequencedMessages [of "sentMessages c"] sequenced_sequencedMessages [OF assms(2)] by blast
qed

definition lasting_options :: connect_options where
  "lasting_options = plain_options\<lparr>connectFields := plain_connect\<lparr>cleanSession := False\<rparr>\<rparr>"

definition resumed_session :: "input list" where
  "resumed_session = [Call_connect lasting_options, Socket_opened, Socket_data [0x20, 2, 0, 0],
     Call_send example_message, Call_send example_message, Socket_closed,
     Call_connect lasting_options, Socket_opened]"

definition resumes_two :: "client \<Rightarrow> bool" where
  "resumes_two c \<longleftrightarrow> resuming lasting_options c \<and> list_all resendable (sentMessages c) \<and> length (sentMessages c) = 2"

lemma in_flight_code [code]:
  "in_flight k w \<longleftrightarrow> messageIdentifier w = Some k \<and> (case payloadMessage w of None \<Rightarrow> False | Some m \<Rightarrow> storable m)"
  by (auto simp: in_flight_def split: option.split)

lemma resumed_session: "resumes_two (run resumed_session listening_client)"
  by code_simp

theorem reconnect_resends_witness:
  "\<exists>ws c'. perform (Socket_data (frame (first_of CONNACK 0) [0, 0])) (run resumed_session listening_client) = (Inr (), c') \<and>
    ready c' \<and> length ws = 2 \<and> sequenced ws \<and>
    out c' = out (run resumed_session listening_client) @ map (\<lambda>w. SocketSend (resend_bytes w)) ws @ [ConnectSucceeded]"
proof -
  let ?c = "run resumed_session listening_client"
  have r: "resuming lasting_options ?c" "list_all resendable (sentMessages ?c)" "length (sentMessages ?c) = 2"
    using resumed_session by (simp_all add: resumes_two_def)
  obtain ws c' where "perform (Socket_data (frame (first_of CONNACK 0) [0, 0])) ?c = (Inr (), c')" "ready c'" "sequenced ws"
    and ws: "mset ws = mset (map snd (sentMessages ?c))"
    and "out c' = out ?c @ map (\<lambda>w. SocketSend (resend_bytes w)) ws @ (if hasOnSuccess lasting_options then [ConnectSucceeded] else [])"
    using reconnect_resends [OF r(1,2), of 0 0] by auto
  moreover have "length ws = 2" using arg_cong [OF ws, of size] r(3) by simp
  ultimately show ?thesis by (auto simp: lasting_options_def plain_options_def)
qed

end
