(* ===== verification/Trace.thy ===== *)
theory Trace
  imports Prelude
begin

text \<open>
  Tracing in \<open>mqttws31.js\<close>: \<open>_trace\<close>, \<open>_traceMask\<close>, \<open>startTrace\<close>, \<open>stopTrace\<close> and
  \<open>getTraceLog\<close>. \<open>JSON.stringify\<close> is the parameter \<open>stringify\<close>; traced objects are opaque.
\<close>

datatype 'v traced = TUndefined | TString js_string | TValue 'v

record 'v tracer =
  hasTraceFunction :: bool
  traceBuffer :: "'v traced list option"
  traceRecords :: "js_string list"

definition MAX_TRACE_ENTRIES :: nat where
  "MAX_TRACE_ENTRIES = 100"

definition stringified :: "('v traced \<Rightarrow> js_string) \<Rightarrow> 'v traced \<Rightarrow> 'v traced" where
  "stringified stringify a = (if a \<noteq> TUndefined then TString (stringify a) else a)"

fun join_text :: "'v traced list \<Rightarrow> js_string" where
  "join_text [] = []"
| "join_text (TString s # as) = s @ join_text as"
| "join_text (_ # as) = join_text as"

definition push_entry :: "'v traced \<Rightarrow> 'v traced list \<Rightarrow> 'v traced list" where
  "push_entry e buf = (if length buf = MAX_TRACE_ENTRIES then tl buf else buf) @ [e]"

definition entry :: "('v traced \<Rightarrow> js_string) \<Rightarrow> nat \<Rightarrow> 'v traced \<Rightarrow> 'v traced" where
  "entry stringify i a =
     (if i = 0 then a else if a = TUndefined then a else TString (js '' '' @ stringify a))"

definition trace_entries :: "('v traced \<Rightarrow> js_string) \<Rightarrow> 'v traced list \<Rightarrow> 'v traced list" where
  "trace_entries stringify args = map (\<lambda>(i, a). entry stringify i a) (enumerate 0 args)"

definition trace :: "('v traced \<Rightarrow> js_string) \<Rightarrow> 'v traced list \<Rightarrow> 'v tracer \<Rightarrow> 'v tracer" where
  "trace stringify args t =
     (let args' = (if hasTraceFunction t then map (stringified stringify) args else args);
          t' = (if hasTraceFunction t then t\<lparr>traceRecords := traceRecords t @ [join_text args']\<rparr> else t) in
      case traceBuffer t of
        None \<Rightarrow> t'
      | Some buf \<Rightarrow> t'\<lparr>traceBuffer := Some (fold push_entry (trace_entries stringify args') buf)\<rparr>)"

definition traceMask :: "(js_string \<times> 'v traced) list \<Rightarrow> js_string \<Rightarrow> (js_string \<times> 'v traced) list" where
  "traceMask traceObject masked =
     map (\<lambda>(attr, v). (attr, if attr = masked then TString (js ''******'') else v)) traceObject"

definition startTrace :: "('v traced \<Rightarrow> js_string) \<Rightarrow> 'v \<Rightarrow> js_string \<Rightarrow> 'v tracer \<Rightarrow> 'v tracer" where
  "startTrace stringify now version t =
     trace stringify [TString (js ''Client.startTrace''), TValue now, TString version]
       (if traceBuffer t = None then t\<lparr>traceBuffer := Some []\<rparr> else t)"

definition stopTrace :: "'v tracer \<Rightarrow> 'v tracer" where
  "stopTrace t = t\<lparr>traceBuffer := None\<rparr>"

text \<open>The tables are objects, so that \<open>this._sentMessages.length\<close> is \<open>undefined\<close>.\<close>

definition getTraceLog ::
  "('v traced \<Rightarrow> js_string) \<Rightarrow> 'v \<Rightarrow> (js_string \<times> 'v) list \<Rightarrow> (js_string \<times> 'v) list \<Rightarrow> 'v tracer
    \<Rightarrow> 'v traced list option \<times> 'v tracer" where
  "getTraceLog stringify now sent received t =
     (if traceBuffer t = None then (None, t)
      else (let t = trace stringify [TString (js ''Client.getTraceLog''), TValue now] t;
                t = trace stringify [TString (js ''Client.getTraceLog in flight messages''), TUndefined] t;
                t = fold (\<lambda>(k, w). trace stringify [TString (js ''_sentMessages ''), TString k, TValue w]) sent t;
                t = fold (\<lambda>(k, w). trace stringify [TString (js ''_receivedMessages ''), TString k, TValue w])
                      received t in
            (traceBuffer t, t)))"

subsection \<open>The buffer is a window on the latest entries\<close>

definition latest :: "nat \<Rightarrow> 'a list \<Rightarrow> 'a list" where
  "latest n xs = drop (length xs - n) xs"

lemma push_entry_latest: "push_entry e (latest MAX_TRACE_ENTRIES xs) = latest MAX_TRACE_ENTRIES (xs @ [e])"
proof (cases "length xs < MAX_TRACE_ENTRIES")
  case True
  then show ?thesis by (simp add: push_entry_def latest_def)
next
  case False
  then have "length xs - MAX_TRACE_ENTRIES < length xs" by (simp add: MAX_TRACE_ENTRIES_def)
  then show ?thesis using False by (simp add: push_entry_def latest_def tl_drop Suc_diff_le drop_Suc)
qed

lemma push_entries_latest:
  "fold push_entry es (latest MAX_TRACE_ENTRIES xs) = latest MAX_TRACE_ENTRIES (xs @ es)"
  by (induction es arbitrary: xs) (simp_all add: push_entry_latest)

lemma trace_buffer:
  assumes "\<not> hasTraceFunction t" "traceBuffer t = Some (latest MAX_TRACE_ENTRIES xs)"
  shows "traceBuffer (trace stringify args t) =
      Some (latest MAX_TRACE_ENTRIES (xs @ trace_entries stringify args))"
    "\<not> hasTraceFunction (trace stringify args t)"
  using assms by (simp_all add: trace_def push_entries_latest)

text \<open>
  After any sequence of trace calls that starts with tracing switched on and an empty
  buffer (and no trace function set), the buffer holds exactly the last 100 entries traced,
  in order.
\<close>

theorem trace_keeps_latest:
  assumes "\<not> hasTraceFunction t" "traceBuffer t = Some []"
  shows "traceBuffer (fold (trace stringify) calls t) =
    Some (latest MAX_TRACE_ENTRIES (concat (map (trace_entries stringify) calls)))"
proof -
  have "traceBuffer (fold (trace stringify) calls t) =
      Some (latest MAX_TRACE_ENTRIES (xs @ concat (map (trace_entries stringify) calls)))"
    if "\<not> hasTraceFunction t" "traceBuffer t = Some (latest MAX_TRACE_ENTRIES xs)" for t xs
    using that
  proof (induction calls arbitrary: t xs)
    case (Cons a calls)
    from Cons.IH [OF trace_buffer(2) [OF Cons.prems] trace_buffer(1) [OF Cons.prems]]
    show ?case by simp
  qed simp
  from this [of t "[]"] show ?thesis using assms by (simp add: latest_def)
qed

theorem trace_keeps_latest_witness:
  "traceBuffer (fold (trace (\<lambda>_. js ''x'')) [[TString (js ''a''), TUndefined], [TString (js ''b''), TValue (7::nat)]]
      \<lparr>hasTraceFunction = False, traceBuffer = Some [], traceRecords = []\<rparr>) =
   Some [TString (js ''a''), TUndefined, TString (js ''b''), TString (js '' x'')]"
  by (subst trace_keeps_latest) (simp_all add: latest_def trace_entries_def entry_def MAX_TRACE_ENTRIES_def js_def)

end
