(* ===== verification/Forms.thy ===== *)
theory Forms
  imports Prelude
begin

text \<open>
  Form validation of the console: the rules of \<open>ui/js/validation.js\<close> and the part of
  \<open>jquery.validate.js\<close> that evaluates them (\<open>form\<close>, \<open>checkForm\<close>, \<open>elements\<close>, \<open>rules\<close>,
  \<open>check\<close>, \<open>optional\<close>, the methods, the messages and \<open>defaultShowErrors\<close>). The inputs of the
  console are text and password fields without validation classes or attributes, so that an
  element's rules are its static rules. A field is found by its id, which is also its name.
\<close>

subsection \<open>The page\<close>

record field_input =
  in_name :: string
  in_value :: js_string
  in_visible :: bool
  in_disabled :: bool

record page =
  inputs :: "field_input list"
  switches :: "(string \<times> bool) list"

definition input_named :: "page \<Rightarrow> string \<Rightarrow> field_input option" where
  "input_named pg n = List.find (\<lambda>f. in_name f = n) (inputs pg)"

definition val_of :: "page \<Rightarrow> string \<Rightarrow> js_string option" where
  "val_of pg n = map_option in_value (input_named pg n)"

definition switch_state :: "page \<Rightarrow> string \<Rightarrow> bool" where
  "switch_state pg n = (map_of (switches pg) n = Some True)"

subsection \<open>Rules and messages\<close>

text \<open>A rule is a method name with its parameter; a selector \<open>#id\<close> is written as the id.\<close>

datatype rule =
    required bool
  | maxlength nat
  | minlength nat
  | rangelength nat nat
  | equalTo string
  | notEqualTo string
  | swtichCondRequired string

type_synonym rules = "(string \<times> rule list) list"

fun method_of :: "rule \<Rightarrow> string" where
  "method_of (required _) = ''required''"
| "method_of (maxlength _) = ''maxlength''"
| "method_of (minlength _) = ''minlength''"
| "method_of (rangelength _ _) = ''rangelength''"
| "method_of (equalTo _) = ''equalTo''"
| "method_of (notEqualTo _) = ''notEqualTo''"
| "method_of (swtichCondRequired _) = ''swtichCondRequired''"

fun parameters_of :: "rule \<Rightarrow> js_string list" where
  "parameters_of (required b) = [js (if b then ''true'' else ''false'')]"
| "parameters_of (maxlength n) = [show_base 10 n]"
| "parameters_of (minlength n) = [show_base 10 n]"
| "parameters_of (rangelength a b) = [show_base 10 a, show_base 10 b]"
| "parameters_of (equalTo s) = [js (CHR ''#'' # s)]"
| "parameters_of (notEqualTo s) = [js (CHR ''#'' # s)]"
| "parameters_of (swtichCondRequired s) = [js (CHR ''#'' # s)]"

subsection \<open>Methods\<close>

datatype outcome = Valid | Invalid | DependencyMismatch

definition elementValue :: "field_input \<Rightarrow> js_string" where
  "elementValue f = filter (\<lambda>u. u \<noteq> 13) (in_value f)"

definition verdict :: "bool \<Rightarrow> outcome" where
  "verdict b = (if b then Valid else Invalid)"

definition depend :: "bool option \<Rightarrow> bool" where
  "depend param = (case param of Some b \<Rightarrow> b | None \<Rightarrow> True)"

definition required_method :: "js_string \<Rightarrow> bool option \<Rightarrow> outcome" where
  "required_method val param =
     (if \<not> depend param then DependencyMismatch else verdict (length val > 0))"

text \<open>\<open>optional\<close>: an empty field is valid for every method but \<open>required\<close>.\<close>

definition optional :: "field_input \<Rightarrow> bool" where
  "optional f \<longleftrightarrow> required_method (elementValue f) None = Invalid"

definition or_optional :: "field_input \<Rightarrow> bool \<Rightarrow> outcome" where
  "or_optional f b = (if optional f then DependencyMismatch else verdict b)"

fun run_method :: "page \<Rightarrow> field_input \<Rightarrow> js_string \<Rightarrow> rule \<Rightarrow> outcome" where
  "run_method pg f val (required b) = required_method val (Some b)"
| "run_method pg f val (maxlength n) = or_optional f (length val \<le> n)"
| "run_method pg f val (minlength n) = or_optional f (length val \<ge> n)"
| "run_method pg f val (rangelength a b) = or_optional f (length val \<ge> a \<and> length val \<le> b)"
| "run_method pg f val (equalTo s) = verdict (Some val = val_of pg s)"
| "run_method pg f val (notEqualTo s) =
     (if \<not> in_visible f then Valid else if Some val = val_of pg s then Invalid else Valid)"
| "run_method pg f val (swtichCondRequired s) =
     (if switch_state pg s then verdict (length val > 0) else Valid)"

subsection \<open>The rules of an element\<close>

fun is_required :: "rule \<Rightarrow> bool" where
  "is_required (required b) = b"
| "is_required _ = False"

definition normalizeRules :: "rule list \<Rightarrow> rule list" where
  "normalizeRules rs = filter (\<lambda>r. r \<noteq> required False) rs"

definition staticRules :: "rules \<Rightarrow> string \<Rightarrow> rule list" where
  "staticRules rs n = (case map_of rs n of Some r \<Rightarrow> r | None \<Rightarrow> [])"

definition element_rules :: "rules \<Rightarrow> string \<Rightarrow> rule list" where
  "element_rules rs n =
     (let data = normalizeRules (staticRules rs n) in
      filter is_required data @ filter (\<lambda>r. \<not> is_required r) data)"

subsection \<open>Checking\<close>

datatype check_result = CheckOk | CheckFailed rule | CheckSkipped

fun check_loop :: "page \<Rightarrow> field_input \<Rightarrow> nat \<Rightarrow> bool \<Rightarrow> rule list \<Rightarrow> check_result" where
  "check_loop pg f rulesCount mismatch [] = (if mismatch then CheckSkipped else CheckOk)"
| "check_loop pg f rulesCount mismatch (r # rs) =
     (case run_method pg f (elementValue f) r of
        DependencyMismatch \<Rightarrow> check_loop pg f rulesCount (rulesCount = 1) rs
      | Valid \<Rightarrow> check_loop pg f rulesCount False rs
      | Invalid \<Rightarrow> CheckFailed r)"

definition check :: "page \<Rightarrow> rules \<Rightarrow> field_input \<Rightarrow> check_result" where
  "check pg rs f =
     (let ers = element_rules rs (in_name f) in check_loop pg f (length ers) False ers)"

fun first_named :: "string list \<Rightarrow> field_input list \<Rightarrow> field_input list" where
  "first_named seen [] = []"
| "first_named seen (f # fs) =
     (if in_name f \<in> set seen then first_named seen fs else f # first_named (in_name f # seen) fs)"

definition elements :: "page \<Rightarrow> rules \<Rightarrow> field_input list" where
  "elements pg rs =
     first_named [] (filter (\<lambda>f. \<not> in_disabled f \<and> in_visible f \<and> element_rules rs (in_name f) \<noteq> []) (inputs pg))"

definition failed_rule :: "check_result \<Rightarrow> rule option" where
  "failed_rule r = (case r of CheckFailed x \<Rightarrow> Some x | _ \<Rightarrow> None)"

definition errorList :: "page \<Rightarrow> rules \<Rightarrow> (string \<times> rule) list" where
  "errorList pg rs =
     concat (map (\<lambda>f. case check pg rs f of CheckFailed r \<Rightarrow> [(in_name f, r)] | _ \<Rightarrow> []) (elements pg rs))"

definition successList :: "page \<Rightarrow> rules \<Rightarrow> string list" where
  "successList pg rs = map in_name (filter (\<lambda>f. check pg rs f = CheckOk) (elements pg rs))"

definition checkForm :: "page \<Rightarrow> rules \<Rightarrow> bool" where
  "checkForm pg rs \<longleftrightarrow> errorList pg rs = []"

subsection \<open>Messages\<close>

text \<open>A message is a text or a key of the \<open>locale_messages\<close> that are loaded.\<close>

datatype vmessage = Locale string | VText js_string | VFormat js_string

fun replace_all :: "nat \<Rightarrow> js_string \<Rightarrow> js_string \<Rightarrow> js_string \<Rightarrow> js_string" where
  "replace_all 0 pat s text = text"
| "replace_all (Suc fuel) pat s text =
     (case indexOf text pat of
        None \<Rightarrow> text
      | Some i \<Rightarrow> take i text @ s @ replace_all fuel pat s (drop (i + length pat) text))"

fun vformat_from :: "nat \<Rightarrow> js_string \<Rightarrow> js_string list \<Rightarrow> js_string" where
  "vformat_from i source [] = source"
| "vformat_from i source (p # ps) =
     vformat_from (Suc i)
       (replace_all (length source) (js ''{'' @ show_base 10 i @ js ''}'') p source) ps"

definition vformat :: "js_string \<Rightarrow> js_string list \<Rightarrow> js_string" where
  "vformat source params = vformat_from 0 source params"

definition default_messages :: "(string \<times> vmessage) list" where
  "default_messages =
     [(''required'', VText (js ''This field is required.'')),
      (''remote'', VText (js ''Please fix this field.'')),
      (''email'', VText (js ''Please enter a valid email address.'')),
      (''url'', VText (js ''Please enter a valid URL.'')),
      (''date'', VText (js ''Please enter a valid date.'')),
      (''dateISO'', VText (js ''Please enter a valid date (ISO).'')),
      (''number'', VText (js ''Please enter a valid number.'')),
      (''digits'', VText (js ''Please enter only digits.'')),
      (''equalTo'', VText (js ''Please enter the same value again.'')),
      (''maxlength'', VFormat (js ''Please enter no more than {0} characters.'')),
      (''minlength'', VFormat (js ''Please enter at least {0} characters.'')),
      (''rangelength'', VFormat (js ''Please enter a value between {0} and {1} characters long.'')),
      (''range'', VFormat (js ''Please enter a value between {0} and {1}.'')),
      (''max'', VFormat (js ''Please enter a value less than or equal to {0}.'')),
      (''min'', VFormat (js ''Please enter a value greater than or equal to {0}.'')),
      (''step'', VFormat (js ''Please enter a multiple of {0}.''))]"

type_synonym form_messages = "(string \<times> (string \<times> string) list) list"

definition customMessage :: "form_messages \<Rightarrow> string \<Rightarrow> string \<Rightarrow> vmessage option" where
  "customMessage ms name method =
     (case map_of ms name of
        None \<Rightarrow> None
      | Some m \<Rightarrow> map_option Locale (map_of m method))"

definition warning :: "string \<Rightarrow> vmessage" where
  "warning name = VText (js ''<strong>Warning: No message defined for '' @ js name @ js ''</strong>'')"

definition defaultMessage :: "form_messages \<Rightarrow> string \<Rightarrow> rule \<Rightarrow> vmessage" where
  "defaultMessage ms name r =
     (case customMessage ms name (method_of r) of
        Some m \<Rightarrow> m
      | None \<Rightarrow>
          (case map_of default_messages (method_of r) of
             Some (VFormat s) \<Rightarrow> VText (vformat s (parameters_of r))
           | Some m \<Rightarrow> m
           | None \<Rightarrow> warning name))"

subsection \<open>Showing errors\<close>

text \<open>
  The form group of a field: its error class and its help text. The console's placement
  function does not insert the error label, so that \<open>showLabel\<close> always creates a new one and
  calls the placement function, also for a field that is shown as valid.
\<close>

record group =
  has_error :: bool
  help_html :: vmessage
  help_visible :: bool

definition errorPlacement4Valid :: "vmessage \<Rightarrow> group \<Rightarrow> group" where
  "errorPlacement4Valid error g = g\<lparr>help_html := error, help_visible := True, has_error := True\<rparr>"

definition handleError4Valid :: "vmessage \<Rightarrow> group \<Rightarrow> group" where
  "handleError4Valid message g = g\<lparr>help_html := message, help_visible := True, has_error := True\<rparr>"

definition success4Valid :: "group \<Rightarrow> group" where
  "success4Valid g = g\<lparr>help_html := VText [], help_visible := False, has_error := False\<rparr>"

definition showLabel :: "vmessage option \<Rightarrow> group \<Rightarrow> group" where
  "showLabel message g =
     (case message of
        Some m \<Rightarrow> errorPlacement4Valid m g
      | None \<Rightarrow> success4Valid (errorPlacement4Valid (VText []) g))"

type_synonym groups = "string \<Rightarrow> group"

definition defaultShowErrors :: "form_messages \<Rightarrow> page \<Rightarrow> rules \<Rightarrow> groups \<Rightarrow> groups" where
  "defaultShowErrors ms pg rs gs =
     (let gs1 = fold (\<lambda>(n, r) gs. gs(n := showLabel (Some (defaultMessage ms n r)) (gs n))) (errorList pg rs) gs
      in fold (\<lambda>n gs. gs(n := showLabel None (gs n))) (successList pg rs) gs1)"

definition validator_form :: "form_messages \<Rightarrow> page \<Rightarrow> rules \<Rightarrow> groups \<Rightarrow> bool \<times> groups" where
  "validator_form ms pg rs gs = (checkForm pg rs, defaultShowErrors ms pg rs gs)"

subsection \<open>The forms of the console\<close>

definition addAdminRules :: rules where
  "addAdminRules =
     [(''add-admin-account'', [required True, maxlength 30]),
      (''add-admin-desc'', [maxlength 100]),
      (''add-admin-passwd'', [required True, rangelength 6 16]),
      (''add-admin-passwd-conf'', [required True, rangelength 6 16, equalTo ''add-admin-passwd''])]"

definition addAdminMessages :: form_messages where
  "addAdminMessages = [(''add-admin-passwd-conf'', [(''equalTo'', ''common_passwd_equal'')])]"

definition editAdminRules :: rules where
  "editAdminRules =
     [(''edit-admin-desc'', [maxlength 100]),
      (''edit-admin-old-passwd'', [swtichCondRequired ''edit-admin-passwd-update'', rangelength 6 16]),
      (''edit-admin-passwd'', [swtichCondRequired ''edit-admin-passwd-update'', rangelength 6 16,
                               notEqualTo ''edit-admin-old-passwd'']),
      (''edit-admin-passwd-conf'', [swtichCondRequired ''edit-admin-passwd-update'', rangelength 6 16,
                                    equalTo ''edit-admin-passwd''])]"

definition editAdminMessages :: form_messages where
  "editAdminMessages =
     [(''edit-admin-old-passwd'', [(''swtichCondRequired'', ''common_swtich_cond_required'')]),
      (''edit-admin-passwd'', [(''swtichCondRequired'', ''common_swtich_cond_required''),
                               (''notEqualTo'', ''common_passwd_not_equal'')]),
      (''edit-admin-passwd-conf'', [(''swtichCondRequired'', ''common_swtich_cond_required''),
                                    (''equalTo'', ''common_passwd_equal'')])]"

definition addUserRules :: rules where
  "addUserRules =
     [(''add-conn-username'', [required True, maxlength 30]),
      (''add-user-desc'', [maxlength 100]),
      (''add-user-passwd'', [required True, rangelength 6 16]),
      (''add-user-passwd-conf'', [required True, rangelength 6 16, equalTo ''add-user-passwd''])]"

definition addUserMessages :: form_messages where
  "addUserMessages = [(''add-user-passwd-conf'', [(''equalTo'', ''common_passwd_equal'')])]"

definition editUserRules :: rules where
  "editUserRules =
     [(''edit-user-desc'', [maxlength 100]),
      (''edit-user-admin-passwd'', [swtichCondRequired ''edit-user-passwd-update'', rangelength 6 16]),
      (''edit-user-passwd'', [swtichCondRequired ''edit-user-passwd-update'', rangelength 6 16]),
      (''edit-user-passwd-conf'', [swtichCondRequired ''edit-user-passwd-update'', rangelength 6 16,
                                   equalTo ''edit-user-passwd''])]"

definition editUserMessages :: form_messages where
  "editUserMessages =
     [(''edit-user-admin-passwd'', [(''swtichCondRequired'', ''common_swtich_cond_required'')]),
      (''edit-user-passwd'', [(''swtichCondRequired'', ''common_swtich_cond_required'')]),
      (''edit-user-passwd-conf'', [(''swtichCondRequired'', ''common_swtich_cond_required''),
                                   (''equalTo'', ''common_passwd_equal'')])]"

definition aclRules :: rules where
  "aclRules =
     [(''acl-target'', [required True, maxlength 1024]),
      (''acl-topic'', [required True, maxlength 1024])]"

subsection \<open>Lemmas\<close>

lemma first_named_distinct:
  "distinct (map in_name (first_named seen fs)) \<and> set (map in_name (first_named seen fs)) \<inter> set seen = {}"
  by (induction fs arbitrary: seen) (auto, fastforce+)

lemma first_named_subset: "set (first_named seen fs) \<subseteq> set fs"
  by (induction fs arbitrary: seen) auto

lemma elements_distinct: "distinct (map in_name (elements pg rs))"
  using first_named_distinct [of "[]"] by (simp add: elements_def)

lemma checkForm_iff: "checkForm pg rs \<longleftrightarrow> (\<forall>f \<in> set (elements pg rs). failed_rule (check pg rs f) = None)"
  by (auto simp: checkForm_def errorList_def failed_rule_def split: check_result.splits)

lemma errorList_names:
  "map fst (errorList pg rs) = map in_name (filter (\<lambda>f. failed_rule (check pg rs f) \<noteq> None) (elements pg rs))"
proof -
  have "map fst (concat (map (\<lambda>f. case check pg rs f of CheckFailed r \<Rightarrow> [(in_name f, r)] | _ \<Rightarrow> []) fs)) =
      map in_name (filter (\<lambda>f. failed_rule (check pg rs f) \<noteq> None) fs)" for fs
    by (induction fs) (simp_all add: failed_rule_def split: check_result.split)
  then show ?thesis by (simp add: errorList_def)
qed

lemma errorList_distinct: "distinct (map fst (errorList pg rs))"
  unfolding errorList_names by (rule distinct_map_filter [OF elements_distinct])

lemma fold_update_notin: "n \<notin> set (map fst xs) \<Longrightarrow> fold (\<lambda>(k, r) gs. gs(k := F k r (gs k))) xs gs n = gs n"
  by (induction xs arbitrary: gs) auto

lemma fold_update_in:
  "distinct (map fst xs) \<Longrightarrow> (n, r) \<in> set xs \<Longrightarrow> fold (\<lambda>(k, r) gs. gs(k := F k r (gs k))) xs gs n = F n r (gs n)"
proof (induction xs arbitrary: gs)
  case (Cons x xs)
  show ?case
  proof (cases "x = (n, r)")
    case True
    then have "n \<notin> set (map fst xs)" using Cons.prems by simp
    from fold_update_notin [OF this, of F "gs(n := F n r (gs n))"] show ?thesis using True by (simp add: fun_upd_same del: fun_upd_apply)
  next
    case False
    then have in_xs: "(n, r) \<in> set xs" using Cons.prems by simp
    then have "n \<in> set (map fst xs)" by force
    then have "fst x \<noteq> n" using Cons.prems(1) by auto
    then show ?thesis using Cons in_xs by (cases x) auto
  qed
qed simp

lemma fold_success:
  "(\<And>g. G (G g) = G g) \<Longrightarrow>
   fold (\<lambda>n gs. gs(n := G (gs n))) ns gs n = (if n \<in> set ns then G (gs n) else gs n)"
  by (induction ns arbitrary: gs) auto

lemma showLabel_idem: "showLabel None (showLabel None g) = showLabel None g"
  by (simp add: showLabel_def success4Valid_def errorPlacement4Valid_def)

lemma success_error_disjoint: "n \<in> set (successList pg rs) \<Longrightarrow> n \<notin> set (map fst (errorList pg rs))"
proof
  assume "n \<in> set (successList pg rs)" "n \<in> set (map fst (errorList pg rs))"
  then obtain f g where "f \<in> set (elements pg rs)" "g \<in> set (elements pg rs)" "in_name f = in_name g"
    "check pg rs f = CheckOk" "failed_rule (check pg rs g) \<noteq> None"
    unfolding errorList_names successList_def by auto
  moreover then have "f = g" using elements_distinct [of pg rs] by (metis distinct_map inj_onD)
  ultimately show False by (simp add: failed_rule_def)
qed

lemma defaultShowErrors_error:
  assumes "(n, r) \<in> set (errorList pg rs)"
  shows "defaultShowErrors ms pg rs gs n = showLabel (Some (defaultMessage ms n r)) (gs n)"
proof -
  have "n \<in> set (map fst (errorList pg rs))" using assms by force
  then have "n \<notin> set (successList pg rs)" using success_error_disjoint by blast
  then show ?thesis
    using fold_update_in [OF errorList_distinct assms, of "\<lambda>n r. showLabel (Some (defaultMessage ms n r))"]
    by (simp add: defaultShowErrors_def fold_success [OF showLabel_idem])
qed

lemma defaultShowErrors_other:
  assumes "n \<notin> set (map fst (errorList pg rs))"
  shows "n \<in> set (successList pg rs) \<Longrightarrow> defaultShowErrors ms pg rs gs n = showLabel None (gs n)"
    "n \<notin> set (successList pg rs) \<Longrightarrow> defaultShowErrors ms pg rs gs n = gs n"
  using fold_update_notin [OF assms, of "\<lambda>n r. showLabel (Some (defaultMessage ms n r))"]
  by (simp_all add: defaultShowErrors_def fold_success [OF showLabel_idem])

text \<open>
  C38: What validating a form changes on the page, exactly: the group of a field that failed carries
  its message and is marked, the group of a field that passed is cleared, and any other group, that
  of a skipped field (disabled, hidden, or optional and empty) included, is left as it was, with an
  old error if it had one. The form is accepted if and only if no field failed.
\<close>

theorem show_errors_exact:
  "fst (validator_form ms pg rs gs) = (errorList pg rs = []) \<and>
   snd (validator_form ms pg rs gs) n =
     (case map_of (errorList pg rs) n of
        Some r \<Rightarrow> (gs n)\<lparr>help_html := defaultMessage ms n r, help_visible := True, has_error := True\<rparr>
      | None \<Rightarrow>
          if n \<in> set (successList pg rs)
          then (gs n)\<lparr>help_html := VText [], help_visible := False, has_error := False\<rparr>
          else gs n)"
proof (cases "map_of (errorList pg rs) n")
  case None
  then have "n \<notin> set (map fst (errorList pg rs))" by (simp add: map_of_eq_None_iff)
  from defaultShowErrors_other [OF this] None show ?thesis
    by (simp add: validator_form_def checkForm_def showLabel_def success4Valid_def errorPlacement4Valid_def)
next
  case (Some r)
  from defaultShowErrors_error [OF map_of_SomeD [OF Some]] Some show ?thesis
    by (simp add: validator_form_def checkForm_def showLabel_def errorPlacement4Valid_def)
qed

subsection \<open>The forms of the console\<close>

definition text_field :: "string \<Rightarrow> bool \<Rightarrow> js_string \<Rightarrow> field_input" where
  "text_field n vis v = \<lparr>in_name = n, in_value = v, in_visible = vis, in_disabled = False\<rparr>"

definition add_admin_page :: "js_string \<Rightarrow> js_string \<Rightarrow> js_string \<Rightarrow> js_string \<Rightarrow> page" where
  "add_admin_page account desc passwd conf =
     \<lparr>inputs = [text_field ''add-admin-account'' True account, text_field ''add-admin-desc'' True desc,
                text_field ''add-admin-passwd'' True passwd, text_field ''add-admin-passwd-conf'' True conf],
      switches = []\<rparr>"

definition edit_admin_page :: "bool \<Rightarrow> js_string \<Rightarrow> js_string \<Rightarrow> js_string \<Rightarrow> js_string \<Rightarrow> page" where
  "edit_admin_page on desc oldp newp conf =
     \<lparr>inputs = [text_field ''edit-admin-desc'' True desc, text_field ''edit-admin-old-passwd'' on oldp,
                text_field ''edit-admin-passwd'' on newp, text_field ''edit-admin-passwd-conf'' on conf],
      switches = [(''edit-admin-passwd-update'', on)]\<rparr>"

lemmas form_eval =
  checkForm_iff elements_def check_def element_rules_def staticRules_def normalizeRules_def text_field_def
  val_of_def input_named_def switch_state_def verdict_def or_optional_def optional_def required_method_def
  depend_def failed_rule_def

lemma elementValue_no_cr: "13 \<notin> set (in_value f) \<Longrightarrow> elementValue f = in_value f"
  by (auto simp: elementValue_def filter_id_conv)

text \<open>
  The form that creates an administrator is accepted exactly when the account has 1 to 30
  characters, the description at most 100, the password 6 to 16, and the confirmation is the
  password (text and password inputs hold no carriage returns).
\<close>

theorem add_admin_valid_iff:
  assumes "13 \<notin> set (account @ desc @ passwd @ conf)"
  shows "checkForm (add_admin_page account desc passwd conf) addAdminRules \<longleftrightarrow>
    account \<noteq> [] \<and> length account \<le> 30 \<and> length desc \<le> 100 \<and>
    6 \<le> length passwd \<and> length passwd \<le> 16 \<and> conf = passwd"
  using assms
  by (auto simp: form_eval addAdminRules_def add_admin_page_def elementValue_no_cr)

theorem add_admin_valid_iff_witness:
  "13 \<notin> set (js ''root'' @ [] @ js ''secret'' @ js ''secret'') \<and>
   checkForm (add_admin_page (js ''root'') [] (js ''secret'') (js ''secret'')) addAdminRules"
proof -
  have cr: "13 \<notin> set (js ''root'' @ [] @ js ''secret'' @ js ''secret'')" by (simp add: js_def)
  have "js ''root'' \<noteq> [] \<and> length (js ''root'') \<le> 30 \<and> length [] \<le> (100::nat) \<and>
    6 \<le> length (js ''secret'') \<and> length (js ''secret'') \<le> 16" by (simp add: js_def)
  then show ?thesis using add_admin_valid_iff [OF cr] cr by simp
qed

text \<open>
  The form that edits an administrator, whose password fields are shown exactly when the
  password switch is on: with the switch off only the description is checked; with it on, the
  old and the new password have 6 to 16 characters, differ, and the confirmation is the new one.
\<close>

theorem edit_admin_valid_iff:
  assumes "13 \<notin> set (desc @ oldp @ newp @ conf)"
  shows "checkForm (edit_admin_page on desc oldp newp conf) editAdminRules \<longleftrightarrow>
    length desc \<le> 100 \<and>
    (on \<longrightarrow> 6 \<le> length oldp \<and> length oldp \<le> 16 \<and> 6 \<le> length newp \<and> length newp \<le> 16 \<and>
       newp \<noteq> oldp \<and> conf = newp)"
  using assms
  by (auto simp: form_eval editAdminRules_def edit_admin_page_def elementValue_no_cr)

theorem edit_admin_valid_iff_witness:
  "13 \<notin> set ([] @ js ''secret'' @ js ''secret1'' @ js ''secret1'') \<and>
   checkForm (edit_admin_page True [] (js ''secret'') (js ''secret1'') (js ''secret1'')) editAdminRules \<and>
   \<not> checkForm (edit_admin_page True [] (js ''secret'') (js ''secret'') (js ''secret'')) editAdminRules"
proof -
  have cr: "13 \<notin> set ([] @ js ''secret'' @ js ''secret1'' @ js ''secret1'')"
    "13 \<notin> set ([] @ js ''secret'' @ js ''secret'' @ js ''secret'')" by (simp_all add: js_def)
  show ?thesis
    using edit_admin_valid_iff [OF cr(1), of True] edit_admin_valid_iff [OF cr(2), of True] cr(1)
    by (simp add: js_def)
qed

definition has_message :: "form_messages \<Rightarrow> string \<Rightarrow> rule \<Rightarrow> bool" where
  "has_message ms n r \<longleftrightarrow>
     customMessage ms n (method_of r) \<noteq> None \<or> map_of default_messages (method_of r) \<noteq> None"

definition messages_complete :: "form_messages \<Rightarrow> rules \<Rightarrow> bool" where
  "messages_complete ms rs = list_all (\<lambda>(n, rl). list_all (has_message ms n) rl) rs"

text \<open>
  Every rule of the five forms has a message, its own or the library's, so that no field is
  ever reported with the warning that no message is defined.
\<close>

theorem console_messages_complete:
  "messages_complete addAdminMessages addAdminRules \<and> messages_complete editAdminMessages editAdminRules \<and>
   messages_complete addUserMessages addUserRules \<and> messages_complete editUserMessages editUserRules \<and>
   messages_complete [] aclRules"
  by (intro conjI)
    (simp_all add: messages_complete_def has_message_def customMessage_def default_messages_def
      addAdminMessages_def addAdminRules_def editAdminMessages_def editAdminRules_def
      addUserMessages_def addUserRules_def editUserMessages_def editUserRules_def aclRules_def)

text \<open>
  A field whose only rule is a maximal length and that is empty is skipped, neither failed
  nor passed: when it is emptied after an error, the form is accepted while the field's group
  still shows the error of the previous content.
\<close>

theorem emptied_field_keeps_error:
  assumes "13 \<notin> set (account @ passwd)" "account \<noteq> []" "length account \<le> 30" "6 \<le> length passwd"
    "length passwd \<le> 16" "has_error (gs ''add-admin-desc'')" "help_visible (gs ''add-admin-desc'')"
    "validator_form ms (add_admin_page account [] passwd passwd) addAdminRules gs = (ok, gs')"
  shows "ok \<and> has_error (gs' ''add-admin-desc'') \<and> help_visible (gs' ''add-admin-desc'')"
proof -
  let ?pg = "add_admin_page account [] passwd passwd"
  have ok: "checkForm ?pg addAdminRules"
    using assms(1-5) by (auto simp: form_eval addAdminRules_def add_admin_page_def elementValue_no_cr)
  then have "errorList ?pg addAdminRules = []" by (simp add: checkForm_def)
  moreover have "''add-admin-desc'' \<notin> set (successList ?pg addAdminRules)"
    using assms(1-5) by (auto simp: form_eval successList_def addAdminRules_def add_admin_page_def elementValue_no_cr)
  ultimately have "defaultShowErrors ms ?pg addAdminRules gs ''add-admin-desc'' = gs ''add-admin-desc''"
    by (intro defaultShowErrors_other(2)) simp_all
  then show ?thesis using assms(6-8) ok by (auto simp: validator_form_def)
qed

definition marked_groups :: groups where
  "marked_groups n = \<lparr>has_error = True, help_html = VText (js ''too long''), help_visible = True\<rparr>"

theorem emptied_field_keeps_error_witness:
  "fst (validator_form addAdminMessages
     (add_admin_page (js ''root'') [] (js ''secret'') (js ''secret'')) addAdminRules marked_groups) \<and>
   has_error (snd (validator_form addAdminMessages
     (add_admin_page (js ''root'') [] (js ''secret'') (js ''secret'')) addAdminRules marked_groups) ''add-admin-desc'')"
  using emptied_field_keeps_error [of "js ''root''" "js ''secret''" marked_groups addAdminMessages
      "fst (validator_form addAdminMessages
     (add_admin_page (js ''root'') [] (js ''secret'') (js ''secret'')) addAdminRules marked_groups)"
      "snd (validator_form addAdminMessages
     (add_admin_page (js ''root'') [] (js ''secret'') (js ''secret'')) addAdminRules marked_groups)"]
  by (simp add: marked_groups_def js_def)
end
