(* ===== verification/Console.thy ===== *)
theory Console
  imports Prelude "HOL-Library.Sublist"
begin

text \<open>
  The scripts of the administration console: \<open>static/components/common/string.js\<close>,
  \<open>static/components/language/language.js\<close>, \<open>ui/js/common.js\<close>, \<open>ui/js/index.js\<close> and
  \<open>login.js\<close>. What they do to the page and to the browser is a record; requests to the
  broker and their answers are values, and the handlers of an answer are functions of it.
\<close>

subsection \<open>string.js\<close>

definition startsWith :: "js_string \<Rightarrow> js_string \<Rightarrow> bool" where
  "startsWith s pre \<longleftrightarrow> take (length pre) s = pre"

text \<open>\<open>indexOf\<close> with a start position; a negative position counts as 0.\<close>

definition endsWith :: "js_string \<Rightarrow> js_string \<Rightarrow> bool" where
  "endsWith s suf \<longleftrightarrow> indexOf (drop (length s - length suf) s) suf \<noteq> None"

lemma indexOf_prefix: "indexOf xs pat = Some i \<Longrightarrow> i + length pat \<le> length xs \<and> take (length pat) (drop i xs) = pat"
proof (induction xs pat arbitrary: i rule: indexOf.induct)
  case (2 x xs pat)
  show ?case
  proof (cases "prefix_of pat (x # xs)")
    case True
    then obtain zs where zs: "x # xs = pat @ zs" by (auto simp: prefix_of_iff)
    moreover have "i = 0" using 2(2) True by simp
    ultimately show ?thesis by (metis add_0 append_eq_conv_conj drop0 le_add1 length_append)
  next
    case False
    then show ?thesis using 2 by fastforce
  qed
qed (auto split: if_splits)

lemma indexOf_self [simp]: "indexOf xs xs = Some 0"
  by (cases xs) (simp_all add: prefix_of_iff)

text \<open>
  The two polyfills are the string predicates they stand in for: \<open>startsWith\<close> is the
  prefix order and \<open>endsWith\<close> the suffix order, also when the pattern is longer than the text.
\<close>

theorem string_polyfills:
  "(startsWith s p \<longleftrightarrow> prefix p s) \<and> (endsWith s p \<longleftrightarrow> suffix p s)"
proof
  show "startsWith s p \<longleftrightarrow> prefix p s"
    unfolding startsWith_def prefix_def by (metis append_eq_conv_conj append_take_drop_id)
  show "endsWith s p \<longleftrightarrow> suffix p s"
  proof
    assume "endsWith s p"
    then obtain i where i: "indexOf (drop (length s - length p) s) p = Some i"
      by (auto simp: endsWith_def)
    have le: "i + length p \<le> length (drop (length s - length p) s)"
      and tk: "take (length p) (drop i (drop (length s - length p) s)) = p"
      using indexOf_prefix [OF i] by blast+
    from le have "i = 0" "length p \<le> length s" by auto
    with tk have "drop (length s - length p) s = p" by simp
    then show "suffix p s" by (metis suffix_drop)
  next
    assume "suffix p s"
    then obtain r where "s = r @ p" by (auto simp: suffix_def)
    then show "endsWith s p" by (simp add: endsWith_def)
  qed
qed

subsection \<open>language.js\<close>

record navigator =
  nav_language :: js_string
  browserLanguage :: js_string
  userLanguage :: js_string
  systemLanguage :: js_string

text \<open>
  Lower case of the ASCII letters; no other character has one of the letters of \<open>zh\<close> as its
  lower case, so that the test for the prefix is exact. An absent property is the empty string.
\<close>

definition toLowerCase :: "js_string \<Rightarrow> js_string" where
  "toLowerCase s = map (\<lambda>u. if 65 \<le> u \<and> u \<le> 90 then u + 32 else u) s"

definition first_set :: "js_string list \<Rightarrow> js_string option" where
  "first_set ss = List.find (\<lambda>s. s \<noteq> []) ss"

definition getLanguage :: "navigator \<Rightarrow> string" where
  "getLanguage n =
     (case first_set [nav_language n, browserLanguage n, userLanguage n, systemLanguage n] of
        Some l \<Rightarrow> if startsWith (toLowerCase l) (js ''zh'') then ''zh'' else ''en''
      | None \<Rightarrow> ''en'')"

definition language_file :: "js_string \<Rightarrow> js_string" where
  "language_file language = js ''/static/i18n/messages.'' @ toLowerCase language @ js ''.js''"

record labelled =
  is_input :: bool
  data_locale :: string
  placeholder :: js_string
  text_content :: js_string

type_synonym locale_messages = "(string \<times> js_string) list"

text \<open>Setting an attribute or a text to \<open>undefined\<close> only reads it in jQuery.\<close>

definition localise :: "locale_messages \<Rightarrow> labelled \<Rightarrow> labelled" where
  "localise ms e =
     (case map_of ms (data_locale e) of
        None \<Rightarrow> e
      | Some t \<Rightarrow> if is_input e then e\<lparr>placeholder := t\<rparr> else e\<lparr>text_content := t\<rparr>)"

definition changeLanguage :: "locale_messages \<Rightarrow> labelled list \<Rightarrow> labelled list" where
  "changeLanguage ms els = map (localise ms) els"

text \<open>\<open>loadLanguage\<close>: the file that is fetched, and what the callback does when it has arrived.\<close>

definition loadLanguage :: "js_string \<Rightarrow> ('a \<Rightarrow> 'a) option \<Rightarrow> js_string \<times> ('a \<Rightarrow> 'a)" where
  "loadLanguage language callback =
     (language_file language, case callback of Some f \<Rightarrow> f | None \<Rightarrow> (\<lambda>s. s))"

definition loadAndChangeLanguage :: "js_string \<Rightarrow> js_string \<times> (locale_messages \<Rightarrow> labelled list \<Rightarrow> labelled list)" where
  "loadAndChangeLanguage language = (language_file language, changeLanguage)"

subsection \<open>common.js\<close>

definition datatables_paging_len :: int where
  "datatables_paging_len = 10"

text \<open>
  \<open>datatablesReload\<close>: the page that is selected before the reload, if any; \<open>None\<close> when the
  table keeps its page. The table is an initialised DataTable or not (\<open>usable\<close>).
\<close>

datatype reload = NoReload | ReloadSamePage | ReloadPage int

definition datatablesReload :: "bool \<Rightarrow> int \<Rightarrow> int \<Rightarrow> bool \<Rightarrow> reload" where
  "datatablesReload usable pageNum dataLen rowDeleted =
     (let pageNo = pageNum - 1 in
      if usable
      then (if rowDeleted
            then (if dataLen = 1 then ReloadPage (pageNo - 1) else ReloadSamePage)
            else ReloadSamePage)
      else NoReload)"

definition datatablesRowData :: "bool \<Rightarrow> 'r \<Rightarrow> 'r option" where
  "datatablesRowData usable row = (if usable then Some row else None)"

text \<open>
  A confirm button and a modal dialog with its fields. The button holds a plain label, or the
  spinner with a label after a non-breaking space; \<open>text()\<close> drops the spinner.
\<close>

datatype content = Label js_string | Spinner js_string

fun text_of :: "content \<Rightarrow> js_string" where
  "text_of (Label t) = t"
| "text_of (Spinner t) = 0xA0 # t"

record button =
  b_html :: content
  prev_text :: "js_string option"
  b_disabled :: bool

record modal =
  group_errors :: "bool list"
  field_values :: "js_string list"
  helps_visible :: "bool list"
  confirm :: button

definition disableConfirm :: "js_string \<Rightarrow> button \<Rightarrow> button" where
  "disableConfirm processing b =
     b\<lparr>prev_text := Some (text_of (b_html b)), b_disabled := True, b_html := Spinner processing\<rparr>"

definition enableConfirm :: "button \<Rightarrow> button" where
  "enableConfirm b =
     (case prev_text b of Some t \<Rightarrow> b\<lparr>b_html := Label t\<rparr> | None \<Rightarrow> b)\<lparr>prev_text := None, b_disabled := False\<rparr>"

definition initializeModal :: "modal \<Rightarrow> modal" where
  "initializeModal m =
     m\<lparr>group_errors := map (\<lambda>_. False) (group_errors m), field_values := map (\<lambda>_. []) (field_values m),
       helps_visible := map (\<lambda>_. False) (helps_visible m), confirm := enableConfirm (confirm m)\<rparr>"

definition alert_failed_tag :: js_string where
  "alert_failed_tag = js ''<i class=\"fa fa-fw fa-exclamation-circle\" style=\"color:#dd4b39\"></i>&nbsp;''"

definition alert_succeeded_tag :: js_string where
  "alert_succeeded_tag = js ''<i class=\"fa fa-fw fa-check-circle\" style=\"color:#00a65a\"></i>&nbsp;''"

record alert =
  alert_title :: js_string
  alert_content :: js_string
  alert_shown :: bool

definition alertMessage :: "js_string \<Rightarrow> js_string \<Rightarrow> bool \<Rightarrow> alert \<Rightarrow> alert" where
  "alertMessage title content failed a =
     a\<lparr>alert_title := title,
       alert_content := (if failed then alert_failed_tag else alert_succeeded_tag) @ content,
       alert_shown := True\<rparr>"

definition alertSystemException :: "(string \<Rightarrow> js_string) \<Rightarrow> alert \<Rightarrow> alert" where
  "alertSystemException messages a =
     alertMessage (messages ''common_alert_title'') (messages ''common_alert_error_content'') True a"

definition notify_icon :: "string \<Rightarrow> string" where
  "notify_icon type =
     (if type = ''info'' then ''glyphicon glyphicon-info-sign''
      else if type = ''warning'' then ''glyphicon glyphicon-warning-sign''
      else if type = ''success'' then ''glyphicon glyphicon-ok-sign''
      else if type = ''error'' then ''glyphicon glyphicon-exclamation-sign''
      else ''glyphicon glyphicon-info-sign'')"

text \<open>The notification shown, if the plug-in is loaded: icon, message and type.\<close>

definition showNotify :: "bool \<Rightarrow> js_string \<Rightarrow> string \<Rightarrow> (string \<times> js_string \<times> string) option" where
  "showNotify loaded message type = (if loaded then Some (notify_icon type, message, type) else None)"

definition datatablesLanguage :: "(string \<Rightarrow> js_string) \<Rightarrow> (string \<times> js_string) list" where
  "datatablesLanguage messages =
     [(''processing'', js ''<i class=\"fa fa-circle-o-notch fa-spin\"></i>&nbsp;'' @ messages ''datatables_processing''),
      (''zeroRecords'', messages ''datatables_zeroRecords''), (''info'', messages ''datatables_info''),
      (''infoEmpty'', messages ''datatables_infoEmpty''),
      (''paginate.first'', messages ''datatables_paginate_first''),
      (''paginate.previous'', messages ''datatables_paginate_previous''),
      (''paginate.next'', messages ''datatables_paginate_next''),
      (''paginate.last'', messages ''datatables_paginate_last''),
      (''search'', messages ''datatables_search'')]"

subsection \<open>index.js\<close>

text \<open>
  The shell page: the selected cluster node, the menus, the template that is loaded and the
  requests that are sent, each with the node header it carries.
\<close>

datatype page_event =
    AjaxInit "js_string option" \<comment> \<open>\<open>POST /sys/index/init\<close> with the header \<open>paramNodeId\<close>\<close>
  | LoadTemplate js_string
  | ShowMenus bool
  | NodeList "js_string list" js_string
  | Navigate string
  | HistoryBack

record index =
  thisNodeId :: "js_string option"
  location_hash :: js_string
  events :: "page_event list"

record init_result =
  r_nodeId :: js_string
  r_localAuth :: bool
  r_nodes :: "js_string list"

definition add_event :: "page_event \<Rightarrow> index \<Rightarrow> index" where
  "add_event e s = s\<lparr>events := events s @ [e]\<rparr>"

text \<open>\<open>beforeSend\<close>: the header is set when a node is selected (a non-empty id).\<close>

definition node_header :: "index \<Rightarrow> js_string option" where
  "node_header s = (case thisNodeId s of Some n \<Rightarrow> (if n = [] then None else Some n) | None \<Rightarrow> None)"

definition request_init :: "index \<Rightarrow> index" where
  "request_init s = add_event (AjaxInit (node_header s)) s"

definition ajax_complete :: "nat \<Rightarrow> index \<Rightarrow> index" where
  "ajax_complete status s = (if status = 401 then add_event (Navigate ''/login.html'') s else s)"

definition loadTemplate :: "js_string \<Rightarrow> index \<Rightarrow> index" where
  "loadTemplate hash s = add_event (LoadTemplate (hash @ js ''.html'')) s"

definition initIndex :: "index \<Rightarrow> index" where
  "initIndex s =
     (let hash = (if location_hash s = [] then js ''console'' else drop 1 (location_hash s)) in
      loadTemplate hash s)"

definition initIndexMenu :: "bool \<Rightarrow> index \<Rightarrow> index" where
  "initIndexMenu islocalAuth s = add_event (ShowMenus islocalAuth) s"

definition initIndexNodeList :: "js_string list \<Rightarrow> js_string \<Rightarrow> index \<Rightarrow> index" where
  "initIndexNodeList nodes val s = add_event (NodeList nodes val) s"

definition apply_init :: "init_result \<Rightarrow> index \<Rightarrow> index" where
  "apply_init r s =
     initIndexNodeList (r_nodes r) (r_nodeId r)
       (initIndexMenu (r_localAuth r) (s\<lparr>thisNodeId := Some (r_nodeId r)\<rparr>))"

text \<open>The answer of the broker: its code and its result, if any.\<close>

definition init_answered :: "(int \<times> init_result option) option \<Rightarrow> index \<Rightarrow> index" where
  "init_answered res s =
     (case res of Some (code, Some r) \<Rightarrow> if code = 1 then apply_init r s else s | _ \<Rightarrow> s)"

definition node_selected :: "js_string \<Rightarrow> index \<Rightarrow> index" where
  "node_selected v s = request_init (s\<lparr>thisNodeId := Some v\<rparr>)"

definition node_answered :: "(int \<times> init_result option) option \<Rightarrow> index \<Rightarrow> index" where
  "node_answered res s =
     (case res of Some (code, Some r) \<Rightarrow> if code = 1 then initIndex (apply_init r s) else s | _ \<Rightarrow> s)"

definition popstate :: "index \<Rightarrow> index" where
  "popstate s = (if location_hash s \<noteq> [] then loadTemplate (drop 1 (location_hash s)) s else add_event HistoryBack s)"

definition logout_clicked :: "index \<Rightarrow> index" where
  "logout_clicked s = add_event (Navigate ''/logout'') s"

definition index_ready :: "index \<Rightarrow> index" where
  "index_ready s = request_init s"

subsection \<open>login.js\<close>

definition is_white :: "16 word \<Rightarrow> bool" where
  "is_white u \<longleftrightarrow>
     (9 \<le> u \<and> u \<le> 13) \<or> u = 32 \<or> u = 0xA0 \<or> u = 0x1680 \<or> (0x2000 \<le> u \<and> u \<le> 0x200A) \<or>
     u = 0x2028 \<or> u = 0x2029 \<or> u = 0x202F \<or> u = 0x205F \<or> u = 0x3000 \<or> u = 0xFEFF"

definition trim :: "js_string \<Rightarrow> js_string" where
  "trim s = rev (dropWhile is_white (rev (dropWhile is_white s)))"

record login =
  username_error :: bool
  password_error :: bool
  box_message :: "js_string option"
  login_location :: "js_string option"
  login_requests :: "(js_string \<times> js_string) list"

definition login_clicked :: "js_string \<Rightarrow> js_string \<Rightarrow> login \<Rightarrow> login" where
  "login_clicked username password s =
     (let ue = (trim username = []); pe = (trim password = []);
          s = s\<lparr>username_error := ue, password_error := pe\<rparr> in
      if ue \<or> pe then s else s\<lparr>login_requests := login_requests s @ [(username, password)]\<rparr>)"

definition showFailureMessage :: "js_string \<Rightarrow> login \<Rightarrow> login" where
  "showFailureMessage message s = s\<lparr>box_message := Some message\<rparr>"

text \<open>The answer: code, whether it carries a result, and the location to go to.\<close>

definition login_success :: "(string \<Rightarrow> js_string) \<Rightarrow> (int \<times> bool \<times> js_string) option \<Rightarrow> login \<Rightarrow> login" where
  "login_success messages data s =
     (case data of
        Some (code, result, loc) \<Rightarrow>
          if code = 1 \<and> result then s\<lparr>login_location := Some loc\<rparr>
          else showFailureMessage (messages ''login_username_password_error'') s
      | None \<Rightarrow> showFailureMessage (messages ''login_username_password_error'') s)"

definition login_error :: "(string \<Rightarrow> js_string) \<Rightarrow> login \<Rightarrow> login" where
  "login_error messages s = showFailureMessage (messages ''common_alert_error_content'') s"

subsection \<open>Properties\<close>

lemma white_iff: "trim s = [] \<longleftrightarrow> (\<forall>u \<in> set s. is_white u)"
proof
  assume "trim s = []"
  then have "\<forall>u \<in> set (dropWhile is_white s). is_white u" by (simp add: trim_def)
  then show "\<forall>u \<in> set s. is_white u"
    by (metis (no_types) Un_iff set_append set_takeWhileD takeWhile_dropWhile_id)
next
  assume "\<forall>u \<in> set s. is_white u"
  then have "\<forall>u \<in> set (dropWhile is_white s). is_white u" by (auto dest: set_dropWhileD)
  then show "trim s = []" by (simp add: trim_def)
qed

text \<open>
  Clicking the login button sends the request, with both values unchanged, exactly when
  each of them has a character that is not white space; otherwise nothing is sent and exactly
  the blank fields are marked.
\<close>

theorem login_sends_iff:
  "login_requests (login_clicked u p s) =
     (if \<not> list_all is_white u \<and> \<not> list_all is_white p
      then login_requests s @ [(u, p)] else login_requests s) \<and>
   (username_error (login_clicked u p s) \<longleftrightarrow> list_all is_white u) \<and>
   (password_error (login_clicked u p s) \<longleftrightarrow> list_all is_white p)"
  by (auto simp: login_clicked_def white_iff Let_def list_all_iff)

text \<open>
  The shell reloads the current template exactly when an accepted answer to a node switch
  arrives, and from then on every request carries the node id of that answer; a rejected
  answer changes nothing.
\<close>

theorem node_switch:
  "node_answered res (node_selected v s) =
     (case res of
        Some (code, Some r) \<Rightarrow>
          if code = 1
          then (node_selected v s)\<lparr>thisNodeId := Some (r_nodeId r),
                 events := events (node_selected v s) @ [ShowMenus (r_localAuth r), NodeList (r_nodes r) (r_nodeId r),
                   LoadTemplate ((if location_hash s = [] then js ''console'' else drop 1 (location_hash s)) @ js ''.html'')]\<rparr>
          else node_selected v s
      | _ \<Rightarrow> node_selected v s) \<and>
   events (node_selected v s) = events s @ [AjaxInit (if v = [] then None else Some v)]"
  by (auto simp: node_answered_def node_selected_def apply_init_def initIndex_def loadTemplate_def request_init_def
      initIndexNodeList_def initIndexMenu_def add_event_def node_header_def Let_def split: option.split)

text \<open>
  A confirm button with a plain label that is disabled while a request runs and enabled
  afterwards is the button it was; reopening its dialog also restores it from the disabled
  state, and leaves a button that was not disabled alone.
\<close>

theorem confirm_roundtrip:
  assumes "b_html (confirm m) = Label t" "prev_text (confirm m) = None" "\<not> b_disabled (confirm m)"
  shows "enableConfirm (disableConfirm w (confirm m)) = confirm m \<and>
    confirm (initializeModal (m\<lparr>confirm := disableConfirm w (confirm m)\<rparr>)) = confirm m \<and>
    confirm (initializeModal m) = confirm m"
  using assms by (simp add: enableConfirm_def disableConfirm_def initializeModal_def)

theorem confirm_roundtrip_witness:
  "enableConfirm (disableConfirm (js ''...'') \<lparr>b_html = Label (js ''Save''), prev_text = None, b_disabled = False\<rparr>) =
     \<lparr>b_html = Label (js ''Save''), prev_text = None, b_disabled = False\<rparr>"
  using confirm_roundtrip [of "\<lparr>group_errors = [], field_values = [], helps_visible = [],
      confirm = \<lparr>b_html = Label (js ''Save''), prev_text = None, b_disabled = False\<rparr>\<rparr>" "js ''Save''" "js ''...''"]
  by simp

end
