(* ===== verification/Messages.thy ===== *)
theory Messages
  imports Forms Console
begin

text \<open>
  The message tables of the console, \<open>static/i18n/messages.en.js\<close> and
  \<open>static/i18n/messages.zh.js\<close>: the texts of the select boxes, of the validation library and of
  the pages. Chinese texts are written as UTF-16 code units.
\<close>

subsection \<open>Select boxes\<close>

record select2_texts =
  errorLoading :: js_string
  inputTooLong :: "int \<Rightarrow> int \<Rightarrow> js_string"
  inputTooShort :: "int \<Rightarrow> int \<Rightarrow> js_string"
  loadingMore :: js_string
  maximumSelected :: "int \<Rightarrow> js_string"
  noResults :: js_string
  searching :: js_string

text \<open>The functions take the length of the input and the bound.\<close>

definition select2_en :: select2_texts where
  "select2_en =
     \<lparr>errorLoading = js ''The results could not be loaded.'',
      inputTooLong = (\<lambda>len maximum. let t = len - maximum in
        js ''Please delete '' @ show_int 10 t @ js '' character'' @ (if t \<noteq> 1 then js ''s'' else [])),
      inputTooShort = (\<lambda>len minimum. let t = minimum - len in
        js ''Please enter '' @ show_int 10 t @ js '' or more characters''),
      loadingMore = js ''Loading more results'' @ [0x2026],
      maximumSelected = (\<lambda>maximum. js ''You can only select '' @ show_int 10 maximum @ js '' item'' @
        (if maximum \<noteq> 1 then js ''s'' else [])),
      noResults = js ''No results found'',
      searching = js ''Searching'' @ [0x2026]\<rparr>"

definition select2_zh :: select2_texts where
  "select2_zh =
     \<lparr>errorLoading = [0x65E0, 0x6CD5, 0x8F7D, 0x5165, 0x7ED3, 0x679C, 0x3002],
      inputTooLong = (\<lambda>len maximum. let t = len - maximum in [0x8BF7, 0x5220, 0x9664] @ show_int 10 t @ [0x4E2A, 0x5B57, 0x7B26]),
      inputTooShort = (\<lambda>len minimum. let t = minimum - len in [0x8BF7, 0x518D, 0x8F93, 0x5165, 0x81F3, 0x5C11] @ show_int 10 t @ [0x4E2A, 0x5B57, 0x7B26]),
      loadingMore = [0x8F7D, 0x5165, 0x66F4, 0x591A, 0x7ED3, 0x679C, 0x2026],
      maximumSelected = (\<lambda>maximum. [0x6700, 0x591A, 0x53EA, 0x80FD, 0x9009, 0x62E9] @ show_int 10 maximum @ [0x4E2A, 0x9879, 0x76EE]),
      noResults = [0x672A, 0x627E, 0x5230, 0x7ED3, 0x679C],
      searching = [0x641C, 0x7D22, 0x4E2D, 0x2026]\<rparr>"

subsection \<open>Tables\<close>

definition messages_en_1 :: "(string \<times> js_string) list" where
  "messages_en_1 =
     [(''datatables_processing'', js ''Processing...''),
      (''datatables_zeroRecords'', js ''No data available in table''),
      (''datatables_info'', js ''Showing _START_ to _END_ of _TOTAL_ entries''),
      (''datatables_infoEmpty'', js ''Showing 0 to 0 of 0 entries''),
      (''datatables_paginate_first'', js ''First''),
      (''datatables_paginate_previous'', js ''Previous''),
      (''datatables_paginate_next'', js ''Next''),
      (''datatables_paginate_last'', js ''Last''),
      (''datatables_search'', js ''Search:''),
      (''menu_monitor'', js ''Monitor''),
      (''menu_management'', js ''Management''),
      (''menu_tool'', js ''Tool''),
      (''menu_system'', js ''System''),
      (''menu_monitor_console'', js ''Console''),
      (''menu_monitor_connect'', js ''Connect''),
      (''menu_monitor_session'', js ''Session''),
      (''menu_monitor_topic'', js ''Topic''),
      (''menu_monitor_subscribe'', js ''Subscribe''),
      (''menu_management_user'', js ''Connect User''),
      (''menu_management_acl'', js ''Access Control''),
      (''menu_management_listener'', js ''Listener''),
      (''menu_tool_websocket'', js ''Websocket''),
      (''menu_tool_restful'', js ''Restful API''),
      (''menu_system_admin'', js ''Administrator''),
      (''common_node'', js ''Node''),
      (''common_client_id'', js ''Client ID''),
      (''common_clean_session'', js ''Clean Session''),
      (''common_keep_alive'', js ''Keep Alive(Sec.)''),
      (''common_sub'', js ''Subscribe''),
      (''common_pub'', js ''Publish''),
      (''common_qos'', js ''QoS''),
      (''common_topic'', js ''Topic''),
      (''common_message'', js ''Message''),
      (''common_username'', js ''Username''),
      (''common_password'', js ''Password''),
      (''common_ip_address'', js ''IP Address''),
      (''common_host'', js ''Host''),
      (''common_port'', js ''Port''),
      (''common_oper'', js ''Operator''),
      (''common_btn_processing'', js ''Processing''),
      (''common_alert_title'', js ''Prompt''),
      (''common_alert_error_content'', js ''System exception, please contact the Stuart Studio!''),
      (''common_login_btn'', js ''Login''),
      (''common_search_btn'', js ''Search''),
      (''common_add_btn'', js ''Add''),
      (''common_edit_btn'', js ''Edit''),
      (''common_delete_btn'', js ''Delete''),
      (''common_cancel_btn'', js ''Cancel''),
      (''common_save_btn'', js ''Save''),
      (''common_confirm_btn'', js ''Confirm''),
      (''common_close_btn'', js ''Close''),
      (''common_question_mark'', js ''?''),
      (''common_yes'', js ''Yes''),
      (''common_no'', js ''No''),
      (''common_swtich_cond_required'', js ''This field is required.''),
      (''common_passwd_equal'', js ''Please enter the same password again.''),
      (''common_passwd_not_equal'', js ''The new password cannot be the same as the old one.''),
      (''common_passwd_error'', js ''Password is incorrect.''),
      (''login_message'', js ''Login and Manage the Stuart Server.''),
      (''login_username'', js ''Username''),
      (''login_username_required'', js ''Username is required.''),
      (''login_password'', js ''Password''),
      (''login_password_required'', js ''Password is required.''),
      (''login_remember_me'', js ''Remember me''),
      (''login_username_password_error'', js ''No such username, or password incorrect.''),
      (''console_system_info'', js ''System''),
      (''console_name_label'', js ''Name''),
      (''console_name_desc'', js ''Stuart MQTT Server'')]"

definition messages_en_2 :: "(string \<times> js_string) list" where
  "messages_en_2 =
     [(''console_version_label'', js ''Version''),
      (''console_uptime_label'', js ''Uptime''),
      (''console_systime_label'', js ''System Time''),
      (''console_nodes'', js ''Node Informations''),
      (''console_java_version'', js ''Java Version''),
      (''console_thread'', js ''Thread<br>(run/peak)''),
      (''console_cpu'', js ''CPU<br>(1load/5load/15load)''),
      (''console_heap'', js ''Heap Mem.<br>(used/total)''),
      (''console_off_heap'', js ''Off-Heap Mem.<br>(used/total)''),
      (''console_max_fds'', js ''Max FDS''),
      (''console_status'', js ''Status''),
      (''console_stats'', js ''Statistics''),
      (''console_stats_conn_count'', js ''Conn. Cnt''),
      (''console_stats_conn_max'', js ''Conn. Max''),
      (''console_stats_topic_count'', js ''Topic Cnt''),
      (''console_stats_topic_max'', js ''Topic Max''),
      (''console_stats_retain_count'', js ''Retain Cnt''),
      (''console_stats_retain_max'', js ''Retain Max''),
      (''console_stats_sess_count'', js ''Sess. Cnt''),
      (''console_stats_sess_max'', js ''Sess. Max''),
      (''console_stats_sub_count'', js ''Sub. Cnt''),
      (''console_stats_sub_max'', js ''Sub. Max''),
      (''console_metrics'', js ''Metrics''),
      (''console_metrics_packets'', js ''Packets''),
      (''console_metrics_messages'', js ''Messages''),
      (''console_metrics_bytes'', js ''Message Bytes''),
      (''connect_protocol_version'', js ''Protocol Version''),
      (''connect_connect_time'', js ''Connect Time''),
      (''session_subscriptions'', js ''Subs''),
      (''session_max_inflight'', js ''Max Inflight''),
      (''session_inflight_size'', js ''Inflight Size''),
      (''session_queue_size'', js ''Queue Size''),
      (''session_droppeds'', js ''Droppeds''),
      (''session_await_rels'', js ''Await Rels''),
      (''session_delivers'', js ''Delivers''),
      (''session_enqueues'', js ''Enqueues''),
      (''session_create_time'', js ''Create Time''),
      (''user_username'', js ''Connect Username''),
      (''user_desc'', js ''Comment''),
      (''user_passwd'', js ''Password''),
      (''user_passwd_conf'', js ''Confirm Password''),
      (''user_passwd_change'', js ''Change Password''),
      (''user_admin_passwd'', js ''Administrator Password''),
      (''user_passwd_new'', js ''New Password''),
      (''user_passwd_new_conf'', js ''Confirm New Password''),
      (''user_add_title'', js ''Add Connect User''),
      (''user_edit_title'', js ''Edit Connect User''),
      (''user_delete_title'', js ''Delete Connect User''),
      (''user_existed_message'', js ''Connect username is existed''),
      (''user_delete_conf_text'', js ''Whether you want to delete the connect user: ''),
      (''user_add_succeeded'', js ''Add connect user succeeded.''),
      (''user_add_failed'', js ''Add connect user failed.''),
      (''user_edit_succeeded'', js ''Edit connect user succeeded.''),
      (''user_edit_failed'', js ''Edit connect user failed.''),
      (''user_delete_succeeded'', js ''Delete connect user succeeded.''),
      (''user_delete_failed'', js ''Delete connect user failed.''),
      (''acl_explain'', js ''Explain''),
      (''acl_explain_detail_one'', js ''1.If a topic contains wildcards such as + or #, the system matches them by default;''),
      (''acl_explain_detail_two'', js ''2.If the topic needs to be matched equally, use the eq expression, for example: eq(/hello/world/+).''),
      (''acl_seq'', js ''Seq''),
      (''acl_target'', js ''Target''),
      (''acl_type'', js ''Target Type''),
      (''acl_topic'', js ''Topic''),
      (''acl_access'', js ''Access Type''),
      (''acl_authority'', js ''Authority''),
      (''acl_item'', js ''Access Item''),
      (''acl_connect_user'', js ''Connect User''),
      (''acl_ip_addr'', js ''IP Address'')]"

definition messages_en_3 :: "(string \<times> js_string) list" where
  "messages_en_3 =
     [(''acl_client_id'', js ''Client ID''),
      (''acl_all'', js ''All''),
      (''acl_sub'', js ''Sub''),
      (''acl_pub'', js ''Pub''),
      (''acl_subpub'', js ''Sub & Pub''),
      (''acl_deny'', js ''Deny''),
      (''acl_allow'', js ''Allow''),
      (''acl_delete_target'', js ''Target: ''),
      (''acl_delete_type'', js ''Target Type: ''),
      (''acl_delete_topic'', js ''Topic: ''),
      (''acl_delete_access'', js ''Access Type: ''),
      (''acl_delete_authority'', js ''Authority: ''),
      (''acl_add_title'', js ''Add Access Item''),
      (''acl_edit_title'', js ''Edit Access Item''),
      (''acl_delete_title'', js ''Delete Access Item''),
      (''acl_delete_conf_text'', js ''Whether you want to delete the access item?''),
      (''acl_add_succeeded'', js ''Add access item succeeded.''),
      (''acl_add_failed'', js ''Add access item failed.''),
      (''acl_edit_succeeded'', js ''Edit access item succeeded.''),
      (''acl_edit_failed'', js ''Edit access item failed.''),
      (''acl_delete_succeeded'', js ''Delete access item succeeded.''),
      (''acl_delete_failed'', js ''Delete access item failed.''),
      (''listener_protocol'', js ''Protocol''),
      (''listener_address_port'', js ''Listen On''),
      (''listener_conn_max_limit'', js ''Max Connections''),
      (''listener_conn_count'', js ''Current Connections''),
      (''ws_conn_title'', js ''Connect''),
      (''ws_conn_path'', js ''Path''),
      (''ws_conn_ssl'', js ''SSL''),
      (''ws_conn_status'', js ''Connect Status: ''),
      (''ws_conn_status_connected'', js ''Connected''),
      (''ws_conn_status_disconnected'', js ''Disconnected''),
      (''ws_sub_title'', js ''Subscribe''),
      (''ws_sub_list'', js ''Subscribes''),
      (''ws_sub_time'', js ''Time''),
      (''ws_msg_title'', js ''Messages''),
      (''ws_msg_retained'', js ''Retained''),
      (''ws_msg_pub_list'', js ''Published Messages''),
      (''ws_msg_sub_list'', js ''Received Messages''),
      (''ws_msg_time'', js ''Time''),
      (''ws_connect_btn'', js ''Connect''),
      (''ws_disconnect_btn'', js ''Disconnect''),
      (''ws_subscribe_btn'', js ''Subscribe''),
      (''ws_send_btn'', js ''Send''),
      (''ws_notify_connect_succeed'', js ''Connect succeed.''),
      (''ws_notify_sub_succeed'', js ''Subscribe succeed.''),
      (''ws_notify_unsub_succeed'', js ''Unsubscribe succeed.''),
      (''ws_notify_send_succeed'', js ''Send succeed.''),
      (''admin_account'', js ''Account''),
      (''admin_desc'', js ''Comment''),
      (''admin_passwd'', js ''Password''),
      (''admin_passwd_conf'', js ''Confirm Password''),
      (''admin_passwd_change'', js ''Change Password''),
      (''admin_passwd_old'', js ''Old Password''),
      (''admin_passwd_new'', js ''New Password''),
      (''admin_passwd_new_conf'', js ''Confirm New Password''),
      (''admin_add_title'', js ''Add Admin''),
      (''admin_edit_title'', js ''Edit Admin''),
      (''admin_delete_title'', js ''Delete Admin''),
      (''admin_existed_message'', js ''Account is existed''),
      (''admin_delete_conf_text'', js ''Whether you want to delete the adminstrator: ''),
      (''admin_add_succeeded'', js ''Add administrator succeeded.''),
      (''admin_add_failed'', js ''Add administrator failed.''),
      (''admin_edit_succeeded'', js ''Edit administrator succeeded.''),
      (''admin_edit_failed'', js ''Edit administrator failed.''),
      (''admin_delete_succeeded'', js ''Delete administrator succeeded.''),
      (''admin_delete_failed'', js ''Delete administrator failed.'')]"

definition messages_en :: locale_messages where
  "messages_en = messages_en_1 @ messages_en_2 @ messages_en_3"

definition validator_messages_en :: "(string \<times> vmessage) list" where
  "validator_messages_en =
     [(''required'', VText (js ''This field is required.'')),
      (''remote'', VText (js ''Please fix this field.'')),
      (''email'', VText (js ''Please enter a valid email address.'')),
      (''url'', VText (js ''Please enter a valid URL.'')),
      (''date'', VText (js ''Please enter a valid date.'')),
      (''dateISO'', VText (js ''Please enter a valid date (ISO).'')),
      (''number'', VText (js ''Please enter a valid number.'')),
      (''digits'', VText (js ''Please enter only digits.'')),
      (''equalTo'', VText (js ''Please enter the same value again.'')),
      (''extension'', VText (js ''Please enter the valid extension.'')),
      (''maxlength'', VFormat (js ''Please enter no more than {0} characters.'')),
      (''minlength'', VFormat (js ''Please enter at least {0} characters.'')),
      (''rangelength'', VFormat (js ''Please enter a value between {0} and {1} characters long.'')),
      (''range'', VFormat (js ''Please enter a value between {0} and {1}.'')),
      (''max'', VFormat (js ''Please enter a value less than or equal to {0}.'')),
      (''min'', VFormat (js ''Please enter a value greater than or equal to {0}.''))]"

definition messages_zh_1 :: "(string \<times> js_string) list" where
  "messages_zh_1 =
     [(''datatables_processing'', [0x6B63, 0x5728, 0x83B7, 0x53D6, 0x6570, 0x636E, 0xFF0C, 0x8BF7, 0x7A0D, 0x540E,
         0xFF01]),
      (''datatables_zeroRecords'', [0x672A, 0x83B7, 0x53D6, 0x5230, 0x6570, 0x636E]),
      (''datatables_info'', [0x4ECE, 0x20, 0x7B2C, 0x20, 0x5F, 0x53, 0x54, 0x41, 0x52, 0x54, 0x5F, 0x20, 0x6761,
         0x20, 0x5230, 0x20, 0x7B2C, 0x20, 0x5F, 0x45, 0x4E, 0x44, 0x5F, 0x20, 0x6761, 0x20, 0x5171, 0x20, 0x5F,
         0x54, 0x4F, 0x54, 0x41, 0x4C, 0x5F, 0x20, 0x6761, 0x8BB0, 0x5F55]),
      (''datatables_infoEmpty'', [0x5171, 0x20, 0x30, 0x20, 0x6761, 0x8BB0, 0x5F55]),
      (''datatables_paginate_first'', [0x7B2C, 0x4E00, 0x9875]),
      (''datatables_paginate_previous'', [0x4E0A, 0x4E00, 0x9875]),
      (''datatables_paginate_next'', [0x4E0B, 0x4E00, 0x9875]),
      (''datatables_paginate_last'', [0x6700, 0x540E, 0x4E00, 0x9875]),
      (''datatables_search'', [0x5728, 0x8868, 0x683C, 0x4E2D, 0x641C, 0x7D22, 0xFF1A]),
      (''menu_monitor'', [0x76D1, 0x63A7]),
      (''menu_management'', [0x7BA1, 0x7406]),
      (''menu_tool'', [0x5DE5, 0x5177]),
      (''menu_system'', [0x7CFB, 0x7EDF]),
      (''menu_monitor_console'', [0x63A7, 0x5236, 0x53F0]),
      (''menu_monitor_connect'', [0x8FDE, 0x63A5]),
      (''menu_monitor_session'', [0x4F1A, 0x8BDD]),
      (''menu_monitor_topic'', [0x4E3B, 0x9898]),
      (''menu_monitor_subscribe'', [0x8BA2, 0x9605]),
      (''menu_management_user'', [0x8FDE, 0x63A5, 0x7528, 0x6237]),
      (''menu_management_acl'', [0x8BBF, 0x95EE, 0x63A7, 0x5236]),
      (''menu_management_listener'', [0x76D1, 0x542C, 0x5668]),
      (''menu_tool_websocket'', js ''Websocket''),
      (''menu_tool_restful'', [0x52, 0x65, 0x73, 0x74, 0x66, 0x75, 0x6C, 0x63A5, 0x53E3]),
      (''menu_system_admin'', [0x7CFB, 0x7EDF, 0x7BA1, 0x7406, 0x5458]),
      (''common_node'', [0x8282, 0x70B9]),
      (''common_client_id'', [0x5BA2, 0x6237, 0x7AEF, 0x49, 0x44]),
      (''common_clean_session'', [0x6E05, 0x9664, 0x4F1A, 0x8BDD]),
      (''common_keep_alive'', [0x5FC3, 0x8DF3, 0x28, 0x79D2, 0x29]),
      (''common_sub'', [0x8BA2, 0x9605]),
      (''common_pub'', [0x53D1, 0x5E03]),
      (''common_qos'', [0x670D, 0x52A1, 0x8D28, 0x91CF]),
      (''common_topic'', [0x4E3B, 0x9898]),
      (''common_message'', [0x6D88, 0x606F]),
      (''common_username'', [0x7528, 0x6237, 0x540D]),
      (''common_password'', [0x5BC6, 0x7801]),
      (''common_ip_address'', [0x49, 0x50, 0x5730, 0x5740]),
      (''common_host'', [0x4E3B, 0x673A, 0x5730, 0x5740]),
      (''common_port'', [0x7AEF, 0x53E3, 0x53F7]),
      (''common_oper'', [0x64CD, 0x4F5C]),
      (''common_btn_processing'', [0x5904, 0x7406, 0x4E2D]),
      (''common_alert_title'', [0x7CFB, 0x7EDF, 0x63D0, 0x793A]),
      (''common_alert_error_content'', [0x7CFB, 0x7EDF, 0x5F02, 0x5E38, 0xFF0C, 0x8BF7, 0x8054, 0x7CFB, 0x53, 0x74,
         0x75, 0x61, 0x72, 0x74, 0x5F00, 0x53D1, 0x5DE5, 0x4F5C, 0x5BA4, 0xFF01]),
      (''common_login_btn'', [0x767B, 0x5F55]),
      (''common_search_btn'', [0x67E5, 0x8BE2]),
      (''common_add_btn'', [0x6DFB, 0x52A0]),
      (''common_edit_btn'', [0x7F16, 0x8F91]),
      (''common_delete_btn'', [0x5220, 0x9664]),
      (''common_cancel_btn'', [0x53D6, 0x6D88]),
      (''common_save_btn'', [0x4FDD, 0x5B58]),
      (''common_confirm_btn'', [0x786E, 0x5B9A]),
      (''common_close_btn'', [0x5173, 0x95ED]),
      (''common_question_mark'', [0xFF1F]),
      (''common_yes'', [0x662F]),
      (''common_no'', [0x5426]),
      (''common_swtich_cond_required'', [0x8FD9, 0x662F, 0x5FC5, 0x586B, 0x5B57, 0x6BB5]),
      (''common_passwd_equal'', [0x4E24, 0x6B21, 0x8F93, 0x5165, 0x7684, 0x5BC6, 0x7801, 0x4E0D, 0x4E00, 0x81F4]),
      (''common_passwd_not_equal'', [0x65B0, 0x5BC6, 0x7801, 0x4E0D, 0x80FD, 0x4E0E, 0x65E7, 0x5BC6, 0x7801,
         0x76F8, 0x540C]),
      (''common_passwd_error'', [0x5BC6, 0x7801, 0x9519, 0x8BEF]),
      (''login_message'', [0x767B, 0x5F55, 0x5E76, 0x5F00, 0x59CB, 0x7BA1, 0x7406, 0x670D, 0x52A1, 0x5668]),
      (''login_username'', [0x7528, 0x6237, 0x540D]),
      (''login_username_required'', [0x8BF7, 0x8F93, 0x5165, 0x7528, 0x6237, 0x540D]),
      (''login_password'', [0x5BC6, 0x7801]),
      (''login_password_required'', [0x8BF7, 0x8F93, 0x5165, 0x5BC6, 0x7801]),
      (''login_remember_me'', [0x8BB0, 0x4F4F, 0x6211]),
      (''login_username_password_error'', [0x7528, 0x6237, 0x540D, 0x6216, 0x5BC6, 0x7801, 0x9519, 0x8BEF]),
      (''console_system_info'', [0x7CFB, 0x7EDF, 0x4FE1, 0x606F]),
      (''console_name_label'', [0x540D, 0x79F0]),
      (''console_name_desc'', [0x53, 0x74, 0x75, 0x61, 0x72, 0x74, 0x20, 0x4D, 0x51, 0x54, 0x54, 0x20, 0x670D,
         0x52A1, 0x5668])]"

definition messages_zh_2 :: "(string \<times> js_string) list" where
  "messages_zh_2 =
     [(''console_version_label'', [0x7248, 0x672C]),
      (''console_uptime_label'', [0x8FD0, 0x884C, 0x65F6, 0x95F4]),
      (''console_systime_label'', [0x7CFB, 0x7EDF, 0x65F6, 0x95F4]),
      (''console_nodes'', [0x8282, 0x70B9, 0x4FE1, 0x606F]),
      (''console_java_version'', [0x4A, 0x61, 0x76, 0x61, 0x7248, 0x672C]),
      (''console_thread'', [0x7EBF, 0x7A0B, 0x3C, 0x62, 0x72, 0x3E, 0x28, 0x72, 0x75, 0x6E, 0x2F, 0x70, 0x65, 0x61,
         0x6B, 0x29]),
      (''console_cpu'', js ''CPU<br>(1load/5load/15load)''),
      (''console_heap'', [0x5806, 0x5185, 0x5B58, 0x3C, 0x62, 0x72, 0x3E, 0x28, 0x75, 0x73, 0x65, 0x64, 0x2F, 0x74,
         0x6F, 0x74, 0x61, 0x6C, 0x29]),
      (''console_off_heap'', [0x5806, 0x5916, 0x5185, 0x5B58, 0x3C, 0x62, 0x72, 0x3E, 0x28, 0x75, 0x73, 0x65, 0x64,
         0x2F, 0x74, 0x6F, 0x74, 0x61, 0x6C, 0x29]),
      (''console_max_fds'', [0x6700, 0x5927, 0x6587, 0x4EF6, 0x53E5, 0x67C4, 0x6570]),
      (''console_status'', [0x72B6, 0x6001]),
      (''console_stats'', [0x8FD0, 0x884C, 0x7EDF, 0x8BA1]),
      (''console_stats_conn_count'', [0x8FDE, 0x63A5, 0x6570]),
      (''console_stats_conn_max'', [0x8FDE, 0x63A5, 0x5CF0, 0x503C]),
      (''console_stats_topic_count'', [0x4E3B, 0x9898, 0x6570]),
      (''console_stats_topic_max'', [0x4E3B, 0x9898, 0x5CF0, 0x503C]),
      (''console_stats_retain_count'', [0x4FDD, 0x7559, 0x6D88, 0x606F, 0x6570]),
      (''console_stats_retain_max'', [0x4FDD, 0x7559, 0x6D88, 0x606F, 0x6700, 0x5927, 0x6570]),
      (''console_stats_sess_count'', [0x4F1A, 0x8BDD, 0x6570]),
      (''console_stats_sess_max'', [0x4F1A, 0x8BDD, 0x5CF0, 0x503C]),
      (''console_stats_sub_count'', [0x8BA2, 0x9605, 0x6570]),
      (''console_stats_sub_max'', [0x8BA2, 0x9605, 0x5CF0, 0x503C]),
      (''console_metrics'', [0x5EA6, 0x91CF, 0x6307, 0x6807]),
      (''console_metrics_packets'', [0x4D, 0x51, 0x54, 0x54, 0x62A5, 0x6587]),
      (''console_metrics_messages'', [0x6D88, 0x606F, 0x28, 0x4E2A, 0x6570, 0x29]),
      (''console_metrics_bytes'', [0x6D88, 0x606F, 0x6D41, 0x91CF, 0x28, 0x5B57, 0x8282, 0x29]),
      (''connect_protocol_version'', [0x534F, 0x8BAE, 0x7248, 0x672C]),
      (''connect_connect_time'', [0x8FDE, 0x63A5, 0x65F6, 0x95F4]),
      (''session_subscriptions'', [0x8BA2, 0x9605, 0x6570]),
      (''session_max_inflight'', [0x6700, 0x5927, 0x62E5, 0x585E]),
      (''session_inflight_size'', [0x5F53, 0x524D, 0x62E5, 0x585E]),
      (''session_queue_size'', [0x5F53, 0x524D, 0x7F13, 0x5B58, 0x6D88, 0x606F]),
      (''session_droppeds'', [0x4E22, 0x5F03, 0x6D88, 0x606F]),
      (''session_await_rels'', [0x7B49, 0x5F85, 0x91CA, 0x653E]),
      (''session_delivers'', [0x6295, 0x9012, 0x6D88, 0x606F]),
      (''session_enqueues'', [0x5165, 0x961F, 0x6D88, 0x606F]),
      (''session_create_time'', [0x521B, 0x5EFA, 0x65F6, 0x95F4]),
      (''user_username'', [0x8FDE, 0x63A5, 0x7528, 0x6237, 0x540D]),
      (''user_desc'', [0x5907, 0x6CE8]),
      (''user_passwd'', [0x5BC6, 0x7801]),
      (''user_passwd_conf'', [0x786E, 0x8BA4, 0x5BC6, 0x7801]),
      (''user_passwd_change'', [0x4FEE, 0x6539, 0x5BC6, 0x7801]),
      (''user_admin_passwd'', [0x5F53, 0x524D, 0x7BA1, 0x7406, 0x5458, 0x5BC6, 0x7801]),
      (''user_passwd_new'', [0x65B0, 0x5BC6, 0x7801]),
      (''user_passwd_new_conf'', [0x786E, 0x8BA4, 0x65B0, 0x5BC6, 0x7801]),
      (''user_add_title'', [0x6DFB, 0x52A0, 0x8FDE, 0x63A5, 0x7528, 0x6237]),
      (''user_edit_title'', [0x7F16, 0x8F91, 0x8FDE, 0x63A5, 0x7528, 0x6237]),
      (''user_delete_title'', [0x5220, 0x9664, 0x8FDE, 0x63A5, 0x7528, 0x6237]),
      (''user_existed_message'', [0x8FDE, 0x63A5, 0x7528, 0x6237, 0x540D, 0x5DF2, 0x5B58, 0x5728]),
      (''user_delete_conf_text'', [0x786E, 0x5B9A, 0x5220, 0x9664, 0x8FDE, 0x63A5, 0x7528, 0x6237, 0xFF1A]),
      (''user_add_succeeded'', [0x6DFB, 0x52A0, 0x8FDE, 0x63A5, 0x7528, 0x6237, 0x6210, 0x529F]),
      (''user_add_failed'', [0x6DFB, 0x52A0, 0x8FDE, 0x63A5, 0x7528, 0x6237, 0x5931, 0x8D25]),
      (''user_edit_succeeded'', [0x7F16, 0x8F91, 0x8FDE, 0x63A5, 0x7528, 0x6237, 0x6210, 0x529F]),
      (''user_edit_failed'', [0x7F16, 0x8F91, 0x8FDE, 0x63A5, 0x7528, 0x6237, 0x5931, 0x8D25]),
      (''user_delete_succeeded'', [0x5220, 0x9664, 0x8FDE, 0x63A5, 0x7528, 0x6237, 0x6210, 0x529F]),
      (''user_delete_failed'', [0x5220, 0x9664, 0x8FDE, 0x63A5, 0x7528, 0x6237, 0x5931, 0x8D25]),
      (''acl_explain'', [0x8BF4, 0x660E]),
      (''acl_explain_detail_one'', [0x31, 0x2E, 0x5982, 0x679C, 0x4E3B, 0x9898, 0x4E2D, 0x5305, 0x542B, 0x201C,
         0x2B, 0x201D, 0x6216, 0x201C, 0x23, 0x201D, 0x7B49, 0x901A, 0x914D, 0x7B26, 0xFF0C, 0x9ED8, 0x8BA4,
         0x60C5, 0x51B5, 0x4E0B, 0x7CFB, 0x7EDF, 0x4F1A, 0x6309, 0x7167, 0x901A, 0x914D, 0x7B26, 0x8FDB, 0x884C,
         0x5339, 0x914D, 0x6BD4, 0x8F83, 0xFF1B]),
      (''acl_explain_detail_two'', [0x32, 0x2E, 0x5982, 0x679C, 0x9700, 0x8981, 0x4E3B, 0x9898, 0x8FDB, 0x884C,
         0x76F8, 0x7B49, 0x5339, 0x914D, 0xFF0C, 0x8BF7, 0x4F7F, 0x7528, 0x65, 0x71, 0x8868, 0x8FBE, 0x5F0F,
         0xFF0C, 0x4F8B, 0x5982, 0xFF1A, 0x65, 0x71, 0x28, 0x2F, 0x68, 0x65, 0x6C, 0x6C, 0x6F, 0x2F, 0x77, 0x6F,
         0x72, 0x6C, 0x64, 0x2F, 0x2B, 0x29, 0x3002]),
      (''acl_seq'', [0x5E8F, 0x53F7]),
      (''acl_target'', [0x63A7, 0x5236, 0x76EE, 0x6807]),
      (''acl_type'', [0x76EE, 0x6807, 0x7C7B, 0x578B]),
      (''acl_topic'', [0x4E3B, 0x9898]),
      (''acl_access'', [0x8BBF, 0x95EE, 0x7C7B, 0x578B]),
      (''acl_authority'', [0x8BBF, 0x95EE, 0x6743, 0x9650]),
      (''acl_item'', [0x8BBF, 0x95EE, 0x63A7, 0x5236, 0x9879]),
      (''acl_connect_user'', [0x8FDE, 0x63A5, 0x7528, 0x6237]),
      (''acl_ip_addr'', [0x49, 0x50, 0x5730, 0x5740])]"

definition messages_zh_3 :: "(string \<times> js_string) list" where
  "messages_zh_3 =
     [(''acl_client_id'', [0x5BA2, 0x6237, 0x7AEF, 0x49, 0x44]),
      (''acl_all'', [0x6240, 0x6709]),
      (''acl_sub'', [0x8BA2, 0x9605]),
      (''acl_pub'', [0x53D1, 0x5E03]),
      (''acl_subpub'', [0x8BA2, 0x9605, 0x53D1, 0x5E03]),
      (''acl_deny'', [0x7981, 0x6B62]),
      (''acl_allow'', [0x5141, 0x8BB8]),
      (''acl_delete_target'', [0x63A7, 0x5236, 0x76EE, 0x6807, 0xFF1A]),
      (''acl_delete_type'', [0x76EE, 0x6807, 0x7C7B, 0x578B, 0xFF1A]),
      (''acl_delete_topic'', [0x4E3B, 0x9898, 0xFF1A]),
      (''acl_delete_access'', [0x8BBF, 0x95EE, 0x7C7B, 0x578B, 0xFF1A]),
      (''acl_delete_authority'', [0x8BBF, 0x95EE, 0x6743, 0x9650, 0xFF1A]),
      (''acl_add_title'', [0x6DFB, 0x52A0, 0x8BBF, 0x95EE, 0x63A7, 0x5236, 0x9879]),
      (''acl_edit_title'', [0x7F16, 0x8F91, 0x8BBF, 0x95EE, 0x63A7, 0x5236, 0x9879]),
      (''acl_delete_title'', [0x5220, 0x9664, 0x8BBF, 0x95EE, 0x63A7, 0x5236, 0x9879]),
      (''acl_delete_conf_text'', [0x786E, 0x5B9A, 0x5220, 0x9664, 0x8BBF, 0x95EE, 0x63A7, 0x5236, 0x9879, 0xFF1F]),
      (''acl_add_succeeded'', [0x6DFB, 0x52A0, 0x8BBF, 0x95EE, 0x63A7, 0x5236, 0x9879, 0x6210, 0x529F]),
      (''acl_add_failed'', [0x6DFB, 0x52A0, 0x8BBF, 0x95EE, 0x63A7, 0x5236, 0x9879, 0x5931, 0x8D25]),
      (''acl_edit_succeeded'', [0x7F16, 0x8F91, 0x8BBF, 0x95EE, 0x63A7, 0x5236, 0x9879, 0x6210, 0x529F]),
      (''acl_edit_failed'', [0x7F16, 0x8F91, 0x8BBF, 0x95EE, 0x63A7, 0x5236, 0x9879, 0x5931, 0x8D25]),
      (''acl_delete_succeeded'', [0x5220, 0x9664, 0x8BBF, 0x95EE, 0x63A7, 0x5236, 0x9879, 0x6210, 0x529F]),
      (''acl_delete_failed'', [0x5220, 0x9664, 0x8BBF, 0x95EE, 0x63A7, 0x5236, 0x9879, 0x5931, 0x8D25]),
      (''listener_protocol'', [0x534F, 0x8BAE]),
      (''listener_address_port'', [0x76D1, 0x542C, 0x5730, 0x5740]),
      (''listener_conn_max_limit'', [0x6700, 0x5927, 0x5BA2, 0x6237, 0x7AEF, 0x8FDE, 0x63A5, 0x6570, 0x91CF]),
      (''listener_conn_count'', [0x5F53, 0x524D, 0x5BA2, 0x6237, 0x7AEF, 0x8FDE, 0x63A5, 0x6570, 0x91CF]),
      (''ws_conn_title'', [0x8FDE, 0x63A5]),
      (''ws_conn_path'', js ''Path''),
      (''ws_conn_ssl'', js ''SSL''),
      (''ws_conn_status'', [0x8FDE, 0x63A5, 0x72B6, 0x6001, 0xFF1A]),
      (''ws_conn_status_connected'', [0x5DF2, 0x8FDE, 0x63A5]),
      (''ws_conn_status_disconnected'', [0x672A, 0x8FDE, 0x63A5]),
      (''ws_sub_title'', [0x8BA2, 0x9605]),
      (''ws_sub_list'', [0x8BA2, 0x9605, 0x5217, 0x8868]),
      (''ws_sub_time'', [0x65F6, 0x95F4]),
      (''ws_msg_title'', [0x6D88, 0x606F]),
      (''ws_msg_retained'', [0x4FDD, 0x7559]),
      (''ws_msg_pub_list'', [0x53D1, 0x5E03, 0x6D88, 0x606F, 0x5217, 0x8868]),
      (''ws_msg_sub_list'', [0x8BA2, 0x9605, 0x6D88, 0x606F, 0x5217, 0x8868]),
      (''ws_msg_time'', [0x65F6, 0x95F4]),
      (''ws_connect_btn'', [0x8FDE, 0x63A5]),
      (''ws_disconnect_btn'', [0x65AD, 0x5F00, 0x8FDE, 0x63A5]),
      (''ws_subscribe_btn'', [0x8BA2, 0x9605]),
      (''ws_send_btn'', [0x53D1, 0x9001]),
      (''ws_notify_connect_succeed'', [0x8FDE, 0x63A5, 0x6210, 0x529F]),
      (''ws_notify_sub_succeed'', [0x8BA2, 0x9605, 0x6210, 0x529F]),
      (''ws_notify_unsub_succeed'', [0x53D6, 0x6D88, 0x8BA2, 0x9605, 0x6210, 0x529F]),
      (''ws_notify_send_succeed'', [0x53D1, 0x9001, 0x6210, 0x529F]),
      (''admin_account'', [0x7BA1, 0x7406, 0x5458, 0x8D26, 0x53F7]),
      (''admin_desc'', [0x5907, 0x6CE8]),
      (''admin_passwd'', [0x5BC6, 0x7801]),
      (''admin_passwd_conf'', [0x786E, 0x8BA4, 0x5BC6, 0x7801]),
      (''admin_passwd_change'', [0x4FEE, 0x6539, 0x5BC6, 0x7801]),
      (''admin_passwd_old'', [0x65E7, 0x5BC6, 0x7801]),
      (''admin_passwd_new'', [0x65B0, 0x5BC6, 0x7801]),
      (''admin_passwd_new_conf'', [0x786E, 0x8BA4, 0x65B0, 0x5BC6, 0x7801]),
      (''admin_add_title'', [0x6DFB, 0x52A0, 0x7BA1, 0x7406, 0x5458]),
      (''admin_edit_title'', [0x7F16, 0x8F91, 0x7BA1, 0x7406, 0x5458]),
      (''admin_delete_title'', [0x5220, 0x9664, 0x7BA1, 0x7406, 0x5458]),
      (''admin_existed_message'', [0x8D26, 0x53F7, 0x5DF2, 0x5B58, 0x5728]),
      (''admin_delete_conf_text'', [0x786E, 0x5B9A, 0x5220, 0x9664, 0x7BA1, 0x7406, 0x5458, 0xFF1A]),
      (''admin_add_succeeded'', [0x6DFB, 0x52A0, 0x7BA1, 0x7406, 0x5458, 0x6210, 0x529F]),
      (''admin_add_failed'', [0x6DFB, 0x52A0, 0x7BA1, 0x7406, 0x5458, 0x5931, 0x8D25]),
      (''admin_edit_succeeded'', [0x7F16, 0x8F91, 0x7BA1, 0x7406, 0x5458, 0x6210, 0x529F]),
      (''admin_edit_failed'', [0x7F16, 0x8F91, 0x7BA1, 0x7406, 0x5458, 0x5931, 0x8D25]),
      (''admin_delete_succeeded'', [0x5220, 0x9664, 0x7BA1, 0x7406, 0x5458, 0x6210, 0x529F]),
      (''admin_delete_failed'', [0x5220, 0x9664, 0x7BA1, 0x7406, 0x5458, 0x5931, 0x8D25])]"

definition messages_zh :: locale_messages where
  "messages_zh = messages_zh_1 @ messages_zh_2 @ messages_zh_3"

definition validator_messages_zh :: "(string \<times> vmessage) list" where
  "validator_messages_zh =
     [(''required'', VText ([0x8FD9, 0x662F, 0x5FC5, 0x586B, 0x5B57, 0x6BB5])),
      (''remote'', VText ([0x8BF7, 0x4FEE, 0x6B63, 0x6B64, 0x5B57, 0x6BB5])),
      (''email'', VText ([0x8BF7, 0x8F93, 0x5165, 0x6709, 0x6548, 0x7684, 0x7535, 0x5B50, 0x90AE, 0x4EF6, 0x5730,
         0x5740])),
      (''url'', VText ([0x8BF7, 0x8F93, 0x5165, 0x6709, 0x6548, 0x7684, 0x7F51, 0x5740])),
      (''date'', VText ([0x8BF7, 0x8F93, 0x5165, 0x6709, 0x6548, 0x7684, 0x65E5, 0x671F])),
      (''dateISO'', VText ([0x8BF7, 0x8F93, 0x5165, 0x6709, 0x6548, 0x7684, 0x65E5, 0x671F, 0x20, 0x28, 0x59, 0x59,
         0x59, 0x59, 0x2D, 0x4D, 0x4D, 0x2D, 0x44, 0x44, 0x29])),
      (''number'', VText ([0x8BF7, 0x8F93, 0x5165, 0x6709, 0x6548, 0x7684, 0x6570, 0x5B57])),
      (''digits'', VText ([0x53EA, 0x80FD, 0x8F93, 0x5165, 0x6570, 0x5B57])),
      (''equalTo'', VText ([0x4F60, 0x7684, 0x8F93, 0x5165, 0x4E0D, 0x76F8, 0x540C])),
      (''extension'', VText ([0x8BF7, 0x8F93, 0x5165, 0x6709, 0x6548, 0x7684, 0x540E, 0x7F00])),
      (''maxlength'', VFormat ([0x6700, 0x591A, 0x53EF, 0x4EE5, 0x8F93, 0x5165, 0x20, 0x7B, 0x30, 0x7D, 0x20,
         0x4E2A, 0x5B57, 0x7B26])),
      (''minlength'', VFormat ([0x6700, 0x5C11, 0x8981, 0x8F93, 0x5165, 0x20, 0x7B, 0x30, 0x7D, 0x20, 0x4E2A,
         0x5B57, 0x7B26])),
      (''rangelength'', VFormat ([0x8BF7, 0x8F93, 0x5165, 0x957F, 0x5EA6, 0x5728, 0x20, 0x7B, 0x30, 0x7D, 0x20,
         0x5230, 0x20, 0x7B, 0x31, 0x7D, 0x20, 0x4E4B, 0x95F4, 0x7684, 0x5B57, 0x7B26, 0x4E32])),
      (''range'', VFormat ([0x8BF7, 0x8F93, 0x5165, 0x8303, 0x56F4, 0x5728, 0x20, 0x7B, 0x30, 0x7D, 0x20, 0x5230,
         0x20, 0x7B, 0x31, 0x7D, 0x20, 0x4E4B, 0x95F4, 0x7684, 0x6570, 0x503C])),
      (''max'', VFormat ([0x8BF7, 0x8F93, 0x5165, 0x4E0D, 0x5927, 0x4E8E, 0x20, 0x7B, 0x30, 0x7D, 0x20, 0x7684,
         0x6570, 0x503C])),
      (''min'', VFormat ([0x8BF7, 0x8F93, 0x5165, 0x4E0D, 0x5C0F, 0x4E8E, 0x20, 0x7B, 0x30, 0x7D, 0x20, 0x7684,
         0x6570, 0x503C]))]"

subsection \<open>Properties\<close>

text \<open>\<open>$.extend\<close>: the language file overrides the library's texts.\<close>

definition extend :: "(string \<times> 'm) list \<Rightarrow> (string \<times> 'm) list \<Rightarrow> (string \<times> 'm) list" where
  "extend base new = filter (\<lambda>p. map_of new (fst p) = None) base @ new"

lemma extend_lookup: "map_of (extend base new) k = (case map_of new k of Some v \<Rightarrow> Some v | None \<Rightarrow> map_of base k)"
proof -
  have "map_of (filter (\<lambda>p. map_of new (fst p) = None) base) k = (if map_of new k = None then map_of base k else None)"
    by (induction base) auto
  then show ?thesis by (simp add: extend_def map_add_def split: option.split)
qed

definition script_keys :: "string list" where
  "script_keys =
     [''common_alert_error_content'',
      ''common_alert_title'',
      ''common_btn_processing'',
      ''common_passwd_equal'',
      ''common_passwd_not_equal'',
      ''common_swtich_cond_required'',
      ''datatables_info'',
      ''datatables_infoEmpty'',
      ''datatables_paginate_first'',
      ''datatables_paginate_last'',
      ''datatables_paginate_next'',
      ''datatables_paginate_previous'',
      ''datatables_processing'',
      ''datatables_search'',
      ''datatables_zeroRecords'',
      ''login_username_password_error'']"

definition form_keys :: "form_messages \<Rightarrow> string list" where
  "form_keys ms = concat (map (\<lambda>(_, m). map snd m) ms)"

definition markers :: "js_string list" where
  "markers = [js ''_START_'', js ''_END_'', js ''_TOTAL_'', js ''{0}'', js ''{1}'']"

definition placeholders :: "js_string \<Rightarrow> js_string list" where
  "placeholders t = filter (\<lambda>m. indexOf t m \<noteq> None) markers"

fun source_text :: "vmessage \<Rightarrow> js_string" where
  "source_text (VFormat s) = s"
| "source_text (VText s) = s"
| "source_text (Locale k) = js k"

lemmas en_tables = messages_en_def messages_en_1_def messages_en_2_def messages_en_3_def
lemmas zh_tables = messages_zh_def messages_zh_1_def messages_zh_2_def messages_zh_3_def

lemma same_page_keys: "map fst messages_en = map fst messages_zh"
  by (simp only: en_tables zh_tables append.simps list.map fst_conv)

lemma same_validator_keys: "map fst validator_messages_en = map fst validator_messages_zh"
  by (simp only: validator_messages_en_def validator_messages_zh_def list.map fst_conv)

lemma script_keys_defined: "list_all (\<lambda>k. k \<in> set (map fst messages_en)) script_keys"
  by (simp add: script_keys_def en_tables)

lemma same_domain: "map fst a = map fst b \<Longrightarrow> (map_of a k = None) = (map_of b k = None)"
  by (metis list.set_map map_of_eq_None_iff)

lemma localise_override:
  assumes "map fst a = map fst b"
  shows "localise b (localise a e) = localise b e"
  using same_domain [OF assms, of "data_locale e"] by (auto simp: localise_def split: option.splits)

lemma form_keys_in_scripts:
  "form_keys addAdminMessages @ form_keys editAdminMessages @ form_keys addUserMessages @ form_keys editUserMessages =
   [''common_passwd_equal'', ''common_swtich_cond_required'', ''common_swtich_cond_required'', ''common_passwd_not_equal'',
    ''common_swtich_cond_required'', ''common_passwd_equal'', ''common_passwd_equal'', ''common_swtich_cond_required'',
    ''common_swtich_cond_required'', ''common_swtich_cond_required'', ''common_passwd_equal'']"
  by (simp add: form_keys_def addAdminMessages_def editAdminMessages_def addUserMessages_def editUserMessages_def)

lemma same_placeholders:
  "map (placeholders \<circ> source_text \<circ> snd) validator_messages_en = map (placeholders \<circ> source_text \<circ> snd) validator_messages_zh"
  by code_simp

lemma info_texts:
  "map_of messages_en ''datatables_info'' = Some (js ''Showing _START_ to _END_ of _TOTAL_ entries'')"
  "map_of messages_zh ''datatables_info'' =
     Some [0x4ECE, 0x20, 0x7B2C, 0x20, 0x5F, 0x53, 0x54, 0x41, 0x52, 0x54, 0x5F, 0x20, 0x6761, 0x20, 0x5230, 0x20, 0x7B2C, 0x20, 0x5F, 0x45, 0x4E, 0x44, 0x5F, 0x20, 0x6761, 0x20, 0x5171, 0x20, 0x5F, 0x54, 0x4F, 0x54, 0x41, 0x4C, 0x5F, 0x20, 0x6761, 0x8BB0, 0x5F55]"
  by (simp_all only: en_tables zh_tables append.simps) simp_all

lemma info_placeholders:
  "placeholders (the (map_of messages_en ''datatables_info'')) = take 3 markers"
  "placeholders (the (map_of messages_zh ''datatables_info'')) = take 3 markers"
  unfolding info_texts option.sel by code_simp+

text \<open>
  The two languages define the same message keys, for the pages and for the validation
  library; every key that the scripts and the forms use is defined in both; and a message has
  the same placeholders in both.
\<close>

theorem translations_agree:
  "map fst messages_en = map fst messages_zh \<and>
   map fst validator_messages_en = map fst validator_messages_zh \<and>
   list_all (\<lambda>k. k \<in> set (map fst messages_en))
     (script_keys @ form_keys addAdminMessages @ form_keys editAdminMessages @ form_keys addUserMessages @
      form_keys editUserMessages) \<and>
   map (placeholders \<circ> source_text \<circ> snd) validator_messages_en =
     map (placeholders \<circ> source_text \<circ> snd) validator_messages_zh \<and>
   placeholders (the (map_of messages_en ''datatables_info'')) =
     placeholders (the (map_of messages_zh ''datatables_info''))"
proof -
  have "list_all (\<lambda>k. k \<in> set script_keys)
      (form_keys addAdminMessages @ form_keys editAdminMessages @ form_keys addUserMessages @ form_keys editUserMessages)"
    unfolding form_keys_in_scripts by (simp add: script_keys_def)
  then have "list_all (\<lambda>k. k \<in> set (map fst messages_en))
      (script_keys @ form_keys addAdminMessages @ form_keys editAdminMessages @ form_keys addUserMessages @
       form_keys editUserMessages)"
    using script_keys_defined unfolding list_all_iff by auto
  then show ?thesis using same_page_keys same_validator_keys same_placeholders info_placeholders by simp
qed

text \<open>
  Switching the page to a language leaves no text of the other one: localising after another
  language has the same effect as localising at once.
\<close>

theorem switch_language:
  "changeLanguage messages_zh (changeLanguage messages_en els) = changeLanguage messages_zh els \<and>
   changeLanguage messages_en (changeLanguage messages_zh els) = changeLanguage messages_en els"
  by (simp add: changeLanguage_def localise_override [OF same_page_keys] localise_override [OF same_page_keys [symmetric]])

end
