(* ===== verification/Paging.thy ===== *)
theory Paging
  imports Console
begin

text \<open>
  Paging of the console's tables: \<open>_fnPageChange\<close>, \<open>_fnLengthChange\<close>, \<open>_fnLengthOverflow\<close>,
  \<open>page.info()\<close>, \<open>_fnReDraw\<close> and the page buttons of \<open>jquery.dataTables.js\<close>, with server-side
  processing switched on as in every table of the console. A page length is positive, or -1
  for all records.
\<close>

record settings =
  displayStart :: int
  displayLength :: int
  recordsDisplay :: int
  rowsShown :: int

datatype paging_action = Page int | First | Previous | Next | Last | Other

definition fnPageChange :: "paging_action \<Rightarrow> settings \<Rightarrow> bool \<times> settings" where
  "fnPageChange action s =
     (let start = displayStart s; len = displayLength s; records = recordsDisplay s;
          new = (if records = 0 \<or> len = -1 then 0
                 else case action of
                        Page n \<Rightarrow> if n * len > records then 0 else n * len
                      | First \<Rightarrow> 0
                      | Previous \<Rightarrow> (let st = (if len \<ge> 0 then start - len else 0) in if st < 0 then 0 else st)
                      | Next \<Rightarrow> if start + len < records then start + len else start
                      | Last \<Rightarrow> ((records - 1) div len) * len
                      | Other \<Rightarrow> start) in
      (displayStart s \<noteq> new, s\<lparr>displayStart := new\<rparr>))"

text \<open>The remainder of JavaScript has the sign of the dividend.\<close>

definition rem_js :: "int \<Rightarrow> int \<Rightarrow> int" where
  "rem_js a b = (if a < 0 then - (\<bar>a\<bar> mod \<bar>b\<bar>) else a mod \<bar>b\<bar>)"

definition fnDisplayEnd :: "settings \<Rightarrow> int" where
  "fnDisplayEnd s =
     (if displayLength s = -1 then displayStart s + rowsShown s
      else min (displayStart s + displayLength s) (recordsDisplay s))"

definition fnLengthOverflow :: "settings \<Rightarrow> settings" where
  "fnLengthOverflow s =
     (let endp = fnDisplayEnd s; len = displayLength s;
          start = (if displayStart s \<ge> endp then endp - len else displayStart s);
          start = start - rem_js start len;
          start = (if len = -1 \<or> start < 0 then 0 else start) in
      s\<lparr>displayStart := start\<rparr>)"

definition fnLengthChange :: "int \<Rightarrow> settings \<Rightarrow> settings" where
  "fnLengthChange len s = fnLengthOverflow (s\<lparr>displayLength := len\<rparr>)"

definition page_info :: "settings \<Rightarrow> int \<times> int" where
  "page_info s =
     (let len = displayLength s in
      if len = -1 then (0, 1) else (displayStart s div len, - ((- recordsDisplay s) div len)))"

text \<open>A redraw with server-side processing: the request for \<open>start\<close> and \<open>length\<close>.\<close>

definition fnReDraw :: "bool \<Rightarrow> settings \<Rightarrow> (int \<times> int) \<times> settings" where
  "fnReDraw holdPosition s =
     (let s = (if holdPosition then s else s\<lparr>displayStart := 0\<rparr>) in
      ((displayStart s, displayLength s), s))"

definition ajax_reload :: "reload \<Rightarrow> settings \<Rightarrow> (int \<times> int) option \<times> settings" where
  "ajax_reload r s =
     (case r of
        NoReload \<Rightarrow> (None, s)
      | ReloadSamePage \<Rightarrow> (case fnReDraw True s of (q, s') \<Rightarrow> (Some q, s'))
      | ReloadPage n \<Rightarrow> (case fnReDraw True (snd (fnPageChange (Page n) s)) of (q, s') \<Rightarrow> (Some q, s')))"

subsection \<open>Page buttons\<close>

datatype page_button = PageButton int | Ellipsis

definition numbers_length :: int where
  "numbers_length = 7"

definition page_range :: "int \<Rightarrow> int \<Rightarrow> page_button list" where
  "page_range a b = map PageButton [a..b - 1]"

definition numbers :: "int \<Rightarrow> int \<Rightarrow> page_button list" where
  "numbers page pages =
     (let buttons = numbers_length; half = buttons div 2 in
      if pages \<le> buttons then page_range 0 pages
      else if page \<le> half then page_range 0 (buttons - 2) @ [Ellipsis, PageButton (pages - 1)]
      else if page \<ge> pages - 1 - half
      then [PageButton 0, Ellipsis] @ page_range (pages - (buttons - 2)) pages
      else [PageButton 0, Ellipsis] @ page_range (page - half + 2) (page + half - 1) @
           [Ellipsis, PageButton (pages - 1)])"

subsection \<open>Properties\<close>

text \<open>A position at the start of an existing page.\<close>

definition on_page :: "settings \<Rightarrow> bool" where
  "on_page s \<longleftrightarrow> displayLength s > 0 \<and> 0 \<le> displayStart s \<and> displayLength s dvd displayStart s \<and>
     (displayStart s < recordsDisplay s \<or> displayStart s = 0)"

text \<open>The page numbers an action may name: those that exist, and any that is far beyond the end.\<close>

fun proper_action :: "settings \<Rightarrow> paging_action \<Rightarrow> bool" where
  "proper_action s (Page n) = (0 \<le> n \<and> n * displayLength s \<noteq> recordsDisplay s)"
| "proper_action s _ = True"

text \<open>
  Every paging action of a table that shows an existing page leads to the start of an
  existing page again (or to the first page of an empty table), for numeric pages as long as
  the page is not negative and is not the one just after the last.
\<close>

theorem page_change_stays:
  assumes "on_page s" "0 \<le> recordsDisplay s" "proper_action s a"
  shows "on_page (snd (fnPageChange a s))"
proof -
  let ?l = "displayLength s" and ?r = "recordsDisplay s"
  have l: "0 < ?l" "?l dvd displayStart s" "0 \<le> displayStart s" using assms(1) by (auto simp: on_page_def)
  show ?thesis
  proof (cases "?r = 0")
    case True
    then show ?thesis using l by (simp add: fnPageChange_def on_page_def Let_def)
  next
    case False
    have "(?r - 1) div ?l * ?l + (?r - 1) mod ?l = ?r - 1" by (rule div_mult_mod_eq)
    moreover have "0 \<le> (?r - 1) mod ?l" using l by simp
    ultimately have last: "((?r - 1) div ?l) * ?l < ?r" by linarith
    have "0 \<le> (?r - 1) div ?l" using l False assms(2) by (simp add: pos_imp_zdiv_nonneg_iff)
    then have last0: "0 \<le> ((?r - 1) div ?l) * ?l" using l by simp
    show ?thesis
      using assms l False last last0
      by (cases a) (auto simp: fnPageChange_def on_page_def Let_def)
  qed
qed

theorem page_change_stays_witness:
  "on_page (snd (fnPageChange Last \<lparr>displayStart = 10, displayLength = 10, recordsDisplay = 25, rowsShown = 10\<rparr>))"
  by (rule page_change_stays) (simp_all add: on_page_def)

text \<open>
  Deleting the only row of the first page reloads the table at a negative position: the
  request asks for the rows from \<open>-length\<close> on, which is page 0 in the numbering of the broker,
  where the first page is 1.
\<close>

theorem delete_on_first_page:
  assumes "displayLength s > 0" "recordsDisplay s > 0"
  shows "fst (ajax_reload (datatablesReload True 1 1 True) s) = Some (- displayLength s, displayLength s) \<and>
    (- displayLength s) div displayLength s + 1 = 0"
  using assms by (simp add: ajax_reload_def datatablesReload_def fnPageChange_def fnReDraw_def Let_def
      zdiv_zminus1_eq_if)

theorem delete_on_first_page_witness:
  "fst (ajax_reload (datatablesReload True 1 1 True)
     \<lparr>displayStart = 0, displayLength = datatables_paging_len, recordsDisplay = 1, rowsShown = 1\<rparr>) = Some (- 10, 10)"
  using delete_on_first_page [of "\<lparr>displayStart = 0, displayLength = datatables_paging_len, recordsDisplay = 1,
      rowsShown = 1\<rparr>"]
  by (simp add: datatables_paging_len_def)

text \<open>
  A page number equal to the number of full pages is taken although that page does not
  exist: the table is positioned just after its last record instead of being reset.
\<close>

theorem page_after_last:
  assumes "displayLength s > 0" "n > 0" "recordsDisplay s = n * displayLength s"
  shows "displayStart (snd (fnPageChange (Page n) s)) = recordsDisplay s \<and> \<not> on_page (snd (fnPageChange (Page n) s))"
  using assms by (simp add: fnPageChange_def on_page_def Let_def)

theorem page_after_last_witness:
  "\<not> on_page (snd (fnPageChange (Page 2) \<lparr>displayStart = 0, displayLength = 10, recordsDisplay = 20, rowsShown = 10\<rparr>))"
  using page_after_last [of "\<lparr>displayStart = 0, displayLength = 10, recordsDisplay = 20, rowsShown = 10\<rparr>" 2] by simp

fun button_pages :: "page_button list \<Rightarrow> int list" where
  "button_pages [] = []"
| "button_pages (PageButton n # bs) = n # button_pages bs"
| "button_pages (Ellipsis # bs) = button_pages bs"

lemma button_pages_append [simp]: "button_pages (xs @ ys) = button_pages xs @ button_pages ys"
  by (induction xs rule: button_pages.induct) simp_all

lemma button_pages_range [simp]: "button_pages (page_range a b) = [a..b - 1]"
proof -
  have "button_pages (map PageButton xs) = xs" for xs by (induction xs) simp_all
  then show ?thesis by (simp add: page_range_def)
qed

lemma page_range_length [simp]: "length (page_range a b) = nat (b - a)"
  by (simp add: page_range_def)

lemma upto_ascending [simp]: "sorted_wrt (<) [a..b]" for a b :: int
  by (simp add: strict_sorted_iff)

text \<open>
  The page buttons of a table on an existing page are strictly ascending, contain the
  first, the current and the last page, name existing pages only, and are never more than
  seven, ellipses included.
\<close>

theorem page_buttons:
  assumes "0 \<le> page" "page < pages"
  shows "sorted_wrt (<) (button_pages (numbers page pages)) \<and>
    {0, page, pages - 1} \<subseteq> set (button_pages (numbers page pages)) \<and>
    set (button_pages (numbers page pages)) \<subseteq> {0..<pages} \<and> length (numbers page pages) \<le> 7"
  using assms by (auto simp: numbers_def numbers_length_def Let_def sorted_wrt_append)

theorem page_buttons_witness:
  "{0, 9, 19} \<subseteq> set (button_pages (numbers 9 20)) \<and> length (numbers 9 20) \<le> 7"
  using page_buttons [of 9 20] by simp

end
