(* ===== verification/Tables.thy ===== *)
theory Tables
  imports Paging
begin

text \<open>
  The tables of the console over the requests to the broker: the server-side processing of
  \<open>jquery.dataTables.js\<close> (\<open>_fnDraw\<close>, \<open>_fnAjaxUpdate\<close>, \<open>_fnAjaxUpdateDraw\<close>), the \<open>ajax\<close> function of the
  pages, and the query of the broker that answers it (\<open>AdminCacheImpl\<close>; \<open>UserCacheImpl\<close> has the same).
  The pages share that function up to the names of their variables; \<open>admin.html\<close> is followed here.
  Answers may arrive in any order, or not at all. Searching and ordering are switched off in these
  tables. \<open>t_requests\<close> holds the requests under way, the oldest first.
\<close>

subsection \<open>Requests and answers\<close>

record request =
  rq_draw :: int
  rq_start :: int
  rq_length :: int
  rq_pageNum :: int

record 'r draw_data =
  dd_draw :: int
  dd_recordsTotal :: int
  dd_recordsFiltered :: int
  dd_data :: "'r list"

definition datatables_no_data :: "'r draw_data" where
  "datatables_no_data = \<lparr>dd_draw = 1, dd_recordsTotal = 0, dd_recordsFiltered = 0, dd_data = []\<rparr>"

text \<open>An answer of the broker. A \<open>result\<close> that is \<open>false\<close> has neither a total nor items.\<close>

record 'r response =
  rs_code :: int
  rs_total :: int
  rs_items :: "'r list option"

definition drawData :: "request \<Rightarrow> 'r response option \<Rightarrow> 'r draw_data" where
  "drawData q res =
     (case res of
        None \<Rightarrow> datatables_no_data
      | Some r \<Rightarrow>
          (if rs_code r = 1 then
             (case rs_items r of
                None \<Rightarrow> datatables_no_data
              | Some items \<Rightarrow>
                  if rs_total r \<noteq> 0
                  then \<lparr>dd_draw = rq_draw q, dd_recordsTotal = rs_total r, dd_recordsFiltered = rs_total r, dd_data = items\<rparr>
                  else datatables_no_data)
           else datatables_no_data))"

text \<open>The variable \<open>queryAdminDataLen\<close> after an answer; an error leaves it.\<close>

definition answered_len :: "'r response option \<Rightarrow> nat \<Rightarrow> nat" where
  "answered_len res n =
     (case res of
        None \<Rightarrow> n
      | Some r \<Rightarrow> if rs_code r = 1 \<and> rs_total r \<noteq> 0 then (case rs_items r of None \<Rightarrow> 0 | Some items \<Rightarrow> length items) else 0)"

text \<open>\<open>AdminCacheImpl.query\<close> and \<open>getAdmins\<close>: \<open>rows\<close> are the rows that the query selects, in its order.\<close>

definition DEF_PAGE_NUM :: int where "DEF_PAGE_NUM = 1"
definition DEF_PAGE_SIZE :: int where "DEF_PAGE_SIZE = 10"

definition query_rows :: "'r list \<Rightarrow> int \<Rightarrow> int \<Rightarrow> 'r list" where
  "query_rows rows pageNum pageSize =
     (let ps = (if pageSize \<le> 0 then DEF_PAGE_SIZE else pageSize);
          offset = (if pageNum \<le> 0 then (DEF_PAGE_NUM - 1) * ps else (pageNum - 1) * ps) in
      take (nat ps) (drop (nat offset) rows))"

definition getAdmins :: "'r list \<Rightarrow> int \<Rightarrow> int \<Rightarrow> 'r response" where
  "getAdmins rows pageNum pageSize =
     \<lparr>rs_code = 1, rs_total = int (length rows), rs_items = Some (query_rows rows pageNum pageSize)\<rparr>"

subsection \<open>The table\<close>

record 'r table =
  t_paging :: settings
  t_recordsTotal :: int
  t_iDraw :: int
  t_bAjaxDataGet :: bool
  t_aoData :: "'r list"
  t_displayMaster :: "nat list"
  t_display :: "nat list"
  t_tbody :: "'r list"
  t_processing :: bool
  t_initComplete :: bool
  t_requests :: "request list"
  t_pageNum :: int
  t_dataLen :: nat

text \<open>The positions in a table are multiples of the page length, so the division of the page's
  function is exact.\<close>

definition page_request :: "request \<Rightarrow> 'r table \<Rightarrow> 'r table" where
  "page_request d t =
     (let pageNum = rq_start d div rq_length d + 1 in
      t\<lparr>t_pageNum := pageNum, t_requests := t_requests t @ [d\<lparr>rq_pageNum := pageNum\<rparr>]\<rparr>)"

definition fnAjaxParameters :: "'r table \<Rightarrow> request" where
  "fnAjaxParameters t =
     \<lparr>rq_draw = t_iDraw t, rq_start = displayStart (t_paging t), rq_length = displayLength (t_paging t), rq_pageNum = 0\<rparr>"

definition fnBuildAjax :: "request \<Rightarrow> 'r table \<Rightarrow> 'r table" where
  "fnBuildAjax d t = page_request d t"

text \<open>The result says whether the table is drawn at once.\<close>

definition fnAjaxUpdate :: "'r table \<Rightarrow> bool \<times> 'r table" where
  "fnAjaxUpdate t =
     (if t_bAjaxDataGet t
      then (let t = t\<lparr>t_iDraw := t_iDraw t + 1, t_processing := True\<rparr> in (False, fnBuildAjax (fnAjaxParameters t) t))
      else (True, t))"

definition draw_rows :: "'r table \<Rightarrow> 'r table" where
  "draw_rows t =
     t\<lparr>t_tbody := (if t_display t = [] then [] else map (\<lambda>j. t_aoData t ! (t_display t ! j)) [0..<length (t_aoData t)])\<rparr>"

definition fnDraw :: "'r table \<Rightarrow> 'r table" where
  "fnDraw t = (case fnAjaxUpdate t of (now, t) \<Rightarrow> if now then draw_rows t else t)"

definition set_display :: "nat list \<Rightarrow> 'r table \<Rightarrow> 'r table" where
  "set_display xs t = t\<lparr>t_display := xs, t_paging := (t_paging t)\<lparr>rowsShown := int (length xs)\<rparr>\<rparr>"

definition redraw :: "bool \<Rightarrow> 'r table \<Rightarrow> 'r table" where
  "redraw holdPosition t =
     (let t = set_display (t_displayMaster t) t in
      fnDraw (if holdPosition then t else t\<lparr>t_paging := (t_paging t)\<lparr>displayStart := 0\<rparr>\<rparr>))"

definition fnClearTable :: "'r table \<Rightarrow> 'r table" where
  "fnClearTable t = set_display [] (t\<lparr>t_aoData := [], t_displayMaster := []\<rparr>)"

definition fnAddData :: "'r \<Rightarrow> 'r table \<Rightarrow> 'r table" where
  "fnAddData r t =
     t\<lparr>t_aoData := t_aoData t @ [r], t_displayMaster := t_displayMaster t @ [length (t_aoData t)]\<rparr>"

definition fnAjaxUpdateDraw :: "'r draw_data \<Rightarrow> 'r table \<Rightarrow> 'r table" where
  "fnAjaxUpdateDraw json t =
     (if dd_draw json \<noteq> 0 \<and> dd_draw json < t_iDraw t then t
      else (let t = (if dd_draw json \<noteq> 0 then t\<lparr>t_iDraw := dd_draw json\<rparr> else t);
                t = fnClearTable t;
                t = t\<lparr>t_recordsTotal := dd_recordsTotal json,
                      t_paging := (t_paging t)\<lparr>recordsDisplay := dd_recordsFiltered json\<rparr>\<rparr>;
                t = fold fnAddData (dd_data json) t;
                t = set_display (t_displayMaster t) t;
                t = fnDraw (t\<lparr>t_bAjaxDataGet := False\<rparr>) in
            t\<lparr>t_initComplete := True, t_bAjaxDataGet := True, t_processing := False\<rparr>))"

subsection \<open>Runs\<close>

datatype 'r table_event =
    Click paging_action
  | Reload reload
  | Answer nat "'r response option"

definition click :: "paging_action \<Rightarrow> 'r table \<Rightarrow> 'r table" where
  "click action t =
     (case fnPageChange action (t_paging t) of (changed, s) \<Rightarrow>
        let t = t\<lparr>t_paging := s\<rparr> in if changed then fnDraw t else t)"

definition reload_table :: "reload \<Rightarrow> 'r table \<Rightarrow> 'r table" where
  "reload_table r t =
     (case r of
        NoReload \<Rightarrow> t
      | ReloadSamePage \<Rightarrow> redraw True t
      | ReloadPage n \<Rightarrow> redraw True (t\<lparr>t_paging := snd (fnPageChange (Page n) (t_paging t))\<rparr>))"

definition answer_request :: "request \<Rightarrow> 'r response option \<Rightarrow> 'r table \<Rightarrow> 'r table" where
  "answer_request q res t = fnAjaxUpdateDraw (drawData q res) (t\<lparr>t_dataLen := answered_len res (t_dataLen t)\<rparr>)"

definition remove_at :: "nat \<Rightarrow> 'a list \<Rightarrow> 'a list" where
  "remove_at k xs = take k xs @ drop (Suc k) xs"

primrec table_step :: "'r table_event \<Rightarrow> 'r table \<Rightarrow> 'r table" where
  "table_step (Click a) t = click a t"
| "table_step (Reload r) t = reload_table r t"
| "table_step (Answer k res) t =
     (if k < length (t_requests t)
      then answer_request (t_requests t ! k) res (t\<lparr>t_requests := remove_at k (t_requests t)\<rparr>) else t)"

definition new_table :: "int \<Rightarrow> 'r table" where
  "new_table len =
     \<lparr>t_paging = \<lparr>displayStart = 0, displayLength = len, recordsDisplay = 0, rowsShown = 0\<rparr>, t_recordsTotal = 0, t_iDraw = 0,
      t_bAjaxDataGet = True, t_aoData = [], t_displayMaster = [], t_display = [], t_tbody = [],
      t_processing = False, t_initComplete = False, t_requests = [], t_pageNum = 0, t_dataLen = 0\<rparr>"

definition fnInitialise :: "int \<Rightarrow> 'r table" where
  "fnInitialise len = redraw False (new_table len\<lparr>t_processing := True\<rparr>)"

definition run_table :: "int \<Rightarrow> 'r table_event list \<Rightarrow> 'r table" where
  "run_table len es = fold table_step es (fnInitialise len)"

subsection \<open>The invariant\<close>

text \<open>Requests are numbered; the last one asks for the page the table is positioned at; what is
  drawn is what the last answer brought.\<close>

definition table_base :: "int \<Rightarrow> 'r table \<Rightarrow> bool" where
  "table_base len t \<longleftrightarrow> t_bAjaxDataGet t \<and> displayLength (t_paging t) = len \<and>
     len dvd displayStart (t_paging t) \<and> t_tbody t = t_aoData t \<and> t_displayMaster t = [0..<length (t_aoData t)] \<and>
     distinct (map rq_draw (t_requests t)) \<and> 0 \<le> t_iDraw t \<and>
     (\<forall>q \<in> set (t_requests t). 1 \<le> rq_draw q \<and> rq_draw q \<le> t_iDraw t)"

definition table_ok :: "int \<Rightarrow> 'r table \<Rightarrow> bool" where
  "table_ok len t \<longleftrightarrow> table_base len t \<and> 1 \<le> t_iDraw t \<and>
     (\<forall>q \<in> set (t_requests t). rq_draw q = t_iDraw t \<longrightarrow>
        rq_start q = displayStart (t_paging t) \<and> rq_length q = len \<and> rq_pageNum q = displayStart (t_paging t) div len + 1)"

lemma fold_add_data:
  "fold fnAddData rs t =
     t\<lparr>t_aoData := t_aoData t @ rs, t_displayMaster := t_displayMaster t @ [length (t_aoData t)..<length (t_aoData t) + length rs]\<rparr>"
proof (induction rs arbitrary: t)
  case (Cons r rs)
  have "fnAddData r t = t\<lparr>t_aoData := t_aoData t @ [r], t_displayMaster := t_displayMaster t @ [length (t_aoData t)]\<rparr>"
    by (simp add: fnAddData_def)
  then show ?case by (simp add: Cons upt_conv_Cons del: upt_Suc)
qed simp

text \<open>A draw with the data at hand.\<close>

definition filled :: "'r draw_data \<Rightarrow> 'r table \<Rightarrow> 'r table" where
  "filled json t =
     t\<lparr>t_aoData := dd_data json, t_displayMaster := [0..<length (dd_data json)], t_display := [0..<length (dd_data json)],
       t_tbody := dd_data json, t_recordsTotal := dd_recordsTotal json,
       t_paging := (t_paging t)\<lparr>recordsDisplay := dd_recordsFiltered json, rowsShown := int (length (dd_data json))\<rparr>,
       t_initComplete := True, t_bAjaxDataGet := True, t_processing := False\<rparr>"

lemma draw_rows_all:
  "t_display t = [0..<length (t_aoData t)] \<Longrightarrow> draw_rows t = t\<lparr>t_tbody := t_aoData t\<rparr>"
proof -
  have "map (\<lambda>j. t_aoData t ! ([0..<length (t_aoData t)] ! j)) [0..<length (t_aoData t)] = t_aoData t"
    by (intro nth_equalityI) simp_all
  then show "t_display t = [0..<length (t_aoData t)] \<Longrightarrow> ?thesis" by (simp add: draw_rows_def)
qed

lemma update_draw:
  assumes "dd_draw json \<le> t_iDraw t" "dd_draw json \<ge> 1"
  shows "fnAjaxUpdateDraw json t = (if dd_draw json < t_iDraw t then t else filled json t)"
  using assms
  by (cases t) (auto simp: fnAjaxUpdateDraw_def Let_def fold_add_data fnClearTable_def set_display_def fnDraw_def
      fnAjaxUpdate_def draw_rows_all filled_def)

lemma drawData_draw: "dd_draw (drawData q res) = rq_draw q \<or> dd_draw (drawData q res) = 1"
  by (auto simp: drawData_def datatables_no_data_def split: option.split)

text \<open>What an answer does to a table in order: one that carries an older number is ignored.\<close>

lemma answer_cases:
  assumes "1 \<le> rq_draw q" "rq_draw q \<le> t_iDraw t"
  shows "answer_request q res t =
    (let t1 = t\<lparr>t_dataLen := answered_len res (t_dataLen t)\<rparr> in
     if dd_draw (drawData q res) < t_iDraw t then t1 else filled (drawData q res) t1)"
proof -
  have "1 \<le> dd_draw (drawData q res)" "dd_draw (drawData q res) \<le> t_iDraw t" using drawData_draw [of q res] assms by auto
  then show ?thesis by (simp add: answer_request_def Let_def update_draw)
qed

lemma fnDraw_ok:
  assumes "table_base len t"
  shows "table_ok len (fnDraw t)"
proof -
  have "q \<in> set (t_requests t) \<Longrightarrow> rq_draw q \<noteq> t_iDraw t + 1" for q using assms by (force simp: table_base_def)
  then show ?thesis using assms
    by (auto simp: table_ok_def table_base_def fnDraw_def fnAjaxUpdate_def Let_def fnBuildAjax_def page_request_def
        fnAjaxParameters_def)
qed

lemma page_change_dvd:
  "displayLength s dvd displayStart s \<Longrightarrow> displayLength s dvd displayStart (snd (fnPageChange a s))"
  "displayLength (snd (fnPageChange a s)) = displayLength s"
  by (cases a; simp add: fnPageChange_def Let_def)+

lemma base_paging:
  "table_base len t \<Longrightarrow> displayLength s = len \<Longrightarrow> len dvd displayStart s \<Longrightarrow> table_base len (t\<lparr>t_paging := s\<rparr>)"
  by (simp add: table_base_def)

lemma redraw_ok: "table_base len t \<Longrightarrow> table_ok len (redraw h t)"
  unfolding redraw_def Let_def by (rule fnDraw_ok) (simp add: table_base_def set_display_def)

lemma click_ok: "table_ok len t \<Longrightarrow> table_ok len (click a t)"
proof -
  assume ok: "table_ok len t"
  obtain c s where c: "fnPageChange a (t_paging t) = (c, s)" by (cases "fnPageChange a (t_paging t)")
  have base: "table_base len t" using ok by (simp add: table_ok_def)
  then have "table_base len (t\<lparr>t_paging := s\<rparr>)"
    using page_change_dvd [where s = "t_paging t" and a = a] c by (intro base_paging) (auto simp: table_base_def)
  moreover have "\<not> c \<Longrightarrow> s = t_paging t" using c by (auto simp: fnPageChange_def Let_def)
  ultimately show ?thesis using ok fnDraw_ok by (auto simp: click_def c Let_def)
qed

lemma set_remove_at: "set (remove_at k xs) \<subseteq> set xs" "distinct (map f xs) \<Longrightarrow> distinct (map f (remove_at k xs))"
proof -
  show "set (remove_at k xs) \<subseteq> set xs" by (auto simp: remove_at_def dest: in_set_takeD in_set_dropD)
  show "distinct (map f (remove_at k xs))" if d: "distinct (map f xs)"
  proof -
    have "distinct (take k (map f xs))" "distinct (drop (Suc k) (map f xs))" using d by simp_all
    moreover have "set (take k (map f xs)) \<inter> set (drop (Suc k) (map f xs)) = {}"
      using d by (intro set_take_disj_set_drop_if_distinct) simp_all
    ultimately show ?thesis by (simp add: remove_at_def take_map drop_map)
  qed
qed

lemma in_remove_at: "x \<in> set (remove_at k xs) \<Longrightarrow> \<exists>j < length xs. j \<noteq> k \<and> x = xs ! j"
proof -
  have "x \<in> set (take k xs) \<Longrightarrow> ?thesis" by (fastforce simp: in_set_conv_nth)
  moreover have "\<exists>j < length xs. j \<noteq> k \<and> xs ! Suc (k + i) = xs ! j" if "i < length xs - Suc k" for i
    by (rule exI [of _ "Suc (k + i)"]) (use that in simp)
  then have "x \<in> set (drop (Suc k) xs) \<Longrightarrow> ?thesis" by (auto simp: in_set_conv_nth)
  moreover assume "x \<in> set (remove_at k xs)"
  ultimately show ?thesis by (auto simp: remove_at_def)
qed

lemma answer_ok:
  assumes "table_ok len t" "1 \<le> rq_draw q" "rq_draw q \<le> t_iDraw t"
  shows "table_ok len (answer_request q res t)"
  using assms(1) unfolding answer_cases [OF assms(2,3)]
  by (auto simp: Let_def table_ok_def table_base_def filled_def)

lemma table_ok_remove: "table_ok len t \<Longrightarrow> table_ok len (t\<lparr>t_requests := remove_at k (t_requests t)\<rparr>)"
  using set_remove_at by (fastforce simp: table_ok_def table_base_def)

lemma table_step_ok: "table_ok len t \<Longrightarrow> table_ok len (table_step e t)"
proof (cases e)
  case (Click a) then show "table_ok len t \<Longrightarrow> ?thesis" using click_ok by simp
next
  case (Reload r)
  assume ok: "table_ok len t"
  then have "table_base len t" by (simp add: table_ok_def)
  moreover from this have "table_base len (t\<lparr>t_paging := snd (fnPageChange (Page n) (t_paging t))\<rparr>)" for n
    using page_change_dvd [where s = "t_paging t" and a = "Page n"] by (intro base_paging) (auto simp: table_base_def)
  ultimately show ?thesis using ok redraw_ok by (auto simp: Reload reload_table_def split: reload.split)
next
  case (Answer k res)
  assume ok: "table_ok len t"
  show ?thesis
  proof (cases "k < length (t_requests t)")
    case True
    then have "t_requests t ! k \<in> set (t_requests t)" by simp
    then have "1 \<le> rq_draw (t_requests t ! k)" "rq_draw (t_requests t ! k) \<le> t_iDraw t"
      using ok by (auto simp: table_ok_def table_base_def)
    then show ?thesis using answer_ok [OF table_ok_remove [OF ok]] True by (simp add: Answer)
  qed (simp add: Answer ok)
qed

lemma run_table_ok: "table_ok len (run_table len es)"
proof -
  have "table_ok len (fnInitialise len)"
    unfolding fnInitialise_def by (rule redraw_ok) (simp add: table_base_def new_table_def)
  then have "table_ok len (fold table_step es (fnInitialise len))"
    by (induction es rule: rev_induct) (auto intro: table_step_ok)
  then show ?thesis by (simp add: run_table_def)
qed

subsection \<open>What the tables show\<close>

primrec is_answer :: "'r table_event \<Rightarrow> bool" where
  "is_answer (Answer k res) = True"
| "is_answer (Click a) = False"
| "is_answer (Reload r) = False"

text \<open>What the user sees of a table.\<close>

definition seen :: "'r table \<Rightarrow> 'r list \<times> int \<times> int \<times> bool" where
  "seen t = (t_tbody t, displayStart (t_paging t), recordsDisplay (t_paging t), t_processing t)"

text \<open>Answers to requests that are not the last one change nothing that is seen.\<close>

lemma late_answers:
  assumes "table_ok len t" "\<forall>q \<in> set (t_requests t). rq_draw q < t_iDraw t" "list_all is_answer es"
  shows "seen (fold table_step es t) = seen t"
  using assms
proof (induction es arbitrary: t)
  case (Cons e es)
  let ?t = "table_step e t"
  have "seen ?t = seen t \<and> t_iDraw ?t = t_iDraw t \<and> set (t_requests ?t) \<subseteq> set (t_requests t)"
  proof (cases e)
    case (Answer k res)
    show ?thesis
    proof (cases "k < length (t_requests t)")
      case True
      let ?q = "t_requests t ! k"
      have q: "?q \<in> set (t_requests t)" using True by simp
      then have b: "1 \<le> rq_draw ?q" "rq_draw ?q < t_iDraw t" using Cons(2,3) by (auto simp: table_ok_def table_base_def)
      then have "dd_draw (drawData ?q res) < t_iDraw t" using drawData_draw [of ?q res] by auto
      then show ?thesis using b True set_remove_at(1) [of k "t_requests t"]
        by (simp add: Answer answer_cases Let_def seen_def)
    qed (simp add: Answer)
  qed (use Cons(4) in simp_all)
  then show ?case using Cons(1) [OF table_step_ok [OF Cons(2)], of e] Cons(3,4) by (auto simp: subset_iff)
qed simp

lemma last_answer:
  assumes "table_ok len t" "k < length (t_requests t)" "rq_draw (t_requests t ! k) = t_iDraw t"
  shows "\<forall>q \<in> set (t_requests (table_step (Answer k res) t)). rq_draw q < t_iDraw (table_step (Answer k res) t)"
    "t_iDraw (table_step (Answer k res) t) = t_iDraw t"
proof -
  let ?q = "t_requests t ! k"
  have "1 \<le> rq_draw ?q" "rq_draw ?q \<le> t_iDraw t" using assms(1,3) by (auto simp: table_ok_def)
  then have step: "t_iDraw (table_step (Answer k res) t) = t_iDraw t"
    "t_requests (table_step (Answer k res) t) = remove_at k (t_requests t)"
    using assms(2) by (auto simp: answer_cases Let_def filled_def)
  show "t_iDraw (table_step (Answer k res) t) = t_iDraw t" by (rule step(1))
  have d: "distinct (map rq_draw (t_requests t))" using assms(1) by (simp add: table_ok_def table_base_def)
  show "\<forall>q \<in> set (t_requests (table_step (Answer k res) t)). rq_draw q < t_iDraw (table_step (Answer k res) t)"
  proof
    fix q assume "q \<in> set (t_requests (table_step (Answer k res) t))"
    then have q: "q \<in> set (remove_at k (t_requests t))" using step by simp
    then obtain j where "j < length (t_requests t)" "j \<noteq> k" "q = t_requests t ! j"
      using in_remove_at by metis
    then have "rq_draw q \<noteq> t_iDraw t" using d assms(2,3) nth_eq_iff_index_eq [OF d, of j k] by simp
    moreover have "rq_draw q \<le> t_iDraw t"
      using q set_remove_at(1) assms(1) by (fastforce simp: table_ok_def table_base_def)
    ultimately show "rq_draw q < t_iDraw (table_step (Answer k res) t)" using step by simp
  qed
qed

text \<open>C16: Whatever the user did before and in whatever order the answers arrive, once the broker has answered
  the last request of a table with rows, the table shows exactly the rows of the page it is
  positioned at, and late answers to earlier requests change nothing.\<close>

theorem table_shows_page:
  assumes "t = run_table len es" "0 < len" "0 \<le> displayStart (t_paging t)" "rows \<noteq> []"
    and "k < length (t_requests t)" "q = t_requests t ! k" "rq_draw q = t_iDraw t" "list_all is_answer late"
  shows "seen (fold table_step late (table_step (Answer k (Some (getAdmins rows (rq_pageNum q) (rq_length q)))) t)) =
    (take (nat len) (drop (nat (displayStart (t_paging t))) rows), displayStart (t_paging t), int (length rows), False)"
proof -
  let ?res = "getAdmins rows (rq_pageNum q) (rq_length q)"
  have ok: "table_ok len t" unfolding assms(1) by (rule run_table_ok)
  have q: "rq_length q = len" "rq_pageNum q = displayStart (t_paging t) div len + 1" "1 \<le> rq_draw q"
    using ok assms(5-7) by (auto simp: table_ok_def table_base_def)
  have "len dvd displayStart (t_paging t)" using ok by (simp add: table_ok_def table_base_def)
  then obtain p where p: "displayStart (t_paging t) = len * p" ..
  have "0 \<le> p" using assms(2,3) by (simp add: p zero_le_mult_iff)
  then have items: "query_rows rows (rq_pageNum q) (rq_length q) = take (nat len) (drop (nat (displayStart (t_paging t))) rows)"
    using assms(2) q by (simp add: query_rows_def Let_def p mult.commute)
  have "seen (table_step (Answer k (Some ?res)) t) =
      (take (nat len) (drop (nat (displayStart (t_paging t))) rows), displayStart (t_paging t), int (length rows), False)"
    using assms(4-7) q items
    by (simp add: answer_cases Let_def drawData_def getAdmins_def filled_def seen_def)
  then show ?thesis
    using late_answers [OF table_step_ok [OF ok] last_answer(1) [OF ok assms(5)] assms(8)] assms(6,7) by simp
qed

definition sample_table :: "int table_event list" where
  "sample_table = [Answer 0 (Some (getAdmins [1, 2, 3, 4, 5] 1 2)), Click (Page 1), Click Next]"


theorem table_shows_page_witness:
  "seen (fold table_step [Answer 0 (Some (getAdmins [1, 2, 3, 4, 5] 2 2))]
     (table_step (Answer 1 (Some (getAdmins [1, 2, 3, 4, 5] 3 2))) (run_table 2 sample_table))) =
   ([5], 4, 5, False)"
proof -
  let ?t = "run_table 2 sample_table"
  have t: "length (t_requests ?t) = 2" "displayStart (t_paging ?t) = 4" "t_iDraw ?t = 3"
    "rq_draw (t_requests ?t ! 1) = 3" "rq_pageNum (t_requests ?t ! 1) = 3" "rq_length (t_requests ?t ! 1) = 2"
    by code_simp+
  show ?thesis
    using table_shows_page [OF refl, of 2 sample_table "[1, 2, 3, 4, 5]" 1, OF _ _ _ _ refl] t
    by (simp del: table_step.simps fold.simps)
qed

text \<open>C17: An answer that brings no rows is only obeyed if it is the first of the table: the page's function
  hands \<open>datatables_no_data\<close> to the table with the number 1, which the table takes for the answer to its
  first request. When the last row was deleted, or a request failed, the table goes on showing
  the old rows and the sign that it is busy.\<close>

theorem empty_answer_ignored:
  assumes "t = run_table len es" "1 < t_iDraw t" "k < length (t_requests t)"
    and "case res of None \<Rightarrow> True | Some r \<Rightarrow> rs_code r \<noteq> 1 \<or> rs_total r = 0 \<or> rs_items r = None"
  shows "seen (table_step (Answer k res) t) = seen t"
proof -
  have ok: "table_ok len t" unfolding assms(1) by (rule run_table_ok)
  have "t_requests t ! k \<in> set (t_requests t)" using assms(3) by simp
  then have "1 \<le> rq_draw (t_requests t ! k)" "rq_draw (t_requests t ! k) \<le> t_iDraw t"
    using ok by (auto simp: table_ok_def table_base_def)
  moreover have "drawData (t_requests t ! k) res = datatables_no_data"
    using assms(4) by (auto simp: drawData_def split: option.splits)
  ultimately show ?thesis using assms(2,3) by (simp add: answer_cases Let_def datatables_no_data_def seen_def)
qed

text \<open>A table of one row: it is deleted, the table is loaded again, and the broker has no rows left.\<close>

theorem empty_answer_ignored_witness:
  "seen (table_step (Answer 0 (Some (getAdmins [] 1 10)))
     (run_table 10 [Answer 0 (Some (getAdmins [7 :: int] 1 10)), Reload (datatablesReload True 1 1 True)])) =
   ([7], - 10, 1, True)"
proof -
  let ?t = "run_table 10 [Answer 0 (Some (getAdmins [7 :: int] 1 10)), Reload (datatablesReload True 1 1 True)]"
  have "seen ?t = ([7], - 10, 1, True)" "1 < t_iDraw ?t" "0 < length (t_requests ?t)" by code_simp+
  then show ?thesis using empty_answer_ignored [OF refl, of 10 "[Answer 0 (Some (getAdmins [7 :: int] 1 10)), Reload (datatablesReload True 1 1 True)]" 0 "Some (getAdmins [] 1 10)"]
    by (simp add: getAdmins_def)
qed

end
