(* ===== verification/Dates.thy ===== *)
theory Dates
  imports Prelude
begin

text \<open>
  Date formatting of \<open>ui/js/date.ext.js\<close>. A date is the tuple of its local fields; the clock
  and the conversion of a time stamp to local fields are the parameters \<open>now\<close> and \<open>of_long\<close>.
\<close>

record date =
  getFullYear :: nat
  getMonth :: nat
  getDate :: nat
  getHours :: nat
  getMinutes :: nat
  getSeconds :: nat
  getMilliseconds :: nat

text \<open>
  \<open>RegExp("(c+)")\<close> and the replacement of its match: the leftmost run of the letter, whole or,
  for the pattern \<open>S\<close>, its first letter only.
\<close>

definition replace_run :: "bool \<Rightarrow> 16 word \<Rightarrow> (nat \<Rightarrow> js_string) \<Rightarrow> js_string \<Rightarrow> js_string" where
  "replace_run whole c f s =
     (let pre = takeWhile (\<lambda>u. u \<noteq> c) s; rest = dropWhile (\<lambda>u. u \<noteq> c) s;
          n = (if whole then length (takeWhile (\<lambda>u. u = c) rest) else 1) in
      if rest = [] then s else pre @ f n @ drop n rest)"

text \<open>\<open>substr\<close> with one argument; a negative position counts from the end.\<close>

definition substr :: "js_string \<Rightarrow> int \<Rightarrow> js_string" where
  "substr s i = drop (nat (if i < 0 then max 0 (int (length s) + i) else i)) s"

definition year_text :: "nat \<Rightarrow> nat \<Rightarrow> js_string" where
  "year_text y n = substr (show_base 10 y) (4 - int n)"

definition padded :: "nat \<Rightarrow> nat \<Rightarrow> js_string" where
  "padded v n =
     (if n = 1 then show_base 10 v
      else substr (js ''00'' @ show_base 10 v) (int (length (show_base 10 v))))"

definition letter :: "char \<Rightarrow> 16 word" where
  "letter c = of_char c"

definition date_format :: "date \<Rightarrow> js_string \<Rightarrow> js_string" where
  "date_format d format =
     (let s = replace_run True (letter CHR ''y'') (year_text (getFullYear d)) format;
          s = replace_run True (letter CHR ''M'') (padded (getMonth d + 1)) s;
          s = replace_run True (letter CHR ''d'') (padded (getDate d)) s;
          s = replace_run True (letter CHR ''h'') (padded (getHours d)) s;
          s = replace_run True (letter CHR ''m'') (padded (getMinutes d)) s;
          s = replace_run True (letter CHR ''s'') (padded (getSeconds d)) s;
          s = replace_run True (letter CHR ''q'') (padded ((getMonth d + 3) div 3)) s;
          s = replace_run False (letter CHR ''S'') (padded (getMilliseconds d)) s in
      s)"

definition getFormatDate :: "date \<Rightarrow> date option \<Rightarrow> js_string option \<Rightarrow> js_string" where
  "getFormatDate now date pattern =
     date_format (case date of Some d \<Rightarrow> d | None \<Rightarrow> now)
       (case pattern of Some p \<Rightarrow> p | None \<Rightarrow> js ''yyyy-MM-dd hh:mm:ss'')"

definition getSmpFormatDate :: "date \<Rightarrow> date option \<Rightarrow> bool option \<Rightarrow> js_string" where
  "getSmpFormatDate now date isFull =
     getFormatDate now date
       (Some (if isFull = Some True \<or> isFull = None then js ''yyyy-MM-dd hh:mm:ss'' else js ''yyyy-MM-dd''))"

definition getSmpFormatNowDate :: "date \<Rightarrow> bool option \<Rightarrow> js_string" where
  "getSmpFormatNowDate now isFull = getSmpFormatDate now (Some now) isFull"

definition getSmpFormatDateByLong :: "(int \<Rightarrow> date) \<Rightarrow> date \<Rightarrow> int \<Rightarrow> bool option \<Rightarrow> js_string" where
  "getSmpFormatDateByLong of_long now l isFull = getSmpFormatDate now (Some (of_long l)) isFull"

definition getFormatDateByLong :: "(int \<Rightarrow> date) \<Rightarrow> date \<Rightarrow> int \<Rightarrow> js_string option \<Rightarrow> js_string" where
  "getFormatDateByLong of_long now l pattern = getFormatDate now (Some (of_long l)) pattern"

subsection \<open>Properties\<close>

definition two_digits :: "nat \<Rightarrow> js_string" where
  "two_digits n = [digit_char (n div 10), digit_char (n mod 10)]"

lemma replace_run_skip:
  "c \<notin> set xs \<Longrightarrow> replace_run w c f (xs @ s) = xs @ replace_run w c f s"
proof -
  assume "c \<notin> set xs"
  then have "takeWhile (\<lambda>u. u \<noteq> c) (xs @ s) = xs @ takeWhile (\<lambda>u. u \<noteq> c) s"
    "dropWhile (\<lambda>u. u \<noteq> c) (xs @ s) = dropWhile (\<lambda>u. u \<noteq> c) s"
    by (auto intro: takeWhile_append2 dropWhile_append2)
  then show ?thesis by (simp only: replace_run_def Let_def append_assoc split: if_split) auto
qed

lemma replace_run_cons: "x \<noteq> c \<Longrightarrow> replace_run w c f (x # s) = x # replace_run w c f s"
  using replace_run_skip [of c "[x]"] by auto

lemma replace_run_nil: "replace_run w c f [] = []"
  by (simp add: replace_run_def)

lemma replace_run_hit:
  "hd (s @ [0]) \<noteq> c \<Longrightarrow> 0 < n \<Longrightarrow> c \<noteq> 0 \<Longrightarrow> replace_run True c f (replicate n c @ s) = f n @ s"
proof -
  assume a: "hd (s @ [0]) \<noteq> c" "0 < n"
  obtain m where n: "n = Suc m" using a(2) by (cases n) auto
  have "takeWhile (\<lambda>u. u = c) s = []" using a(1) by (cases s) auto
  then have "takeWhile (\<lambda>u. u = c) (replicate m c @ s) = replicate m c"
    by (subst takeWhile_append2) auto
  then show ?thesis by (simp add: replace_run_def n)
qed

lemma replace_run_hit_end: "0 < n \<Longrightarrow> c \<noteq> 0 \<Longrightarrow> replace_run True c f (replicate n c) = f n"
  using replace_run_hit [of "[]" c n f] by simp

lemma replace_run_none: "c \<notin> set xs \<Longrightarrow> replace_run w c f xs = xs"
  using replace_run_skip [of c xs w f "[]"] by (simp add: replace_run_nil)

lemmas replace_run_simps =
  replace_run_hit replace_run_hit_end replace_run_skip replace_run_none replace_run_cons replace_run_nil

lemma show_base_small: "n < 10 \<Longrightarrow> show_base 10 n = [digit_char n]"
  by (simp add: show_base.simps)

lemma padded_two: "n < 100 \<Longrightarrow> padded n 2 = two_digits n"
proof (cases "n < 10")
  case True
  then show ?thesis
    by (simp add: padded_def two_digits_def show_base_small substr_def js_def digit_char_def)
next
  case False
  assume "n < 100"
  then have "show_base 10 n = two_digits n"
    using False by (simp add: show_base.simps [of 10 n] show_base_small two_digits_def)
  then show ?thesis by (simp add: padded_def substr_def two_digits_def js_def)
qed

lemma digit_not_letter: "57 < c \<Longrightarrow> c \<notin> set (show_base 10 n)"
  using show_base_digits [of c n] by (auto simp: is_digit_def)

lemma two_digits_not_letter: "n < 100 \<Longrightarrow> 57 < c \<Longrightarrow> c \<notin> set (two_digits n)"
  using is_digit_char [of "n div 10"] less_mult_imp_div_less [of n 10 10] is_digit_char [of "n mod 10"]
  by (auto simp: two_digits_def is_digit_def)

definition valid_date :: "date \<Rightarrow> bool" where
  "valid_date d \<longleftrightarrow> getFullYear d < 10000 \<and> getMonth d < 12 \<and> getDate d \<le> 31 \<and>
     getHours d < 24 \<and> getMinutes d < 60 \<and> getSeconds d < 60"

lemma date_pattern: "js ''yyyy-MM-dd'' = replicate 4 121 @ 45 # replicate 2 77 @ 45 # replicate 2 100 @ []"
  by (simp add: js_def eval_nat_numeral)

lemma time_pattern: "js ''yyyy-MM-dd hh:mm:ss'' = replicate 4 121 @ 45 # replicate 2 77 @ 45 # replicate 2 100 @ 32 #
    replicate 2 104 @ 58 # replicate 2 109 @ 58 # replicate 2 115 @ []"
  by (simp add: js_def eval_nat_numeral)

lemma month_bound: "m < 12 \<Longrightarrow> Suc m < 100" by simp

lemma date_part:
  assumes "valid_date d"
  shows "date_format d (js ''yyyy-MM-dd'') =
    show_base 10 (getFullYear d) @ [45] @ two_digits (getMonth d + 1) @ [45] @ two_digits (getDate d)"
  using assms
  by (simp add: date_pattern date_format_def Let_def letter_def replace_run_simps
      digit_not_letter two_digits_not_letter padded_two year_text_def substr_def valid_date_def)

lemma time_part:
  assumes "valid_date d"
  shows "date_format d (js ''yyyy-MM-dd hh:mm:ss'') =
    show_base 10 (getFullYear d) @ [45] @ two_digits (getMonth d + 1) @ [45] @ two_digits (getDate d) @ [32] @
    two_digits (getHours d) @ [58] @ two_digits (getMinutes d) @ [58] @ two_digits (getSeconds d)"
  using assms
  by (simp add: time_pattern date_format_def Let_def letter_def replace_run_simps
      digit_not_letter two_digits_not_letter padded_two year_text_def substr_def valid_date_def)

text \<open>
  For a valid local date the full format is the year and the zero-padded month (counted
  from 1), day, hour, minute and second, and the short format is its date part; the full format
  is the default.
\<close>

theorem date_format_standard:
  assumes "valid_date d"
  shows "getSmpFormatDate now (Some d) (Some True) =
      getSmpFormatDate now (Some d) (Some False) @ [32] @
      two_digits (getHours d) @ [58] @ two_digits (getMinutes d) @ [58] @ two_digits (getSeconds d) \<and>
    getSmpFormatDate now (Some d) (Some False) =
      show_base 10 (getFullYear d) @ [45] @ two_digits (getMonth d + 1) @ [45] @ two_digits (getDate d) \<and>
    getSmpFormatDate now (Some d) None = getSmpFormatDate now (Some d) (Some True) \<and>
    getFormatDate now (Some d) None = getSmpFormatDate now (Some d) (Some True)"
  using date_part [OF assms] time_part [OF assms] by (simp add: getSmpFormatDate_def getFormatDate_def)

definition example_date :: date where
  "example_date = \<lparr>getFullYear = 2000, getMonth = 2, getDate = 5, getHours = 1, getMinutes = 5, getSeconds = 4,
     getMilliseconds = 7\<rparr>"

lemma example_date_valid: "valid_date example_date"
  by (simp add: valid_date_def example_date_def)

lemma example_date_text:
  "show_base 10 (getFullYear example_date) @ [45] @ two_digits (getMonth example_date + 1) @ [45] @
     two_digits (getDate example_date) = js ''2000-03-05''"
  by code_simp

theorem date_format_standard_witness:
  "valid_date example_date \<and> getSmpFormatDate example_date (Some example_date) (Some False) = js ''2000-03-05''"
  using date_format_standard [OF example_date_valid, of example_date] example_date_valid example_date_text by simp

end
