(* ===== verification/Topics.thy ===== *)
theory Topics
  imports Prelude "HOL-Library.Sublist" "HOL-Library.AList"
begin

text \<open>
  Topics and filters of the broker (\<open>TopicUtil\<close>, \<open>TopicMatchFunction\<close>, \<open>QosUtil\<close>) and its
  retained messages (\<open>RetainCacheImpl\<close>). Strings are Java strings: UTF-16, never null here. The
  matching of the protocol (\<open>mqtt_matches\<close>, on levels) is the reference; its rule that a leading wildcard
  does not match a topic that begins with a dollar sign is left out, as in the code.
\<close>

subsection \<open>Topics and words\<close>

definition SLASH :: "16 word" where "SLASH = 47"
definition PLUS :: js_string where "PLUS = [43]"
definition POUND :: js_string where "POUND = [35]"

definition contains :: "js_string \<Rightarrow> js_string \<Rightarrow> bool" where
  "contains s x \<longleftrightarrow> indexOf s x \<noteq> None"

text \<open>All levels of a topic, the empty ones included.\<close>

fun levels :: "js_string \<Rightarrow> js_string list" where
  "levels [] = [[]]"
| "levels (c # s) =
     (if c = SLASH then [] # levels s
      else (case levels s of [] \<Rightarrow> [[c]] | l # ls \<Rightarrow> (c # l) # ls))"

text \<open>
  \<open>String.split\<close> with a one-character separator: trailing empty strings are removed, unless the
  separator does not occur.
\<close>

definition strip_empty :: "js_string list \<Rightarrow> js_string list" where
  "strip_empty ls = rev (dropWhile (\<lambda>w. w = []) (rev ls))"

definition split_slash :: "js_string \<Rightarrow> js_string list" where
  "split_slash s = (if SLASH \<in> set s then strip_empty (levels s) else [s])"

definition ends_slash :: "js_string \<Rightarrow> bool" where
  "ends_slash s \<longleftrightarrow> s \<noteq> [] \<and> last s = SLASH"

definition words :: "js_string \<Rightarrow> js_string list" where
  "words topic = (if ends_slash topic then split_slash topic @ [[]] else split_slash topic)"

definition validateTopic :: "js_string \<Rightarrow> bool" where
  "validateTopic topic \<longleftrightarrow> topic \<noteq> []"

definition checkSubscribeTopic :: "js_string \<Rightarrow> bool" where
  "checkSubscribeTopic topic =
     (if \<not> validateTopic topic then False
      else (case indexOf topic POUND of
              Some index \<Rightarrow> index = length topic - 1
            | None \<Rightarrow> True) \<and>
           list_all (\<lambda>word. \<not> (length word > 1 \<and> (contains word POUND \<or> contains word PLUS))) (split_slash topic))"

definition checkPublishTopic :: "js_string \<Rightarrow> bool" where
  "checkPublishTopic topic =
     (if \<not> validateTopic topic \<or> contains topic POUND \<or> contains topic PLUS then False else True)"

definition isWildcard :: "js_string \<Rightarrow> bool" where
  "isWildcard topic \<longleftrightarrow> contains topic POUND \<or> contains topic PLUS"

subsection \<open>TopicMatchFunction\<close>

definition loopMatch :: "js_string list \<Rightarrow> js_string list \<Rightarrow> nat \<Rightarrow> int" where
  "loopMatch topic topicFilter len =
     (if list_all (\<lambda>i. topic ! i = topicFilter ! i \<or> topicFilter ! i = PLUS \<or> topicFilter ! i = POUND) [0..<len] then 1 else 0)"

definition rloopMatch :: "js_string list \<Rightarrow> js_string list \<Rightarrow> nat \<Rightarrow> int" where
  "rloopMatch topic topicFilter len =
     (if list_all (\<lambda>i. topic ! i = topicFilter ! i \<or> topic ! i = PLUS \<or> topic ! i = POUND) [0..<len] then 1 else 0)"

definition match :: "js_string \<Rightarrow> js_string \<Rightarrow> int" where
  "match topic topicFilter =
     (if \<not> validateTopic topic \<or> \<not> validateTopic topicFilter then 0
      else if topicFilter = POUND then 1
      else (let topicWords = words topic; filterWords = words topicFilter;
                topicWordLength = length topicWords; filterWordLength = length filterWords in
            if topicWordLength > filterWordLength then
              (if filterWords ! (filterWordLength - 1) \<noteq> POUND then 0
               else loopMatch topicWords filterWords filterWordLength)
            else if topicWordLength = filterWordLength then loopMatch topicWords filterWords topicWordLength
            else (if filterWordLength - topicWordLength \<ge> 2 then 0
                  else if filterWords ! topicWordLength \<noteq> POUND then 0
                  else loopMatch topicWords filterWords topicWordLength)))"

definition rmatch :: "js_string \<Rightarrow> js_string \<Rightarrow> int" where
  "rmatch topic topicFilter =
     (if \<not> validateTopic topic \<or> \<not> validateTopic topicFilter then 0
      else if topic = POUND then 1
      else (let topicWords = words topic; filterWords = words topicFilter;
                topicWordLength = length topicWords; filterWordLength = length filterWords in
            if topicWordLength > filterWordLength then
              (if topicWordLength - filterWordLength \<ge> 2 then 0
               else if topicWords ! filterWordLength \<noteq> POUND then 0
               else rloopMatch topicWords filterWords filterWordLength)
            else if topicWordLength = filterWordLength then rloopMatch topicWords filterWords topicWordLength
            else (if topicWords ! (topicWordLength - 1) \<noteq> POUND then 0
                  else rloopMatch topicWords filterWords topicWordLength)))"

subsection \<open>Matching as MQTT defines it\<close>

fun mqtt_matches :: "js_string list \<Rightarrow> js_string list \<Rightarrow> bool" where
  "mqtt_matches ts [] \<longleftrightarrow> ts = []"
| "mqtt_matches [] (f # fs) \<longleftrightarrow> f = POUND \<and> fs = []"
| "mqtt_matches (t # ts) (f # fs) \<longleftrightarrow>
     f = POUND \<and> fs = [] \<or> (f = PLUS \<or> f = t) \<and> f \<noteq> POUND \<and> mqtt_matches ts fs"

definition pound_last :: "js_string list \<Rightarrow> bool" where
  "pound_last fs \<longleftrightarrow> POUND \<notin> set (butlast fs)"

definition pointwise :: "js_string list \<Rightarrow> js_string list \<Rightarrow> bool" where
  "pointwise ts fs \<longleftrightarrow> (\<forall>i < length ts. i < length fs \<longrightarrow> ts ! i = fs ! i \<or> fs ! i = PLUS \<or> fs ! i = POUND)"

lemma pointwise_simps [simp]:
  "pointwise [] fs" "pointwise ts []"
  "pointwise (t # ts) (f # fs) \<longleftrightarrow> (t = f \<or> f = PLUS \<or> f = POUND) \<and> pointwise ts fs"
  by (auto simp: pointwise_def nth_Cons split: nat.splits)

lemma pound_last_Cons: "pound_last (f # fs) \<longleftrightarrow> (fs \<noteq> [] \<longrightarrow> f \<noteq> POUND \<and> pound_last fs)"
  by (auto simp: pound_last_def)

lemma mqtt_matches_lengths:
  "pound_last fs \<Longrightarrow> fs \<noteq> [] \<Longrightarrow> mqtt_matches ts fs \<longleftrightarrow> pointwise ts fs \<and>
     (length ts = length fs \<or> length fs = Suc (length ts) \<and> last fs = POUND \<or>
      length ts > length fs \<and> last fs = POUND)"
proof (induction ts fs rule: mqtt_matches.induct)
  case (2 f fs)
  then show ?case by auto
next
  case (3 t ts f fs)
  then show ?case
    by (cases fs) (auto simp: pound_last_Cons)
qed simp

lemma loopMatch_eq:
  "n = min (length ts) (length fs) \<Longrightarrow> loopMatch ts fs n = (if pointwise ts fs then 1 else 0)"
  by (auto simp: loopMatch_def pointwise_def list_all_iff)

lemma match_words:
  assumes "validateTopic t" "validateTopic f" "pound_last (words f)" "words f \<noteq> []" "words POUND = [POUND]"
  shows "match t f = 1 \<longleftrightarrow> mqtt_matches (words t) (words f)"
proof (cases "f = POUND")
  case True
  then show ?thesis using assms by (cases "words t") (simp_all add: match_def)
next
  case False
  have last: "last (words f) = words f ! (length (words f) - 1)" using assms(4) by (rule last_conv_nth)
  consider "length (words t) > length (words f)" | "length (words t) = length (words f)"
    | "length (words f) = Suc (length (words t))" | "length (words f) - length (words t) \<ge> 2" by linarith
  then show ?thesis
    by cases (use False assms(1,2) in \<open>auto simp: mqtt_matches_lengths [OF assms(3,4)] match_def Let_def loopMatch_eq last\<close>)
qed

subsection \<open>Words are levels\<close>

lemma levels_nonempty [simp]: "levels s \<noteq> []"
  by (cases s) (auto split: list.split)

lemma levels_snoc_slash: "levels (s @ [SLASH]) = levels s @ [[]]"
  by (induction s) (auto split: list.split)

lemma levels_snoc: "c \<noteq> SLASH \<Longrightarrow> levels (s @ [c]) = butlast (levels s) @ [last (levels s) @ [c]]"
proof (induction s)
  case (Cons x s)
  then show ?case by (cases "levels s") (auto split: list.split)
qed simp

lemma levels_no_slash: "SLASH \<notin> set s \<Longrightarrow> levels s = [s]"
  by (induction s) auto

lemma levels_chars: "w \<in> set (levels s) \<Longrightarrow> set w \<subseteq> set s - {SLASH}"
proof (induction s arbitrary: w)
  case (Cons c s)
  then show ?case by (cases "levels s") (fastforce split: if_splits)+
qed simp

lemma chars_levels: "c \<in> set s \<Longrightarrow> c \<noteq> SLASH \<Longrightarrow> \<exists>w \<in> set (levels s). c \<in> set w"
proof (induction s)
  case (Cons x s)
  then show ?case by (cases "levels s") (auto split: list.split)
qed simp

lemma last_levels: "last (levels s) = [] \<longleftrightarrow> s = [] \<or> ends_slash s"
proof (cases s rule: rev_cases)
  case (snoc t c)
  then show ?thesis by (cases "c = SLASH") (simp_all add: levels_snoc_slash levels_snoc ends_slash_def)
qed simp

lemma strip_empty_id: "ls \<noteq> [] \<Longrightarrow> last ls \<noteq> [] \<Longrightarrow> strip_empty ls = ls"
  by (cases ls rule: rev_cases) (simp_all add: strip_empty_def)

lemma strip_empty_snoc [simp]: "strip_empty (ls @ [[]]) = strip_empty ls"
  by (simp add: strip_empty_def)

lemma strip_empty_eq: "ls \<noteq> [] \<Longrightarrow> strip_empty ls = ls \<longleftrightarrow> last ls \<noteq> []"
proof (cases ls rule: rev_cases)
  case (snoc xs x)
  have "length (strip_empty xs) \<le> length xs" using length_dropWhile_le [of _ "rev xs"] by (simp add: strip_empty_def)
  then have "strip_empty (xs @ [[]]) \<noteq> xs @ [[]]" by (metis length_append_singleton not_less_eq_eq order_refl strip_empty_snoc)
  then show ?thesis using snoc strip_empty_id [of ls] by (cases "x = []") auto
qed simp

lemma words_not_ends: "t \<noteq> [] \<Longrightarrow> \<not> ends_slash t \<Longrightarrow> words t = levels t"
  using strip_empty_eq [OF levels_nonempty] by (simp add: words_def split_slash_def levels_no_slash last_levels)

lemma words_ends: "words (t @ [SLASH]) = strip_empty (levels t) @ [[]]"
  by (simp add: words_def split_slash_def ends_slash_def levels_snoc_slash)

text \<open>Topics whose words are their levels.\<close>

definition regular :: "js_string \<Rightarrow> bool" where
  "regular t \<longleftrightarrow> \<not> (ends_slash t \<and> (butlast t = [] \<or> ends_slash (butlast t)))"

lemma words_levels: "t \<noteq> [] \<Longrightarrow> words t = levels t \<longleftrightarrow> regular t"
proof (cases t rule: rev_cases)
  case (snoc s c)
  show ?thesis
  proof (cases "c = SLASH")
    case True
    then show ?thesis
      using strip_empty_eq [OF levels_nonempty [of s]]
      by (auto simp: snoc words_ends levels_snoc_slash regular_def ends_slash_def [of "s @ [SLASH]"] last_levels)
  next
    case False
    then show ?thesis using words_not_ends [of t] by (simp add: snoc regular_def ends_slash_def)
  qed
qed simp

lemma words_nonempty [simp]: "t \<noteq> [] \<Longrightarrow> words t \<noteq> []"
  by (cases "ends_slash t") (simp_all add: words_not_ends, simp add: words_def)

lemma words_POUND: "words POUND = [POUND]"
  by code_simp

text \<open>Wildcards of a valid filter.\<close>

lemma contains_char: "contains s [c] \<longleftrightarrow> c \<in> set s"
  by (induction s) (auto simp: contains_def)

lemma index_char: "indexOf s [c] = Some i \<Longrightarrow> i < length s \<and> s ! i = c \<and> c \<notin> set (take i s)"
  by (induction s arbitrary: i) (fastforce split: if_splits)+

lemma words_chars: "w \<in> set (words t) \<Longrightarrow> set w \<subseteq> set t - {SLASH}"
proof -
  assume w: "w \<in> set (words t)"
  have "set (strip_empty ls) \<subseteq> set ls" for ls
    unfolding strip_empty_def by (metis set_dropWhileD set_rev subsetI)
  then have "w = [] \<or> w \<in> set (levels t)" using w
    by (auto simp: words_def split_slash_def levels_no_slash split: if_splits)
  then show ?thesis using levels_chars by auto
qed

lemma subscribe_pound_last: "checkSubscribeTopic f \<Longrightarrow> pound_last (words f)"
proof -
  assume f: "checkSubscribeTopic f"
  show ?thesis
  proof (cases "indexOf f POUND")
    case None
    then have "35 \<notin> set f" using contains_char [of f 35] by (simp add: contains_def POUND_def)
    then have "POUND \<notin> set (words f)" using words_chars [of POUND f] by (auto simp: POUND_def)
    then show ?thesis by (meson in_set_butlastD pound_last_def)
  next
    case (Some i)
    then have "i = length f - 1" "f \<noteq> []" using f by (auto simp: checkSubscribeTopic_def validateTopic_def split: if_splits)
    then have l: "last f = 35" "35 \<notin> set (butlast f)"
      using index_char [of f 35 i] Some by (simp_all add: POUND_def last_conv_nth butlast_conv_take)
    obtain g where g: "f = g @ [35]" "35 \<notin> set g" using l \<open>f \<noteq> []\<close> by (metis append_butlast_last_id)
    have "butlast (words f) = butlast (levels g)"
      using g words_not_ends [of f] levels_snoc [of 35 g] by (simp add: ends_slash_def SLASH_def)
    then show ?thesis using levels_chars [of POUND g] g(2) by (auto simp: pound_last_def POUND_def dest: in_set_butlastD)
  qed
qed

text \<open>
  C23: The topic filter of the broker is that of the protocol: for every topic and every filter the
  broker accepts in a subscription, \<open>match\<close> holds exactly when the levels match, with
  \<open>+\<close> standing for one level and a final \<open>#\<close> for the rest, the parent level included. (Both
  are neither a single slash nor end in two: there words are not levels.)
\<close>

theorem topic_match_correct:
  assumes "validateTopic t" "checkSubscribeTopic f" "regular t" "regular f"
  shows "match t f = 1 \<longleftrightarrow> mqtt_matches (levels t) (levels f)"
proof -
  have ne: "t \<noteq> []" "f \<noteq> []" using assms(1,2) by (auto simp: validateTopic_def checkSubscribeTopic_def split: if_splits)
  from match_words [OF assms(1) _ subscribe_pound_last [OF assms(2)] words_nonempty [OF ne(2)] words_POUND] ne(2)
  have "match t f = 1 \<longleftrightarrow> mqtt_matches (words t) (words f)" by (simp add: validateTopic_def)
  then show ?thesis using words_levels [OF ne(1)] words_levels [OF ne(2)] assms(3,4) by simp
qed

text \<open>Where words are not levels, matching goes wrong: a single slash has two levels, and one word.\<close>

lemma slash_matches_plus:
  "match [SLASH] PLUS = 1 \<and> \<not> mqtt_matches (levels [SLASH]) (levels PLUS) \<and> checkSubscribeTopic PLUS"
  by code_simp

subsection \<open>QoS\<close>

definition downgrade :: "int \<Rightarrow> int \<Rightarrow> int" where
  "downgrade messageQos topicQos = (if messageQos < topicQos then messageQos else topicQos)"

definition upgrade :: "int \<Rightarrow> int \<Rightarrow> int" where
  "upgrade messageQos topicQos = (if messageQos > topicQos then messageQos else topicQos)"

definition calculate :: "bool \<Rightarrow> int \<Rightarrow> int \<Rightarrow> int" where
  "calculate upgradeQos messageQos topicQos =
     (if upgradeQos then upgrade messageQos topicQos else downgrade messageQos topicQos)"

subsection \<open>Retained messages\<close>

record retain_message =
  rt_topic :: js_string
  rt_payload :: bytes
  rt_qos :: int
  rt_dup :: bool

type_synonym retain_cache = "(js_string \<times> retain_message) list"

definition retain_save :: "nat \<Rightarrow> retain_message \<Rightarrow> retain_cache \<Rightarrow> retain_cache" where
  "retain_save maxCapacity message cache =
     (if \<not> validateTopic (rt_topic message) then cache
      else (let cache = (if map_of cache (rt_topic message) \<noteq> None
                         then AList.update (rt_topic message) message cache else cache) in
            if length cache \<ge> maxCapacity then cache
            else AList.update (rt_topic message) message cache))"

definition retain_delete :: "js_string \<Rightarrow> retain_cache \<Rightarrow> bool \<times> retain_cache" where
  "retain_delete topic cache =
     (if \<not> validateTopic topic then (False, cache)
      else (map_of cache topic \<noteq> None, AList.delete topic cache))"

definition retain_get :: "bool \<Rightarrow> retain_cache \<Rightarrow> js_string \<Rightarrow> int \<Rightarrow> retain_message list option" where
  "retain_get upgradeQos cache topic q =
     (if \<not> validateTopic topic then None
      else Some (map (\<lambda>r. r\<lparr>rt_qos := calculate upgradeQos (rt_qos r) q\<rparr>)
                  (filter (\<lambda>r. rmatch (rt_topic r) topic = 1) (map snd cache))))"

lemma rloopMatch_plain:
  assumes "PLUS \<notin> set ts" "POUND \<notin> set ts" "length fs = length ts"
  shows "rloopMatch ts fs (length ts) = (if ts = fs then 1 else 0)"
proof -
  have "ts ! i \<noteq> PLUS \<and> ts ! i \<noteq> POUND" if "i < length ts" for i
    using assms that by (metis nth_mem)
  then have "list_all (\<lambda>i. ts ! i = fs ! i \<or> ts ! i = PLUS \<or> ts ! i = POUND) [0..<length ts] \<longleftrightarrow>
      (\<forall>i < length ts. ts ! i = fs ! i)" by (auto simp: list_all_iff)
  also have "\<dots> \<longleftrightarrow> ts = fs" using assms(3) by (simp add: list_eq_iff_nth_eq)
  finally show ?thesis by (simp add: rloopMatch_def)
qed

lemma publish_words:
  assumes "checkPublishTopic t"
  shows "PLUS \<notin> set (words t)" "POUND \<notin> set (words t)" "words t \<noteq> []" "validateTopic t" "t \<noteq> POUND"
proof -
  have c: "43 \<notin> set t" "35 \<notin> set t" "t \<noteq> []"
    using assms by (auto simp: checkPublishTopic_def validateTopic_def PLUS_def POUND_def contains_char split: if_splits)
  then show "PLUS \<notin> set (words t)" "POUND \<notin> set (words t)"
    using words_chars [of PLUS t] words_chars [of POUND t] by (auto simp: PLUS_def POUND_def)
  show "words t \<noteq> []" "validateTopic t" "t \<noteq> POUND" using c by (auto simp: validateTopic_def POUND_def)
qed

text \<open>The first argument of \<open>rmatch\<close> is the one whose wildcards count; a published topic has none.\<close>

lemma rmatch_published:
  assumes t: "checkPublishTopic t" and f: "validateTopic f"
  shows "rmatch t f = 1 \<longleftrightarrow> words t = words f"
proof -
  note p = publish_words [OF t]
  have "words t ! i \<noteq> POUND" if "i < length (words t)" for i using p(2) that by (metis nth_mem)
  then show ?thesis
    using p f rloopMatch_plain [OF p(1,2), of "words f"] by (auto simp: rmatch_def Let_def split: if_splits)
qed

lemma wildcard_words:
  assumes "isWildcard f"
  shows "\<exists>w \<in> set (words f). 35 \<in> set w \<or> 43 \<in> set w"
proof -
  have ne: "f \<noteq> []" and c: "35 \<in> set f \<or> 43 \<in> set f"
    using assms by (auto simp: isWildcard_def PLUS_def POUND_def contains_char)
  then obtain c w where w: "w \<in> set (levels f)" "c \<in> set w" "c = 35 \<or> c = 43"
    using chars_levels [of 35 f] chars_levels [of 43 f] by (auto simp: SLASH_def)
  have strip: "w \<in> set (strip_empty ls)" if "w \<in> set ls" "w \<noteq> []" for ls
    using that by (induction ls rule: rev_induct) (auto simp: strip_empty_def)
  have "w \<in> set (words f)"
    using w(1) strip [OF w(1)] w(2) by (cases "w = []") (auto simp: words_def split_slash_def levels_no_slash)
  then show ?thesis using w by blast
qed

text \<open>
  C36: Retained messages are given to new subscriptions by exact topic only: a subscription gets those
  whose topic has the same words as its filter, and one with a wildcard gets none at all,
  although its filter matches them. (The stored topic is passed to \<open>rmatch\<close> in the place of the
  filter.)
\<close>

theorem retained_by_exact_topic:
  assumes "list_all (\<lambda>r. checkPublishTopic (rt_topic r)) (map snd cache)" "validateTopic f"
  shows "retain_get upgradeQos cache f q =
      Some (map (\<lambda>r. r\<lparr>rt_qos := calculate upgradeQos (rt_qos r) q\<rparr>)
        (filter (\<lambda>r. words (rt_topic r) = words f) (map snd cache))) \<and>
    (isWildcard f \<longrightarrow> retain_get upgradeQos cache f q = Some [])"
proof -
  have eq: "rmatch (rt_topic r) f = 1 \<longleftrightarrow> words (rt_topic r) = words f" if "r \<in> set (map snd cache)" for r
    using assms that by (intro rmatch_published) (auto simp: list_all_iff)
  then have "filter (\<lambda>r. rmatch (rt_topic r) f = 1) (map snd cache) =
      filter (\<lambda>r. words (rt_topic r) = words f) (map snd cache)" by (intro filter_cong refl)
  then have get: "retain_get upgradeQos cache f q =
      Some (map (\<lambda>r. r\<lparr>rt_qos := calculate upgradeQos (rt_qos r) q\<rparr>)
        (filter (\<lambda>r. words (rt_topic r) = words f) (map snd cache)))"
    using assms(2) by (simp only: retain_get_def if_True simp_thms if_False)
  have "words (rt_topic r) \<noteq> words f" if r: "r \<in> set (map snd cache)" "isWildcard f" for r
  proof
    assume "words (rt_topic r) = words f"
    then obtain w where "w \<in> set (words (rt_topic r))" "35 \<in> set w \<or> 43 \<in> set w"
      using wildcard_words [OF r(2)] by auto
    then have "35 \<in> set (rt_topic r) \<or> 43 \<in> set (rt_topic r)" using words_chars by blast
    moreover have "checkPublishTopic (rt_topic r)" using assms(1) r(1) by (auto simp: list_all_iff)
    ultimately show False
      by (auto simp: checkPublishTopic_def PLUS_def POUND_def contains_char split: if_splits)
  qed
  then show ?thesis using get by (auto simp: filter_empty_conv)
qed

definition retained_example :: retain_cache where
  "retained_example = retain_save 10 \<lparr>rt_topic = js ''a/b'', rt_payload = [1], rt_qos = 1, rt_dup = False\<rparr> []"

theorem retained_by_exact_topic_witness:
  "retain_get False retained_example (js ''a/+'') 2 = Some [] \<and>
   mqtt_matches (levels (js ''a/b'')) (levels (js ''a/+''))"
proof -
  have "list_all (\<lambda>r. checkPublishTopic (rt_topic r)) (map snd retained_example)" "validateTopic (js ''a/+'')"
    "isWildcard (js ''a/+'')" "mqtt_matches (levels (js ''a/b'')) (levels (js ''a/+''))"
    by code_simp+
  then show ?thesis using retained_by_exact_topic [of retained_example "js ''a/+''" False 2] by blast
qed

theorem topic_match_correct_witness:
  "checkSubscribeTopic (js ''a/+/#'') \<and> regular (js ''a/b/c/d'') \<and> match (js ''a/b/c/d'') (js ''a/+/#'') = 1 \<and>
   mqtt_matches (levels (js ''a/b/c/d'')) (levels (js ''a/+/#''))"
proof -
  have "validateTopic (js ''a/b/c/d'')" "checkSubscribeTopic (js ''a/+/#'')" "regular (js ''a/b/c/d'')"
    "regular (js ''a/+/#'')" "mqtt_matches (levels (js ''a/b/c/d'')) (levels (js ''a/+/#''))"
    by code_simp+
  then show ?thesis using topic_match_correct [of "js ''a/b/c/d''" "js ''a/+/#''"] by blast
qed

end
