(* ===== verification/Acl.thy ===== *)
theory Acl
  imports Topics "HOL-Library.Multiset"
begin

text \<open>
  Access control of the broker: the entries of \<open>AclCacheImpl\<close>, the matching and the decision of
  \<open>AuthUtil\<close>, composed as in \<open>LocalAuthServiceImpl\<close> and the packet handlers.
\<close>

subsection \<open>Entries and targets\<close>

datatype access = Sub | Pub | SubPub
datatype authority = Deny | Allow
datatype target = Username | IpAddr | ClientId | AllClients

record acl =
  acl_seq :: int
  acl_target :: js_string
  acl_type :: target
  acl_topic :: js_string
  acl_access :: access
  acl_authority :: authority

definition ALL_TARGETS :: js_string where "ALL_TARGETS = js ''$all''"
definition EQ_PREFIX :: js_string where "EQ_PREFIX = js ''eq(''"
definition EQ_SUFFIX :: js_string where "EQ_SUFFIX = js '')''"

text \<open>The cache: entries under their sequence numbers, and the counter of \<open>IgniteAtomicSequence\<close>.\<close>

record acl_cache =
  acl_rows :: "(int \<times> acl) list"
  acl_sequence :: int

definition acl_entries :: "acl_cache \<Rightarrow> acl list" where
  "acl_entries c = map snd (acl_rows c)"

definition acl_add :: "acl \<Rightarrow> acl_cache \<Rightarrow> int \<times> acl_cache" where
  "acl_add a c =
     (let s = acl_sequence c + 1 in
      (s, c\<lparr>acl_rows := AList.update s (a\<lparr>acl_seq := s\<rparr>) (acl_rows c), acl_sequence := s\<rparr>))"

definition acl_delete :: "int \<Rightarrow> acl_cache \<Rightarrow> bool \<times> acl_cache" where
  "acl_delete s c =
     (if map_of (acl_rows c) s \<noteq> None then (True, c\<lparr>acl_rows := AList.delete s (acl_rows c)\<rparr>) else (False, c))"

definition acl_update :: "acl \<Rightarrow> acl_cache \<Rightarrow> bool \<times> acl_cache" where
  "acl_update a c =
     (if map_of (acl_rows c) (acl_seq a) \<noteq> None
      then (True, c\<lparr>acl_rows := AList.update (acl_seq a) a (acl_rows c)\<rparr>) else (False, c))"

definition acl_reorder :: "acl list \<Rightarrow> acl_cache \<Rightarrow> nat \<times> acl_cache" where
  "acl_reorder as c =
     (length as, c\<lparr>acl_rows := fold (\<lambda>a. AList.update (acl_seq a) a) as (acl_rows c)\<rparr>)"

definition acl_entry :: "string \<Rightarrow> target \<Rightarrow> string \<Rightarrow> access \<Rightarrow> authority \<Rightarrow> acl" where
  "acl_entry tgt ty topic acc auth =
     \<lparr>acl_seq = 0, acl_target = js tgt, acl_type = ty, acl_topic = js topic, acl_access = acc, acl_authority = auth\<rparr>"

text \<open>The entries that the broker makes when it starts for the first time.\<close>

definition acl_init :: "acl_cache \<Rightarrow> acl_cache" where
  "acl_init c =
     (if acl_rows c \<noteq> [] \<or> acl_sequence c > 0 then c
      else fold (\<lambda>a c. snd (acl_add a c))
             [acl_entry ''$all'' AllClients ''#'' SubPub Allow, acl_entry ''$all'' AllClients ''eq(#)'' Sub Deny,
              acl_entry ''$all'' AllClients ''$SYS/#'' Sub Deny, acl_entry ''127.0.0.1'' IpAddr ''#'' SubPub Allow,
              acl_entry ''127.0.0.1'' IpAddr ''$SYS/#'' SubPub Allow] c)"

definition default_acls :: acl_cache where
  "default_acls = acl_init \<lparr>acl_rows = [], acl_sequence = 0\<rparr>"

definition acl_ok :: "acl_cache \<Rightarrow> bool" where
  "acl_ok c \<longleftrightarrow> distinct (map fst (acl_rows c)) \<and> list_all (\<lambda>(s, a). s = acl_seq a) (acl_rows c)"

lemma acl_ok_update: "acl_ok c \<Longrightarrow> acl_ok (c\<lparr>acl_rows := AList.update (acl_seq a) a (acl_rows c)\<rparr>)"
proof -
  have "list_all (\<lambda>(s, a). s = acl_seq a) al \<Longrightarrow>
      list_all (\<lambda>(s, a). s = acl_seq a) (AList.update (acl_seq a) a al)" for al
    by (induction al) auto
  then show "acl_ok c \<Longrightarrow> ?thesis" by (simp add: acl_ok_def distinct_update)
qed

lemma acl_ops_ok:
  assumes "acl_ok c"
  shows "acl_ok (snd (acl_add a c))" "acl_ok (snd (acl_delete s c))" "acl_ok (snd (acl_update a c))"
    "acl_ok (snd (acl_reorder as c))"
proof -
  show "acl_ok (snd (acl_add a c))"
    using acl_ok_update [OF assms, of "a\<lparr>acl_seq := acl_sequence c + 1\<rparr>"] by (simp add: acl_add_def Let_def acl_ok_def)
  show "acl_ok (snd (acl_delete s c))" using assms
    by (auto simp: acl_delete_def acl_ok_def AList.delete_eq list_all_iff distinct_map_filter)
  show "acl_ok (snd (acl_update a c))" using acl_ok_update [OF assms] assms by (simp add: acl_update_def)
  show "acl_ok (snd (acl_reorder as c))" using assms
  proof (induction as arbitrary: c)
    case (Cons a as)
    from Cons(1) [OF acl_ok_update [OF Cons(2)]] show ?case by (simp add: acl_reorder_def)
  qed (simp add: acl_reorder_def)
qed

text \<open>
  The query for a client: its entries, the latest sequence number first. A client without a user
  name has \<open>null\<close> there, which equals nothing in SQL.
\<close>

definition acl_applies :: "js_string option \<Rightarrow> js_string \<Rightarrow> js_string \<Rightarrow> acl \<Rightarrow> bool" where
  "acl_applies username ipAddr clientId a \<longleftrightarrow>
     (Some (acl_target a) = username \<and> acl_type a = Username) \<or> (acl_target a = ipAddr \<and> acl_type a = IpAddr) \<or>
     (acl_target a = clientId \<and> acl_type a = ClientId) \<or> (acl_target a = ALL_TARGETS \<and> acl_type a = AllClients)"

definition acl_get :: "acl_cache \<Rightarrow> js_string option \<Rightarrow> js_string \<Rightarrow> js_string \<Rightarrow> acl list" where
  "acl_get cache username ipAddr clientId =
     rev (sort_key acl_seq (filter (acl_applies username ipAddr clientId) (acl_entries cache)))"

subsection \<open>Decisions\<close>

definition isMatch :: "js_string \<Rightarrow> js_string \<Rightarrow> bool" where
  "isMatch topic flt =
     (if \<not> validateTopic topic \<or> \<not> validateTopic flt then False
      else if prefix_of EQ_PREFIX flt \<and> suffix EQ_SUFFIX flt
      then topic = take (length flt - length EQ_SUFFIX - length EQ_PREFIX) (drop (length EQ_PREFIX) flt)
      else match topic flt = 1)"

record mqtt_authority =
  a_topic :: js_string
  a_qos :: int
  a_access :: "access option"
  a_authority :: "authority option"

definition setAuthority :: "mqtt_authority \<Rightarrow> acl list \<Rightarrow> mqtt_authority" where
  "setAuthority auth acls =
     (case List.find (\<lambda>a. isMatch (a_topic auth) (acl_topic a)) acls of
        None \<Rightarrow> auth
      | Some a \<Rightarrow> auth\<lparr>a_access := Some (acl_access a), a_authority := Some (acl_authority a)\<rparr>)"

definition canAccess :: "bool \<Rightarrow> access \<Rightarrow> mqtt_authority option \<Rightarrow> bool" where
  "canAccess allowNomatch acc auth =
     (case auth of
        None \<Rightarrow> allowNomatch
      | Some a \<Rightarrow>
          if acc = Sub \<and> (a_access a = Some Sub \<or> a_access a = Some SubPub) \<and> a_authority a = Some Deny then False
          else if acc = Pub \<and> (a_access a = Some Pub \<or> a_access a = Some SubPub) \<and> a_authority a = Some Deny then False
          else True)"

text \<open>The check of one topic, as the packet handlers make it.\<close>

definition check_access ::
  "bool \<Rightarrow> acl_cache \<Rightarrow> js_string option \<Rightarrow> js_string \<Rightarrow> js_string \<Rightarrow> access \<Rightarrow> js_string \<Rightarrow> int \<Rightarrow> bool" where
  "check_access allowNomatch cache username ipAddr clientId acc topic q =
     canAccess allowNomatch acc
       (Some (setAuthority \<lparr>a_topic = topic, a_qos = q, a_access = None, a_authority = None\<rparr>
                (acl_get cache username ipAddr clientId)))"

definition covers :: "access \<Rightarrow> access \<Rightarrow> bool" where
  "covers a acc \<longleftrightarrow> a = SubPub \<or> a = acc"

text \<open>The first match in descending order is the match with the greatest number.\<close>

lemma find_latest:
  "sorted_wrt (\<lambda>a b. acl_seq a > acl_seq b) xs \<Longrightarrow>
    List.find P xs = Some a \<longleftrightarrow> a \<in> set xs \<and> P a \<and> (\<forall>b \<in> set xs. P b \<longrightarrow> acl_seq b \<le> acl_seq a)"
proof (induction xs)
  case (Cons x xs)
  have "acl_seq x \<le> acl_seq a \<Longrightarrow> a \<notin> set xs" using Cons(2) by fastforce
  then show ?case using Cons by (auto intro: less_imp_le) 
qed simp

lemma acl_get_sorted:
  "acl_ok cache \<Longrightarrow> sorted_wrt (\<lambda>a b. acl_seq a > acl_seq b) (acl_get cache u i c)"
proof -
  assume ok: "acl_ok cache"
  then have "map fst (acl_rows cache) = map acl_seq (acl_entries cache)"
    by (auto simp: acl_ok_def acl_entries_def list_all_iff)
  then have d: "distinct (map acl_seq (acl_entries cache))" using ok by (simp add: acl_ok_def)
  let ?ys = "sort_key acl_seq (filter (acl_applies u i c) (acl_entries cache))"
  have "mset (map acl_seq ?ys) = mset (map acl_seq (filter (acl_applies u i c) (acl_entries cache)))" by simp
  then have "distinct (map acl_seq ?ys)"
    using distinct_map_filter [OF d] mset_eq_imp_distinct_iff by blast
  then have "sorted_wrt (<) (map acl_seq ?ys)" by (simp add: strict_sorted_iff)
  then show ?thesis unfolding acl_get_def sorted_wrt_rev by (simp add: sorted_wrt_map)
qed

text \<open>
  C35: A client is refused exactly when the latest of its entries whose topic matches is a denial of
  this kind of access. Older entries do not count, even when the latest one is about the other
  kind of access; and without any matching entry access is granted, whatever the setting
  for that case says.
\<close>

theorem access_refused_iff:
  assumes "acc \<noteq> SubPub" "acl_ok cache"
  shows "check_access allowNomatch cache username ipAddr clientId acc topic q \<longleftrightarrow>
    \<not> (\<exists>a \<in> set (acl_entries cache). acl_applies username ipAddr clientId a \<and> isMatch topic (acl_topic a) \<and>
          acl_authority a = Deny \<and> covers (acl_access a) acc \<and>
          (\<forall>b \<in> set (acl_entries cache). acl_applies username ipAddr clientId b \<and> isMatch topic (acl_topic b) \<longrightarrow> acl_seq b \<le> acl_seq a))"
proof -
  let ?acls = "acl_get cache username ipAddr clientId"
  let ?find = "List.find (\<lambda>a. isMatch topic (acl_topic a)) ?acls"
  have refused: "check_access allowNomatch cache username ipAddr clientId acc topic q \<longleftrightarrow>
      \<not> (\<exists>a. ?find = Some a \<and> acl_authority a = Deny \<and> covers (acl_access a) acc)"
    using assms(1)
    by (cases acc; auto simp: check_access_def setAuthority_def canAccess_def covers_def split: option.split)
  have "set ?acls = {a \<in> set (acl_entries cache). acl_applies username ipAddr clientId a}" by (auto simp: acl_get_def)
  then have "?find = Some a \<longleftrightarrow> (a \<in> set (acl_entries cache) \<and> acl_applies username ipAddr clientId a) \<and> isMatch topic (acl_topic a) \<and>
      (\<forall>b \<in> set (acl_entries cache). acl_applies username ipAddr clientId b \<and> isMatch topic (acl_topic b) \<longrightarrow> acl_seq b \<le> acl_seq a)" for a
    using find_latest [OF acl_get_sorted [OF assms(2)], of "\<lambda>a. isMatch topic (acl_topic a)" username ipAddr clientId a] by auto
  then show ?thesis unfolding refused by blast
qed

theorem access_refused_iff_witness:
  "acl_ok default_acls \<and>
   \<not> check_access True default_acls (Some (js ''u'')) (js ''10.0.0.7'') (js ''c'') Sub (js ''$SYS/x'') 0"
proof -
  let ?a = "(acl_entry ''$all'' AllClients ''$SYS/#'' Sub Deny)\<lparr>acl_seq := 3\<rparr>"
  have d: "acl_ok default_acls" by code_simp
  have "list_ex (\<lambda>a. a = ?a) (acl_entries default_acls)" by code_simp
  then have "?a \<in> set (acl_entries default_acls)" unfolding list_ex_iff by blast
  moreover have "acl_applies (Some (js ''u'')) (js ''10.0.0.7'') (js ''c'') ?a" by code_simp
  moreover have "isMatch (js ''$SYS/x'') (acl_topic ?a)" by code_simp
  moreover have "\<forall>b \<in> set (acl_entries default_acls). acl_applies (Some (js ''u'')) (js ''10.0.0.7'') (js ''c'') b \<and>
      isMatch (js ''$SYS/x'') (acl_topic b) \<longrightarrow> acl_seq b \<le> acl_seq ?a" by code_simp
  moreover have "acl_authority ?a = Deny" "covers (acl_access ?a) Sub" by (simp_all add: covers_def acl_entry_def)
  ultimately show ?thesis
    using access_refused_iff [OF _ d, of Sub True "Some (js ''u'')" "js ''10.0.0.7''" "js ''c''" "js ''$SYS/x''" 0] d by blast
qed

text \<open>
  With the entries of a new broker a remote client may not subscribe to \<open>#\<close> or below \<open>$SYS\<close>, but
  it may subscribe to \<open>+/#\<close>, and the router takes that filter to match topics below \<open>$SYS\<close>.
\<close>

lemma sys_topics_reachable:
  "\<not> check_access True default_acls (Some (js ''u'')) (js ''10.0.0.7'') (js ''c'') Sub (js ''#'') 0 \<and>
   \<not> check_access True default_acls (Some (js ''u'')) (js ''10.0.0.7'') (js ''c'') Sub (js ''$SYS/#'') 0 \<and>
   check_access True default_acls (Some (js ''u'')) (js ''10.0.0.7'') (js ''c'') Sub (js ''+/#'') 0 \<and>
   match (js ''$SYS/x'') (js ''+/#'') = 1"
  by code_simp

end
