(* ===== verification/Reorder.thy ===== *)
theory Reorder
  imports Acl
begin

text \<open>
  The order of the access entries, from the mouse to the decision: dragging a row
  (\<open>dataTables.rowReorder.js\<close>), the handler of the page \<open>acl.html\<close>, \<open>reorderAcls\<close> of
  \<open>WebAdminVerticle\<close> and \<open>AclCacheImpl.reorder\<close>. A row of the table is a node of the document; its
  data is an entry, whose sequence number is the first column. The layout of the page, which
  tells where the rows lie, is an argument.
\<close>

subsection \<open>Dragging\<close>

record drag =
  dr_nodes :: "nat list"
  dr_start :: "nat list"
  dr_target :: nat
  dr_lastInsert :: "nat option"

text \<open>The first row whose middle is below the mouse.\<close>

fun insert_point :: "int \<Rightarrow> int list \<Rightarrow> nat" where
  "insert_point bodyY [] = 0"
| "insert_point bodyY (m # middles) = (if bodyY < m then 0 else Suc (insert_point bodyY middles))"

text \<open>\<open>insertBefore\<close> and \<open>insertAfter\<close> of jQuery: nothing happens without a reference node, or when a
  node is its own reference.\<close>

fun insert_before :: "nat \<Rightarrow> nat \<Rightarrow> nat list \<Rightarrow> nat list" where
  "insert_before x r [] = []"
| "insert_before x r (n # ns) = (if n = r then x # n # ns else n # insert_before x r ns)"

fun insert_after :: "nat \<Rightarrow> nat \<Rightarrow> nat list \<Rightarrow> nat list" where
  "insert_after x r [] = []"
| "insert_after x r (n # ns) = (if n = r then n # x # ns else n # insert_after x r ns)"

definition move_before :: "nat \<Rightarrow> nat option \<Rightarrow> nat list \<Rightarrow> nat list" where
  "move_before x r ns =
     (case r of None \<Rightarrow> ns | Some r \<Rightarrow> if r = x then ns else insert_before x r (remove1 x ns))"

definition move_after :: "nat \<Rightarrow> nat option \<Rightarrow> nat list \<Rightarrow> nat list" where
  "move_after x r ns =
     (case r of None \<Rightarrow> ns | Some r \<Rightarrow> if r = x then ns else insert_after x r (remove1 x ns))"

definition node_at :: "nat list \<Rightarrow> nat \<Rightarrow> nat option" where
  "node_at ns i = (if i < length ns then Some (ns ! i) else None)"

text \<open>\<open>lastInsert\<close> is undefined before the first move, and no number is greater than that.\<close>

definition shuffle :: "nat \<Rightarrow> drag \<Rightarrow> drag" where
  "shuffle p d =
     (if dr_lastInsert d = Some p then d
      else (let ns = dr_nodes d; x = dr_target d in
        d\<lparr>dr_nodes :=
            (if p = 0 then x # remove1 x ns
             else if (case dr_lastInsert d of None \<Rightarrow> False | Some l \<Rightarrow> p > l) then move_after x (node_at ns (p - 1)) ns
             else move_before x (node_at ns p) ns),
          dr_lastInsert := Some p\<rparr>))"

definition mouseMove :: "int \<times> int list \<Rightarrow> drag \<Rightarrow> drag" where
  "mouseMove e d = (case e of (bodyY, middles) \<Rightarrow> shuffle (insert_point bodyY middles) d)"

definition mouseDown :: "nat \<Rightarrow> drag \<Rightarrow> drag" where
  "mouseDown target d = d\<lparr>dr_target := target, dr_start := dr_nodes d\<rparr>"

text \<open>The differences that \<open>_mouseUp\<close> reports.\<close>

record detail =
  dt_node :: nat
  dt_oldData :: int
  dt_newData :: int
  dt_newPosition :: nat

definition fullDiff :: "nat list \<Rightarrow> nat list \<Rightarrow> (nat \<Rightarrow> acl) \<Rightarrow> detail list" where
  "fullDiff start nodes data =
     map (\<lambda>i. \<lparr>dt_node = nodes ! i, dt_oldData = acl_seq (data (nodes ! i)), dt_newData = acl_seq (data (start ! i)),
               dt_newPosition = i\<rparr>)
       (filter (\<lambda>i. start ! i \<noteq> nodes ! i) [0..<length start])"

text \<open>The handler of the page writes the new numbers into the rows and posts the rows.\<close>

fun on_row_reorder :: "detail list \<Rightarrow> (nat \<Rightarrow> acl) \<Rightarrow> acl list \<times> (nat \<Rightarrow> acl)" where
  "on_row_reorder [] data = ([], data)"
| "on_row_reorder (d # ds) data =
     (let row = (data (dt_node d))\<lparr>acl_seq := dt_newData d\<rparr>;
          (rows, data') = on_row_reorder ds (data(dt_node d := row)) in
      (row # rows, data'))"

definition update_data :: "detail list \<Rightarrow> (nat \<Rightarrow> acl) \<Rightarrow> nat \<Rightarrow> acl" where
  "update_data ds data = fold (\<lambda>d data. data(dt_node d := (data (dt_node d))\<lparr>acl_seq := dt_newData d\<rparr>)) ds data"

definition mouseUp :: "drag \<Rightarrow> (nat \<Rightarrow> acl) \<Rightarrow> acl list \<times> (nat \<Rightarrow> acl)" where
  "mouseUp d data =
     (let ds = fullDiff (dr_start d) (dr_nodes d) data;
          (reorders, data) = on_row_reorder ds data in
      (reorders, update_data ds data))"

text \<open>The rows of the table as the broker sends them, and the entries it makes of the posted ones.\<close>

definition acl_query :: "acl_cache \<Rightarrow> acl list" where
  "acl_query cache = rev (sort_key acl_seq (acl_entries cache))"

definition reorderAcls :: "acl list \<Rightarrow> acl_cache \<Rightarrow> acl_cache" where
  "reorderAcls reorders cache = (if reorders = [] then cache else snd (acl_reorder reorders cache))"

definition drag_row :: "nat \<Rightarrow> (int \<times> int list) list \<Rightarrow> drag \<Rightarrow> drag" where
  "drag_row target moves d = fold mouseMove moves (mouseDown target d)"

subsection \<open>The rows stay the same\<close>

lemma mset_insert [simp]:
  "r \<in> set ns \<Longrightarrow> mset (insert_before x r ns) = add_mset x (mset ns)"
  "r \<in> set ns \<Longrightarrow> mset (insert_after x r ns) = add_mset x (mset ns)"
  by (induction ns) auto

lemma mset_shuffle:
  assumes "dr_target d \<in> set (dr_nodes d)"
  shows "mset (dr_nodes (shuffle p d)) = mset (dr_nodes d)"
proof -
  let ?x = "dr_target d" and ?ns = "dr_nodes d"
  have "r \<in> set ?ns \<Longrightarrow> r \<noteq> ?x \<Longrightarrow> r \<in> set (remove1 ?x ?ns)" for r by (simp add: in_set_remove1)
  then have "mset (move_before ?x (node_at ?ns i) ?ns) = mset ?ns" "mset (move_after ?x (node_at ?ns i) ?ns) = mset ?ns" for i
    using assms by (auto simp: move_before_def move_after_def node_at_def)
  then show ?thesis using assms by (simp add: shuffle_def Let_def)
qed

lemma shuffle_fields [simp]: "dr_target (shuffle p d) = dr_target d" "dr_start (shuffle p d) = dr_start d"
  by (simp_all add: shuffle_def Let_def)

lemma drag_row_mset:
  assumes "target \<in> set (dr_nodes d)"
  shows "mset (dr_nodes (drag_row target moves d)) = mset (dr_nodes d)" "dr_start (drag_row target moves d) = dr_nodes d"
proof -
  have "mset (dr_nodes (fold mouseMove moves d')) = mset (dr_nodes d') \<and> dr_start (fold mouseMove moves d') = dr_start d'"
    if "dr_target d' \<in> set (dr_nodes d')" for d'
    using that
  proof (induction moves arbitrary: d')
    case (Cons m ms)
    have "mset (dr_nodes (mouseMove m d')) = mset (dr_nodes d')" "dr_target (mouseMove m d') = dr_target d'"
      "dr_start (mouseMove m d') = dr_start d'"
      using mset_shuffle [OF Cons(2)] by (simp_all add: mouseMove_def split: prod.split)
    then show ?case using Cons(1) [of "mouseMove m d'"] Cons(2) by (simp flip: set_mset_mset)
  qed simp
  from this [of "mouseDown target d"] assms
  show "mset (dr_nodes (drag_row target moves d)) = mset (dr_nodes d)" "dr_start (drag_row target moves d) = dr_nodes d"
    by (simp_all add: drag_row_def mouseDown_def)
qed

text \<open>A drag that begins with a jump below the last row does not move the row.\<close>

lemma first_jump_lost:
  assumes "dr_lastInsert d = None" "dr_nodes d \<noteq> []" "\<forall>m \<in> set middles. m \<le> bodyY" "length middles = length (dr_nodes d)"
  shows "dr_nodes (mouseMove (bodyY, middles) d) = dr_nodes d"
proof -
  have "insert_point bodyY middles = length middles" using assms(3) by (induction middles) auto
  then show ?thesis using assms by (simp add: mouseMove_def shuffle_def Let_def node_at_def move_before_def)
qed

subsection \<open>The entries after a drag\<close>

lemma strictly_sorted_eq:
  fixes f :: "'a \<Rightarrow> 'b::linorder"
  assumes "sorted_wrt (\<lambda>a b. f a > f b) xs" "sorted_wrt (\<lambda>a b. f a > f b) ys" "set xs = set ys"
  shows "xs = ys"
  using assms
proof (induction xs arbitrary: ys)
  case (Cons x xs)
  obtain y ys' where ys: "ys = y # ys'" using Cons(4) by (cases ys) auto
  have above: "\<forall>z \<in> set xs. f z < f x" "\<forall>z \<in> set ys'. f z < f y" using Cons(2,3) by (simp_all add: ys)
  have "x \<in> set ys" "y \<in> set (x # xs)" using Cons(4) by (auto simp: ys)
  then have xy: "x = y" using above by (auto simp: ys dest: order_less_trans)
  then have "x \<notin> set xs" "x \<notin> set ys'" using above by auto
  then have "set xs = set ys'" using Cons(4) unfolding ys xy by auto
  then show ?case using Cons(1) [of ys'] Cons(2,3) xy by (simp add: ys)
qed simp

lemma update_data_other: "n \<notin> dt_node ` set ds \<Longrightarrow> update_data ds data n = data n"
  by (induction ds arbitrary: data) (auto simp: update_data_def)

lemma update_data_at:
  "distinct (map dt_node ds) \<Longrightarrow> d \<in> set ds \<Longrightarrow>
    update_data ds data (dt_node d) = (data (dt_node d))\<lparr>acl_seq := dt_newData d\<rparr>"
proof (induction ds arbitrary: data)
  case (Cons e ds)
  then show ?case
    using update_data_other [of "dt_node e" ds] Cons(1) by (cases "d = e") (auto simp: update_data_def)
qed simp

lemma on_row_reorder_eq:
  "distinct (map dt_node ds) \<Longrightarrow>
    on_row_reorder ds data = (map (\<lambda>d. (data (dt_node d))\<lparr>acl_seq := dt_newData d\<rparr>) ds, update_data ds data)"
  by (induction ds arbitrary: data) (auto simp: Let_def update_data_def)

lemma update_data_twice:
  assumes "distinct (map dt_node ds)"
  shows "update_data ds (update_data ds data) = update_data ds data"
proof
  fix n show "update_data ds (update_data ds data) n = update_data ds data n"
    using update_data_at [OF assms] update_data_other by (cases "n \<in> dt_node ` set ds") auto
qed

lemma reorder_entries:
  assumes "acl_ok cache" "distinct (map acl_seq as)"
  shows "set (acl_entries (snd (acl_reorder as cache))) = set as \<union> {a \<in> set (acl_entries cache). acl_seq a \<notin> acl_seq ` set as}"
  using assms
proof (induction as arbitrary: cache)
  case (Cons a as)
  let ?c = "cache\<lparr>acl_rows := AList.update (acl_seq a) a (acl_rows cache)\<rparr>"
  have keys: "(s, b) \<in> set (acl_rows cache) \<Longrightarrow> s = acl_seq b" for s b
    using Cons(2) by (auto simp: acl_ok_def list_all_iff)
  have d: "distinct (map fst (acl_rows ?c))" using acl_ok_update [OF Cons(2)] by (simp add: acl_ok_def)
  have "b \<in> set (acl_entries ?c) \<longleftrightarrow> b = a \<or> b \<in> set (acl_entries cache) \<and> acl_seq b \<noteq> acl_seq a" for b
  proof -
    have "b \<in> set (acl_entries ?c) \<longleftrightarrow> (\<exists>s. map_of (acl_rows ?c) s = Some b)"
      using map_of_eq_Some_iff [OF d] by (force simp: acl_entries_def)
    also have "\<dots> \<longleftrightarrow> b = a \<or> (\<exists>s. s \<noteq> acl_seq a \<and> map_of (acl_rows cache) s = Some b)" by (auto simp: update_conv')
    also have "\<dots> \<longleftrightarrow> b = a \<or> b \<in> set (acl_entries cache) \<and> acl_seq b \<noteq> acl_seq a"
      using Cons(2) keys by (force simp: acl_entries_def acl_ok_def)
    finally show ?thesis .
  qed
  then have "set (acl_entries ?c) = insert a {b \<in> set (acl_entries cache). acl_seq b \<noteq> acl_seq a}" by auto
  moreover have "acl_reorder (a # as) cache = (Suc (length as), snd (acl_reorder as ?c))" by (simp add: acl_reorder_def)
  ultimately show ?case using Cons(1) [OF acl_ok_update [OF Cons(2)]] Cons(3) by auto
qed (simp add: acl_reorder_def)

lemma acl_query_sorted: "acl_ok cache \<Longrightarrow> sorted_wrt (\<lambda>a b. acl_seq a > acl_seq b) (acl_query cache)"
proof -
  assume ok: "acl_ok cache"
  then have "map fst (acl_rows cache) = map acl_seq (acl_entries cache)"
    by (auto simp: acl_ok_def acl_entries_def list_all_iff)
  then have d: "distinct (map acl_seq (acl_entries cache))" using ok by (simp add: acl_ok_def)
  have "mset (map acl_seq (sort_key acl_seq (acl_entries cache))) = mset (map acl_seq (acl_entries cache))" by simp
  then have "distinct (map acl_seq (sort_key acl_seq (acl_entries cache)))"
    using d mset_eq_imp_distinct_iff by blast
  then have "sorted_wrt (<) (map acl_seq (sort_key acl_seq (acl_entries cache)))" by (simp add: strict_sorted_iff)
  then show ?thesis unfolding acl_query_def sorted_wrt_rev by (simp add: sorted_wrt_map)
qed

text \<open>The table shows the entries of the cache; \<open>start\<close> are the rows of the page that is on the screen.\<close>

definition shows_acls :: "nat list \<Rightarrow> (nat \<Rightarrow> acl) \<Rightarrow> acl_cache \<Rightarrow> bool" where
  "shows_acls nodes data cache \<longleftrightarrow> distinct nodes \<and> map data nodes = acl_query cache"

text \<open>The positions whose rows changed, and what a drop posts and writes there.\<close>

definition changed :: "nat list \<Rightarrow> nat list \<Rightarrow> nat list" where
  "changed start nodes = filter (\<lambda>i. start ! i \<noteq> nodes ! i) [0..<length start]"

lemma mouseUp_data:
  assumes dist: "distinct start" "distinct nodes" "length nodes = length start"
    and up: "mouseUp d data = (reorders, data')" "dr_start d = start" "dr_nodes d = nodes"
  shows "reorders = map (\<lambda>i. data' (nodes ! i)) (changed start nodes)"
    "\<forall>i < length start. data' (nodes ! i) = (data (nodes ! i))\<lparr>acl_seq := acl_seq (data (start ! i))\<rparr>"
    "\<forall>n. n \<notin> set nodes \<longrightarrow> data' n = data n"
proof -
  let ?S = "changed start nodes"
  define ds where "ds = fullDiff start nodes data"
  have ds: "map dt_node ds = map ((!) nodes) ?S" by (simp add: ds_def changed_def fullDiff_def)
  have S: "distinct ?S" "\<forall>i \<in> set ?S. i < length nodes \<and> start ! i \<noteq> nodes ! i" by (auto simp: changed_def dist(3))
  have dds: "distinct (map dt_node ds)"
    unfolding ds distinct_map using S by (simp add: inj_on_nth [OF dist(2)])
  have res: "reorders = map (\<lambda>d. (data (dt_node d))\<lparr>acl_seq := dt_newData d\<rparr>) ds" "data' = update_data ds data"
    using up on_row_reorder_eq [OF dds] update_data_twice [OF dds]
    by (simp_all add: mouseUp_def Let_def ds_def [symmetric])
  have other: "n \<notin> (!) nodes ` set ?S \<Longrightarrow> data' n = data n" for n
    unfolding res(2) set_map [symmetric] ds [symmetric] by (rule update_data_other) simp
  show at: "\<forall>i < length start. data' (nodes ! i) = (data (nodes ! i))\<lparr>acl_seq := acl_seq (data (start ! i))\<rparr>"
  proof (intro allI impI)
    fix i assume i: "i < length start"
    show "data' (nodes ! i) = (data (nodes ! i))\<lparr>acl_seq := acl_seq (data (start ! i))\<rparr>"
    proof (cases "start ! i = nodes ! i")
      case True
      have "j = i" if "j \<in> set ?S" "nodes ! j = nodes ! i" for j
        using that S(2) i dist(3) nth_eq_iff_index_eq [OF dist(2)] by auto
      then have "nodes ! i \<notin> (!) nodes ` set ?S" using True S(2) by force
      then show ?thesis using True other by simp
    next
      case False
      let ?d = "\<lparr>dt_node = nodes ! i, dt_oldData = acl_seq (data (nodes ! i)), dt_newData = acl_seq (data (start ! i)),
        dt_newPosition = i\<rparr>"
      have "?d \<in> set ds" using False i by (simp add: ds_def fullDiff_def)
      from update_data_at [OF dds this] show ?thesis by (simp add: res(2))
    qed
  qed
  have "\<forall>i \<in> set ?S. data' (nodes ! i) = (data (nodes ! i))\<lparr>acl_seq := acl_seq (data (start ! i))\<rparr>"
    using at S(2) dist(3) by auto
  then show "reorders = map (\<lambda>i. data' (nodes ! i)) ?S"
    by (simp add: res(1) ds_def fullDiff_def changed_def [symmetric])
  show "\<forall>n. n \<notin> set nodes \<longrightarrow> data' n = data n"
    using other S(2) by (metis (no_types, lifting) imageE nth_mem)
qed

lemma drop_query:
  assumes ok: "acl_ok cache" and shown: "set (acl_query cache) = data ` (A \<union> set start)"
    and inj: "inj_on (\<lambda>n. acl_seq (data n)) (A \<union> set start)" and dist: "distinct start" "A \<inter> set start = {}"
    and len: "length nodes = length start" and posted: "reorders = map (\<lambda>i. data' (nodes ! i)) (changed start nodes)"
    and at: "\<forall>i < length start. data' (nodes ! i) = (data (nodes ! i))\<lparr>acl_seq := acl_seq (data (start ! i))\<rparr>"
  shows "set (acl_query (reorderAcls reorders cache)) =
    set reorders \<union> data ` (A \<union> (!) start ` ({..<length start} - set (changed start nodes)))"
proof -
  let ?S = "set (changed start nodes)" and ?q = "\<lambda>n. acl_seq (data n)"
  have mem: "i \<in> ?S \<longleftrightarrow> i < length start \<and> start ! i \<noteq> nodes ! i" for i by (simp add: changed_def)
  have Slen: "\<forall>i \<in> ?S. i < length start" and Sin: "(!) start ` ?S \<subseteq> A \<union> set start" by (auto simp: changed_def)
  have seq_at: "acl_seq (data' (nodes ! i)) = ?q (start ! i)" if "i \<in> ?S" for i
  proof -
    have "data' (nodes ! i) = (data (nodes ! i))\<lparr>acl_seq := ?q (start ! i)\<rparr>" using at Slen that by blast
    then show ?thesis by simp
  qed
  then have "(\<lambda>i. acl_seq (data' (nodes ! i))) ` ?S = (\<lambda>i. ?q (start ! i)) ` ?S" by (rule image_cong [OF refl])
  then have post_seqs: "acl_seq ` set reorders = ?q ` (!) start ` ?S" by (simp add: posted image_image)
  have "map (\<lambda>i. acl_seq (data' (nodes ! i))) (changed start nodes) = map (\<lambda>i. ?q (start ! i)) (changed start nodes)"
    using seq_at by (rule map_cong [OF refl])
  then have "map acl_seq reorders = map (\<lambda>i. ?q (start ! i)) (changed start nodes)" by (simp add: posted o_def)
  moreover have "inj_on (\<lambda>i. ?q (start ! i)) ?S"
    by (rule comp_inj_on [unfolded o_def, OF inj_on_nth [OF dist(1) Slen] inj_on_subset [OF inj Sin]])
  ultimately have "distinct (map acl_seq reorders)" by (simp add: distinct_map changed_def)
  then have "set (acl_query (reorderAcls reorders cache)) =
      set reorders \<union> {a \<in> set (acl_query cache). acl_seq a \<notin> acl_seq ` set reorders}"
    using reorder_entries [OF ok] by (simp add: acl_query_def reorderAcls_def)
  also have "{a \<in> set (acl_query cache). acl_seq a \<notin> acl_seq ` set reorders} = data ` (A \<union> set start - (!) start ` ?S)"
  proof -
    have "acl_seq (data n) \<in> acl_seq ` set reorders \<longleftrightarrow> n \<in> (!) start ` ?S" if "n \<in> A \<union> set start" for n
      unfolding post_seqs by (rule inj_on_image_mem_iff [OF inj that Sin])
    then show ?thesis unfolding shown by auto
  qed
  also have "A \<union> set start - (!) start ` ?S = A \<union> (!) start ` ({..<length start} - ?S)"
  proof -
    have "set start = (!) start ` {..<length start}" by (auto simp: in_set_conv_nth)
    moreover have "(!) start ` {..<length start} - (!) start ` ?S = (!) start ` ({..<length start} - ?S)"
      by (rule inj_on_image_set_diff [symmetric, OF inj_on_nth [OF dist(1), of "{..<length start}"]]) (use Slen in auto)
    moreover have "(!) start ` ?S \<subseteq> set start" using Slen by auto
    then have "A \<inter> (!) start ` ?S = {}" using dist(2) by blast
    ultimately show ?thesis by auto
  qed
  finally show ?thesis .
qed

lemma drop_entries:
  assumes ok: "acl_ok cache" and shown: "set (acl_query cache) = data ` (A \<union> set start)"
    and inj: "inj_on (\<lambda>n. acl_seq (data n)) (A \<union> set start)" and dist: "distinct start" "A \<inter> set start = {}"
    and len: "length nodes = length start" and posted: "reorders = map (\<lambda>i. data' (nodes ! i)) (changed start nodes)"
    and at: "\<forall>i < length start. data' (nodes ! i) = (data (nodes ! i))\<lparr>acl_seq := acl_seq (data (start ! i))\<rparr>"
    and outer: "\<forall>n \<in> A. data' n = data n"
  shows "set (acl_query (reorderAcls reorders cache)) = data' ` (A \<union> set nodes)"
proof -
  let ?S = "set (changed start nodes)" and ?q = "\<lambda>n. acl_seq (data n)"
  have mem: "i \<in> ?S \<longleftrightarrow> i < length start \<and> start ! i \<noteq> nodes ! i" for i by (simp add: changed_def)
  then have Slen: "\<forall>i \<in> ?S. i < length start" by blast
  note drop_query [OF ok shown inj dist len posted at]
  also have "set reorders \<union> data ` (A \<union> (!) start ` ({..<length start} - ?S)) = data' ` A \<union> (\<lambda>i. data' (nodes ! i)) ` {..<length start}"
  proof -
    have "data (start ! i) = data' (nodes ! i)" if i: "i \<in> {..<length start} - ?S" for i
    proof -
      have "start ! i = nodes ! i" using i mem by blast
      moreover have "data' (nodes ! i) = (data (nodes ! i))\<lparr>acl_seq := ?q (start ! i)\<rparr>" using at i by blast
      ultimately show ?thesis by simp
    qed
    then have "(\<lambda>i. data (start ! i)) ` ({..<length start} - ?S) = (\<lambda>i. data' (nodes ! i)) ` ({..<length start} - ?S)"
      by (rule image_cong [OF refl])
    then have "data ` (!) start ` ({..<length start} - ?S) = (\<lambda>i. data' (nodes ! i)) ` ({..<length start} - ?S)"
      by (simp add: image_image)
    moreover have "{..<length start} = ?S \<union> ({..<length start} - ?S)" using Slen by auto
    then have "(\<lambda>i. data' (nodes ! i)) ` {..<length start} =
        (\<lambda>i. data' (nodes ! i)) ` ?S \<union> (\<lambda>i. data' (nodes ! i)) ` ({..<length start} - ?S)" by (metis image_Un)
    moreover have "data ` A = data' ` A" using outer by (simp cong: image_cong)
    ultimately show ?thesis by (simp add: posted image_Un Un_ac)
  qed
  also have "(\<lambda>i. data' (nodes ! i)) ` {..<length start} = data' ` set nodes"
  proof -
    have "set nodes = (!) nodes ` {..<length start}" by (auto simp: len [symmetric] in_set_conv_nth)
    then show ?thesis by (simp add: image_image)
  qed
  also have "data' ` A \<union> data' ` set nodes = data' ` (A \<union> set nodes)" by (rule image_Un [symmetric])
  finally show ?thesis .
qed

lemma drop_reorders:
  assumes ok: "acl_ok cache" and shown: "shows_acls (pre @ start @ post) data cache"
    and perm: "mset nodes = mset start"
    and up: "mouseUp d data = (reorders, data')" "dr_start d = start" "dr_nodes d = nodes"
  shows "map data' (pre @ nodes @ post) = acl_query (reorderAcls reorders cache)"
    "map (\<lambda>n. acl_seq (data' n)) (pre @ nodes @ post) = map (\<lambda>n. acl_seq (data n)) (pre @ start @ post)"
    "\<forall>n. data' n = (data n)\<lparr>acl_seq := acl_seq (data' n)\<rparr>"
proof -
  let ?S = "changed start nodes"
  have len: "length nodes = length start" using perm by (metis size_mset)
  have dist: "distinct start" "distinct nodes" "set nodes = set start" "set start \<inter> (set pre \<union> set post) = {}"
    using shown perm mset_eq_imp_distinct_iff [OF perm] mset_eq_setD [OF perm] by (auto simp: shows_acls_def)
  note data' = mouseUp_data [OF dist(1,2) len up]
  show "\<forall>n. data' n = (data n)\<lparr>acl_seq := acl_seq (data' n)\<rparr>"
  proof
    fix n
    show "data' n = (data n)\<lparr>acl_seq := acl_seq (data' n)\<rparr>"
    proof (cases "n \<in> set nodes")
      case True
      then obtain i where i: "i < length start" "n = nodes ! i" using len by (metis in_set_conv_nth)
      have "data' n = (data n)\<lparr>acl_seq := acl_seq (data (start ! i))\<rparr>" unfolding i(2) using data'(2) i(1) by blast
      then show ?thesis by simp
    next
      case False then show ?thesis using data'(3) by simp
    qed
  qed
  have "map (\<lambda>n. acl_seq (data' n)) nodes = map (\<lambda>n. acl_seq (data n)) start"
    using len data'(2) by (auto intro: nth_equalityI)
  moreover have outer: "n \<in> set pre \<union> set post \<Longrightarrow> data' n = data n" for n using dist(3,4) data'(3) by blast
  ultimately show seqs: "map (\<lambda>n. acl_seq (data' n)) (pre @ nodes @ post) = map (\<lambda>n. acl_seq (data n)) (pre @ start @ post)"
    by simp
  have by_seq: "sorted_wrt (\<lambda>a b. acl_seq a > acl_seq b) (map g ns) \<longleftrightarrow> sorted_wrt (\<lambda>a b. a > b) (map (\<lambda>n. acl_seq (g n)) ns)"
    for g :: "nat \<Rightarrow> acl" and ns by (simp only: sorted_wrt_map)
  have seq_sorted: "sorted_wrt (\<lambda>a b. a > b) (map (\<lambda>n. acl_seq (data n)) (pre @ start @ post))"
    using acl_query_sorted [OF ok] shown unfolding shows_acls_def by_seq [symmetric] by simp
  then have sorted': "sorted_wrt (\<lambda>a b. acl_seq a > acl_seq b) (map data' (pre @ nodes @ post))"
    unfolding by_seq seqs .
  have ok': "acl_ok (reorderAcls reorders cache)" using ok acl_ops_ok(4) by (simp add: reorderAcls_def)
  have "sorted_wrt (<) (rev (map (\<lambda>n. acl_seq (data n)) (pre @ start @ post)))"
    unfolding sorted_wrt_rev by (rule seq_sorted)
  then have "distinct (map (\<lambda>n. acl_seq (data n)) (pre @ start @ post))"
    unfolding strict_sorted_iff distinct_rev by (rule conjunct2)
  then have "inj_on (\<lambda>n. acl_seq (data n)) (set (pre @ start @ post))" unfolding distinct_map by (rule conjunct2)
  moreover have "set (acl_query cache) = data ` set (pre @ start @ post)" using shown by (metis shows_acls_def set_map)
  moreover have "set (pre @ start @ post) = (set pre \<union> set post) \<union> set start" by auto
  ultimately have "set (acl_query (reorderAcls reorders cache)) = data' ` ((set pre \<union> set post) \<union> set nodes)"
    using drop_entries [OF ok _ _ dist(1) _ len data'(1,2), of "set pre \<union> set post"] dist(4) outer
    by (simp add: Int_commute)
  then have "set (map data' (pre @ nodes @ post)) = set (acl_query (reorderAcls reorders cache))" by auto
  then show "map data' (pre @ nodes @ post) = acl_query (reorderAcls reorders cache)"
    by (rule strictly_sorted_eq [OF sorted' acl_query_sorted [OF ok']])
qed

subsection \<open>The decisions of the broker\<close>

lemma find_filter: "List.find Q (filter P xs) = List.find (\<lambda>x. P x \<and> Q x) xs"
  by (induction xs) auto

lemma find_of_map: "List.find P (map f xs) = map_option f (List.find (\<lambda>x. P (f x)) xs)"
  by (induction xs) auto

lemma check_access_first:
  assumes "acc \<noteq> SubPub"
  shows "check_access allowNomatch cache username ipAddr clientId acc topic q =
    (case List.find (\<lambda>a. acl_applies username ipAddr clientId a \<and> isMatch topic (acl_topic a)) (acl_query cache) of
       None \<Rightarrow> True | Some a \<Rightarrow> \<not> (acl_authority a = Deny \<and> covers (acl_access a) acc))"
proof -
  have "acl_get cache username ipAddr clientId = filter (acl_applies username ipAddr clientId) (acl_query cache)"
    by (simp add: acl_get_def acl_query_def filter_sort rev_filter [symmetric])
  then show ?thesis using assms
    by (cases acc; auto simp: check_access_def setAuthority_def canAccess_def covers_def find_filter split: option.split)
qed

text \<open>C18: Dragging a row of the access entries has the effect it shows. Whatever way the mouse takes, after the
  drop the broker's entries are in the order of the rows on the screen, the sequence numbers are
  the same as before, nothing but the numbers of the entries has changed, and the broker decides
  by the first row from the top that fits.\<close>

theorem drag_decides:
  assumes "acl_ok cache" "shows_acls (pre @ dr_nodes d @ post) data cache" "target \<in> set (dr_nodes d)"
    and "d' = drag_row target moves d" "mouseUp d' data = (reorders, data')" "acc \<noteq> SubPub"
  shows "map data' (pre @ dr_nodes d' @ post) = acl_query (reorderAcls reorders cache) \<and>
    map (\<lambda>n. acl_seq (data' n)) (pre @ dr_nodes d' @ post) = map (\<lambda>n. acl_seq (data n)) (pre @ dr_nodes d @ post) \<and>
    (\<forall>n. data' n = (data n)\<lparr>acl_seq := acl_seq (data' n)\<rparr>) \<and>
    check_access allowNomatch (reorderAcls reorders cache) username ipAddr clientId acc topic q =
      (case List.find (\<lambda>n. acl_applies username ipAddr clientId (data n) \<and> isMatch topic (acl_topic (data n)))
              (pre @ dr_nodes d' @ post) of
         None \<Rightarrow> True | Some n \<Rightarrow> \<not> (acl_authority (data n) = Deny \<and> covers (acl_access (data n)) acc))"
proof -
  let ?nodes = "pre @ dr_nodes d' @ post"
  have "mset (dr_nodes d') = mset (dr_nodes d)" "dr_start d' = dr_nodes d"
    using drag_row_mset [OF assms(3)] by (simp_all add: assms(4))
  note drop = drop_reorders [OF assms(1,2) this(1) assms(5) this(2) refl]
  have same: "acl_applies u i c (data' n) = acl_applies u i c (data n)" "acl_topic (data' n) = acl_topic (data n)"
    "acl_authority (data' n) = acl_authority (data n)" "acl_access (data' n) = acl_access (data n)" for u i c n
  proof -
    have "data' n = (data n)\<lparr>acl_seq := acl_seq (data' n)\<rparr>" using drop(3) by blast
    then obtain k where "data' n = (data n)\<lparr>acl_seq := k\<rparr>" ..
    then show "acl_applies u i c (data' n) = acl_applies u i c (data n)" "acl_topic (data' n) = acl_topic (data n)"
      "acl_authority (data' n) = acl_authority (data n)" "acl_access (data' n) = acl_access (data n)"
      by (simp_all add: acl_applies_def)
  qed
  have "check_access allowNomatch (reorderAcls reorders cache) username ipAddr clientId acc topic q =
      (case List.find (\<lambda>n. acl_applies username ipAddr clientId (data n) \<and> isMatch topic (acl_topic (data n))) ?nodes of
         None \<Rightarrow> True | Some n \<Rightarrow> \<not> (acl_authority (data n) = Deny \<and> covers (acl_access (data n)) acc))"
    unfolding check_access_first [OF assms(6)] drop(1) [symmetric] find_of_map
    by (simp add: same option.case_eq_if option.map_sel)
  then show ?thesis using drop by blast
qed

text \<open>The entries of a new broker, latest first, as the rows 1 to 5; the denial of \<open>$SYS/#\<close> is dragged to
  the top, after which it refuses the local host as well.\<close>

definition sample_acl_data :: "nat \<Rightarrow> acl" where
  "sample_acl_data n =
     (if 1 \<le> n \<and> n \<le> 5 then acl_query default_acls ! (n - 1) else acl_entry ''x'' ClientId ''x'' Sub Deny)"

definition sample_drag :: drag where
  "sample_drag = \<lparr>dr_nodes = [1, 2, 3, 4], dr_start = [], dr_target = 1, dr_lastInsert = None\<rparr>"

definition sample_moves :: "(int \<times> int list) list" where
  "sample_moves = [(15, [10, 20, 30, 40]), (5, [10, 20, 30, 40])]"

theorem drag_decides_witness:
  "\<exists>reorders data'. mouseUp (drag_row 3 sample_moves sample_drag) sample_acl_data = (reorders, data') \<and>
     dr_nodes (drag_row 3 sample_moves sample_drag) = [3, 1, 2, 4] \<and>
     check_access True default_acls None (js ''127.0.0.1'') (js ''c'') Sub (js ''$SYS/x'') 0 \<and>
     \<not> check_access True (reorderAcls reorders default_acls) None (js ''127.0.0.1'') (js ''c'') Sub (js ''$SYS/x'') 0"
proof -
  let ?d = "drag_row 3 sample_moves sample_drag"
  obtain reorders data' where up: "mouseUp ?d sample_acl_data = (reorders, data')" by (cases "mouseUp ?d sample_acl_data")
  have ok: "acl_ok default_acls" by code_simp
  have shown: "shows_acls ([] @ dr_nodes sample_drag @ [5]) sample_acl_data default_acls" by code_simp
  have nodes: "dr_nodes ?d = [3, 1, 2, 4]" by code_simp
  have before: "check_access True default_acls None (js ''127.0.0.1'') (js ''c'') Sub (js ''$SYS/x'') 0" by code_simp
  let ?fits = "\<lambda>n. acl_applies None (js ''127.0.0.1'') (js ''c'') (sample_acl_data n) \<and> isMatch (js ''$SYS/x'') (acl_topic (sample_acl_data n))"
  have "?fits 3" "acl_authority (sample_acl_data 3) = Deny" "covers (acl_access (sample_acl_data 3)) Sub" by code_simp+
  moreover have "3 \<in> set (dr_nodes sample_drag)" by code_simp
  ultimately have "\<not> check_access True (reorderAcls reorders default_acls) None (js ''127.0.0.1'') (js ''c'') Sub (js ''$SYS/x'') 0"
    using drag_decides [OF ok shown _ refl up, of Sub True None "js ''127.0.0.1''" "js ''c''" "js ''$SYS/x''" 0] nodes
    by simp
  then show ?thesis using up nodes before by blast
qed

end
