(* ===== verification/Router.thy ===== *)
theory Router
  imports Topics "HOL-Library.Multiset"
begin

text \<open>
  The subscription router of the broker (\<open>RouterCacheImpl\<close>): the table of subscriptions, the
  counted trie of their wildcard filters, and the walk through the trie that finds the filters of a
  topic. The trie is shown to be a function of the table (\<open>trie_of\<close>) in every reachable state. The
  transactions of the cache are taken to be atomic; its queries enumerate the table in the order
  of insertion.
\<close>

subsection \<open>Tries of filters\<close>

record mqtt_trie =
  t_parent :: "js_string option"
  t_word :: js_string
  t_self :: js_string
  t_count :: nat

text \<open>The key of a node is its parent, as a string, and its word.\<close>

type_synonym trie_key = "js_string option \<times> js_string"
type_synonym trie_cache = "trie_key \<Rightarrow> mqtt_trie option"

definition trie_self :: "trie_key \<Rightarrow> js_string" where
  "trie_self k = (case fst k of None \<Rightarrow> snd k | Some p \<Rightarrow> p @ SLASH # snd k)"

fun trie_nodes :: "js_string option \<Rightarrow> js_string list \<Rightarrow> mqtt_trie list" where
  "trie_nodes parent [] = []"
| "trie_nodes parent (word # ws) =
     \<lparr>t_parent = parent, t_word = word, t_self = trie_self (parent, word), t_count = 1\<rparr> #
     trie_nodes (Some (trie_self (parent, word))) ws"

definition topic2Trie :: "js_string \<Rightarrow> mqtt_trie list option" where
  "topic2Trie topic = (if \<not> validateTopic topic then None else Some (trie_nodes None (words topic)))"

definition node_key :: "mqtt_trie \<Rightarrow> trie_key" where
  "node_key n = (t_parent n, t_word n)"

subsection \<open>RouterCacheImpl\<close>

record mqtt_router =
  nodeId :: nat
  r_client :: js_string
  r_topic :: js_string
  r_routerQos :: int

record router_state =
  routerCache :: "((js_string \<times> js_string) \<times> mqtt_router) list"
  trieCache :: trie_cache

definition validateClientId :: "js_string \<Rightarrow> bool" where
  "validateClientId i \<longleftrightarrow> i \<noteq> []"

definition add_trie_node :: "mqtt_trie \<Rightarrow> trie_cache \<Rightarrow> trie_cache" where
  "add_trie_node node tr =
     (case tr (node_key node) of
        None \<Rightarrow> tr(node_key node \<mapsto> node)
      | Some n \<Rightarrow> tr(node_key node \<mapsto> n\<lparr>t_count := t_count n + 1\<rparr>))"

definition remove_trie_node :: "mqtt_trie \<Rightarrow> trie_cache \<Rightarrow> trie_cache" where
  "remove_trie_node node tr =
     (case tr (node_key node) of
        None \<Rightarrow> tr
      | Some n \<Rightarrow> if t_count n > 1 then tr(node_key node \<mapsto> n\<lparr>t_count := t_count n - 1\<rparr>)
                  else tr(node_key node := None))"

definition wildcard_nodes :: "js_string \<Rightarrow> mqtt_trie list" where
  "wildcard_nodes topic =
     (if isWildcard topic then (case topic2Trie topic of None \<Rightarrow> [] | Some ns \<Rightarrow> ns) else [])"

definition router_save :: "mqtt_router \<Rightarrow> router_state \<Rightarrow> router_state" where
  "router_save router st =
     (if \<not> validateClientId (r_client router) \<or> \<not> validateTopic (r_topic router) then st
      else (let key = (r_client router, r_topic router) in
            case map_of (routerCache st) key of
              Some old \<Rightarrow>
                st\<lparr>routerCache := AList.update key (old\<lparr>nodeId := nodeId router, r_routerQos := r_routerQos router\<rparr>)
                                    (routerCache st)\<rparr>
            | None \<Rightarrow>
                st\<lparr>routerCache := AList.update key router (routerCache st),
                   trieCache := fold add_trie_node (wildcard_nodes (r_topic router)) (trieCache st)\<rparr>))"

definition router_delete :: "js_string \<Rightarrow> js_string \<Rightarrow> router_state \<Rightarrow> router_state" where
  "router_delete clientId topic st =
     (if \<not> validateClientId clientId \<or> \<not> validateTopic topic then st
      else (let key = (clientId, topic) in
            if map_of (routerCache st) key = None then st
            else st\<lparr>routerCache := AList.delete key (routerCache st),
                    trieCache := fold remove_trie_node (rev (wildcard_nodes topic)) (trieCache st)\<rparr>))"

definition router_delete_client :: "js_string \<Rightarrow> router_state \<Rightarrow> router_state" where
  "router_delete_client clientId st =
     (if \<not> validateClientId clientId then st
      else fold (router_delete clientId)
             (map r_topic (filter (\<lambda>r. r_client r = clientId) (map snd (routerCache st)))) st)"

definition router_update :: "js_string \<Rightarrow> nat \<Rightarrow> router_state \<Rightarrow> router_state" where
  "router_update clientId node st =
     st\<lparr>routerCache := map (\<lambda>(k, r). (k, if r_client r = clientId then r\<lparr>nodeId := node\<rparr> else r)) (routerCache st)\<rparr>"

definition router_get :: "js_string \<Rightarrow> js_string \<Rightarrow> router_state \<Rightarrow> mqtt_router option" where
  "router_get clientId topic st =
     (if \<not> validateClientId clientId \<or> \<not> validateTopic topic then None
      else map_of (routerCache st) (clientId, topic))"

text \<open>The nodes below a parent for one word of a topic.\<close>

definition trie :: "trie_cache \<Rightarrow> js_string option \<Rightarrow> js_string \<Rightarrow> mqtt_trie list" where
  "trie tr parent word =
     List.map_filter tr (remdups [(parent, PLUS), (parent, POUND), (parent, word)])"

function queryMatches :: "trie_cache \<Rightarrow> js_string option \<Rightarrow> js_string list \<Rightarrow> js_string list" where
  "queryMatches tr parent [] = []"
| "queryMatches tr parent (word # rest) =
     concat (map (\<lambda>node.
       if word = POUND then (if t_word node = POUND then [t_self node] else [])
       else if t_word node = POUND then [t_self node]
       else if rest \<noteq> [] then queryMatches tr (Some (t_self node)) rest
       else t_self node # queryMatches tr (Some (t_self node)) [POUND]) (trie tr parent word))"
  by pat_completeness auto
termination
  by (relation "measure (\<lambda>(tr, parent, ws). 2 * length ws + (if hd ws = POUND then 0 else 1))") auto

definition getMatches :: "router_state \<Rightarrow> js_string \<Rightarrow> js_string list" where
  "getMatches st topic =
     (if \<not> validateTopic topic then []
      else topic # queryMatches (trieCache st) None (words topic))"

definition getRoutes :: "bool \<Rightarrow> router_state \<Rightarrow> js_string \<Rightarrow> int \<Rightarrow> (js_string \<times> int) list" where
  "getRoutes upgradeQos st topic q =
     (let matches = getMatches st topic in
      map (\<lambda>r. (r_client r, calculate upgradeQos q (r_routerQos r)))
        (filter (\<lambda>r. r_topic r \<in> set matches) (map snd (routerCache st))))"

definition getClusteredRoutes :: "bool \<Rightarrow> router_state \<Rightarrow> js_string \<Rightarrow> int \<Rightarrow> (nat \<times> js_string \<times> int) list" where
  "getClusteredRoutes upgradeQos st topic q =
     (let matches = getMatches st topic in
      map (\<lambda>r. (nodeId r, r_client r, calculate upgradeQos q (r_routerQos r)))
        (filter (\<lambda>r. r_topic r \<in> set matches) (map snd (routerCache st))))"

subsection \<open>Paths and keys\<close>

fun join_words :: "js_string list \<Rightarrow> js_string" where
  "join_words [] = []"
| "join_words [w] = w"
| "join_words (w # ws) = w @ SLASH # join_words ws"

definition plain :: "js_string list \<Rightarrow> bool" where
  "plain ws \<longleftrightarrow> list_all (\<lambda>w. SLASH \<notin> set w) ws"

lemma levels_append: "SLASH \<notin> set w \<Longrightarrow> levels (w @ SLASH # s) = w # levels s"
  by (induction w) auto

lemma levels_join: "plain ws \<Longrightarrow> ws \<noteq> [] \<Longrightarrow> levels (join_words ws) = ws"
  by (induction ws rule: join_words.induct) (simp_all add: plain_def levels_no_slash levels_append)

lemma join_levels: "join_words (levels s) = s"
proof (induction s)
  case (Cons c s)
  then show ?case
    by (cases "levels s"; cases "tl (levels s)") (auto split: list.split)
qed simp

lemma join_snoc: "ws \<noteq> [] \<Longrightarrow> join_words (ws @ [w]) = join_words ws @ SLASH # w"
  by (induction ws rule: join_words.induct) auto

definition path :: "js_string list \<Rightarrow> js_string option" where
  "path p = (if p = [] then None else Some (join_words p))"

lemma trie_self_path: "trie_self (path p, w) = join_words (p @ [w])"
  by (simp add: trie_self_def path_def join_snoc)

lemma path_inj: "plain p \<Longrightarrow> plain q \<Longrightarrow> path p = path q \<Longrightarrow> p = q"
  by (auto simp: path_def split: if_splits dest: arg_cong [of "join_words p" "join_words q" levels] simp: levels_join)

definition keys_from :: "js_string list \<Rightarrow> js_string list \<Rightarrow> trie_key list" where
  "keys_from p ws = map node_key (trie_nodes (path p) ws)"

lemma trie_nodes_path: "trie_nodes (path p) (w # ws) =
    \<lparr>t_parent = path p, t_word = w, t_self = join_words (p @ [w]), t_count = 1\<rparr> # trie_nodes (path (p @ [w])) ws"
  by (simp add: trie_self_path) (simp add: path_def trie_self_def join_snoc)

lemma keys_from_iff:
  "plain p \<Longrightarrow> plain ws \<Longrightarrow> plain q \<Longrightarrow>
    (path q, w) \<in> set (keys_from p ws) \<longleftrightarrow> (\<exists>us. q = p @ us \<and> prefix (us @ [w]) ws)"
proof (induction ws arbitrary: p)
  case (Cons v ws)
  have pl: "plain (p @ [v])" "plain ws" using Cons(2,3) by (simp_all add: plain_def)
  have e: "path q = path p \<longleftrightarrow> q = p" using path_inj [OF Cons(2,4)] by auto
  have split: "(\<exists>us. q = p @ us \<and> prefix (us @ [w]) (v # ws)) \<longleftrightarrow>
      q = p \<and> w = v \<or> (\<exists>us. q = (p @ [v]) @ us \<and> prefix (us @ [w]) ws)"
  proof
    assume "\<exists>us. q = p @ us \<and> prefix (us @ [w]) (v # ws)"
    then obtain us where "q = p @ us" "prefix (us @ [w]) (v # ws)" by auto
    then show "q = p \<and> w = v \<or> (\<exists>us. q = (p @ [v]) @ us \<and> prefix (us @ [w]) ws)" by (cases us) auto
  next
    assume "q = p \<and> w = v \<or> (\<exists>us. q = (p @ [v]) @ us \<and> prefix (us @ [w]) ws)"
    then show "\<exists>us. q = p @ us \<and> prefix (us @ [w]) (v # ws)"
    proof
      assume "q = p \<and> w = v"
      then show ?thesis by (intro exI [of _ "[]"]) simp
    next
      assume "\<exists>us. q = (p @ [v]) @ us \<and> prefix (us @ [w]) ws"
      then obtain us where "q = p @ (v # us)" "prefix ((v # us) @ [w]) (v # ws)" by auto
      then show ?thesis by blast
    qed
  qed
  have "(path q, w) \<in> set (keys_from p (v # ws)) \<longleftrightarrow> q = p \<and> w = v \<or> (path q, w) \<in> set (keys_from (p @ [v]) ws)"
    using e by (auto simp: keys_from_def trie_nodes_path node_key_def simp del: trie_nodes.simps)
  then show ?case unfolding split using Cons(1) [OF pl Cons(4)] by simp
qed (simp add: keys_from_def)

lemma keys_from_form: "k \<in> set (keys_from p ws) \<Longrightarrow> \<exists>us w. k = (path (p @ us), w) \<and> prefix (us @ [w]) ws"
proof (induction ws arbitrary: p)
  case (Cons v ws)
  then consider "k = (path p, v)" | "k \<in> set (keys_from (p @ [v]) ws)"
    by (auto simp: keys_from_def trie_nodes_path node_key_def simp del: trie_nodes.simps)
  then show ?case
  proof cases
    case 1
    then show ?thesis by (intro exI [of _ "[]"] exI [of _ v]) simp
  next
    case 2
    from Cons(1) [OF this] obtain us w where "k = (path (p @ (v # us)), w)" "prefix ((v # us) @ [w]) (v # ws)" by auto
    then show ?thesis by blast
  qed
qed (simp add: keys_from_def)

lemma distinct_keys_from: "plain p \<Longrightarrow> plain ws \<Longrightarrow> distinct (keys_from p ws)"
proof (induction ws arbitrary: p)
  case (Cons v ws)
  have pl: "plain (p @ [v])" "plain ws" using Cons(2,3) by (simp_all add: plain_def)
  have "(path p, v) \<notin> set (keys_from (p @ [v]) ws)" using keys_from_iff [OF pl Cons(2)] by simp
  then show ?case using Cons(1) [OF pl]
    by (simp add: keys_from_def trie_nodes_path node_key_def del: trie_nodes.simps)
qed (simp add: keys_from_def)

subsection \<open>The counts of the trie\<close>

text \<open>The trie as a function of the filters that are subscribed to.\<close>

definition filter_keys :: "js_string \<Rightarrow> trie_key list" where
  "filter_keys topic = map node_key (wildcard_nodes topic)"

definition trie_of :: "js_string list \<Rightarrow> trie_cache" where
  "trie_of ts k =
     (let n = length (filter (\<lambda>t. k \<in> set (filter_keys t)) ts) in
      if n = 0 then None else Some \<lparr>t_parent = fst k, t_word = snd k, t_self = trie_self k, t_count = n\<rparr>)"

definition fresh_node :: "mqtt_trie \<Rightarrow> bool" where
  "fresh_node n \<longleftrightarrow> t_self n = trie_self (node_key n) \<and> t_count n = 1"

lemma trie_nodes_fresh: "list_all fresh_node (trie_nodes p ws)"
  by (induction ws arbitrary: p) (simp_all add: fresh_node_def node_key_def)

lemma fold_add:
  "distinct (map node_key ns) \<Longrightarrow> list_all fresh_node ns \<Longrightarrow>
    fold add_trie_node ns tr k =
      (if k \<in> set (map node_key ns)
       then Some (case tr k of None \<Rightarrow> \<lparr>t_parent = fst k, t_word = snd k, t_self = trie_self k, t_count = 1\<rparr>
                  | Some n \<Rightarrow> n\<lparr>t_count := t_count n + 1\<rparr>)
       else tr k)"
proof (induction ns arbitrary: tr)
  case (Cons n ns)
  have n: "n = \<lparr>t_parent = fst (node_key n), t_word = snd (node_key n), t_self = trie_self (node_key n), t_count = 1\<rparr>"
    using Cons(3) by (cases n) (simp add: fresh_node_def node_key_def)
  show ?case
    using Cons n by (auto simp: add_trie_node_def split: option.split)
qed simp

lemma fold_remove:
  "distinct (map node_key ns) \<Longrightarrow>
    fold remove_trie_node ns tr k =
      (if k \<in> set (map node_key ns)
       then (case tr k of None \<Rightarrow> None
             | Some n \<Rightarrow> if t_count n > 1 then Some (n\<lparr>t_count := t_count n - 1\<rparr>) else None)
       else tr k)"
proof (induction ns arbitrary: tr)
  case (Cons n ns)
  then show ?case by (auto simp: remove_trie_node_def split: option.split)
qed simp

lemma plain_words: "plain (words t)"
  using words_chars [of _ t] by (auto simp: plain_def list_all_iff)

lemma wildcard_nodes_eq: "wildcard_nodes t = (if isWildcard t then trie_nodes None (words t) else [])"
  by (auto simp: wildcard_nodes_def topic2Trie_def isWildcard_def validateTopic_def contains_char PLUS_def POUND_def)

lemma filter_keys_eq: "filter_keys t = (if isWildcard t then keys_from [] (words t) else [])"
  by (simp add: filter_keys_def wildcard_nodes_eq keys_from_def path_def)

lemma filter_keys_ok: "distinct (map node_key (wildcard_nodes t))" "list_all fresh_node (wildcard_nodes t)"
  using distinct_keys_from [of "[]" "words t"] plain_words [of t] trie_nodes_fresh [of None "words t"]
  by (auto simp: filter_keys_eq filter_keys_def [symmetric] plain_def) (simp add: wildcard_nodes_eq)

lemma add_filter:
  assumes "mset us = add_mset t (mset ts)"
  shows "fold add_trie_node (wildcard_nodes t) (trie_of ts) = trie_of us"
proof
  fix k
  have "length (filter (\<lambda>t. k \<in> set (filter_keys t)) us) =
      (if k \<in> set (filter_keys t) then 1 else 0) + length (filter (\<lambda>t. k \<in> set (filter_keys t)) ts)"
    using arg_cong [OF assms, of "\<lambda>m. size (filter_mset (\<lambda>t. k \<in> set (filter_keys t)) m)"]
    by (simp flip: mset_filter)
  then show "fold add_trie_node (wildcard_nodes t) (trie_of ts) k = trie_of us k"
    by (simp add: fold_add [OF filter_keys_ok] trie_of_def Let_def filter_keys_def [symmetric])
qed

lemma remove_filter:
  assumes "mset us = add_mset t (mset ts)"
  shows "fold remove_trie_node (rev (wildcard_nodes t)) (trie_of us) = trie_of ts"
proof
  fix k
  have "length (filter (\<lambda>t. k \<in> set (filter_keys t)) us) =
      (if k \<in> set (filter_keys t) then 1 else 0) + length (filter (\<lambda>t. k \<in> set (filter_keys t)) ts)"
    using arg_cong [OF assms, of "\<lambda>m. size (filter_mset (\<lambda>t. k \<in> set (filter_keys t)) m)"]
    by (simp flip: mset_filter)
  moreover have "distinct (map node_key (rev (wildcard_nodes t)))" by (metis filter_keys_ok(1) distinct_rev rev_map)
  ultimately show "fold remove_trie_node (rev (wildcard_nodes t)) (trie_of us) k = trie_of ts k"
    by (simp add: fold_remove trie_of_def Let_def) (simp add: filter_keys_def)
qed

subsection \<open>Reachable states of the router\<close>

datatype router_op =
    Router_save mqtt_router
  | Router_delete js_string js_string
  | Router_delete_client js_string
  | Router_update js_string nat

fun router_step :: "router_op \<Rightarrow> router_state \<Rightarrow> router_state" where
  "router_step (Router_save r) = router_save r"
| "router_step (Router_delete c t) = router_delete c t"
| "router_step (Router_delete_client c) = router_delete_client c"
| "router_step (Router_update c n) = router_update c n"

definition empty_router :: router_state where
  "empty_router = \<lparr>routerCache = [], trieCache = (\<lambda>k. None)\<rparr>"

text \<open>The subscription handler saves only filters that pass \<open>checkSubscribeTopic\<close>.\<close>

fun accepted :: "router_op \<Rightarrow> bool" where
  "accepted (Router_save r) \<longleftrightarrow> checkSubscribeTopic (r_topic r)"
| "accepted _ \<longleftrightarrow> True"

definition router_topics :: "router_state \<Rightarrow> js_string list" where
  "router_topics st = map (\<lambda>p. r_topic (snd p)) (routerCache st)"

definition entry_key_ok :: "(js_string \<times> js_string) \<times> mqtt_router \<Rightarrow> bool" where
  "entry_key_ok p \<longleftrightarrow> fst p = (r_client (snd p), r_topic (snd p)) \<and> checkSubscribeTopic (r_topic (snd p))"

definition router_ok :: "router_state \<Rightarrow> bool" where
  "router_ok st \<longleftrightarrow> distinct (map fst (routerCache st)) \<and> list_all entry_key_ok (routerCache st) \<and>
     trieCache st = trie_of (router_topics st)"

lemma update_absent: "map_of al k = None \<Longrightarrow> AList.update k v al = al @ [(k, v)]"
  by (induction al) (auto split: if_splits)

lemma update_present:
  "map_of al k = Some old \<Longrightarrow> f (k, v) = f (k, old) \<Longrightarrow> map f (AList.update k v al) = map f al"
  by (induction al) (auto split: if_splits)

lemma delete_present:
  "distinct (map fst al) \<Longrightarrow> map_of al k = Some v \<Longrightarrow> mset al = add_mset (k, v) (mset (AList.delete k al))"
proof (induction al)
  case (Cons p al)
  then show ?case
    by (cases p; cases "fst p = k") auto
qed simp

lemma list_all_update: "list_all P al \<Longrightarrow> P (k, v) \<Longrightarrow> list_all P (AList.update k v al)"
  by (induction al) auto

lemma entry_key_ok_of: "list_all entry_key_ok al \<Longrightarrow> map_of al k = Some r \<Longrightarrow> entry_key_ok (k, r)"
  by (auto simp: list_all_iff dest: map_of_SomeD)

lemma router_save_ok: "router_ok st \<Longrightarrow> checkSubscribeTopic (r_topic r) \<Longrightarrow> router_ok (router_save r st)"
proof -
  assume st: "router_ok st" and r: "checkSubscribeTopic (r_topic r)"
  let ?k = "(r_client r, r_topic r)"
  show ?thesis
  proof (cases "map_of (routerCache st) ?k")
    case None
    let ?c = "routerCache st @ [(?k, r)]"
    have "mset (map (\<lambda>p. r_topic (snd p)) ?c) = add_mset (r_topic r) (mset (router_topics st))"
      by (simp add: router_topics_def)
    note add = add_filter [OF this]
    have "router_save r st = (if validateClientId (r_client r) \<and> validateTopic (r_topic r)
        then st\<lparr>routerCache := ?c, trieCache := fold add_trie_node (wildcard_nodes (r_topic r)) (trieCache st)\<rparr> else st)"
      using None by (simp add: router_save_def update_absent)
    moreover have "?k \<notin> fst ` set (routerCache st)" using None by (simp add: map_of_eq_None_iff)
    ultimately show ?thesis using add st r
      by (simp add: router_ok_def router_topics_def entry_key_ok_def)
  next
    case (Some old)
    then have e: "entry_key_ok (?k, old)" using st entry_key_ok_of by (auto simp: router_ok_def)
    let ?new = "old\<lparr>nodeId := nodeId r, r_routerQos := r_routerQos r\<rparr>"
    have "map (\<lambda>p. r_topic (snd p)) (AList.update ?k ?new (routerCache st)) = map (\<lambda>p. r_topic (snd p)) (routerCache st)"
      by (rule update_present [OF Some]) simp
    then show ?thesis using st Some e list_all_update [of entry_key_ok "routerCache st" ?k ?new]
      by (simp add: router_save_def Let_def router_ok_def router_topics_def distinct_update entry_key_ok_def)
  qed
qed

lemma router_delete_ok: "router_ok st \<Longrightarrow> router_ok (router_delete c t st)"
proof -
  assume st: "router_ok st"
  show ?thesis
  proof (cases "map_of (routerCache st) (c, t)")
    case (Some r)
    have "r_topic r = t" using entry_key_ok_of [OF _ Some] st by (simp add: router_ok_def entry_key_ok_def)
    then have "mset (router_topics st) = add_mset t (mset (map (\<lambda>p. r_topic (snd p)) (AList.delete (c, t) (routerCache st))))"
      using delete_present [OF _ Some] st by (simp add: router_topics_def router_ok_def)
    from remove_filter [OF this] Some st show ?thesis
      by (auto simp: router_delete_def Let_def router_ok_def router_topics_def distinct_delete list_all_iff
          AList.delete_eq distinct_map_filter)
  qed (use st in \<open>simp add: router_delete_def\<close>)
qed

lemma router_step_ok: "router_ok st \<Longrightarrow> accepted i \<Longrightarrow> router_ok (router_step i st)"
proof (cases i)
  case (Router_delete_client c)
  assume "router_ok st"
  then have "router_ok (fold (router_delete c) ts st)" for ts
    by (induction ts arbitrary: st) (simp_all add: router_delete_ok)
  then show ?thesis using \<open>router_ok st\<close> Router_delete_client by (simp add: router_delete_client_def)
next
  case (Router_update c n)
  assume st: "router_ok st"
  let ?f = "\<lambda>(k, r). (k, if r_client r = c then r\<lparr>nodeId := n\<rparr> else r)"
  have "map fst (map ?f al) = map fst al" "list_all entry_key_ok al \<Longrightarrow> list_all entry_key_ok (map ?f al)"
    "map (\<lambda>p. r_topic (snd p)) (map ?f al) = map (\<lambda>p. r_topic (snd p)) al" for al
    by (induction al) (auto simp: entry_key_ok_def)
  then show ?thesis using st unfolding Router_update router_step.simps router_update_def router_ok_def router_topics_def
    by (simp del: map_map)
qed (simp_all add: router_save_ok router_delete_ok)

definition run_router :: "router_op list \<Rightarrow> router_state" where
  "run_router is = fold router_step is empty_router"

lemma run_router_ok: "list_all accepted is \<Longrightarrow> router_ok (run_router is)"
proof -
  have "router_ok st \<Longrightarrow> list_all accepted is \<Longrightarrow> router_ok (fold router_step is st)" for st
    by (induction "is" arbitrary: st) (simp_all add: router_step_ok)
  moreover have "router_ok empty_router"
    by (simp add: router_ok_def empty_router_def router_topics_def trie_of_def fun_eq_iff)
  ultimately show "list_all accepted is \<Longrightarrow> ?thesis" by (simp add: run_router_def)
qed

subsection \<open>The walk through the trie\<close>

definition present :: "js_string list \<Rightarrow> js_string list \<Rightarrow> bool" where
  "present ts q \<longleftrightarrow> (\<exists>t \<in> set ts. isWildcard t \<and> prefix q (words t))"

lemma trie_of_present:
  assumes "plain q"
  shows "trie_of ts (path q, w) \<noteq> None \<longleftrightarrow> present ts (q @ [w])"
proof -
  have "(path q, w) \<in> set (filter_keys t) \<longleftrightarrow> isWildcard t \<and> prefix (q @ [w]) (words t)" for t
    using keys_from_iff [of "[]" "words t" q w] plain_words assms by (simp add: filter_keys_eq plain_def)
  then show ?thesis by (auto simp: trie_of_def present_def Let_def filter_empty_conv)
qed

lemma trie_of_self: "trie_of ts (path q, w) = Some n \<Longrightarrow> t_word n = w \<and> t_self n = join_words (q @ [w])"
  by (auto simp: trie_of_def Let_def trie_self_path split: if_splits)

lemma trie_set:
  assumes "plain q"
  shows "n \<in> set (trie (trie_of ts) (path q) w) \<longleftrightarrow>
    (\<exists>x \<in> {PLUS, POUND, w}. present ts (q @ [x]) \<and> trie_of ts (path q, x) = Some n)"
proof -
  have "set (List.map_filter f xs) = {y. \<exists>x \<in> set xs. f x = Some y}" for f :: "trie_key \<Rightarrow> mqtt_trie option" and xs
    by (force simp: List.map_filter_def)
  then have "n \<in> set (trie (trie_of ts) (path q) w) \<longleftrightarrow> (\<exists>x \<in> {PLUS, POUND, w}. trie_of ts (path q, x) = Some n)"
    by (auto simp: trie_def)
  moreover have "trie_of ts (path q, x) = Some n \<Longrightarrow> present ts (q @ [x])" for x
    using trie_of_present [OF assms, of ts x] by simp
  ultimately show ?thesis by blast
qed

lemma present_prefix: "present ts (q @ r) \<Longrightarrow> present ts q"
  by (auto simp: present_def dest: append_prefixD)

lemma POUND_PLUS [simp]: "POUND \<noteq> PLUS" "PLUS \<noteq> POUND" "SLASH \<notin> set POUND" "SLASH \<notin> set PLUS"
  by (simp_all add: POUND_def PLUS_def SLASH_def)

definition walk :: "js_string list \<Rightarrow> js_string list \<Rightarrow> js_string list \<Rightarrow> js_string set" where
  "walk ts p ws = {join_words (p @ q) | q. q \<noteq> [] \<and> present ts (p @ q) \<and> mqtt_matches ws q}"


text \<open>The nodes found are those of the paths present; a node is given by its word.\<close>

lemma trie_words:
  assumes "plain p"
  shows "(\<exists>n \<in> set (trie (trie_of ts) (path p) w). P (t_word n) (t_self n)) \<longleftrightarrow>
    (\<exists>x \<in> {PLUS, POUND, w}. present ts (p @ [x]) \<and> P x (join_words (p @ [x])))"
proof
  assume "\<exists>n \<in> set (trie (trie_of ts) (path p) w). P (t_word n) (t_self n)"
  then show "\<exists>x \<in> {PLUS, POUND, w}. present ts (p @ [x]) \<and> P x (join_words (p @ [x]))"
    unfolding trie_set [OF assms] Bex_def using trie_of_self by metis
next
  assume "\<exists>x \<in> {PLUS, POUND, w}. present ts (p @ [x]) \<and> P x (join_words (p @ [x]))"
  then obtain x n where "x \<in> {PLUS, POUND, w}" "P x (join_words (p @ [x]))" "trie_of ts (path p, x) = Some n" "present ts (p @ [x])"
    using trie_of_present [OF assms, of ts] by blast
  then show "\<exists>n \<in> set (trie (trie_of ts) (path p) w). P (t_word n) (t_self n)"
    using trie_set [OF assms, of n ts w] trie_of_self [of ts p x n] by metis
qed

lemma query_mem:
  assumes "plain p"
  shows "y \<in> set (queryMatches (trie_of ts) (path p) (w # rest)) \<longleftrightarrow>
    (\<exists>x \<in> {PLUS, POUND, w}. present ts (p @ [x]) \<and>
       (if x = POUND then y = join_words (p @ [POUND])
        else w \<noteq> POUND \<and>
          (if rest \<noteq> [] then y \<in> set (queryMatches (trie_of ts) (path (p @ [x])) rest)
           else y = join_words (p @ [x]) \<or> y \<in> set (queryMatches (trie_of ts) (path (p @ [x])) [POUND]))))"
proof -
  let ?P = "\<lambda>v s. if v = POUND then y = s else w \<noteq> POUND \<and>
      (if rest \<noteq> [] then y \<in> set (queryMatches (trie_of ts) (Some s) rest)
       else y = s \<or> y \<in> set (queryMatches (trie_of ts) (Some s) [POUND]))"
  have "y \<in> set (queryMatches (trie_of ts) (path p) (w # rest)) \<longleftrightarrow>
      (\<exists>n \<in> set (trie (trie_of ts) (path p) w). ?P (t_word n) (t_self n))"
    by (subst queryMatches.simps) (auto split: if_splits simp del: queryMatches.simps)
  also have "\<dots> \<longleftrightarrow> (\<exists>x \<in> {PLUS, POUND, w}. present ts (p @ [x]) \<and> ?P x (join_words (p @ [x])))"
    by (rule trie_words [OF assms])
  also have "Some (join_words (p @ [x])) = path (p @ [x])" for x by (simp add: path_def)
  then have "(\<exists>x \<in> {PLUS, POUND, w}. present ts (p @ [x]) \<and> ?P x (join_words (p @ [x]))) \<longleftrightarrow>
    (\<exists>x \<in> {PLUS, POUND, w}. present ts (p @ [x]) \<and>
       (if x = POUND then y = join_words (p @ [POUND])
        else w \<noteq> POUND \<and>
          (if rest \<noteq> [] then y \<in> set (queryMatches (trie_of ts) (path (p @ [x])) rest)
           else y = join_words (p @ [x]) \<or> y \<in> set (queryMatches (trie_of ts) (path (p @ [x])) [POUND]))))"
    by (intro bex_cong refl conj_cong) simp
  finally show ?thesis .
qed

lemma query_pound:
  "plain p \<Longrightarrow> y \<in> set (queryMatches (trie_of ts) (path p) [POUND]) \<longleftrightarrow> present ts (p @ [POUND]) \<and> y = join_words (p @ [POUND])"
  by (subst query_mem) auto

lemma mqtt_matches_Cons:
  "mqtt_matches (w # ws) q \<longleftrightarrow> q = [POUND] \<or> (\<exists>x q'. q = x # q' \<and> (x = PLUS \<or> x = w) \<and> x \<noteq> POUND \<and> mqtt_matches ws q')"
  by (cases q) auto

lemma mqtt_matches_Nil: "mqtt_matches [] q \<longleftrightarrow> q = [] \<or> q = [POUND]"
  by (cases q) auto

lemma plain_snoc: "plain p \<Longrightarrow> SLASH \<notin> set w \<Longrightarrow> plain (p @ [w])"
  by (simp add: plain_def)

lemma query_walk:
  assumes "plain p" "plain ws" "ws \<noteq> []" "POUND \<notin> set ws"
  shows "set (queryMatches (trie_of ts) (path p) ws) = walk ts p ws"
  using assms
proof (induction ws arbitrary: p)
  case (Cons w ws)
  have w: "SLASH \<notin> set w" "w \<noteq> POUND" "plain ws" "POUND \<notin> set ws" using Cons(3,5) by (auto simp: plain_def)
  have x: "plain (p @ [x])" if "x \<in> {PLUS, w}" for x using that w Cons(2) plain_snoc by auto
  show ?case
  proof (intro set_eqI iffI)
    fix y assume "y \<in> set (queryMatches (trie_of ts) (path p) (w # ws))"
    then obtain x where c: "x \<in> {PLUS, POUND, w}" "present ts (p @ [x])"
      "if x = POUND then y = join_words (p @ [POUND])
       else w \<noteq> POUND \<and>
          (if ws \<noteq> [] then y \<in> set (queryMatches (trie_of ts) (path (p @ [x])) ws)
           else y = join_words (p @ [x]) \<or> y \<in> set (queryMatches (trie_of ts) (path (p @ [x])) [POUND]))"
      unfolding query_mem [OF Cons(2)] by blast
    consider "x = POUND" | "x \<in> {PLUS, w}" "ws \<noteq> []" | "x \<in> {PLUS, w}" "ws = []" using c(1) by blast
    then show "y \<in> walk ts p (w # ws)"
    proof cases
      case 1
      then show ?thesis using c unfolding walk_def by (intro CollectI exI [of _ "[POUND]"]) simp
    next
      case 2
      have "x \<noteq> POUND" using 2(1) w(2) by auto
      then have "y \<in> walk ts (p @ [x]) ws" using c(3) 2(2) Cons(1) [OF x [OF 2(1)] w(3) 2(2) w(4)] by simp
      then obtain q where "y = join_words (p @ x # q)" "present ts (p @ x # q)" "mqtt_matches ws q" by (auto simp: walk_def)
      then show ?thesis using 2(1) \<open>x \<noteq> POUND\<close> unfolding walk_def
        by (intro CollectI exI [of _ "x # q"]) auto
    next
      case 3
      have "x \<noteq> POUND" using 3(1) w(2) by auto
      then have "y = join_words (p @ [x]) \<or> present ts (p @ [x, POUND]) \<and> y = join_words (p @ [x, POUND])"
        using c(3) 3(2) query_pound [OF x [OF 3(1)]] by simp
      then show ?thesis using c(2) 3 \<open>x \<noteq> POUND\<close> unfolding walk_def
        by (auto intro: exI [of _ "[x]"] exI [of _ "[x, POUND]"])
    qed
  next
    fix y assume "y \<in> walk ts p (w # ws)"
    then obtain q where q: "y = join_words (p @ q)" "present ts (p @ q)" "mqtt_matches (w # ws) q" by (auto simp: walk_def)
    from q(3) consider "q = [POUND]"
      | x q' where "q = x # q'" "x \<in> {PLUS, w}" "x \<noteq> POUND" "mqtt_matches ws q'"
      unfolding mqtt_matches_Cons by blast
    then show "y \<in> set (queryMatches (trie_of ts) (path p) (w # ws))"
    proof cases
      case 1
      then show ?thesis using q unfolding query_mem [OF Cons(2)] by (intro bexI [of _ POUND]) auto
    next
      case 2
      have p: "present ts (p @ [x])" using q(2) present_prefix [of ts "p @ [x]" q'] 2(1) by simp
      show ?thesis
      proof (cases "ws = []")
        case True
        then have "q' = [] \<or> q' = [POUND]" using 2(4) mqtt_matches_Nil by simp
        then show ?thesis using True 2 q p w(2) query_pound [OF x [OF 2(2)]] unfolding query_mem [OF Cons(2)]
          by (intro bexI [of _ x]) auto
      next
        case False
        have "q' \<noteq> []" using 2(4) False by auto
        then have "y \<in> walk ts (p @ [x]) ws" using q 2 unfolding walk_def by auto
        then show ?thesis using False 2 p w Cons(1) [OF x [OF 2(2)] w(3) False w(4)] unfolding query_mem [OF Cons(2)]
          by (intro bexI [of _ x]) auto
      qed
    qed
  qed
qed simp

lemma mqtt_matches_refl: "POUND \<notin> set ts \<Longrightarrow> mqtt_matches ts ts"
  by (induction ts) auto

lemma mqtt_matches_plain: "POUND \<notin> set fs \<Longrightarrow> PLUS \<notin> set fs \<Longrightarrow> mqtt_matches ts fs \<longleftrightarrow> ts = fs"
  by (induction ts fs rule: mqtt_matches.induct) auto

lemma levels_inj: "levels s = levels t \<longleftrightarrow> s = t"
  using join_levels by metis

lemma plain_prefix: "prefix q ws \<Longrightarrow> plain ws \<Longrightarrow> plain q"
  by (auto simp: plain_def prefix_def)

lemma getMatches_walk:
  assumes "router_ok st" "checkPublishTopic t" "regular t"
  shows "f \<in> set (getMatches st t) \<longleftrightarrow> f = t \<or> f \<in> walk (router_topics st) [] (levels t)"
    and "words t = levels t" "POUND \<notin> set (words t)"
proof -
  note p = publish_words [OF assms(2)]
  have "t \<noteq> []" using p(4) by (simp add: validateTopic_def)
  then show words: "words t = levels t" using words_levels assms(3) by simp
  show "POUND \<notin> set (words t)" by (rule p(2))
  have "set (getMatches st t) = insert t (walk (router_topics st) [] (levels t))"
    using query_walk [of "[]" "words t" "router_topics st"] assms(1) p plain_words [of t] words
    by (simp add: getMatches_def router_ok_def path_def plain_def)
  then show "f \<in> set (getMatches st t) \<longleftrightarrow> f = t \<or> f \<in> walk (router_topics st) [] (levels t)" by auto
qed

text \<open>What is found matches; and what matches is found if its words are its levels.\<close>

lemma found_matches:
  assumes "router_ok st" "checkPublishTopic t" "regular t" "f \<in> set (getMatches st t)"
  shows "mqtt_matches (levels t) (levels f)"
proof -
  note walk = getMatches_walk [OF assms(1-3)]
  from assms(4) consider "f = t" | q where "f = join_words q" "q \<noteq> []" "present (router_topics st) q" "mqtt_matches (levels t) q"
    unfolding walk(1) walk_def by auto
  then show ?thesis
  proof cases
    case 1
    then show ?thesis using walk(2,3) by (simp add: mqtt_matches_refl)
  next
    case 2
    have "plain q" using 2(3) plain_words plain_prefix by (auto simp: present_def)
    then show ?thesis using 2 levels_join by simp
  qed
qed

lemma match_found:
  assumes "router_ok st" "checkPublishTopic t" "regular t"
    and f: "f \<in> set (router_topics st)" "regular f" "f \<noteq> []" "mqtt_matches (levels t) (levels f)"
  shows "f \<in> set (getMatches st t)"
proof (cases "isWildcard f")
  case True
  then have "present (router_topics st) (levels f)" using f(1) words_levels [OF f(3)] f(2) by (auto simp: present_def)
  then show ?thesis unfolding getMatches_walk(1) [OF assms(1-3)] walk_def
    using f(4) join_levels [of f] by (auto intro!: exI [of _ "levels f"])
next
  case False
  have "POUND \<notin> set (levels f)" "PLUS \<notin> set (levels f)"
    using False levels_chars [of POUND f] levels_chars [of PLUS f]
    by (auto simp: isWildcard_def contains_char POUND_def PLUS_def)
  then show ?thesis unfolding getMatches_walk(1) [OF assms(1-3)] using f(4) mqtt_matches_plain levels_inj by simp
qed

lemma getRoutes_found:
  assumes "router_ok st" "checkPublishTopic t" "regular t"
  shows "\<exists>found. getRoutes upgradeQos st t q =
      map (\<lambda>r. (r_client r, calculate upgradeQos q (r_routerQos r))) (filter found (map snd (routerCache st))) \<and>
    (\<forall>r \<in> set (map snd (routerCache st)).
       (found r \<longrightarrow> mqtt_matches (levels t) (levels (r_topic r))) \<and>
       (regular (r_topic r) \<and> mqtt_matches (levels t) (levels (r_topic r)) \<longrightarrow> found r))"
proof (intro exI conjI ballI)
  show "getRoutes upgradeQos st t q = map (\<lambda>r. (r_client r, calculate upgradeQos q (r_routerQos r)))
      (filter (\<lambda>r. r_topic r \<in> set (getMatches st t)) (map snd (routerCache st)))"
    by (simp only: getRoutes_def Let_def)
  fix r assume "r \<in> set (map snd (routerCache st))"
  then obtain k where k: "(k, r) \<in> set (routerCache st)" by auto
  then have r: "r_topic r \<in> set (router_topics st)" by (force simp: router_topics_def)
  have "checkSubscribeTopic (r_topic r)" using k assms(1) by (force simp: router_ok_def list_all_iff entry_key_ok_def)
  then have "r_topic r \<noteq> []" by (auto simp: checkSubscribeTopic_def validateTopic_def)
  then show "regular (r_topic r) \<and> mqtt_matches (levels t) (levels (r_topic r)) \<longrightarrow> r_topic r \<in> set (getMatches st t)"
    using match_found [OF assms r] by blast
qed (use found_matches [OF assms] in blast)

text \<open>
  C22: The trie finds the subscriptions that match. After any sequence of subscriptions,
  resubscriptions, unsubscriptions and node changes, the routes of a message are those of a
  selection of the subscriptions, each once, with the message's QoS lowered (or raised, by configuration) to that
  of the subscription. Every subscription that is selected has a filter that matches the topic level by
  level, and every subscription whose filter matches is selected, unless its filter is a single slash or ends in
  two (not \<open>regular\<close>; see \<open>double_slash_lost\<close>), whatever the filters of the others. The topic is
  regular as well. (Level by level: the rule of the protocol that a leading wildcard does not match a topic
  that begins with a dollar sign is not part of \<open>mqtt_matches\<close>, and not of the broker.)
\<close>

theorem routes_match_filters:
  assumes "list_all accepted ops" "checkPublishTopic t" "regular t" "rs = map snd (routerCache (run_router ops))"
  shows "\<exists>found. getRoutes upgradeQos (run_router ops) t q =
      map (\<lambda>r. (r_client r, calculate upgradeQos q (r_routerQos r))) (filter found rs) \<and>
    (\<forall>r \<in> set rs. (found r \<longrightarrow> mqtt_matches (levels t) (levels (r_topic r))) \<and>
       (regular (r_topic r) \<and> mqtt_matches (levels t) (levels (r_topic r)) \<longrightarrow> found r))"
  unfolding assms(4) by (rule getRoutes_found [OF run_router_ok [OF assms(1)] assms(2,3)])

definition example_router :: "string \<Rightarrow> string \<Rightarrow> int \<Rightarrow> mqtt_router" where
  "example_router c t q = \<lparr>nodeId = 0, r_client = js c, r_topic = js t, r_routerQos = q\<rparr>"

definition example_ops :: "router_op list" where
  "example_ops = [Router_save (example_router ''c1'' ''a/+/c'' 1), Router_save (example_router ''c2'' ''a/#'' 2),
     Router_save (example_router ''c3'' ''a/b/c'' 0), Router_save (example_router ''c3'' ''a/+'' 0),
     Router_save (example_router ''c4'' ''a/+/c'' 2), Router_delete (js ''c4'') (js ''a/+/c'')]"

lemma example_ops_accepted:
  "list_all accepted example_ops" "list_all (\<lambda>f. regular f) (router_topics (run_router example_ops))"
  "checkPublishTopic (js ''a/b/c'') \<and> regular (js ''a/b/c'')"
  "map snd (routerCache (run_router example_ops)) = [example_router ''c1'' ''a/+/c'' 1, example_router ''c2'' ''a/#'' 2,
     example_router ''c3'' ''a/b/c'' 0, example_router ''c3'' ''a/+'' 0]"
  by code_simp+

lemma example_matches:
  "map (\<lambda>f. mqtt_matches (levels (js ''a/b/c'')) (levels (js f))) [''a/+/c'', ''a/#'', ''a/b/c'', ''a/+''] =
    [True, True, True, False]"
  by code_simp

lemma example_regular: "map (\<lambda>f. regular (js f)) [''a/+/c'', ''a/#'', ''a/b/c'', ''a/+''] = [True, True, True, True]"
  by code_simp

theorem routes_match_filters_witness:
  "getRoutes False (run_router example_ops) (js ''a/b/c'') 1 = [(js ''c1'', 1), (js ''c2'', 1), (js ''c3'', 0)]"
proof -
  let ?rs = "map snd (routerCache (run_router example_ops))"
  obtain found where "getRoutes False (run_router example_ops) (js ''a/b/c'') 1 =
      map (\<lambda>r. (r_client r, calculate False 1 (r_routerQos r))) (filter found ?rs)"
    and "\<forall>r \<in> set ?rs. (found r \<longrightarrow> mqtt_matches (levels (js ''a/b/c'')) (levels (r_topic r))) \<and>
       (regular (r_topic r) \<and> mqtt_matches (levels (js ''a/b/c'')) (levels (r_topic r)) \<longrightarrow> found r)"
    using routes_match_filters [OF example_ops_accepted(1) _ _ refl, of "js ''a/b/c''" False 1] example_ops_accepted(3) by blast
  then show ?thesis
    unfolding example_ops_accepted(4) using example_matches example_regular
    by (simp add: example_router_def calculate_def downgrade_def)
qed

text \<open>A filter that ends in two slashes is stored under a shorter path, and never found again.\<close>

lemma double_slash_lost:
  "getRoutes False (run_router [Router_save (example_router ''c'' ''+//'' 1)]) (js ''a//'') 1 = [] \<and>
   checkSubscribeTopic (js ''+//'') \<and> mqtt_matches (levels (js ''a//'')) (levels (js ''+//''))"
  by code_simp

end
