(* ===== verification/Wrappers.thy ===== *)
theory Wrappers
  imports Router "HOL-Library.AList"
begin

text \<open>
  The session of a client on the broker (\<open>TransientSessionWrapper\<close>, \<open>PersistentSessionWrapper\<close>,
  \<open>IdUtil\<close>, \<open>MsgUtil\<close> and the bounded collections they use): the queue, the in-flight window with
  its retry timers, and the QoS 2 messages that wait for their PUBREL.

  The connection is an \<open>MqttEndpoint\<close> of Vert.x, which is not part of the repository: its methods are
  the fields of a record \<open>endpoint_ops\<close>, an argument of every definition that calls them, and what
  is relied on is stated as \<open>publishes\<close> and \<open>counts\<close>. The collections of Ignite and of the Java
  library are lists and association lists with the contracts their documentation gives. Every
  operation is one step: the flags \<open>queueCas\<close> and \<open>inflightCas\<close> make the code's operations so.
  Metrics and logging are left out. \<open>sent_log\<close> is an auxiliary variable: it records the packets that
  the session handed to its endpoint. The two classes have most of their text in common; where they
  differ, the definition of the one or the other is chosen by the field \<open>wrapper_class\<close>.
\<close>

subsection \<open>Messages\<close>

record smsg =
  m_client :: js_string
  m_id :: int
  m_topic :: js_string
  m_payload :: bytes
  m_qos :: int
  m_dup :: bool
  m_retain :: bool
  m_status :: int
  m_retry :: int

record await_msg =
  aw_client :: js_string
  aw_id :: int
  aw_topic :: js_string
  aw_payload :: bytes
  aw_qos :: int
  aw_dup :: bool
  aw_retain :: bool

text \<open>A PUBLISH packet, as a client sends it to the broker.\<close>

record packet =
  p_id :: int
  p_topic :: js_string
  p_payload :: bytes
  p_qos :: int
  p_dup :: bool
  p_retain :: bool

definition PUBREC_STATUS :: int where "PUBREC_STATUS = 5"
definition MAX_MESSAGE_ID :: int where "MAX_MESSAGE_ID = 65535"
definition PUBLISH_ERROR :: int where "PUBLISH_ERROR = - 99"
definition ENQUEUE_SUCCEEDED :: int where "ENQUEUE_SUCCEEDED = - 1"

definition message_of_packet :: "packet \<Rightarrow> smsg" where
  "message_of_packet p =
     \<lparr>m_client = [], m_id = 0, m_topic = p_topic p, m_payload = p_payload p, m_qos = p_qos p,
      m_dup = p_dup p, m_retain = p_retain p, m_status = 0, m_retry = 0\<rparr>"

definition message_of_await :: "await_msg \<Rightarrow> smsg" where
  "message_of_await a =
     \<lparr>m_client = [], m_id = 0, m_topic = aw_topic a, m_payload = aw_payload a, m_qos = aw_qos a,
      m_dup = aw_dup a, m_retain = aw_retain a, m_status = 0, m_retry = 0\<rparr>"

definition message_of_retain :: "retain_message \<Rightarrow> smsg" where
  "message_of_retain r =
     \<lparr>m_client = [], m_id = 0, m_topic = rt_topic r, m_payload = rt_payload r, m_qos = rt_qos r,
      m_dup = rt_dup r, m_retain = True, m_status = 0, m_retry = 0\<rparr>"

definition await_of_packet :: "packet \<Rightarrow> js_string \<Rightarrow> await_msg" where
  "await_of_packet p clientId =
     \<lparr>aw_client = clientId, aw_id = p_id p, aw_topic = p_topic p, aw_payload = p_payload p,
      aw_qos = p_qos p, aw_dup = p_dup p, aw_retain = p_retain p\<rparr>"

subsection \<open>Bounded collections\<close>

text \<open>\<open>BoundedConcurrentLinkedQueue.addExt\<close>: the number of elements that were dropped to make room,
  and the queue.\<close>

definition linked_addExt :: "int \<Rightarrow> 'a \<Rightarrow> 'a list \<Rightarrow> nat \<times> 'a list" where
  "linked_addExt capacity element q =
     (if capacity > 0 \<and> int (length q) \<ge> capacity then (1, tl q @ [element])
      else (0, q @ [element]))"

text \<open>\<open>BoundedIgniteQueue.offerExt\<close>: a queue of Ignite refuses an element when it is full.\<close>

function ignite_offerExt :: "int \<Rightarrow> 'a \<Rightarrow> 'a list \<Rightarrow> nat \<Rightarrow> nat \<times> 'a list" where
  "ignite_offerExt capacity element q polled =
     (if capacity > 0 \<and> int (length q) \<ge> capacity
      then ignite_offerExt capacity element (tl q) 1
      else (polled, q @ [element]))"
  by pat_completeness auto
termination by (relation "measure (\<lambda>(capacity, element, q, polled). length q)") auto

declare ignite_offerExt.simps [simp del]

definition ignite_addExt :: "int \<Rightarrow> 'a \<Rightarrow> 'a list \<Rightarrow> nat \<times> 'a list" where
  "ignite_addExt capacity element q = ignite_offerExt capacity element q 0"

text \<open>\<open>ExpiringMap.putExt\<close>: \<open>maxSize\<close> is the largest \<open>int\<close> when the capacity is not positive. An
  entry is replaced unless it equals the old value; the messages have no \<open>equals\<close> of their own, and
  a new one is never the old one.\<close>

definition expiring_putExt :: "int \<Rightarrow> int \<Rightarrow> 'v \<Rightarrow> (int \<times> 'v) list \<Rightarrow> bool \<times> (int \<times> 'v) list" where
  "expiring_putExt capacity key value m =
     (let maxSize = (if capacity > 0 then capacity else 2147483647) in
      if map_of m key = None \<and> int (length m) \<ge> maxSize then (False, m)
      else (True, AList.update key value m))"

definition ignite_put :: "int \<Rightarrow> int \<Rightarrow> 'v \<Rightarrow> (int \<times> 'v) list \<Rightarrow> bool \<times> (int \<times> 'v) list" where
  "ignite_put capacity key value m =
     (if map_of m key \<noteq> None then (True, AList.update key value m)
      else if capacity > 0 \<and> int (length m) < capacity then (True, AList.update key value m)
      else (False, m))"

text \<open>What a session relies on in its queue: a new element goes to the end, and only a full queue
  drops its first element for it.\<close>

locale session_queue =
  fixes add :: "int \<Rightarrow> 'a \<Rightarrow> 'a list \<Rightarrow> nat \<times> 'a list"
  assumes add_room: "\<not> (c > 0 \<and> int (length q) \<ge> c) \<Longrightarrow> add c x q = (0, q @ [x])"
    and add_full: "c > 0 \<Longrightarrow> int (length q) = c \<Longrightarrow> add c x q = (1, tl q @ [x])"
begin

lemma add_bounded:
  assumes "c > 0" "int (length q) \<le> c"
  shows "int (length (snd (add c x q))) \<le> c"
proof (cases "int (length q) = c")
  case True
  then have "0 < length q" using assms(1) by linarith
  with True show ?thesis using add_full [OF assms(1) True, of x] by (cases q) auto
next
  case False
  then show ?thesis using assms add_room [of c q x] by simp
qed

lemma add_unbounded: "\<not> c > 0 \<Longrightarrow> snd (add c x q) = q @ [x]"
  using add_room [of c q x] by simp

end

interpretation linked: session_queue linked_addExt
  by unfold_locales (simp_all add: linked_addExt_def)

interpretation ignite: session_queue ignite_addExt
proof unfold_locales
  show "\<not> (c > 0 \<and> int (length q) \<ge> c) \<Longrightarrow> ignite_addExt c x q = (0, q @ [x])" for c x and q :: "'a list"
    by (auto simp: ignite_addExt_def ignite_offerExt.simps [of c x q])
  show "ignite_addExt c x q = (1, tl q @ [x])" if "c > 0" "int (length q) = c" for c x and q :: "'a list"
  proof -
    have "\<not> c \<le> int (length (tl q))" using that by (cases q) auto
    then show ?thesis using that
      by (simp add: ignite_addExt_def ignite_offerExt.simps [of c x q] ignite_offerExt.simps [of c x "tl q"])
  qed
qed

subsection \<open>The endpoint and the state of a session\<close>

record publication =
  pub_topic :: js_string
  pub_payload :: bytes
  pub_qos :: int
  pub_dup :: bool
  pub_retain :: bool

text \<open>The methods of an \<open>MqttEndpoint\<close>; \<open>None\<close> is an \<open>IllegalStateException\<close>.\<close>

record 'e endpoint_ops =
  ep_connected :: "'e \<Rightarrow> bool"
  ep_lastMessageId :: "'e \<Rightarrow> int"
  ep_publish :: "publication \<Rightarrow> 'e \<Rightarrow> 'e option"
  ep_publishRelease :: "int \<Rightarrow> 'e \<Rightarrow> 'e option"
  ep_close :: "'e \<Rightarrow> 'e"

datatype wrapper_class = Transient | Persistent

text \<open>The part of \<open>Config\<close> that the sessions read.\<close>

record session_config =
  awaitMaxCapacity :: int
  queueMaxCapacity :: int
  queueStoreQos0 :: bool
  inflightMaxCapacity :: int
  inflightMaxRetries :: int

datatype transmission = First publication | Again publication | Released int

record 'e wrapper =
  wrapper_class :: wrapper_class
  thisClientId :: js_string
  w_endpoint :: 'e
  w_awaits :: "(int \<times> await_msg) list"
  w_queue :: "smsg list"
  w_inflights :: "(int \<times> smsg) list"
  w_timeouts :: "int list"
  sent_log :: "transmission list"

definition new_wrapper :: "wrapper_class \<Rightarrow> js_string \<Rightarrow> 'e \<Rightarrow> 'e wrapper" where
  "new_wrapper cls clientId e =
     \<lparr>wrapper_class = cls, thisClientId = clientId, w_endpoint = e, w_awaits = [], w_queue = [],
      w_inflights = [], w_timeouts = [], sent_log = []\<rparr>"

definition nextMessageId :: "'e endpoint_ops \<Rightarrow> 'e \<Rightarrow> int" where
  "nextMessageId E e =
     (if \<not> ep_connected E e then - 1
      else if ep_lastMessageId E e mod MAX_MESSAGE_ID \<noteq> 0 then ep_lastMessageId E e + 1 else 1)"

definition isInflightFull :: "session_config \<Rightarrow> 'e wrapper \<Rightarrow> bool" where
  "isInflightFull c w \<longleftrightarrow>
     inflightMaxCapacity c > 0 \<and> int (length (w_inflights w)) \<ge> inflightMaxCapacity c"

definition saveInflightTimeout :: "int \<Rightarrow> 'e wrapper \<Rightarrow> 'e wrapper" where
  "saveInflightTimeout messageId w = w\<lparr>w_timeouts := List.insert messageId (w_timeouts w)\<rparr>"

definition deleteInflightTimeout :: "int \<Rightarrow> 'e wrapper \<Rightarrow> 'e wrapper" where
  "deleteInflightTimeout messageId w = w\<lparr>w_timeouts := removeAll messageId (w_timeouts w)\<rparr>"

text \<open>\<open>inflights.put\<close>: a \<open>ConcurrentHashMap\<close> or a \<open>BoundedIgniteMapUnsafe\<close>, whose result is ignored.\<close>

definition put_inflight :: "session_config \<Rightarrow> int \<Rightarrow> smsg \<Rightarrow> 'e wrapper \<Rightarrow> 'e wrapper" where
  "put_inflight c messageId m w =
     (case wrapper_class w of
        Transient \<Rightarrow> w\<lparr>w_inflights := AList.update messageId m (w_inflights w)\<rparr>
      | Persistent \<Rightarrow> w\<lparr>w_inflights := snd (ignite_put (inflightMaxCapacity c) messageId m (w_inflights w))\<rparr>)"

definition remove_inflight :: "int \<Rightarrow> 'e wrapper \<Rightarrow> 'e wrapper" where
  "remove_inflight messageId w = w\<lparr>w_inflights := AList.delete messageId (w_inflights w)\<rparr>"

subsection \<open>Sending\<close>

definition publication_of :: "smsg \<Rightarrow> publication" where
  "publication_of m =
     \<lparr>pub_topic = m_topic m, pub_payload = m_payload m, pub_qos = m_qos m, pub_dup = m_dup m,
      pub_retain = m_retain m\<rparr>"

definition publish :: "'e endpoint_ops \<Rightarrow> smsg \<Rightarrow> bool \<Rightarrow> 'e wrapper \<Rightarrow> int \<times> 'e wrapper" where
  "publish E m everPublished w =
     (if \<not> ep_connected E (w_endpoint w) then (PUBLISH_ERROR, w)
      else (let p = (if everPublished then (publication_of m)\<lparr>pub_dup := True\<rparr> else publication_of m) in
        case ep_publish E p (w_endpoint w) of
          None \<Rightarrow> (PUBLISH_ERROR, w)
        | Some e \<Rightarrow>
            (if m_qos m = 0 then 0 else ep_lastMessageId E e,
             w\<lparr>w_endpoint := e,
               sent_log := sent_log w @ [if everPublished then Again p else First p]\<rparr>)))"

definition publishRelease :: "'e endpoint_ops \<Rightarrow> int \<Rightarrow> 'e wrapper \<Rightarrow> int \<times> 'e wrapper" where
  "publishRelease E messageId w =
     (case ep_publishRelease E messageId (w_endpoint w) of
        None \<Rightarrow> (PUBLISH_ERROR, w)
      | Some e \<Rightarrow> (messageId, w\<lparr>w_endpoint := e, sent_log := sent_log w @ [Released messageId]\<rparr>))"

definition enqueue :: "session_config \<Rightarrow> smsg \<Rightarrow> 'e wrapper \<Rightarrow> int \<times> 'e wrapper" where
  "enqueue c m w =
     (ENQUEUE_SUCCEEDED,
      w\<lparr>w_queue := snd (case wrapper_class w of
          Transient \<Rightarrow> linked_addExt (queueMaxCapacity c) m (w_queue w)
        | Persistent \<Rightarrow> ignite_addExt (queueMaxCapacity c) m (w_queue w))\<rparr>)"

definition inflight :: "'e endpoint_ops \<Rightarrow> session_config \<Rightarrow> smsg \<Rightarrow> 'e wrapper \<Rightarrow> int \<times> 'e wrapper" where
  "inflight E c m w =
     (if w_queue w \<noteq> [] \<or> isInflightFull c w then enqueue c m w
      else (let messageId = nextMessageId E (w_endpoint w) in
        if messageId > 0 then
          (let m = m\<lparr>m_id := messageId\<rparr> in
           publish E m False (saveInflightTimeout messageId (put_inflight c messageId m w)))
        else enqueue c m w))"

definition handle_message :: "'e endpoint_ops \<Rightarrow> session_config \<Rightarrow> smsg \<Rightarrow> 'e wrapper \<Rightarrow> int \<times> 'e wrapper" where
  "handle_message E c m w =
     (if m_qos m = 0 then
        (if queueStoreQos0 c \<and> w_queue w \<noteq> [] then enqueue c m w else publish E m False w)
      else inflight E c m w)"

text \<open>One pass of the loop of \<open>dequeue\<close>, after \<open>m\<close> was taken from the queue: whether the loop goes on.\<close>

definition dequeue_transient :: "'e endpoint_ops \<Rightarrow> session_config \<Rightarrow> smsg \<Rightarrow> 'e wrapper \<Rightarrow> bool \<times> 'e wrapper" where
  "dequeue_transient E c m w =
     (let (result, w) = (if m_qos m = 0 then publish E m False w else (0, w)) in
      if m_qos m = 0 \<and> result \<noteq> 0 then (False, w)
      else (let messageId = nextMessageId E (w_endpoint w) in
        if messageId > 0 then
          (let m = m\<lparr>m_id := messageId\<rparr>;
               w = saveInflightTimeout messageId (put_inflight c messageId m w) in
           (True, snd (publish E m False w)))
        else (False, w)))"

definition dequeue_persistent :: "'e endpoint_ops \<Rightarrow> session_config \<Rightarrow> smsg \<Rightarrow> 'e wrapper \<Rightarrow> bool \<times> 'e wrapper" where
  "dequeue_persistent E c m w =
     (let (result, w) = (if m_qos m = 0 then publish E m False w else (0, w)) in
      if m_qos m = 0 \<and> result \<noteq> 0 then (False, w)
      else (let messageId = nextMessageId E (w_endpoint w);
                m = m\<lparr>m_id := messageId\<rparr>;
                w = put_inflight c messageId m w in
        if messageId > 0 then (True, snd (publish E m False (saveInflightTimeout messageId w)))
        else (False, w)))"

definition dequeue_one :: "'e endpoint_ops \<Rightarrow> session_config \<Rightarrow> smsg \<Rightarrow> 'e wrapper \<Rightarrow> bool \<times> 'e wrapper" where
  "dequeue_one E c m w =
     (case wrapper_class w of
        Transient \<Rightarrow> dequeue_transient E c m w
      | Persistent \<Rightarrow> dequeue_persistent E c m w)"

lemma publish_keeps [simp]:
  "w_queue (snd (publish E m r w)) = w_queue w"
  "w_inflights (snd (publish E m r w)) = w_inflights w"
  "w_timeouts (snd (publish E m r w)) = w_timeouts w"
  "w_awaits (snd (publish E m r w)) = w_awaits w"
  "wrapper_class (snd (publish E m r w)) = wrapper_class w"
  "thisClientId (snd (publish E m r w)) = thisClientId w"
  by (simp_all add: publish_def Let_def split: option.split)

lemma update_keeps [simp]:
  "w_queue (put_inflight c i m w) = w_queue w"
  "w_endpoint (put_inflight c i m w) = w_endpoint w"
  "w_timeouts (put_inflight c i m w) = w_timeouts w"
  "w_awaits (put_inflight c i m w) = w_awaits w"
  "wrapper_class (put_inflight c i m w) = wrapper_class w"
  "sent_log (put_inflight c i m w) = sent_log w"
  "saveInflightTimeout i w = w\<lparr>w_timeouts := List.insert i (w_timeouts w)\<rparr>"
  by (simp_all add: put_inflight_def saveInflightTimeout_def split: wrapper_class.split)

lemma dequeue_one_queue [simp]: "w_queue (snd (dequeue_one E c m w)) = w_queue w"
  by (simp add: dequeue_one_def dequeue_transient_def dequeue_persistent_def Let_def case_prod_beta
        split: wrapper_class.split)

function dequeue :: "'e endpoint_ops \<Rightarrow> session_config \<Rightarrow> 'e wrapper \<Rightarrow> 'e wrapper" where
  "dequeue E c w =
     (if \<not> ep_connected E (w_endpoint w) \<or> w_queue w = [] \<or> isInflightFull c w then w
      else (let r = dequeue_one E c (hd (w_queue w)) (w\<lparr>w_queue := tl (w_queue w)\<rparr>) in
        if fst r then dequeue E c (snd r) else snd r))"
  by pat_completeness auto
termination by (relation "measure (\<lambda>(E, c, w). length (w_queue w))") auto

declare dequeue.simps [simp del]

lemma dequeue_stop:
  "\<not> ep_connected E (w_endpoint w) \<or> w_queue w = [] \<or> isInflightFull c w \<Longrightarrow> dequeue E c w = w"
  by (subst dequeue.simps) simp

lemma dequeue_go:
  "ep_connected E (w_endpoint w) \<Longrightarrow> w_queue w = m # q \<Longrightarrow> \<not> isInflightFull c w \<Longrightarrow>
   dequeue E c w = (let r = dequeue_one E c m (w\<lparr>w_queue := q\<rparr>) in
     if fst r then dequeue E c (snd r) else snd r)"
  by (subst dequeue.simps) simp

definition publishCachedMessage :: "'e endpoint_ops \<Rightarrow> session_config \<Rightarrow> 'e wrapper \<Rightarrow> 'e wrapper" where
  "publishCachedMessage E c w = dequeue E c w"

text \<open>\<open>copyMqttMessage\<close> copies every field: the copy of a record is the record.\<close>

definition publishMessage :: "'e endpoint_ops \<Rightarrow> session_config \<Rightarrow> smsg \<Rightarrow> int \<Rightarrow> 'e wrapper \<Rightarrow> 'e wrapper" where
  "publishMessage E c m q w =
     (let (result, w) = handle_message E c (m\<lparr>m_client := thisClientId w, m_qos := q\<rparr>) w in
      if result = ENQUEUE_SUCCEEDED then publishCachedMessage E c w else w)"

fun handle_retained :: "'e endpoint_ops \<Rightarrow> session_config \<Rightarrow> retain_message list \<Rightarrow> 'e wrapper \<Rightarrow> nat \<times> 'e wrapper" where
  "handle_retained E c [] w = (0, w)"
| "handle_retained E c (r # rs) w =
     (let (result, w) = handle_message E c ((message_of_retain r)\<lparr>m_client := thisClientId w\<rparr>) w;
          (enqueued, w) = handle_retained E c rs w in
      (if result = ENQUEUE_SUCCEEDED then enqueued + 1 else enqueued, w))"

definition publishRetainMessage ::
  "'e endpoint_ops \<Rightarrow> session_config \<Rightarrow> retain_message list option \<Rightarrow> 'e wrapper \<Rightarrow> 'e wrapper" where
  "publishRetainMessage E c retains w =
     (case retains of
        None \<Rightarrow> w
      | Some rs \<Rightarrow>
          (let (enqueued, w) = handle_retained E c rs w in
           if enqueued > 0 then publishCachedMessage E c w else w))"

subsection \<open>Acknowledgements and retries\<close>

definition receivePuback :: "'e endpoint_ops \<Rightarrow> session_config \<Rightarrow> int \<Rightarrow> 'e wrapper \<Rightarrow> 'e wrapper" where
  "receivePuback E c messageId w =
     publishCachedMessage E c (deleteInflightTimeout messageId (remove_inflight messageId w))"

text \<open>A message that a \<open>ConcurrentHashMap\<close> holds is updated in place, and the \<open>put\<close> of the
  persistent session stores it under the key it has: both are the \<open>put\<close> of the changed message.\<close>

definition receivePubrec :: "session_config \<Rightarrow> int \<Rightarrow> 'e wrapper \<Rightarrow> 'e wrapper" where
  "receivePubrec c messageId w =
     (case map_of (w_inflights w) messageId of
        None \<Rightarrow> w
      | Some m \<Rightarrow> put_inflight c messageId (m\<lparr>m_status := PUBREC_STATUS\<rparr>) w)"

definition receivePubcomp :: "'e endpoint_ops \<Rightarrow> session_config \<Rightarrow> int \<Rightarrow> 'e wrapper \<Rightarrow> 'e wrapper" where
  "receivePubcomp E c messageId w =
     publishCachedMessage E c (deleteInflightTimeout messageId (remove_inflight messageId w))"

definition retry_transient :: "'e endpoint_ops \<Rightarrow> session_config \<Rightarrow> smsg \<Rightarrow> 'e wrapper \<Rightarrow> 'e wrapper" where
  "retry_transient E c m w =
     (if m_qos m = 2 \<and> m_status m = PUBREC_STATUS then
        (let old = m_id m; m = m\<lparr>m_retry := m_retry m + 1\<rparr> in
         snd (publishRelease E old (saveInflightTimeout old (put_inflight c old m w))))
      else (let messageId = nextMessageId E (w_endpoint w) in
        if messageId > 0 then
          (let old = m_id m; m = m\<lparr>m_id := messageId, m_retry := m_retry m + 1\<rparr> in
           snd (publish E m True
             (saveInflightTimeout messageId (put_inflight c messageId m (remove_inflight old w)))))
        else w))"

definition retry_persistent :: "'e endpoint_ops \<Rightarrow> session_config \<Rightarrow> smsg \<Rightarrow> 'e wrapper \<Rightarrow> 'e wrapper" where
  "retry_persistent E c m w =
     (if m_qos m = 2 \<and> m_status m = PUBREC_STATUS then
        (let old = m_id m; m = m\<lparr>m_retry := m_retry m + 1\<rparr> in
         snd (publishRelease E old (saveInflightTimeout old (put_inflight c old m w))))
      else (let messageId = nextMessageId E (w_endpoint w); old = m_id m in
        if messageId > 0 then
          (let m = m\<lparr>m_id := messageId, m_retry := m_retry m + 1\<rparr> in
           snd (publish E m True
             (saveInflightTimeout messageId (put_inflight c messageId m (remove_inflight old w)))))
        else saveInflightTimeout old (put_inflight c old (m\<lparr>m_retry := m_retry m + 1\<rparr>) w)))"

definition retry_message :: "'e endpoint_ops \<Rightarrow> session_config \<Rightarrow> smsg \<Rightarrow> 'e wrapper \<Rightarrow> 'e wrapper" where
  "retry_message E c m w =
     (case wrapper_class w of
        Transient \<Rightarrow> retry_transient E c m w
      | Persistent \<Rightarrow> retry_persistent E c m w)"

definition retry :: "'e endpoint_ops \<Rightarrow> session_config \<Rightarrow> int \<Rightarrow> 'e wrapper \<Rightarrow> 'e wrapper" where
  "retry E c messageId w =
     (case map_of (w_inflights w) messageId of
        None \<Rightarrow> w
      | Some m \<Rightarrow>
          if m_retry m \<ge> inflightMaxRetries c
          then publishCachedMessage E c (remove_inflight messageId w)
          else retry_message E c m w)"

text \<open>The timer of \<open>timeouts\<close>: an entry that expires is removed and its message is retried.\<close>

definition inflightExpired :: "'e endpoint_ops \<Rightarrow> session_config \<Rightarrow> int \<Rightarrow> 'e wrapper \<Rightarrow> 'e wrapper" where
  "inflightExpired E c key w =
     (if key \<in> set (w_timeouts w)
      then retry E c key (w\<lparr>w_timeouts := removeAll key (w_timeouts w)\<rparr>) else w)"

text \<open>The loop of \<open>PersistentSessionWrapper.retryInflight()\<close> over the keys, in the order in which the
  set enumerates them. A key without a message would be a \<open>NullPointerException\<close>, here \<open>None\<close>.\<close>

fun retryInflight_all :: "'e endpoint_ops \<Rightarrow> session_config \<Rightarrow> int list \<Rightarrow> 'e wrapper \<Rightarrow> 'e wrapper option" where
  "retryInflight_all E c [] w = Some w"
| "retryInflight_all E c (key # keys) w =
     (case map_of (w_inflights w) key of
        None \<Rightarrow> None
      | Some m \<Rightarrow> retryInflight_all E c keys (retry_persistent E c m w))"

definition open_persistent :: "'e endpoint_ops \<Rightarrow> session_config \<Rightarrow> int list \<Rightarrow> 'e wrapper \<Rightarrow> 'e wrapper option" where
  "open_persistent E c keys w =
     map_option (publishCachedMessage E c) (retryInflight_all E c keys w)"

definition refreshEndpoint :: "'e \<Rightarrow> 'e wrapper \<Rightarrow> 'e wrapper" where
  "refreshEndpoint e w =
     (case wrapper_class w of Transient \<Rightarrow> w | Persistent \<Rightarrow> w\<lparr>w_endpoint := e\<rparr>)"

definition closeEndpoint :: "'e endpoint_ops \<Rightarrow> 'e wrapper \<Rightarrow> 'e wrapper" where
  "closeEndpoint E w =
     (if ep_connected E (w_endpoint w) then w\<lparr>w_endpoint := ep_close E (w_endpoint w)\<rparr> else w)"

definition receiveQos2Message :: "session_config \<Rightarrow> packet \<Rightarrow> 'e wrapper \<Rightarrow> bool \<times> 'e wrapper" where
  "receiveQos2Message c p w =
     (let a = await_of_packet p (thisClientId w);
          (stored, awaits) = (case wrapper_class w of
             Transient \<Rightarrow> expiring_putExt (awaitMaxCapacity c) (aw_id a) a (w_awaits w)
           | Persistent \<Rightarrow> ignite_put (awaitMaxCapacity c) (aw_id a) a (w_awaits w)) in
      (stored, w\<lparr>w_awaits := awaits\<rparr>))"

definition releaseQos2Message :: "int \<Rightarrow> 'e wrapper \<Rightarrow> await_msg option \<times> 'e wrapper" where
  "releaseQos2Message messageId w =
     (map_of (w_awaits w) messageId, w\<lparr>w_awaits := AList.delete messageId (w_awaits w)\<rparr>)"

text \<open>\<open>QueueCacheImpl.enqueue\<close>: a message for a persistent session without a wrapper.\<close>

definition cache_enqueue :: "session_config \<Rightarrow> smsg \<Rightarrow> js_string \<Rightarrow> int \<Rightarrow> smsg list \<Rightarrow> bool \<times> smsg list" where
  "cache_enqueue c m clientId q queue =
     (if \<not> validateClientId clientId then (False, queue)
      else if m_qos m = 0 \<and> \<not> queueStoreQos0 c then (False, queue)
      else (True, snd (ignite_addExt (queueMaxCapacity c) (m\<lparr>m_client := clientId, m_qos := q\<rparr>) queue)))"

subsection \<open>Runs of a session\<close>

datatype session_op =
    Deliver smsg int
  | Retained "retain_message list"
  | Cached
  | Puback int
  | Pubrec int
  | Pubcomp int
  | Expired int
  | Qos2 packet
  | Release int

primrec session_step :: "'e endpoint_ops \<Rightarrow> session_config \<Rightarrow> session_op \<Rightarrow> 'e wrapper \<Rightarrow> 'e wrapper" where
  "session_step E c (Deliver m q) w = publishMessage E c m q w"
| "session_step E c (Retained rs) w = publishRetainMessage E c (Some rs) w"
| "session_step E c Cached w = publishCachedMessage E c w"
| "session_step E c (Puback i) w = receivePuback E c i w"
| "session_step E c (Pubrec i) w = receivePubrec c i w"
| "session_step E c (Pubcomp i) w = receivePubcomp E c i w"
| "session_step E c (Expired i) w = inflightExpired E c i w"
| "session_step E c (Qos2 p) w = snd (receiveQos2Message c p w)"
| "session_step E c (Release i) w = snd (releaseQos2Message i w)"

text \<open>What an operation brings to the client: the publications, at the quality of their route.\<close>

primrec arrivals :: "session_op \<Rightarrow> publication list" where
  "arrivals (Deliver m q) = [publication_of (m\<lparr>m_qos := q\<rparr>)]"
| "arrivals (Retained rs) = map (\<lambda>r. publication_of (message_of_retain r)) rs"
| "arrivals Cached = []"
| "arrivals (Puback i) = []"
| "arrivals (Pubrec i) = []"
| "arrivals (Pubcomp i) = []"
| "arrivals (Expired i) = []"
| "arrivals (Qos2 p) = []"
| "arrivals (Release i) = []"

text \<open>
  The runs of one session, with the publications that arrived for it: its operations, changes of
  the connection that are not of its doing, messages put into the queue of a persistent session
  while it has no wrapper, and the reopening of a persistent session on a new connection.
\<close>

inductive session_run :: "'e endpoint_ops \<Rightarrow> session_config \<Rightarrow> 'e wrapper \<Rightarrow> publication list \<Rightarrow> bool"
  for E :: "'e endpoint_ops" and c :: session_config where
  start: "session_run E c (new_wrapper cls clientId e) []"
| step: "session_run E c w arr \<Longrightarrow> session_run E c (session_step E c a w) (arr @ arrivals a)"
| connection: "session_run E c w arr \<Longrightarrow> session_run E c (w\<lparr>w_endpoint := e\<rparr>) arr"
| stored: "session_run E c w arr \<Longrightarrow> wrapper_class w = Persistent \<Longrightarrow>
    cache_enqueue c m (thisClientId w) q (w_queue w) = (True, queue) \<Longrightarrow>
    session_run E c (w\<lparr>w_queue := queue\<rparr>) (arr @ [publication_of (m\<lparr>m_qos := q\<rparr>)])"
| reopened: "session_run E c w arr \<Longrightarrow> wrapper_class w = Persistent \<Longrightarrow>
    set keys = fst ` set (w_inflights w) \<Longrightarrow> distinct keys \<Longrightarrow> timers \<in> {w_timeouts w, []} \<Longrightarrow>
    open_persistent E c keys (refreshEndpoint e (w\<lparr>w_timeouts := timers\<rparr>)) = Some w' \<Longrightarrow>
    session_run E c w' arr"

subsection \<open>The bounds of a session\<close>

definition ids_ok :: "(int \<times> smsg) list \<Rightarrow> bool" where
  "ids_ok m \<longleftrightarrow> distinct (map fst m) \<and> list_all (\<lambda>e. m_id (snd e) = fst e) m"

definition wrapper_ok :: "session_config \<Rightarrow> 'e wrapper \<Rightarrow> bool" where
  "wrapper_ok c w \<longleftrightarrow>
     ids_ok (w_inflights w) \<and>
     (inflightMaxCapacity c > 0 \<longrightarrow> int (length (w_inflights w)) \<le> inflightMaxCapacity c) \<and>
     (queueMaxCapacity c > 0 \<longrightarrow> int (length (w_queue w)) \<le> queueMaxCapacity c) \<and>
     (awaitMaxCapacity c > 0 \<longrightarrow> int (length (w_awaits w)) \<le> awaitMaxCapacity c)"

lemma length_update: "length (AList.update k v m) = (if k \<in> fst ` set m then length m else Suc (length m))"
  by (induction m) auto

lemma length_delete_present:
  "map_of m k \<noteq> None \<Longrightarrow> Suc (length (AList.delete k m)) \<le> length m"
  by (induction m) (auto simp: length_delete_le split: if_splits)

lemma length_delete_distinct:
  "distinct (map fst m) \<Longrightarrow> k \<in> fst ` set m \<Longrightarrow> Suc (length (AList.delete k m)) = length m"
  by (induction m) (auto simp: image_iff)

lemma map_of_present: "map_of m k = Some v \<Longrightarrow> k \<in> fst ` set m"
  by (metis map_of_eq_None_iff option.distinct(1))

lemma update_ids: "ids_ok m \<Longrightarrow> m_id x = i \<Longrightarrow> ids_ok (AList.update i x m)"
proof -
  have "list_all (\<lambda>e. m_id (snd e) = fst e) m \<Longrightarrow> m_id x = i \<Longrightarrow>
      list_all (\<lambda>e. m_id (snd e) = fst e) (AList.update i x m)" by (induction m) auto
  then show "ids_ok m \<Longrightarrow> m_id x = i \<Longrightarrow> ids_ok (AList.update i x m)"
    by (simp add: ids_ok_def distinct_update)
qed

lemma delete_ids: "ids_ok m \<Longrightarrow> ids_ok (AList.delete i m)"
proof -
  have "list_all P m \<Longrightarrow> list_all P (AList.delete i m)" for P by (induction m) auto
  then show "ids_ok m \<Longrightarrow> ids_ok (AList.delete i m)" by (simp add: ids_ok_def distinct_delete)
qed

lemma ids_okD: "ids_ok m \<Longrightarrow> map_of m i = Some x \<Longrightarrow> m_id x = i"
  unfolding ids_ok_def list_all_iff using map_of_SomeD by fastforce

text \<open>Updates of the parts of a session that its bounds do not mention.\<close>

lemma wrapper_ok_simps [simp]:
  "wrapper_ok c (w\<lparr>w_endpoint := e\<rparr>) = wrapper_ok c w"
  "wrapper_ok c (w\<lparr>w_timeouts := ts\<rparr>) = wrapper_ok c w"
  "wrapper_ok c (snd (publish E m r w)) = wrapper_ok c w"
  "wrapper_ok c (snd (publishRelease E i w)) = wrapper_ok c w"
  "wrapper_ok c (deleteInflightTimeout i w) = wrapper_ok c w"
  by (simp_all add: wrapper_ok_def publishRelease_def deleteInflightTimeout_def split: option.split)

lemma put_ok:
  assumes "wrapper_ok c w" "m_id m = i" "\<not> isInflightFull c w \<or> i \<in> fst ` set (w_inflights w)"
  shows "wrapper_ok c (put_inflight c i m w)"
  using assms update_ids [OF _ assms(2)]
  by (auto simp: wrapper_ok_def put_inflight_def isInflightFull_def ignite_put_def length_update
      map_of_eq_None_iff split: wrapper_class.split)

lemma remove_ok: "wrapper_ok c w \<Longrightarrow> wrapper_ok c (remove_inflight i w)"
  using length_delete_le [of i "w_inflights w"]
  by (auto simp: wrapper_ok_def remove_inflight_def delete_ids)

lemma room_after_remove:
  assumes "wrapper_ok c w" "map_of (w_inflights w) i \<noteq> None"
  shows "\<not> isInflightFull c (remove_inflight i w)"
  using assms length_delete_present [of "w_inflights w" i]
  by (auto simp: wrapper_ok_def isInflightFull_def remove_inflight_def)

lemma enqueue_ok: "wrapper_ok c w \<Longrightarrow> wrapper_ok c (snd (enqueue c m w))"
  using linked.add_bounded [of "queueMaxCapacity c" "w_queue w" m]
    ignite.add_bounded [of "queueMaxCapacity c" "w_queue w" m]
  by (auto simp: wrapper_ok_def enqueue_def split: wrapper_class.split)

lemma handle_message_ok: "wrapper_ok c w \<Longrightarrow> wrapper_ok c (snd (handle_message E c m w))"
  by (auto simp: handle_message_def inflight_def Let_def enqueue_ok intro!: put_ok)

lemma full_keeps [simp]:
  "isInflightFull c (w\<lparr>w_queue := q\<rparr>) = isInflightFull c w"
  "isInflightFull c (w\<lparr>w_timeouts := t\<rparr>) = isInflightFull c w"
  "isInflightFull c (snd (publish E m r w)) = isInflightFull c w"
  by (simp_all add: isInflightFull_def)

lemma dequeue_one_ok:
  "wrapper_ok c w \<Longrightarrow> \<not> isInflightFull c w \<Longrightarrow> wrapper_ok c (snd (dequeue_one E c m w))"
  by (auto simp: dequeue_one_def dequeue_transient_def dequeue_persistent_def Let_def case_prod_beta
      split: wrapper_class.split intro!: put_ok)

lemma dequeue_ok: "wrapper_ok c w \<Longrightarrow> wrapper_ok c (dequeue E c w)"
proof (induction E c w rule: dequeue.induct)
  case (1 E c w)
  let ?w = "w\<lparr>w_queue := tl (w_queue w)\<rparr>"
  have "wrapper_ok c ?w" using 1(2) by (auto simp: wrapper_ok_def)
  then have "wrapper_ok c (snd (dequeue_one E c (hd (w_queue w)) ?w))" if "\<not> isInflightFull c w"
    using that by (intro dequeue_one_ok) auto
  then show ?case using 1 by (subst dequeue.simps) (auto simp: Let_def)
qed

lemma publish_ok:
  "wrapper_ok c w \<Longrightarrow> wrapper_ok c (publishMessage E c m q w)"
  "wrapper_ok c w \<Longrightarrow> wrapper_ok c (publishRetainMessage E c rs w)"
proof -
  show "wrapper_ok c w \<Longrightarrow> wrapper_ok c (publishMessage E c m q w)"
    by (auto simp: publishMessage_def publishCachedMessage_def Let_def case_prod_beta handle_message_ok
        intro!: dequeue_ok)
  have "wrapper_ok c w \<Longrightarrow> wrapper_ok c (snd (handle_retained E c rs w))" for rs
    by (induction rs arbitrary: w) (auto simp: Let_def case_prod_beta handle_message_ok)
  then show "wrapper_ok c w \<Longrightarrow> wrapper_ok c (publishRetainMessage E c rs w)"
    by (auto simp: publishRetainMessage_def publishCachedMessage_def Let_def case_prod_beta
        split: option.split intro!: dequeue_ok)
qed

lemma retry_message_ok:
  assumes "wrapper_ok c w" "map_of (w_inflights w) (m_id m) \<noteq> None"
  shows "wrapper_ok c (retry_message E c m w)" "wrapper_ok c (retry_persistent E c m w)"
proof -
  have room: "\<not> isInflightFull c (remove_inflight (m_id m) w)" using assms by (rule room_after_remove)
  have here: "m_id m \<in> fst ` set (w_inflights w)" using assms(2) by (meson map_of_eq_None_iff)
  show "wrapper_ok c (retry_message E c m w)" "wrapper_ok c (retry_persistent E c m w)"
    using assms(1) room here
    by (auto simp: retry_message_def retry_transient_def retry_persistent_def Let_def
        split: wrapper_class.split intro!: put_ok remove_ok)
qed

lemma inflightExpired_ok:
  assumes "wrapper_ok c w"
  shows "wrapper_ok c (inflightExpired E c k w)"
proof -
  have "wrapper_ok c (retry E c k v)" if "wrapper_ok c v" for v
    using that retry_message_ok(1) [OF that, of _ E] ids_okD [of "w_inflights v" k]
    by (auto simp: retry_def publishCachedMessage_def wrapper_ok_def split: option.split
        intro!: dequeue_ok [unfolded wrapper_ok_def] remove_ok [unfolded wrapper_ok_def])
  then show ?thesis using assms by (simp add: inflightExpired_def)
qed

lemma step_ok:
  assumes "wrapper_ok c w"
  shows "wrapper_ok c (session_step E c a w)"
proof (cases a)
  case (Pubrec i)
  have "wrapper_ok c (put_inflight c i (m\<lparr>m_status := PUBREC_STATUS\<rparr>) w)" if "map_of (w_inflights w) i = Some m" for m
    using that assms ids_okD [of "w_inflights w" i m] map_of_present [of "w_inflights w" i m]
    by (intro put_ok) (auto simp: wrapper_ok_def)
  then show ?thesis using Pubrec assms by (simp add: receivePubrec_def split: option.split)
next
  case (Qos2 p)
  then show ?thesis using assms
    by (auto simp: wrapper_ok_def receiveQos2Message_def Let_def ignite_put_def expiring_putExt_def
        length_update map_of_eq_None_iff split: wrapper_class.split)
next
  case (Release i)
  then show ?thesis using assms length_delete_le [of i "w_awaits w"]
    by (auto simp: wrapper_ok_def releaseQos2Message_def)
qed (use assms in \<open>simp_all add: publish_ok inflightExpired_ok receivePuback_def receivePubcomp_def
       publishCachedMessage_def dequeue_ok remove_ok\<close>)

lemma retryInflight_all_ok:
  "wrapper_ok c w \<Longrightarrow> retryInflight_all E c keys w = Some w' \<Longrightarrow> wrapper_ok c w'"
proof (induction keys arbitrary: w)
  case (Cons k ks)
  then obtain m where m: "map_of (w_inflights w) k = Some m" "retryInflight_all E c ks (retry_persistent E c m w) = Some w'"
    by (auto split: option.splits)
  moreover have "m_id m = k" using Cons.prems(1) m(1) ids_okD by (auto simp: wrapper_ok_def)
  ultimately have "wrapper_ok c (retry_persistent E c m w)"
    using Cons.prems(1) by (intro retry_message_ok) auto
  then show ?case using m(2) Cons.IH by blast
qed simp

lemma open_ok:
  "wrapper_ok c w \<Longrightarrow> open_persistent E c keys w = Some w' \<Longrightarrow> wrapper_ok c w'"
  using retryInflight_all_ok [of c w E keys]
  by (auto simp: open_persistent_def publishCachedMessage_def intro: dequeue_ok)

lemma run_ok: "session_run E c w arr \<Longrightarrow> wrapper_ok c w"
proof (induction rule: session_run.induct)
  case (start cls clientId e)
  then show ?case by (simp add: wrapper_ok_def new_wrapper_def ids_ok_def)
next
  case (stored w arr m q queue)
  then show ?case using ignite.add_bounded [of "queueMaxCapacity c" "w_queue w"]
    by (auto simp: wrapper_ok_def cache_enqueue_def split: if_splits)
next
  case (reopened w arr keys timers e w')
  then show ?case
    using open_ok [of c "refreshEndpoint e (w\<lparr>w_timeouts := timers\<rparr>)"] by (simp add: refreshEndpoint_def)
qed (simp_all add: step_ok)

end
