(* ===== verification/Wrapper_Delivery.thy ===== *)
theory Wrapper_Delivery
  imports Wrappers
begin

text \<open>
  The properties of the broker's sessions: their bounds, the order in which the messages of a client
  go out, what an acknowledgement sets in motion, how the two classes of sessions compare, and where
  the code of the sessions goes wrong. What they rely on in the connection is \<open>publishes\<close>,
  \<open>counts\<close> and \<open>releases\<close>; \<open>counter_endpoint\<close> shows that they can hold.
\<close>

subsection \<open>The connection\<close>

text \<open>What the sessions rely on in an endpoint of Vert.x. A connected endpoint accepts a packet;
  it stays connected by that, and gives a packet that is acknowledged the identifier that follows
  the last one, from 65535 back to 1.\<close>

definition publishes :: "'e endpoint_ops \<Rightarrow> bool" where
  "publishes E \<longleftrightarrow>
     (\<forall>e p. ep_connected E e \<longrightarrow> ep_lastMessageId E e \<ge> 0 \<and> ep_publish E p e \<noteq> None)"

definition counts :: "'e endpoint_ops \<Rightarrow> bool" where
  "counts E \<longleftrightarrow>
     (\<forall>e p e'. ep_connected E e \<longrightarrow> ep_publish E p e = Some e' \<longrightarrow>
        ep_connected E e' \<and> (pub_qos p \<noteq> 0 \<longrightarrow> ep_lastMessageId E e' = nextMessageId E e))"

text \<open>A connection with its counter, for examples.\<close>

definition counter_endpoint :: "(bool \<times> int) endpoint_ops" where
  "counter_endpoint =
     \<lparr>ep_connected = fst, ep_lastMessageId = (\<lambda>e. \<bar>snd e\<bar>),
      ep_publish = (\<lambda>p e.
        if fst e then Some (True, if \<bar>snd e\<bar> mod MAX_MESSAGE_ID \<noteq> 0 then \<bar>snd e\<bar> + 1 else 1) else None),
      ep_publishRelease = (\<lambda>i e. if fst e then Some e else None),
      ep_close = (\<lambda>e. (False, snd e))\<rparr>"

subsection \<open>The order of the messages\<close>

fun firsts :: "transmission list \<Rightarrow> publication list" where
  "firsts [] = []"
| "firsts (First p # ss) = p # firsts ss"
| "firsts (Again p # ss) = firsts ss"
| "firsts (Released i # ss) = firsts ss"

lemma firsts_append [simp]: "firsts (xs @ ys) = firsts xs @ firsts ys"
  by (induction xs rule: firsts.induct) auto

definition acknowledged :: "publication list \<Rightarrow> publication list" where
  "acknowledged = filter (\<lambda>p. pub_qos p \<noteq> 0)"

lemma acknowledged_simps [simp]:
  "acknowledged [] = []"
  "acknowledged (p # ps) = (if pub_qos p \<noteq> 0 then p # acknowledged ps else acknowledged ps)"
  "acknowledged (ps @ qs) = acknowledged ps @ acknowledged qs"
  by (simp_all add: acknowledged_def)

lemma publication_simps [simp]:
  "pub_qos (publication_of m) = m_qos m"
  "publication_of (m\<lparr>m_id := i\<rparr>) = publication_of m"
  "publication_of (m\<lparr>m_client := s\<rparr>) = publication_of m"
  "publication_of (m\<lparr>m_client := s, m_qos := q\<rparr>) = publication_of (m\<lparr>m_qos := q\<rparr>)"
  by (simp_all add: publication_of_def)

text \<open>The publications that went out or are to go out, in their order.\<close>

definition flow :: "'e wrapper \<Rightarrow> publication list" where
  "flow w = acknowledged (firsts (sent_log w) @ map publication_of (w_queue w))"

lemma flow_keeps [simp]:
  "flow (w\<lparr>w_endpoint := e\<rparr>) = flow w"
  "flow (w\<lparr>w_timeouts := ts\<rparr>) = flow w"
  "flow (w\<lparr>w_awaits := as\<rparr>) = flow w"
  "flow (put_inflight c i m w) = flow w"
  "flow (remove_inflight i w) = flow w"
  "flow (deleteInflightTimeout i w) = flow w"
  "flow (snd (publish E m True w)) = flow w"
  "flow (snd (publishRelease E i w)) = flow w"
  by (simp_all add: flow_def put_inflight_def remove_inflight_def deleteInflightTimeout_def publish_def
      publishRelease_def Let_def split: wrapper_class.split option.split)

lemma publish_connected:
  assumes "publishes E" "ep_connected E (w_endpoint w)"
  obtains e where "ep_publish E (if r then (publication_of m)\<lparr>pub_dup := True\<rparr> else publication_of m) (w_endpoint w) = Some e"
    "publish E m r w = (if m_qos m = 0 then 0 else ep_lastMessageId E e,
       w\<lparr>w_endpoint := e, sent_log := sent_log w @
         [if r then Again ((publication_of m)\<lparr>pub_dup := True\<rparr>) else First (publication_of m)]\<rparr>)"
proof -
  obtain e where "ep_publish E (if r then (publication_of m)\<lparr>pub_dup := True\<rparr> else publication_of m) (w_endpoint w) = Some e"
    using assms unfolding publishes_def by (meson option.exhaust)
  then show thesis using that [of e] assms(2) by (simp add: publish_def)
qed

lemma flow_publish:
  "m_qos m = 0 \<Longrightarrow> flow (snd (publish E m False w)) = flow w"
  "publishes E \<Longrightarrow> ep_connected E (w_endpoint w) \<Longrightarrow> m_qos m \<noteq> 0 \<Longrightarrow>
   flow (snd (publish E m False w)) =
     acknowledged (firsts (sent_log w)) @ publication_of m # acknowledged (map publication_of (w_queue w))"
proof -
  show "m_qos m = 0 \<Longrightarrow> flow (snd (publish E m False w)) = flow w"
    by (simp add: flow_def publish_def Let_def split: option.split)
  assume a: "publishes E" "ep_connected E (w_endpoint w)" "m_qos m \<noteq> 0"
  show "flow (snd (publish E m False w)) =
     acknowledged (firsts (sent_log w)) @ publication_of m # acknowledged (map publication_of (w_queue w))"
    using a(3) by (rule_tac publish_connected [OF a(1,2), of False m]) (simp add: flow_def)
qed

lemma flow_enqueue:
  assumes "\<not> queueMaxCapacity c > 0"
  shows "flow (snd (enqueue c m w)) = flow w @ acknowledged [publication_of m]"
  using linked.add_unbounded [OF assms, of m "w_queue w"] ignite.add_unbounded [OF assms, of m "w_queue w"]
  by (auto simp: flow_def enqueue_def split: wrapper_class.split)

lemma next_positive:
  "publishes E \<Longrightarrow> nextMessageId E e > 0 \<longleftrightarrow> ep_connected E e"
  by (auto simp: nextMessageId_def publishes_def MAX_MESSAGE_ID_def) 

lemma flow_handle_message:
  assumes "publishes E" "\<not> queueMaxCapacity c > 0"
  shows "flow (snd (handle_message E c m w)) = flow w @ acknowledged [publication_of m]"
proof (cases "m_qos m = 0")
  case True
  then show ?thesis using assms by (auto simp: handle_message_def flow_enqueue flow_publish)
next
  case False
  have "flow w = acknowledged (firsts (sent_log w))" if "w_queue w = []" using that by (simp add: flow_def)
  then show ?thesis using False assms
    by (auto simp: handle_message_def inflight_def Let_def flow_enqueue flow_publish next_positive)
qed

lemma flow_push:
  "flow (w\<lparr>w_queue := m # w_queue w\<rparr>) =
     acknowledged (firsts (sent_log w)) @
     (if m_qos m \<noteq> 0 then [publication_of m] else []) @ acknowledged (map publication_of (w_queue w))"
  by (simp add: flow_def)

lemma flow_dequeue_one:
  assumes "publishes E" "ep_connected E (w_endpoint w)"
  shows "flow (snd (dequeue_one E c m w)) = flow (w\<lparr>w_queue := m # w_queue w\<rparr>)"
proof (cases "m_qos m = 0")
  case True
  then have "flow (snd (dequeue_one E c m w)) = flow w"
    by (auto simp: dequeue_one_def dequeue_transient_def dequeue_persistent_def Let_def case_prod_beta
        flow_publish split: wrapper_class.split)
  then show ?thesis using True by (simp add: flow_push flow_def)
next
  case False
  then show ?thesis using assms
    by (auto simp: dequeue_one_def dequeue_transient_def dequeue_persistent_def Let_def
        flow_publish flow_push next_positive split: wrapper_class.split)
qed

lemma flow_dequeue: "publishes E \<Longrightarrow> flow (dequeue E c w) = flow w"
proof (induction E c w rule: dequeue.induct)
  case (1 E c w)
  let ?stop = "\<not> ep_connected E (w_endpoint w) \<or> w_queue w = [] \<or> isInflightFull c w"
  let ?r = "dequeue_one E c (hd (w_queue w)) (w\<lparr>w_queue := tl (w_queue w)\<rparr>)"
  have "flow (snd ?r) = flow w" if "\<not> ?stop"
    using that flow_dequeue_one [OF 1(2), of "w\<lparr>w_queue := tl (w_queue w)\<rparr>" c "hd (w_queue w)"] by simp
  then show ?case using 1 by (subst dequeue.simps) (auto simp: Let_def)
qed

lemma flow_retry: "flow (retry_message E c m w) = flow w" "flow (retry_persistent E c m w) = flow w"
  by (simp_all add: retry_message_def retry_transient_def retry_persistent_def Let_def split: wrapper_class.split)

lemma flow_step:
  assumes "publishes E" "\<not> queueMaxCapacity c > 0"
  shows "flow (session_step E c a w) = flow w @ acknowledged (arrivals a)"
proof -
  have retained: "flow (snd (handle_retained E c rs w)) =
      flow w @ acknowledged (map (\<lambda>r. publication_of (message_of_retain r)) rs)" for rs
    by (induction rs arbitrary: w) (auto simp: Let_def case_prod_beta flow_handle_message [OF assms])
  show ?thesis
    using assms(1) retained
    by (cases a)
      (auto simp: publishMessage_def publishRetainMessage_def publishCachedMessage_def receivePuback_def
        receivePubrec_def receivePubcomp_def inflightExpired_def retry_def receiveQos2Message_def
        releaseQos2Message_def Let_def case_prod_beta flow_dequeue flow_retry
        flow_handle_message [OF assms] split: option.split)
qed

lemma flow_open:
  assumes "publishes E" "open_persistent E c keys w = Some w'"
  shows "flow w' = flow w"
proof -
  have "retryInflight_all E c keys w = Some v \<Longrightarrow> flow v = flow w" for v
    by (induction keys arbitrary: w) (auto simp: flow_retry split: option.splits)
  then show ?thesis using assms by (auto simp: open_persistent_def publishCachedMessage_def flow_dequeue)
qed

lemma flow_run:
  assumes "publishes E" "\<not> queueMaxCapacity c > 0" "session_run E c w arr"
  shows "flow w = acknowledged arr"
  using assms(3)
proof (induction rule: session_run.induct)
  case (start cls clientId e)
  then show ?case by (simp add: flow_def new_wrapper_def)
next
  case (step w arr a)
  then show ?case using flow_step [OF assms(1,2)] by simp
next
  case (stored w arr m q queue)
  then show ?case using ignite.add_unbounded [OF assms(2), of _ "w_queue w"]
    by (auto simp: flow_def cache_enqueue_def split: if_splits)
next
  case (reopened w arr keys timers e w')
  then show ?case using flow_open [OF assms(1)] by (auto simp: refreshEndpoint_def)
qed simp

subsection \<open>Reopening\<close>

definition flight :: "'e wrapper \<Rightarrow> int set" where
  "flight w = fst ` set (w_inflights w)"

lemma update_keys: "fst ` set (AList.update k v m) = insert k (fst ` set m)"
  by (induction m) auto

lemma delete_flight: "fst ` set (AList.delete k m) = fst ` set m - {k}"
  by (induction m) auto

lemma flight_simps [simp]:
  "flight (w\<lparr>w_endpoint := e\<rparr>) = flight w"
  "flight (w\<lparr>w_timeouts := ts\<rparr>) = flight w"
  "flight (snd (publish E m r w)) = flight w"
  "flight (snd (publishRelease E i w)) = flight w"
  "flight (remove_inflight i w) = flight w - {i}"
  by (simp_all add: flight_def publishRelease_def remove_inflight_def delete_flight split: option.split)

lemma flight_put: "flight w \<subseteq> flight (put_inflight c i m w)"
  by (auto simp: flight_def put_inflight_def ignite_put_def update_keys split: wrapper_class.split)

lemma flight_retry: "flight w - {m_id m} \<subseteq> flight (retry_persistent E c m w)"
  using flight_put [of w c] flight_put [of "remove_inflight (m_id m) w" c]
  by (auto simp: retry_persistent_def Let_def)

lemma reopening_returns:
  assumes "wrapper_ok c w" "distinct keys" "set keys \<subseteq> flight w"
  shows "retryInflight_all E c keys w \<noteq> None"
  using assms
proof (induction keys arbitrary: w)
  case (Cons k ks)
  from Cons.prems(3) obtain m where m: "map_of (w_inflights w) k = Some m"
    by (auto simp: flight_def dest!: weak_map_of_SomeI)
  then have k: "m_id m = k" using Cons.prems(1) ids_okD by (auto simp: wrapper_ok_def)
  then have "wrapper_ok c (retry_persistent E c m w)" using m Cons.prems(1) by (intro retry_message_ok) auto
  moreover have "set ks \<subseteq> flight (retry_persistent E c m w)"
    using flight_retry [of w m E c] Cons.prems k by auto
  ultimately show ?case using Cons.IH [of "retry_persistent E c m w"] Cons.prems(2) m by simp
qed simp

subsection \<open>The two classes of sessions\<close>

definition as_transient :: "'e wrapper \<Rightarrow> 'e wrapper" where
  "as_transient w = w\<lparr>wrapper_class := Transient\<rparr>"

definition capacities :: "session_config \<Rightarrow> bool" where
  "capacities c \<longleftrightarrow> inflightMaxCapacity c > 0 \<and> awaitMaxCapacity c > 0"

lemma as_transient_fields [simp]:
  "wrapper_class (as_transient w) = Transient"
  "w_endpoint (as_transient w) = w_endpoint w"
  "w_queue (as_transient w) = w_queue w"
  "w_inflights (as_transient w) = w_inflights w"
  "w_timeouts (as_transient w) = w_timeouts w"
  "w_awaits (as_transient w) = w_awaits w"
  "sent_log (as_transient w) = sent_log w"
  "thisClientId (as_transient w) = thisClientId w"
  by (simp_all add: as_transient_def)

lemma as_transient_updates [simp]:
  "(as_transient w)\<lparr>w_endpoint := e\<rparr> = as_transient (w\<lparr>w_endpoint := e\<rparr>)"
  "(as_transient w)\<lparr>w_queue := q\<rparr> = as_transient (w\<lparr>w_queue := q\<rparr>)"
  "(as_transient w)\<lparr>w_timeouts := ts\<rparr> = as_transient (w\<lparr>w_timeouts := ts\<rparr>)"
  "(as_transient w)\<lparr>w_awaits := aw\<rparr> = as_transient (w\<lparr>w_awaits := aw\<rparr>)"
  "publish E m r (as_transient w) = map_prod id as_transient (publish E m r w)"
  "publishRelease E i (as_transient w) = map_prod id as_transient (publishRelease E i w)"
  "remove_inflight i (as_transient w) = as_transient (remove_inflight i w)"
  "deleteInflightTimeout i (as_transient w) = as_transient (deleteInflightTimeout i w)"
  "isInflightFull c (as_transient w) = isInflightFull c w"
  by (simp_all add: as_transient_def publish_def publishRelease_def remove_inflight_def Let_def
      deleteInflightTimeout_def isInflightFull_def split: option.split)

lemma as_transient_put:
  assumes "capacities c" "\<not> isInflightFull c w \<or> i \<in> flight w"
  shows "put_inflight c i m (as_transient w) = as_transient (put_inflight c i m w)"
proof (cases "wrapper_class w")
  case Persistent
  have "snd (ignite_put (inflightMaxCapacity c) i m (w_inflights w)) = AList.update i m (w_inflights w)"
    using assms by (auto simp: ignite_put_def capacities_def isInflightFull_def flight_def map_of_eq_None_iff)
  then show ?thesis using Persistent by (simp add: put_inflight_def as_transient_def)
qed (simp add: put_inflight_def as_transient_def)

lemma as_transient_enqueue:
  assumes "wrapper_ok c w"
  shows "enqueue c m (as_transient w) = map_prod id as_transient (enqueue c m w)"
proof -
  have "ignite_addExt (queueMaxCapacity c) m (w_queue w) = linked_addExt (queueMaxCapacity c) m (w_queue w)"
    using assms linked.add_room ignite.add_room linked.add_full ignite.add_full
    unfolding wrapper_ok_def by (smt (verit))
  then show ?thesis by (simp add: enqueue_def split: wrapper_class.split)
qed

lemma as_transient_handle:
  assumes "capacities c" "wrapper_ok c w"
  shows "handle_message E c m (as_transient w) = map_prod id as_transient (handle_message E c m w)"
  using assms
  by (simp add: handle_message_def inflight_def Let_def as_transient_enqueue as_transient_put)

lemma connected_publish:
  assumes "publishes E" "counts E" "ep_connected E (w_endpoint w)"
  shows "ep_connected E (w_endpoint (snd (publish E m r w)))"
    "m_qos m = 0 \<Longrightarrow> fst (publish E m r w) = 0"
    "m_qos m \<noteq> 0 \<Longrightarrow> fst (publish E m r w) = nextMessageId E (w_endpoint w)"
    "m_qos m \<noteq> 0 \<Longrightarrow> ep_lastMessageId E (w_endpoint (snd (publish E m r w))) = nextMessageId E (w_endpoint w)"
  using assms(2,3)
  by - (rule_tac publish_connected [OF assms(1,3), of r m]; force simp: counts_def publication_of_def)+

lemma as_transient_dequeue_one:
  assumes "publishes E" "counts E" "capacities c" "ep_connected E (w_endpoint w)" "\<not> isInflightFull c w"
  shows "dequeue_one E c m (as_transient w) = map_prod id as_transient (dequeue_one E c m w)"
proof (cases "wrapper_class w")
  case Transient
  then show ?thesis using assms(5)
    by (auto simp: dequeue_one_def dequeue_transient_def Let_def case_prod_beta as_transient_put [OF assms(3)])
next
  case Persistent
  then show ?thesis using assms(4,5) connected_publish [OF assms(1,2,4), of m False]
    by (auto simp: dequeue_one_def dequeue_transient_def dequeue_persistent_def Let_def case_prod_beta
        as_transient_put [OF assms(3)] next_positive [OF assms(1)])
qed

lemma as_transient_dequeue:
  assumes "publishes E" "counts E" "capacities c"
  shows "dequeue E c (as_transient w) = as_transient (dequeue E c w)"
  using assms
proof (induction E c w rule: dequeue.induct)
  case (1 E c w)
  let ?stop = "\<not> ep_connected E (w_endpoint w) \<or> w_queue w = [] \<or> isInflightFull c w"
  let ?r = "dequeue_one E c (hd (w_queue w)) (w\<lparr>w_queue := tl (w_queue w)\<rparr>)"
  show ?case
  proof (cases ?stop)
    case True
    then show ?thesis by (subst (1 2) dequeue_stop) simp_all
  next
    case False
    then have "dequeue_one E c (hd (w_queue w)) (as_transient (w\<lparr>w_queue := tl (w_queue w)\<rparr>)) =
        map_prod id as_transient ?r"
      using 1(2-4) by (intro as_transient_dequeue_one) auto
    moreover have "dequeue E c (as_transient (snd ?r)) = as_transient (dequeue E c (snd ?r))" if "fst ?r"
      by (rule 1(1) [OF False refl that 1(2-4)])
    moreover have "w_queue w = hd (w_queue w) # tl (w_queue w)" using False by simp
    ultimately show ?thesis using False
      by (subst (1 2) dequeue_go [where m = "hd (w_queue w)" and q = "tl (w_queue w)"]) (simp_all add: Let_def)
  qed
qed

lemma as_transient_retry_message:
  assumes "capacities c" "wrapper_ok c w" "map_of (w_inflights w) (m_id m) \<noteq> None"
    "publishes E" "ep_connected E (w_endpoint w)"
  shows "retry_message E c m (as_transient w) = as_transient (retry_message E c m w)"
proof -
  have next_id: "nextMessageId E (w_endpoint w) > 0" using assms(4,5) by (simp add: next_positive)
  have "retry_message E c m w = retry_transient E c m w"
  proof (cases "wrapper_class w")
    case Persistent
    then show ?thesis using next_id
      by (simp add: retry_message_def retry_transient_def retry_persistent_def Let_def)
  qed (simp add: retry_message_def)
  moreover have "retry_transient E c m (as_transient w) = as_transient (retry_transient E c m w)"
  proof -
    have "put_inflight c i m' (as_transient (remove_inflight (m_id m) w)) =
        as_transient (put_inflight c i m' (remove_inflight (m_id m) w))" for i m'
      using as_transient_put [OF assms(1)] room_after_remove [OF assms(2,3)] by blast
    moreover have "put_inflight c (m_id m) m' (as_transient w) = as_transient (put_inflight c (m_id m) m' w)" for m'
      using assms(3) by (intro as_transient_put [OF assms(1)]) (simp add: flight_def map_of_eq_None_iff)
    ultimately show ?thesis by (simp add: retry_transient_def Let_def)
  qed
  ultimately show ?thesis by (simp add: retry_message_def)
qed

lemma as_transient_expired:
  assumes "capacities c" "wrapper_ok c w" "publishes E" "counts E" "ep_connected E (w_endpoint w)"
  shows "inflightExpired E c k (as_transient w) = as_transient (inflightExpired E c k w)"
proof -
  let ?v = "w\<lparr>w_timeouts := removeAll k (w_timeouts w)\<rparr>"
  have "retry_message E c m (as_transient ?v) = as_transient (retry_message E c m ?v)"
    if "map_of (w_inflights w) k = Some m" for m
    using that assms ids_okD [of "w_inflights w" k m]
    by (intro as_transient_retry_message) (auto simp: wrapper_ok_def)
  then show ?thesis
    by (simp add: inflightExpired_def retry_def publishCachedMessage_def as_transient_dequeue [OF assms(3,4,1)]
        split: option.split)
qed

lemma as_transient_step:
  assumes "publishes E" "counts E" "capacities c" "wrapper_ok c w"
    and connected: "\<And>i. a = Expired i \<Longrightarrow> ep_connected E (w_endpoint w)"
  shows "session_step E c a (as_transient w) = as_transient (session_step E c a w)"
proof -
  note dequeue = as_transient_dequeue [OF assms(1-3)]
  have retained: "handle_retained E c rs (as_transient w) = map_prod id as_transient (handle_retained E c rs w)" for rs
    using assms(4)
  proof (induction rs arbitrary: w)
    case (Cons r rs)
    then show ?case
      using handle_message_ok [OF Cons.prems]
      by (simp add: Let_def case_prod_beta as_transient_handle [OF assms(3)])
  qed simp
  show ?thesis
  proof (cases a)
    case (Pubrec i)
    then show ?thesis using map_of_present [of "w_inflights w" i]
      by (auto simp: receivePubrec_def as_transient_put [OF assms(3)] flight_def split: option.split)
  next
    case (Qos2 p)
    have "expiring_putExt (awaitMaxCapacity c) i x (w_awaits w) = ignite_put (awaitMaxCapacity c) i x (w_awaits w)" for i x
      using assms(3) by (auto simp: expiring_putExt_def ignite_put_def capacities_def)
    then show ?thesis using Qos2
      by (simp add: receiveQos2Message_def Let_def case_prod_beta split: wrapper_class.split)
  next
    case (Expired i)
    then show ?thesis using as_transient_expired assms(1-4) connected by simp
  qed (simp_all add: publishMessage_def publishRetainMessage_def publishCachedMessage_def receivePuback_def
      receivePubcomp_def releaseQos2Message_def Let_def case_prod_beta dequeue retained
      as_transient_handle [OF assms(3,4)])
qed

subsection \<open>Properties of the sessions\<close>

definition sample_message :: "8 word \<Rightarrow> int \<Rightarrow> smsg" where
  "sample_message b q =
     \<lparr>m_client = [], m_id = 0, m_topic = js ''a'', m_payload = [b], m_qos = q, m_dup = False,
      m_retain = False, m_status = 0, m_retry = 0\<rparr>"

definition sample_config :: "int \<Rightarrow> int \<Rightarrow> session_config" where
  "sample_config queueCap inflightCap =
     \<lparr>awaitMaxCapacity = 10, queueMaxCapacity = queueCap, queueStoreQos0 = True,
      inflightMaxCapacity = inflightCap, inflightMaxRetries = 3\<rparr>"

text \<open>A session with a window of one message, to which three messages were published.\<close>

definition sample_session :: "wrapper_class \<Rightarrow> int \<Rightarrow> (bool \<times> int) wrapper" where
  "sample_session cls q =
     session_step counter_endpoint (sample_config 0 1) (Deliver (sample_message 3 1) 1)
      (session_step counter_endpoint (sample_config 0 1) (Deliver (sample_message 2 1) q)
       (session_step counter_endpoint (sample_config 0 1) (Deliver (sample_message 1 1) 1)
         (new_wrapper cls (js ''c'') (True, 0))))"

lemma counter_laws: "publishes counter_endpoint" "counts counter_endpoint"
  by (auto simp: publishes_def counts_def counter_endpoint_def nextMessageId_def split: if_splits)

lemma sample_run:
  "session_run counter_endpoint (sample_config 0 1) (sample_session cls q)
     (map publication_of [sample_message 1 1, (sample_message 2 1)\<lparr>m_qos := q\<rparr>, sample_message 3 1])"
proof -
  have "session_run counter_endpoint (sample_config 0 1) (sample_session cls q)
     ((([] @ arrivals (Deliver (sample_message 1 1) 1)) @ arrivals (Deliver (sample_message 2 1) q)) @
      arrivals (Deliver (sample_message 3 1) 1))"
    unfolding sample_session_def by (intro session_run.step session_run.start)
  then show ?thesis by (simp add: sample_message_def)
qed


text \<open>In every run of a session, transient or persistent, the in-flight window, the queue
  and the QoS 2 messages that wait for PUBREL stay within their configured capacities, no packet
  identifier is in flight twice, and a message in flight bears the identifier it is filed under,
  whatever the connection does.\<close>

theorem session_bounds:
  assumes "session_run E c w arr"
  shows "(inflightMaxCapacity c > 0 \<longrightarrow> int (length (w_inflights w)) \<le> inflightMaxCapacity c) \<and>
    (queueMaxCapacity c > 0 \<longrightarrow> int (length (w_queue w)) \<le> queueMaxCapacity c) \<and>
    (awaitMaxCapacity c > 0 \<longrightarrow> int (length (w_awaits w)) \<le> awaitMaxCapacity c) \<and>
    distinct (map fst (w_inflights w)) \<and> (\<forall>i m. map_of (w_inflights w) i = Some m \<longrightarrow> m_id m = i)"
proof -
  have ok: "wrapper_ok c w" using assms by (rule run_ok)
  then have "\<forall>i m. map_of (w_inflights w) i = Some m \<longrightarrow> m_id m = i"
    by (intro allI impI, rule_tac ids_okD) (simp_all add: wrapper_ok_def)
  then show ?thesis using ok by (simp add: wrapper_ok_def ids_ok_def)
qed

theorem session_bounds_witness:
  "length (w_inflights (sample_session Persistent 1)) = 1 \<and> length (w_queue (sample_session Persistent 1)) = 2 \<and>
   int (length (w_inflights (sample_session Persistent 1))) \<le> 1"
proof -
  have "length (w_inflights (sample_session Persistent 1)) = 1" "length (w_queue (sample_session Persistent 1)) = 2"
    by code_simp+
  then show ?thesis using session_bounds [OF sample_run [of Persistent 1]] by (simp add: sample_config_def)
qed

text \<open>C9: No message of QoS 1 or 2 is lost, duplicated or overtaken on its way through a
  session: with an unbounded queue, in every run, the first transmissions of such messages
  followed by the queue are exactly the messages that arrived, in the order of their arrival. This
  holds over lost connections, over retries and over the reopening of a persistent session, if a
  connected endpoint takes the packets it is given.\<close>

theorem session_order:
  assumes "publishes E" "queueMaxCapacity c \<le> 0" "session_run E c w arr"
  shows "acknowledged (firsts (sent_log w)) @ acknowledged (map publication_of (w_queue w)) = acknowledged arr"
  using flow_run [OF assms(1) _ assms(3)] assms(2) by (simp add: flow_def)

theorem session_order_witness:
  "acknowledged (firsts (sent_log (sample_session Transient 2))) @
     acknowledged (map publication_of (w_queue (sample_session Transient 2))) =
   map publication_of [sample_message 1 1, sample_message 2 2, sample_message 3 1] \<and>
   firsts (sent_log (sample_session Transient 2)) = [publication_of (sample_message 1 1)]"
proof -
  have "firsts (sent_log (sample_session Transient 2)) = [publication_of (sample_message 1 1)]" by code_simp
  then show ?thesis
    using session_order [OF counter_laws(1) _ sample_run [of Transient 2]]
    by (simp add: sample_config_def sample_message_def publication_of_def)
qed

lemma put_full:
  assumes "capacities c" "\<not> isInflightFull c w" "i \<notin> flight w"
  shows "w_inflights (put_inflight c i m w) = AList.update i m (w_inflights w)"
    "length (w_inflights (put_inflight c i m w)) = Suc (length (w_inflights w))"
  using assms
  by (auto simp: put_inflight_def ignite_put_def capacities_def isInflightFull_def flight_def length_update
      map_of_eq_None_iff split: wrapper_class.split)

lemma dequeue_acknowledged:
  assumes "publishes E" "ep_connected E (w_endpoint w)" "m_qos m \<noteq> 0" "i = nextMessageId E (w_endpoint w)"
  shows "dequeue_one E c m w =
    (True, snd (publish E (m\<lparr>m_id := i\<rparr>) False (saveInflightTimeout i (put_inflight c i (m\<lparr>m_id := i\<rparr>) w))))"
  using assms next_positive [OF assms(1), of "w_endpoint w"]
  by (simp add: dequeue_one_def dequeue_transient_def dequeue_persistent_def Let_def split: wrapper_class.split)

text \<open>C13: When the window of a connected session is full and a message of QoS 1 or 2 is the first in its
  queue, the PUBACK of a message in flight sends that message, provided the identifier the connection
  gives next is not one in flight: exactly that message is transmitted, it takes the place in the
  window under its new identifier with a retry to come, and the rest of the queue waits on. (A
  message of QoS 0 at the head of the queue is transmitted twice, see below.)\<close>

theorem puback_sends_next:
  assumes "publishes E" "counts E" "capacities c" "wrapper_ok c w" "ep_connected E (w_endpoint w)"
    and "w_queue w = m # q" "m_qos m \<noteq> 0"
    and "isInflightFull c w" "i \<in> flight w" "nextMessageId E (w_endpoint w) \<notin> flight w"
  shows "sent_log (receivePuback E c i w) = sent_log w @ [First (publication_of m)] \<and>
    w_queue (receivePuback E c i w) = q \<and> isInflightFull c (receivePuback E c i w) \<and>
    (\<exists>n. n = ep_lastMessageId E (w_endpoint (receivePuback E c i w)) \<and>
       map_of (w_inflights (receivePuback E c i w)) n = Some (m\<lparr>m_id := n\<rparr>) \<and>
       n \<in> set (w_timeouts (receivePuback E c i w)))"
proof -
  define n where "n = nextMessageId E (w_endpoint w)"
  define m' where "m' = m\<lparr>m_id := n\<rparr>"
  define v where "v = (deleteInflightTimeout i (remove_inflight i w))\<lparr>w_queue := q\<rparr>"
  have some: "map_of (w_inflights w) i \<noteq> None" using assms(9) by (simp add: flight_def map_of_eq_None_iff)
  have v: "\<not> isInflightFull c v" "n \<notin> flight v" "w_endpoint v = w_endpoint w" "sent_log v = sent_log w" "w_queue v = q"
    "Suc (length (w_inflights v)) = length (w_inflights w)"
    using room_after_remove [OF assms(4) some] assms(4,9,10) length_delete_distinct [of "w_inflights w" i]
    by (auto simp: v_def n_def deleteInflightTimeout_def remove_inflight_def isInflightFull_def flight_def
        delete_flight wrapper_ok_def ids_ok_def)
  define u where "u = put_inflight c n m' v"
  have u: "w_inflights u = AList.update n m' (w_inflights v)" "isInflightFull c u"
    using put_full [OF assms(3) v(1,2), of m'] v(6) assms(8) by (auto simp: u_def isInflightFull_def)
  have same: "w_endpoint (saveInflightTimeout n u) = w_endpoint w" "sent_log (saveInflightTimeout n u) = sent_log w"
    using v(3,4) by (simp_all add: u_def)
  then have "ep_connected E (w_endpoint (saveInflightTimeout n u))" using assms(5) by simp
  from publish_connected [OF assms(1) this, of False m']
  obtain e where e: "ep_publish E (publication_of m) (w_endpoint w) = Some e"
    "snd (publish E m' False (saveInflightTimeout n u)) =
      (saveInflightTimeout n u)\<lparr>w_endpoint := e, sent_log := sent_log w @ [First (publication_of m)]\<rparr>"
    unfolding same if_False m'_def publication_simps by (metis snd_conv)
  have last: "ep_lastMessageId E e = n" using assms(2,5,7) e(1) by (auto simp: counts_def n_def)
  have "receivePuback E c i w = dequeue E c (v\<lparr>w_queue := m # q\<rparr>)"
    using assms(6)
    by (cases w) (simp add: receivePuback_def publishCachedMessage_def v_def deleteInflightTimeout_def remove_inflight_def)
  also have "\<dots> = dequeue E c (snd (publish E m' False (saveInflightTimeout n u)))"
  proof -
    have vq: "v\<lparr>w_queue := q\<rparr> = v" using v(5) by (cases v) simp
    have "dequeue_one E c m (v\<lparr>w_queue := q\<rparr>) = (True, snd (publish E m' False (saveInflightTimeout n u)))"
      unfolding vq using dequeue_acknowledged [OF assms(1) _ assms(7), of v n c] assms(5) v(3)
      by (simp add: n_def m'_def u_def)
    then show ?thesis using v assms(5) by (subst dequeue_go [of _ _ m q]) (simp_all add: Let_def)
  qed
  also have "\<dots> = (saveInflightTimeout n u)\<lparr>w_endpoint := e, sent_log := sent_log w @ [First (publication_of m)]\<rparr>"
    using u(2) e(2) by (subst dequeue_stop) (simp_all add: isInflightFull_def)
  finally show ?thesis using u v last by (simp add: u_def m'_def update_conv' isInflightFull_def)
qed

theorem puback_sends_next_witness:
  "sent_log (receivePuback counter_endpoint (sample_config 0 1) 1 (sample_session Persistent 2)) =
     map First (map publication_of [sample_message 1 1, sample_message 2 2])"
proof -
  let ?w = "sample_session Persistent 2"
  have q: "w_queue ?w = [(sample_message 2 2)\<lparr>m_client := js ''c''\<rparr>, (sample_message 3 1)\<lparr>m_client := js ''c''\<rparr>]"
    by code_simp
  have "isInflightFull (sample_config 0 1) ?w" "1 \<in> flight ?w" "nextMessageId counter_endpoint (w_endpoint ?w) \<notin> flight ?w"
    "ep_connected counter_endpoint (w_endpoint ?w)" "capacities (sample_config 0 1)"
    "sent_log ?w = [First (publication_of (sample_message 1 1))]" by code_simp+
  then show ?thesis
    using puback_sends_next [OF counter_laws _ run_ok [OF sample_run], of Persistent 2, OF _ _ q]
    by (simp add: sample_message_def publication_of_def)
qed

text \<open>C12: A persistent session behaves like a transient one: every operation gives the same
  packets, queue, window, timers and waiting messages, as long as the window and the store of
  waiting messages have a capacity, and a message is retried while the connection is there.\<close>

theorem persistent_as_transient:
  assumes "publishes E" "counts E" "capacities c" "session_run E c w arr"
    and "case a of Expired i \<Rightarrow> ep_connected E (w_endpoint w) | _ \<Rightarrow> True"
  shows "session_step E c a (as_transient w) = as_transient (session_step E c a w)"
  using assms(5) by (intro as_transient_step [OF assms(1-3) run_ok [OF assms(4)]]) simp_all

theorem persistent_as_transient_witness:
  "w_queue (session_step counter_endpoint (sample_config 0 1) (Expired 1) (as_transient (sample_session Persistent 1))) =
     w_queue (session_step counter_endpoint (sample_config 0 1) (Expired 1) (sample_session Persistent 1)) \<and>
   map fst (w_inflights (session_step counter_endpoint (sample_config 0 1) (Expired 1) (sample_session Persistent 1))) = [2]"
proof -
  have "capacities (sample_config 0 1)" "ep_connected counter_endpoint (w_endpoint (sample_session Persistent 1))"
    "map fst (w_inflights (session_step counter_endpoint (sample_config 0 1) (Expired 1) (sample_session Persistent 1))) = [2]"
    by code_simp+
  then show ?thesis
    using persistent_as_transient [OF counter_laws _ sample_run, of Persistent 1 "Expired 1"] by simp
qed

text \<open>The two classes part when a capacity is 0, which the transient session takes for
  unlimited: the persistent session then transmits a message of QoS 1 or 2 without keeping it, so
  that it is never retried, and it keeps no QoS 2 message of its client, so that the PUBREL for it
  releases nothing, although its window never counts as full.\<close>

theorem capacity_zero_forgets:
  assumes "publishes E" "ep_connected E (w_endpoint w)" "wrapper_class w = Persistent"
    and "inflightMaxCapacity c = 0" "awaitMaxCapacity c = 0"
    and "w_queue w = []" "w_inflights w = []" "w_awaits w = []" "q \<noteq> 0"
  shows "\<not> isInflightFull c w \<and>
    w_inflights (snd (handle_message E c (m\<lparr>m_qos := q\<rparr>) w)) = [] \<and>
    sent_log (snd (handle_message E c (m\<lparr>m_qos := q\<rparr>) w)) = sent_log w @ [First (publication_of (m\<lparr>m_qos := q\<rparr>))] \<and>
    fst (releaseQos2Message (p_id p) (snd (receiveQos2Message c p w))) = None \<and>
    fst (releaseQos2Message (p_id p) (snd (receiveQos2Message c p (as_transient w)))) =
      Some (await_of_packet p (thisClientId w))"
proof -
  have pos: "nextMessageId E (w_endpoint w) > 0" using assms(1,2) by (simp add: next_positive)
  have put: "put_inflight c i x w = w" for i x using assms(3,4,7) by (simp add: put_inflight_def ignite_put_def)
  have "sent_log (snd (publish E x False (w\<lparr>w_timeouts := ts\<rparr>))) = sent_log w @ [First (publication_of x)]" for x ts
    by (rule publish_connected [OF assms(1), of "w\<lparr>w_timeouts := ts\<rparr>" False x]) (use assms(2) in simp_all)
  then show ?thesis using assms pos put
    by (simp add: handle_message_def inflight_def Let_def isInflightFull_def publication_of_def await_of_packet_def
        receiveQos2Message_def releaseQos2Message_def ignite_put_def expiring_putExt_def)
qed

theorem capacity_zero_forgets_witness:
  "\<exists>c w. w_inflights (snd (handle_message counter_endpoint c ((sample_message 1 1)\<lparr>m_qos := 2\<rparr>) w)) = [] \<and>
     sent_log (snd (handle_message counter_endpoint c ((sample_message 1 1)\<lparr>m_qos := 2\<rparr>) w)) \<noteq> []"
proof -
  let ?c = "(sample_config 0 0)\<lparr>awaitMaxCapacity := 0\<rparr>" and ?w = "new_wrapper Persistent (js ''c'') (True, 0)"
  have "inflightMaxCapacity ?c = 0" "awaitMaxCapacity ?c = 0" "ep_connected counter_endpoint (w_endpoint ?w)"
    by code_simp+
  then show ?thesis
    using capacity_zero_forgets [OF counter_laws(1), of ?w ?c 2 "sample_message 1 1"]
    by (intro exI [of _ ?c] exI [of _ ?w]) (simp add: new_wrapper_def)
qed

text \<open>A QoS 0 message that waited in the queue goes out twice: \<open>dequeue\<close> publishes it, and as
  the publication succeeded it goes on to the branch that publishes messages of QoS 1 and 2. The
  message is put into the window, where no acknowledgement will ever free its place.\<close>

theorem queued_qos0_sent_twice:
  assumes "publishes E" "counts E" "ep_connected E (w_endpoint w)"
    and "capacities c" "\<not> isInflightFull c w" "w_queue w = [m]" "m_qos m = 0"
  shows "sent_log (dequeue E c w) = sent_log w @ [First (publication_of m), First (publication_of m)] \<and>
    (\<exists>i. map_of (w_inflights (dequeue E c w)) i = Some (m\<lparr>m_id := i\<rparr>) \<and> i \<in> set (w_timeouts (dequeue E c w)))"
proof -
  define v where "v = w\<lparr>w_queue := []\<rparr>"
  have v: "ep_connected E (w_endpoint v)" "\<not> isInflightFull c v" "w_queue v = []" "sent_log v = sent_log w"
    using assms(3,5) by (simp_all add: v_def isInflightFull_def)
  have log: "sent_log (snd (publish E x False u)) = sent_log u @ [First (publication_of x)]"
    if "ep_connected E (w_endpoint u)" for x and u :: "'a wrapper"
    by (rule publish_connected [OF assms(1) that, of False x]) simp
  define u where "u = snd (publish E m False v)"
  have u: "ep_connected E (w_endpoint u)" "fst (publish E m False v) = 0" "\<not> isInflightFull c u" "w_queue u = []"
    "sent_log u = sent_log w @ [First (publication_of m)]"
    using connected_publish(1,2) [OF assms(1,2) v(1), of m False] assms(7) log [OF v(1)] v by (simp_all add: u_def)
  define i where "i = nextMessageId E (w_endpoint u)"
  define m' where "m' = m\<lparr>m_id := i\<rparr>"
  define t where "t = put_inflight c i m' u"
  have t: "map_of (w_inflights t) i = Some m'" "sent_log t = sent_log u" "w_endpoint t = w_endpoint u" "w_queue t = []"
    "w_timeouts t = w_timeouts u"
    using u(3,4) assms(4)
    by (auto simp: t_def put_inflight_def ignite_put_def capacities_def isInflightFull_def update_conv'
        split: wrapper_class.split)
  have "dequeue_one E c m v = (True, snd (publish E m' False (saveInflightTimeout i t)))"
    using u(1,2) assms(7) next_positive [OF assms(1), of "w_endpoint u"]
    by (simp add: dequeue_one_def dequeue_transient_def dequeue_persistent_def Let_def case_prod_beta u_def
        i_def m'_def t_def split: wrapper_class.split)
  then have "dequeue E c w = dequeue E c (snd (publish E m' False (saveInflightTimeout i t)))"
    using assms(3,5,6) by (subst dequeue_go [of _ _ m "[]"]) (simp_all add: v_def Let_def)
  also have "\<dots> = snd (publish E m' False (saveInflightTimeout i t))"
    by (rule dequeue_stop) (simp add: t(4))
  finally show ?thesis
    using t u(1,5) log [of "saveInflightTimeout i t" m'] by (auto simp: m'_def)
qed

theorem queued_qos0_sent_twice_witness:
  "sent_log (fold (session_step counter_endpoint (sample_config 0 1))
      [Deliver (sample_message 4 0) 0, Puback 1, Puback 2, Puback 3] (sample_session Transient 1)) =
   map First (map publication_of
     [sample_message 1 1, sample_message 2 1, sample_message 3 1, sample_message 4 0, sample_message 4 0])"
proof -
  let ?v = "fold (session_step counter_endpoint (sample_config 0 1))
      [Deliver (sample_message 4 0) 0, Puback 1, Puback 2] (sample_session Transient 1)"
  let ?w = "deleteInflightTimeout 3 (remove_inflight 3 ?v)" and ?m = "(sample_message 4 0)\<lparr>m_client := js ''c''\<rparr>"
  have "ep_connected counter_endpoint (w_endpoint ?w)" "capacities (sample_config 0 1)" "\<not> isInflightFull (sample_config 0 1) ?w"
    "w_queue ?w = [?m]" "m_qos ?m = 0"
    "sent_log ?w = map First (map publication_of [sample_message 1 1, sample_message 2 1, sample_message 3 1])"
    by code_simp+
  then show ?thesis using queued_qos0_sent_twice [OF counter_laws, of ?w "sample_config 0 1" ?m]
    by (simp add: receivePuback_def publishCachedMessage_def)
qed

text \<open>C32: A retry does not repeat the packet: the message is sent again under a new
  identifier and filed under it, so an acknowledgement of the first transmission that is still on
  its way finds nothing, and a client that received a QoS 2 message takes the retry for another one.\<close>

theorem retry_new_identifier:
  assumes "publishes E" "counts E" "wrapper_ok c w" "capacities c" "ep_connected E (w_endpoint w)"
    and "map_of (w_inflights w) k = Some m" "k \<in> set (w_timeouts w)" "m_qos m \<noteq> 0"
    and "m_status m \<noteq> PUBREC_STATUS" "m_retry m < inflightMaxRetries c"
    and "nextMessageId E (w_endpoint w) \<noteq> k" "w' = inflightExpired E c k w"
  shows "sent_log w' = sent_log w @ [Again ((publication_of m)\<lparr>pub_dup := True\<rparr>)] \<and>
    k \<notin> flight w' \<and> ep_lastMessageId E (w_endpoint w') \<noteq> k \<and>
    map_of (w_inflights (receivePubrec c k w')) (ep_lastMessageId E (w_endpoint w')) =
      Some (m\<lparr>m_id := ep_lastMessageId E (w_endpoint w'), m_retry := m_retry m + 1\<rparr>)"
proof -
  define n where "n = nextMessageId E (w_endpoint w)"
  define m' where "m' = m\<lparr>m_id := n, m_retry := m_retry m + 1\<rparr>"
  define v where "v = remove_inflight k (w\<lparr>w_timeouts := removeAll k (w_timeouts w)\<rparr>)"
  define u where "u = saveInflightTimeout n (put_inflight c n m' v)"
  have id: "m_id m = k" using assms(3,6) ids_okD by (auto simp: wrapper_ok_def)
  have n: "n > 0" "n \<noteq> k" using assms(1,5,11) by (simp_all add: n_def next_positive)
  have "retry_message E c m x = retry_transient E c m x" if "w_endpoint x = w_endpoint w" for x
    using n that assms(9)
    by (cases "wrapper_class x") (simp_all add: retry_message_def retry_transient_def retry_persistent_def Let_def n_def)
  then have w': "w' = snd (publish E m' True u)"
    using assms(6,7,9,10,12) n id
    by (simp add: inflightExpired_def retry_def retry_transient_def Let_def n_def m'_def u_def v_def)
  have room: "\<not> isInflightFull c v" using room_after_remove [of c "w\<lparr>w_timeouts := removeAll k (w_timeouts w)\<rparr>" k]
    assms(3,6) by (simp add: v_def)
  have u: "map_of (w_inflights u) n = Some m'" "k \<notin> flight u" "w_endpoint u = w_endpoint w" "sent_log u = sent_log w"
    using room assms(4) n(2)
    by (auto simp: u_def v_def put_inflight_def ignite_put_def capacities_def isInflightFull_def update_conv'
        flight_def update_keys remove_inflight_def delete_flight split: wrapper_class.split)
  have "sent_log w' = sent_log w @ [Again ((publication_of m')\<lparr>pub_dup := True\<rparr>)]"
    unfolding w' by (rule publish_connected [OF assms(1), of u True m']) (use assms(5) u in simp_all)
  moreover have "ep_lastMessageId E (w_endpoint w') = n"
    using connected_publish(4) [OF assms(1,2), of u m' True] assms(5,8) u(3) by (simp add: w' m'_def n_def)
  moreover have "map_of (w_inflights w') k = None" using u(2) by (simp add: w' flight_def map_of_eq_None_iff)
  ultimately show ?thesis using u n by (simp add: receivePubrec_def w' m'_def publication_of_def)
qed

theorem retry_new_identifier_witness:
  "\<exists>w'. w' = inflightExpired counter_endpoint (sample_config 0 1) 1 (sample_session Transient 1) \<and>
     1 \<notin> flight w' \<and> map_of (w_inflights (receivePubrec (sample_config 0 1) 1 w')) 2 \<noteq> None"
proof -
  let ?w = "sample_session Transient 1"
  let ?w' = "inflightExpired counter_endpoint (sample_config 0 1) 1 ?w"
  let ?m = "(sample_message 1 1)\<lparr>m_client := js ''c'', m_id := 1\<rparr>"
  have *: "map_of (w_inflights ?w) 1 = Some ?m" "1 \<in> set (w_timeouts ?w)" "m_qos ?m \<noteq> 0" "m_status ?m \<noteq> PUBREC_STATUS"
    "m_retry ?m < inflightMaxRetries (sample_config 0 1)" "nextMessageId counter_endpoint (w_endpoint ?w) \<noteq> 1"
    "capacities (sample_config 0 1)" "ep_connected counter_endpoint (w_endpoint ?w)"
    "ep_lastMessageId counter_endpoint (w_endpoint ?w') = 2" by code_simp+
  show ?thesis
    using retry_new_identifier [OF counter_laws run_ok [OF sample_run] *(7,8,1-6) refl] *(9)
    by (intro exI [of _ ?w']) simp
qed

definition releases :: "'e endpoint_ops \<Rightarrow> bool" where
  "releases E \<longleftrightarrow>
     (\<forall>e i. ep_connected E e \<longrightarrow>
        (\<exists>e'. ep_publishRelease E i e = Some e' \<and> ep_connected E e' \<and>
           ep_lastMessageId E e' = ep_lastMessageId E e))"

lemma release_connected:
  assumes "releases E" "ep_connected E (w_endpoint w)"
  shows "ep_connected E (w_endpoint (snd (publishRelease E i w)))"
    "ep_lastMessageId E (w_endpoint (snd (publishRelease E i w))) = ep_lastMessageId E (w_endpoint w)"
    "w_inflights (snd (publishRelease E i w)) = w_inflights w"
    "w_queue (snd (publishRelease E i w)) = w_queue w"
    "wrapper_class (snd (publishRelease E i w)) = wrapper_class w"
proof -
  obtain e where "ep_publishRelease E i (w_endpoint w) = Some e" "ep_connected E e"
    "ep_lastMessageId E e = ep_lastMessageId E (w_endpoint w)" using assms unfolding releases_def by blast
  then show "ep_connected E (w_endpoint (snd (publishRelease E i w)))"
    "ep_lastMessageId E (w_endpoint (snd (publishRelease E i w))) = ep_lastMessageId E (w_endpoint w)"
    "w_inflights (snd (publishRelease E i w)) = w_inflights w"
    "w_queue (snd (publishRelease E i w)) = w_queue w"
    "wrapper_class (snd (publishRelease E i w)) = wrapper_class w"
    by (simp_all add: publishRelease_def)
qed

text \<open>The retry of a message that was not received yet, on a live connection.\<close>

lemma retry_persistent_again:
  assumes "publishes E" "counts E" "ep_connected E (w_endpoint w)" "wrapper_class w = Persistent"
    and "m_qos m \<noteq> 0" "m_status m \<noteq> PUBREC_STATUS" "n = nextMessageId E (w_endpoint w)"
    and "v = retry_persistent E c m w"
  shows "w_inflights v = snd (ignite_put (inflightMaxCapacity c) n (m\<lparr>m_id := n, m_retry := m_retry m + 1\<rparr>)
      (AList.delete (m_id m) (w_inflights w)))"
    "ep_connected E (w_endpoint v)" "ep_lastMessageId E (w_endpoint v) = n" "w_queue v = w_queue w"
    "wrapper_class v = Persistent"
proof -
  define m' where "m' = m\<lparr>m_id := n, m_retry := m_retry m + 1\<rparr>"
  define u where "u = saveInflightTimeout n (put_inflight c n m' (remove_inflight (m_id m) w))"
  have u: "w_inflights u = snd (ignite_put (inflightMaxCapacity c) n m' (AList.delete (m_id m) (w_inflights w)))"
    "w_endpoint u = w_endpoint w" "w_queue u = w_queue w" "wrapper_class u = Persistent"
    using assms(4) by (simp_all add: u_def put_inflight_def remove_inflight_def)
  have "n > 0" using assms(1,3,7) by (simp add: next_positive)
  then have "v = snd (publish E m' True u)"
    using assms(6-8) by (simp add: retry_persistent_def Let_def m'_def u_def)
  then show "w_inflights v = snd (ignite_put (inflightMaxCapacity c) n (m\<lparr>m_id := n, m_retry := m_retry m + 1\<rparr>)
      (AList.delete (m_id m) (w_inflights w)))"
    "ep_connected E (w_endpoint v)" "ep_lastMessageId E (w_endpoint v) = n" "w_queue v = w_queue w"
    "wrapper_class v = Persistent"
    using u connected_publish(1,4) [OF assms(1,2), of u m' True] assms(3,5,7) by (simp_all add: m'_def)
qed

text \<open>C31: The reopening of a persistent session loses a QoS 2 message. A new connection counts
  its identifiers from 1, and a message that is sent again takes the next one, without regard to
  the messages that keep theirs: when message 1 waits for its PUBCOMP and message 2 is retried, it
  takes the identifier 1 and replaces message 1, in whatever order the keys are enumerated.\<close>

theorem reopen_loses_received:
  assumes "publishes E" "counts E" "releases E" "ep_connected E e" "ep_lastMessageId E e = 0"
    and "wrapper_class w = Persistent" "w_queue w = []" "inflightMaxCapacity c > 1"
    and "w_inflights w = [(1, a), (2, b)]" "m_id a = 1" "m_id b = 2"
    and "m_qos a = 2" "m_status a = PUBREC_STATUS" "m_qos b \<noteq> 0" "m_status b \<noteq> PUBREC_STATUS"
    and "keys = [1, 2] \<or> keys = [2, 1]"
  shows "\<exists>w' i b'. open_persistent E c keys (refreshEndpoint e w) = Some w' \<and>
    w_inflights w' = [(i, b')] \<and> publication_of b' = publication_of b"
proof -
  let ?w = "refreshEndpoint e w"
  let ?a = "a\<lparr>m_retry := m_retry a + 1\<rparr>" and ?b = "b\<lparr>m_id := 1, m_retry := m_retry b + 1\<rparr>"
  have w: "w_endpoint ?w = e" "w_inflights ?w = [(1, a), (2, b)]" "w_queue ?w = []" "wrapper_class ?w = Persistent"
    using assms(6,7,9) by (simp_all add: refreshEndpoint_def)
  have one: "nextMessageId E x = 1" if "ep_connected E x" "ep_lastMessageId E x = 0" for x
    using that by (simp add: nextMessageId_def)
  consider "keys = [1, 2]" | "keys = [2, 1]" using assms(16) by blast
  then show ?thesis
  proof cases
    case 1
    define v where "v = retry_persistent E c a ?w"
    have v: "w_inflights v = [(1, ?a), (2, b)]" "w_queue v = []" "ep_connected E (w_endpoint v)"
      "ep_lastMessageId E (w_endpoint v) = 0" "wrapper_class v = Persistent"
      using w assms(4,5,10,12,13) release_connected [OF assms(3)]
      by (simp_all add: v_def retry_persistent_def put_inflight_def ignite_put_def Let_def)
    define u where "u = retry_persistent E c b v"
    have u: "w_inflights u = [(1, ?b)]" "w_queue u = []"
      using retry_persistent_again [OF assms(1,2) v(3,5) assms(14,15) refl u_def] v one [OF v(3,4)] assms(11)
      by (simp_all add: ignite_put_def)
    have "open_persistent E c keys ?w = Some u"
      using 1 w v u by (simp add: open_persistent_def publishCachedMessage_def dequeue_stop flip: v_def u_def)
    then show ?thesis using u by (auto simp: publication_of_def)
  next
    case 2
    define v where "v = retry_persistent E c b ?w"
    have e: "ep_connected E (w_endpoint ?w)" using w assms(4) by simp
    have v: "w_inflights v = [(1, ?b)]" "w_queue v = []" "ep_connected E (w_endpoint v)" "wrapper_class v = Persistent"
      using retry_persistent_again [OF assms(1,2) e w(4) assms(14,15) refl v_def] w one [of e] assms(4,5,11)
      by (simp_all add: ignite_put_def)
    define u where "u = retry_persistent E c ?b v"
    define n where "n = nextMessageId E (w_endpoint v)"
    have u: "w_inflights u = [(n, ?b\<lparr>m_id := n, m_retry := m_retry ?b + 1\<rparr>)]" "w_queue u = []"
      using retry_persistent_again [OF assms(1,2) v(3,4), of ?b n u c] v assms(8,14,15)
      by (simp_all add: ignite_put_def n_def u_def)
    have "open_persistent E c keys ?w = Some u"
      using 2 w v u by (simp add: open_persistent_def publishCachedMessage_def dequeue_stop flip: v_def u_def)
    then show ?thesis using u by (auto simp: publication_of_def)
  qed
qed

text \<open>Two QoS 2 messages are in flight, and the first one was received.\<close>

definition received_session :: "(bool \<times> int) wrapper" where
  "received_session =
     fold (session_step counter_endpoint (sample_config 0 5))
       [Deliver (sample_message 1 2) 2, Deliver (sample_message 2 2) 2, Pubrec 1]
       (new_wrapper Persistent (js ''c'') (True, 0))"

theorem reopen_loses_received_witness:
  "\<exists>w' i b'. open_persistent counter_endpoint (sample_config 0 5) [1, 2] (refreshEndpoint (True, 0) received_session) = Some w' \<and>
     w_inflights w' = [(i, b')] \<and> m_payload b' = [2]"
proof -
  let ?b = "(sample_message 2 2)\<lparr>m_client := js ''c'', m_id := 2\<rparr>"
  have rel: "releases counter_endpoint" by (simp add: releases_def counter_endpoint_def)
  have *: "w_inflights received_session =
      [(1, (sample_message 1 2)\<lparr>m_client := js ''c'', m_id := 1, m_status := PUBREC_STATUS\<rparr>), (2, ?b)]"
    "wrapper_class received_session = Persistent" "w_queue received_session = []"
    "ep_connected counter_endpoint (True, 0)" "ep_lastMessageId counter_endpoint (True, 0) = 0"
    "inflightMaxCapacity (sample_config 0 5) > 1" by code_simp+
  obtain w' i b' where "open_persistent counter_endpoint (sample_config 0 5) [1, 2] (refreshEndpoint (True, 0) received_session) = Some w'"
    "w_inflights w' = [(i, b')]" "publication_of b' = publication_of ?b"
    using reopen_loses_received [OF counter_laws rel *(4,5,2,3,6,1), where keys = "[1, 2]"]
    by (auto simp: sample_message_def PUBREC_STATUS_def)
  moreover from this(3) have "m_payload b' = [2]" by (simp add: publication_of_def sample_message_def)
  ultimately show ?thesis by blast
qed

text \<open>The reopening enumerates keys that all have a message: it does not fail.\<close>

theorem reopening_succeeds:
  assumes "session_run E c w arr" "set keys = fst ` set (w_inflights w)" "distinct keys"
  shows "open_persistent E c keys (refreshEndpoint e w) \<noteq> None"
proof -
  have "wrapper_ok c (refreshEndpoint e w)" using run_ok [OF assms(1)] by (simp add: refreshEndpoint_def split: wrapper_class.split)
  moreover have "set keys \<subseteq> flight (refreshEndpoint e w)"
    using assms(2) by (simp add: refreshEndpoint_def flight_def split: wrapper_class.split)
  ultimately show ?thesis using reopening_returns [OF _ assms(3)] by (auto simp: open_persistent_def)
qed

end
