(* ===== verification/Broker.thy ===== *)
theory Broker
  imports Wrapper_Delivery Acl
begin

text \<open>
  The handlers of a standalone broker (\<open>AbstractMqttVerticle\<close>, \<open>StandardMqttVerticle\<close>), the session
  service (\<open>AbstractSessionService\<close>, \<open>StdSessionServiceImpl\<close>) and the parts of the cache service they
  use, on top of the sessions, the router, the retained messages and the access control. A handler
  is one step; it returns what it answers to its client and the new state. The authentication is an
  argument, as is the order in which a set of the cache enumerates its elements. The data of a
  persistent session that has no wrapper is kept in \<open>b_stores\<close>: in the code it stays in the caches,
  which the wrapper shares.
\<close>

subsection \<open>State\<close>

record will =
  wl_topic :: js_string
  wl_payload :: bytes
  wl_qos :: int
  wl_retain :: bool

record broker_config =
  session_config :: session_config
  sessionUpgradeQos :: bool
  mqttMaxConns :: int
  mqttClientIdMaxLen :: nat
  mqttRetainMaxCapacity :: nat
  mqttRetainMaxPayload :: nat
  authAllowAnonymous :: bool
  authAclAllowNomatch :: bool

text \<open>A connection: the endpoint with its identity, and what the CONNECT packet said. A will that is
  absent or not flagged is \<open>None\<close>.\<close>

record 'e connection =
  conn_id :: nat
  conn_endpoint :: 'e
  conn_client :: js_string
  conn_clean :: bool
  conn_auth :: "(js_string \<times> js_string) option"
  conn_host :: js_string
  conn_will :: "will option"

record 'e broker =
  b_wrappers :: "js_string \<Rightarrow> (nat \<times> 'e wrapper) option"
  b_stores :: "js_string \<Rightarrow> 'e wrapper option"
  b_sessions :: "js_string \<Rightarrow> bool option"
  b_wills :: "js_string \<Rightarrow> will option"
  b_connections :: "js_string list"
  b_connCount :: int
  b_router :: router_state
  b_retains :: retain_cache
  b_acls :: acl_cache

definition initial_broker :: "acl_cache \<Rightarrow> 'e broker" where
  "initial_broker acls =
     \<lparr>b_wrappers = (\<lambda>_. None), b_stores = (\<lambda>_. None), b_sessions = (\<lambda>_. None), b_wills = (\<lambda>_. None),
      b_connections = [], b_connCount = 0, b_router = empty_router, b_retains = [], b_acls = acls\<rparr>"

definition isPersistentSession :: "js_string \<Rightarrow> 'e broker \<Rightarrow> bool" where
  "isPersistentSession clientId b =
     (case b_sessions b clientId of Some clean \<Rightarrow> \<not> clean | None \<Rightarrow> False)"

text \<open>An operation of the wrapper of a client, when it has one.\<close>

definition on_wrapper :: "js_string \<Rightarrow> ('e wrapper \<Rightarrow> 'e wrapper) \<Rightarrow> 'e broker \<Rightarrow> 'e broker" where
  "on_wrapper clientId f b =
     (case b_wrappers b clientId of
        None \<Rightarrow> b
      | Some (n, w) \<Rightarrow> b\<lparr>b_wrappers := (b_wrappers b)(clientId \<mapsto> (n, f w))\<rparr>)"

subsection \<open>Sessions\<close>

definition destroyTransientSession :: "js_string \<Rightarrow> 'e broker \<Rightarrow> 'e broker" where
  "destroyTransientSession clientId b = b\<lparr>b_router := router_delete_client clientId (b_router b)\<rparr>"

definition destroyPersistentSession :: "js_string \<Rightarrow> 'e broker \<Rightarrow> 'e broker" where
  "destroyPersistentSession clientId b =
     b\<lparr>b_router := router_delete_client clientId (b_router b), b_stores := (b_stores b)(clientId := None)\<rparr>"

text \<open>\<open>SessionWrapper.close\<close>, without the closing of the endpoint.\<close>

definition close_wrapper :: "js_string \<Rightarrow> 'e wrapper \<Rightarrow> 'e broker \<Rightarrow> 'e broker" where
  "close_wrapper clientId w b =
     (case wrapper_class w of
        Transient \<Rightarrow> destroyTransientSession clientId b
      | Persistent \<Rightarrow> destroyPersistentSession clientId b)"

text \<open>The constructor of \<open>PersistentSessionWrapper\<close>: the caches hold what an earlier wrapper left.\<close>

definition new_persistent :: "js_string \<Rightarrow> 'e \<Rightarrow> 'e wrapper option \<Rightarrow> 'e wrapper" where
  "new_persistent clientId e store =
     (case store of
        None \<Rightarrow> new_wrapper Persistent clientId e
      | Some w \<Rightarrow> refreshEndpoint e (w\<lparr>w_timeouts := []\<rparr>))"

definition open_wrapper ::
  "'e endpoint_ops \<Rightarrow> (int list \<Rightarrow> int list) \<Rightarrow> session_config \<Rightarrow> 'e wrapper \<Rightarrow> 'e wrapper option" where
  "open_wrapper E order c w =
     (case wrapper_class w of
        Transient \<Rightarrow> Some w
      | Persistent \<Rightarrow> open_persistent E c (order (map fst (w_inflights w))) w)"

text \<open>\<open>StdSessionServiceImpl.openSession\<close>: what becomes of the earlier session, the wrapper of the
  new one, and the whole; the first component is false when an exception ends it.\<close>

definition close_earlier ::
  "'e connection \<Rightarrow> bool \<Rightarrow> 'e wrapper option \<Rightarrow> 'e broker \<Rightarrow> 'e broker" where
  "close_earlier x isPersistent old b =
     (let clientId = conn_client x in
      if conn_clean x then
        (case old of
           Some w \<Rightarrow> close_wrapper clientId w b
         | None \<Rightarrow> if isPersistent then destroyPersistentSession clientId b
                   else destroyTransientSession clientId b)
      else
        (case old of
           Some w \<Rightarrow> if isPersistent then b else close_wrapper clientId w b
         | None \<Rightarrow> if isPersistent then b else destroyTransientSession clientId b))"

definition build_wrapper ::
  "'e connection \<Rightarrow> bool \<Rightarrow> 'e wrapper option \<Rightarrow> 'e wrapper option \<Rightarrow> 'e wrapper" where
  "build_wrapper x isPersistent old store =
     (if conn_clean x then new_wrapper Transient (conn_client x) (conn_endpoint x)
      else if isPersistent \<and> old \<noteq> None then refreshEndpoint (conn_endpoint x) (the old)
      else new_persistent (conn_client x) (conn_endpoint x) store)"

definition openSession ::
  "'e endpoint_ops \<Rightarrow> (int list \<Rightarrow> int list) \<Rightarrow> broker_config \<Rightarrow> 'e connection \<Rightarrow> 'e broker \<Rightarrow> bool \<times> 'e broker" where
  "openSession E order c x b =
     (let clientId = conn_client x;
          isPersistent = isPersistentSession clientId b;
          old = map_option snd (b_wrappers b clientId);
          b = b\<lparr>b_wrappers := (b_wrappers b)(clientId := None),
                b_sessions := (b_sessions b)(clientId \<mapsto> conn_clean x)\<rparr>;
          b = close_earlier x isPersistent old b;
          w = build_wrapper x isPersistent old (b_stores b clientId);
          b = (if conn_clean x then b else b\<lparr>b_router := router_update clientId 0 (b_router b)\<rparr>) in
      case open_wrapper E order (session_config c) w of
        None \<Rightarrow> (False, b)
      | Some w \<Rightarrow>
          (True, b\<lparr>b_wrappers := (b_wrappers b)(clientId \<mapsto> (conn_id x, w)),
                   b_stores := (b_stores b)(clientId := None)\<rparr>))"

text \<open>\<open>AbstractSessionService.closeSession\<close>. Nothing is done while the endpoint is connected, or when
  another connection has taken the session over.\<close>

definition closeSession :: "'e endpoint_ops \<Rightarrow> 'e connection \<Rightarrow> 'e broker \<Rightarrow> 'e broker" where
  "closeSession E x b =
     (let clientId = conn_client x in
      case b_wrappers b clientId of
        None \<Rightarrow> b
      | Some (n, w) \<Rightarrow>
          if n \<noteq> conn_id x \<or> ep_connected E (w_endpoint w) then b
          else (let b = b\<lparr>b_wrappers := (b_wrappers b)(clientId := None),
                          b_stores := (case wrapper_class w of
                            Transient \<Rightarrow> b_stores b | Persistent \<Rightarrow> (b_stores b)(clientId \<mapsto> w))\<rparr> in
            if conn_clean x \<and> b_sessions b clientId \<noteq> None
            then (destroyTransientSession clientId b)\<lparr>b_sessions := (b_sessions b)(clientId := None)\<rparr>
            else b))"

subsection \<open>Connections\<close>

definition saveConnection :: "'e connection \<Rightarrow> 'e broker \<Rightarrow> 'e broker" where
  "saveConnection x b =
     (if conn_client x \<in> set (b_connections b) then b
      else b\<lparr>b_connCount := b_connCount b + 1, b_connections := conn_client x # b_connections b\<rparr>)"

definition deleteConnection :: "'e connection \<Rightarrow> 'e broker \<Rightarrow> 'e broker" where
  "deleteConnection x b =
     (case b_wrappers b (conn_client x) of
        None \<Rightarrow> b
      | Some (n, w) \<Rightarrow>
          if n = conn_id x
          then b\<lparr>b_connections := removeAll (conn_client x) (b_connections b), b_connCount := b_connCount b - 1\<rparr>
          else b)"

definition handleWillMessage :: "'e connection \<Rightarrow> 'e broker \<Rightarrow> 'e broker" where
  "handleWillMessage x b =
     (case conn_will x of
        None \<Rightarrow> b
      | Some wl \<Rightarrow>
          if wl_payload wl = [] then b\<lparr>b_wills := (b_wills b)(conn_client x := None)\<rparr>
          else b\<lparr>b_wills := (b_wills b)(conn_client x \<mapsto> wl)\<rparr>)"

text \<open>\<open>handleAccept\<close>: the answer is the flag \<open>session present\<close> of the CONNACK.\<close>

definition handleAccept ::
  "'e endpoint_ops \<Rightarrow> (int list \<Rightarrow> int list) \<Rightarrow> broker_config \<Rightarrow> 'e connection \<Rightarrow> 'e broker \<Rightarrow> bool \<times> 'e broker" where
  "handleAccept E order c x b =
     (let (opened, b) = openSession E order c x b;
          b = (if opened then handleWillMessage x (saveConnection x b) else b) in
      (if conn_clean x then False else isPersistentSession (conn_client x) b, b))"

text \<open>\<open>StringUtils.isBlank\<close>, with \<open>Character.isWhitespace\<close>.\<close>

definition is_whitespace :: "16 word \<Rightarrow> bool" where
  "is_whitespace ch \<longleftrightarrow>
     (let i = uint ch in
      (9 \<le> i \<and> i \<le> 13) \<or> (28 \<le> i \<and> i \<le> 32) \<or> i = 0x1680 \<or> (0x2000 \<le> i \<and> i \<le> 0x200A \<and> i \<noteq> 0x2007) \<or>
      i = 0x2028 \<or> i = 0x2029 \<or> i = 0x205F \<or> i = 0x3000)"

definition hasAuth :: "(js_string \<times> js_string) option \<Rightarrow> bool" where
  "hasAuth auth =
     (case auth of
        None \<Rightarrow> False
      | Some (username, password) \<Rightarrow> \<not> list_all is_whitespace username \<and> \<not> list_all is_whitespace password)"

definition limited :: "broker_config \<Rightarrow> 'e broker \<Rightarrow> bool" where
  "limited c b \<longleftrightarrow> b_connCount b \<ge> mqttMaxConns c"

datatype connack = Accepted bool | UseAnotherServer | IdentifierRejected | NotAuthorized | BadUserNameOrPassword

definition handleEndpoint ::
  "'e endpoint_ops \<Rightarrow> (int list \<Rightarrow> int list) \<Rightarrow> (js_string \<Rightarrow> js_string \<Rightarrow> bool) \<Rightarrow> broker_config \<Rightarrow>
   'e connection \<Rightarrow> 'e broker \<Rightarrow> connack \<times> 'e broker" where
  "handleEndpoint E order auth c x b =
     (let accept = (case handleAccept E order c x b of (old_session, b) \<Rightarrow> (Accepted old_session, b)) in
      if limited c b then (UseAnotherServer, b)
      else if \<not> validateClientId (conn_client x) \<or> length (conn_client x) > mqttClientIdMaxLen c
        then (IdentifierRejected, b)
      else if authAllowAnonymous c then accept
      else if \<not> hasAuth (conn_auth x) then (NotAuthorized, b)
      else if auth (fst (the (conn_auth x))) (snd (the (conn_auth x))) then accept
      else (BadUserNameOrPassword, b))"

subsection \<open>Subscriptions\<close>

definition subscribeTopic :: "js_string \<Rightarrow> js_string \<Rightarrow> int \<Rightarrow> 'e broker \<Rightarrow> 'e broker" where
  "subscribeTopic clientId topic q b =
     (let router = (case router_get clientId topic (b_router b) of
          Some r \<Rightarrow> r\<lparr>r_routerQos := q\<rparr>
        | None \<Rightarrow> \<lparr>nodeId = 0, r_client = clientId, r_topic = topic, r_routerQos = q\<rparr>) in
      b\<lparr>b_router := router_save (router\<lparr>nodeId := 0\<rparr>) (b_router b)\<rparr>)"

definition unsubscribeTopic :: "js_string \<Rightarrow> js_string \<Rightarrow> 'e broker \<Rightarrow> 'e broker" where
  "unsubscribeTopic clientId topic b = b\<lparr>b_router := router_delete clientId topic (b_router b)\<rparr>"

definition FAILURE :: int where "FAILURE = 128"

definition permitted :: "broker_config \<Rightarrow> 'e connection \<Rightarrow> access \<Rightarrow> js_string \<Rightarrow> int \<Rightarrow> 'e broker \<Rightarrow> bool" where
  "permitted c x acc topic q b =
     check_access (authAclAllowNomatch c) (b_acls b) (map_option fst (conn_auth x)) (conn_host x)
       (conn_client x) acc topic q"

definition handlePublishRetainMessage ::
  "'e endpoint_ops \<Rightarrow> broker_config \<Rightarrow> js_string \<Rightarrow> js_string \<Rightarrow> int \<Rightarrow> 'e broker \<Rightarrow> 'e broker" where
  "handlePublishRetainMessage E c clientId topic q b =
     (if \<not> validateTopic topic then b
      else on_wrapper clientId
        (publishRetainMessage E (session_config c) (retain_get (sessionUpgradeQos c) (b_retains b) topic q)) b)"

text \<open>The loop of \<open>handleSubscribe\<close> over the checked filters. When the session has no wrapper, its first
  use is a \<open>NullPointerException\<close>: the SUBACK has the codes up to there.\<close>

fun subscribe_all ::
  "'e endpoint_ops \<Rightarrow> broker_config \<Rightarrow> 'e connection \<Rightarrow> (js_string \<times> int) list \<Rightarrow> 'e broker \<Rightarrow> int list \<times> 'e broker" where
  "subscribe_all E c x [] b = ([], b)"
| "subscribe_all E c x ((topic, q) # rest) b =
     (if checkSubscribeTopic topic \<and> permitted c x Sub topic q b then
        (if b_wrappers b (conn_client x) = None then ([q], b)
         else (let b = subscribeTopic (conn_client x) topic q b;
                   b = handlePublishRetainMessage E c (conn_client x) topic q b;
                   (codes, b) = subscribe_all E c x rest b in
           (q # codes, b)))
      else (let (codes, b) = subscribe_all E c x rest b in (FAILURE # codes, b)))"

definition handleSubscribe ::
  "'e endpoint_ops \<Rightarrow> broker_config \<Rightarrow> 'e connection \<Rightarrow> (js_string \<times> int) list \<Rightarrow> 'e broker \<Rightarrow> int list \<times> 'e broker" where
  "handleSubscribe E c x topics b = subscribe_all E c x topics b"

definition handleUnsubscribe :: "'e connection \<Rightarrow> js_string list \<Rightarrow> 'e broker \<Rightarrow> 'e broker" where
  "handleUnsubscribe x topics b =
     (if b_wrappers b (conn_client x) = None then b
      else fold (unsubscribeTopic (conn_client x)) topics b)"

subsection \<open>Publications\<close>

text \<open>\<open>handleLocalPublishMessage\<close> for one route.\<close>

definition publish_route ::
  "'e endpoint_ops \<Rightarrow> broker_config \<Rightarrow> smsg \<Rightarrow> js_string \<times> int \<Rightarrow> 'e broker \<Rightarrow> 'e broker" where
  "publish_route E c m route b =
     (case route of (clientId, q) \<Rightarrow>
        if b_wrappers b clientId \<noteq> None
        then on_wrapper clientId (publishMessage E (session_config c) m q) b
        else if isPersistentSession clientId b then
          (case b_stores b clientId of
             None \<Rightarrow> b
           | Some w \<Rightarrow> b\<lparr>b_stores := (b_stores b)(clientId \<mapsto>
               w\<lparr>w_queue := snd (cache_enqueue (session_config c) m clientId q (w_queue w))\<rparr>)\<rparr>)
        else b)"

definition handleLocalPublishMessage ::
  "'e endpoint_ops \<Rightarrow> broker_config \<Rightarrow> (js_string \<times> int) list \<Rightarrow> smsg \<Rightarrow> 'e broker \<Rightarrow> 'e broker" where
  "handleLocalPublishMessage E c routes m b = fold (publish_route E c m) routes b"

definition handleRetainMessage :: "broker_config \<Rightarrow> packet \<Rightarrow> 'e broker \<Rightarrow> 'e broker" where
  "handleRetainMessage c p b =
     (if \<not> p_retain p then b
      else if length (p_payload p) > mqttRetainMaxPayload c then b
      else if p_payload p = [] then b\<lparr>b_retains := snd (retain_delete (p_topic p) (b_retains b))\<rparr>
      else b\<lparr>b_retains := retain_save (mqttRetainMaxCapacity c)
             \<lparr>rt_topic = p_topic p, rt_payload = p_payload p, rt_qos = p_qos p, rt_dup = p_dup p\<rparr> (b_retains b)\<rparr>)"

datatype answer = Ack int | Rec int | Comp int | Rel int

definition handlePublish ::
  "'e endpoint_ops \<Rightarrow> broker_config \<Rightarrow> 'e connection \<Rightarrow> packet \<Rightarrow> 'e broker \<Rightarrow> answer list \<times> 'e broker" where
  "handlePublish E c x p b =
     (if p_qos p = 1 then [Ack (p_id p)] else if p_qos p = 2 then [Rec (p_id p)] else [],
      if \<not> checkPublishTopic (p_topic p) \<or> \<not> permitted c x Pub (p_topic p) 0 b then b
      else (let b = handleRetainMessage c p b in
        if p_qos p = 2
        then on_wrapper (conn_client x) (\<lambda>w. snd (receiveQos2Message (session_config c) p w)) b
        else handleLocalPublishMessage E c
          (getRoutes (sessionUpgradeQos c) (b_router b) (p_topic p) (p_qos p)) (message_of_packet p) b))"

definition handlePublishRelease ::
  "'e endpoint_ops \<Rightarrow> broker_config \<Rightarrow> 'e connection \<Rightarrow> int \<Rightarrow> 'e broker \<Rightarrow> answer list \<times> 'e broker" where
  "handlePublishRelease E c x messageId b =
     ([Comp messageId],
      case b_wrappers b (conn_client x) of
        None \<Rightarrow> b
      | Some (n, w) \<Rightarrow>
          (let (await, w) = releaseQos2Message messageId w;
               b = b\<lparr>b_wrappers := (b_wrappers b)(conn_client x \<mapsto> (n, w))\<rparr> in
           case await of
             None \<Rightarrow> b
           | Some a \<Rightarrow> handleLocalPublishMessage E c
               (getRoutes (sessionUpgradeQos c) (b_router b) (aw_topic a) (aw_qos a)) (message_of_await a) b))"

definition handlePublishAcknowledge ::
  "'e endpoint_ops \<Rightarrow> broker_config \<Rightarrow> 'e connection \<Rightarrow> int \<Rightarrow> 'e broker \<Rightarrow> 'e broker" where
  "handlePublishAcknowledge E c x messageId b =
     on_wrapper (conn_client x) (receivePuback E (session_config c) messageId) b"

definition handlePublishReceived ::
  "broker_config \<Rightarrow> 'e connection \<Rightarrow> int \<Rightarrow> 'e broker \<Rightarrow> answer list \<times> 'e broker" where
  "handlePublishReceived c x messageId b =
     ([Rel messageId], on_wrapper (conn_client x) (receivePubrec (session_config c) messageId) b)"

definition handlePublishCompletion ::
  "'e endpoint_ops \<Rightarrow> broker_config \<Rightarrow> 'e connection \<Rightarrow> int \<Rightarrow> 'e broker \<Rightarrow> 'e broker" where
  "handlePublishCompletion E c x messageId b =
     on_wrapper (conn_client x) (receivePubcomp E (session_config c) messageId) b"

subsection \<open>The end of a connection\<close>

text \<open>The handler of a DISCONNECT packet only counts it.\<close>

definition handleDisconnect :: "'e connection \<Rightarrow> 'e broker \<Rightarrow> 'e broker" where
  "handleDisconnect x b = b"

definition message_of_will :: "will \<Rightarrow> smsg" where
  "message_of_will wl =
     \<lparr>m_client = [], m_id = 0, m_topic = wl_topic wl, m_payload = wl_payload wl, m_qos = wl_qos wl,
      m_dup = False, m_retain = wl_retain wl, m_status = 0, m_retry = 0\<rparr>"

definition deleteWill :: "js_string \<Rightarrow> bool \<Rightarrow> 'e broker \<Rightarrow> 'e broker" where
  "deleteWill clientId force b =
     (if force then b\<lparr>b_wills := (b_wills b)(clientId := None)\<rparr>
      else (case b_wills b clientId of
          Some wl \<Rightarrow> if wl_retain wl then b else b\<lparr>b_wills := (b_wills b)(clientId := None)\<rparr>
        | None \<Rightarrow> b))"

definition handleWillPublish :: "'e endpoint_ops \<Rightarrow> broker_config \<Rightarrow> 'e connection \<Rightarrow> 'e broker \<Rightarrow> 'e broker" where
  "handleWillPublish E c x b =
     (case b_wills b (conn_client x) of
        None \<Rightarrow> b
      | Some wl \<Rightarrow> deleteWill (conn_client x) False
          (handleLocalPublishMessage E c
            (getRoutes (sessionUpgradeQos c) (b_router b) (wl_topic wl) (wl_qos wl)) (message_of_will wl) b))"

definition handleClose :: "'e endpoint_ops \<Rightarrow> broker_config \<Rightarrow> 'e connection \<Rightarrow> 'e broker \<Rightarrow> 'e broker" where
  "handleClose E c x b = closeSession E x (deleteConnection x (handleWillPublish E c x b))"

subsection \<open>Runs of the broker\<close>

text \<open>What happens to a broker. A connection that closes is closed before its handler runs; the state
  of a connection changes otherwise as its client and the network have it.\<close>

datatype 'e broker_event =
    Connect "'e connection"
  | Subscribe "'e connection" "(js_string \<times> int) list"
  | Unsubscribe "'e connection" "js_string list"
  | Publish "'e connection" packet
  | Pub_release "'e connection" int
  | Pub_acknowledge "'e connection" int
  | Pub_received "'e connection" int
  | Pub_completion "'e connection" int
  | Disconnect "'e connection"
  | Close "'e connection"
  | Timer js_string int
  | Network js_string 'e

definition endpoint_closed :: "'e endpoint_ops \<Rightarrow> 'e connection \<Rightarrow> 'e broker \<Rightarrow> 'e broker" where
  "endpoint_closed E x b =
     (case b_wrappers b (conn_client x) of
        None \<Rightarrow> b
      | Some (n, w) \<Rightarrow>
          if n = conn_id x then on_wrapper (conn_client x) (\<lambda>w. w\<lparr>w_endpoint := ep_close E (w_endpoint w)\<rparr>) b else b)"

primrec broker_step ::
  "'e endpoint_ops \<Rightarrow> (int list \<Rightarrow> int list) \<Rightarrow> (js_string \<Rightarrow> js_string \<Rightarrow> bool) \<Rightarrow> broker_config \<Rightarrow>
   'e broker_event \<Rightarrow> 'e broker \<Rightarrow> 'e broker" where
  "broker_step E order auth c (Connect x) b = snd (handleEndpoint E order auth c x b)"
| "broker_step E order auth c (Subscribe x topics) b = snd (handleSubscribe E c x topics b)"
| "broker_step E order auth c (Unsubscribe x topics) b = handleUnsubscribe x topics b"
| "broker_step E order auth c (Publish x p) b = snd (handlePublish E c x p b)"
| "broker_step E order auth c (Pub_release x i) b = snd (handlePublishRelease E c x i b)"
| "broker_step E order auth c (Pub_acknowledge x i) b = handlePublishAcknowledge E c x i b"
| "broker_step E order auth c (Pub_received x i) b = snd (handlePublishReceived c x i b)"
| "broker_step E order auth c (Pub_completion x i) b = handlePublishCompletion E c x i b"
| "broker_step E order auth c (Disconnect x) b = handleDisconnect x b"
| "broker_step E order auth c (Close x) b = handleClose E c x (endpoint_closed E x b)"
| "broker_step E order auth c (Timer clientId i) b =
     on_wrapper clientId (inflightExpired E (session_config c) i) b"
| "broker_step E order auth c (Network clientId e) b =
     on_wrapper clientId (\<lambda>w. w\<lparr>w_endpoint := e\<rparr>) b"

definition run_broker ::
  "'e endpoint_ops \<Rightarrow> (int list \<Rightarrow> int list) \<Rightarrow> (js_string \<Rightarrow> js_string \<Rightarrow> bool) \<Rightarrow> broker_config \<Rightarrow>
   acl_cache \<Rightarrow> 'e broker_event list \<Rightarrow> 'e broker" where
  "run_broker E order auth c acls es = fold (broker_step E order auth c) es (initial_broker acls)"

definition enumerates :: "(int list \<Rightarrow> int list) \<Rightarrow> bool" where
  "enumerates order \<longleftrightarrow> (\<forall>ks. distinct ks \<longrightarrow> set (order ks) = set ks \<and> distinct (order ks))"

definition closes :: "'e endpoint_ops \<Rightarrow> bool" where
  "closes E \<longleftrightarrow> (\<forall>e. \<not> ep_connected E (ep_close E e))"

subsection \<open>What the handlers leave alone\<close>

lemma on_wrapper_keeps [simp]:
  "b_stores (on_wrapper i f b) = b_stores b" "b_sessions (on_wrapper i f b) = b_sessions b"
  "b_wills (on_wrapper i f b) = b_wills b" "b_connections (on_wrapper i f b) = b_connections b"
  "b_connCount (on_wrapper i f b) = b_connCount b" "b_router (on_wrapper i f b) = b_router b"
  "b_retains (on_wrapper i f b) = b_retains b" "b_acls (on_wrapper i f b) = b_acls b"
  "isPersistentSession j (on_wrapper i f b) = isPersistentSession j b"
  by (auto simp: on_wrapper_def isPersistentSession_def split: option.split)

lemma on_wrapper_at:
  "b_wrappers (on_wrapper i f b) =
     (b_wrappers b)(i := map_option (\<lambda>(n, w). (n, f w)) (b_wrappers b i))"
  by (auto simp: on_wrapper_def fun_eq_iff split: option.split)

lemma publish_route_keeps [simp]:
  "b_sessions (publish_route E c m r b) = b_sessions b" "b_wills (publish_route E c m r b) = b_wills b"
  "b_connections (publish_route E c m r b) = b_connections b" "b_connCount (publish_route E c m r b) = b_connCount b"
  "b_router (publish_route E c m r b) = b_router b" "b_retains (publish_route E c m r b) = b_retains b"
  "b_acls (publish_route E c m r b) = b_acls b"
  "isPersistentSession j (publish_route E c m r b) = isPersistentSession j b"
  by (auto simp: publish_route_def isPersistentSession_def split: option.split prod.split)

lemma local_publish_keeps [simp]:
  "b_sessions (handleLocalPublishMessage E c rs m b) = b_sessions b"
  "b_wills (handleLocalPublishMessage E c rs m b) = b_wills b"
  "b_connections (handleLocalPublishMessage E c rs m b) = b_connections b"
  "b_connCount (handleLocalPublishMessage E c rs m b) = b_connCount b"
  "b_router (handleLocalPublishMessage E c rs m b) = b_router b"
  "b_retains (handleLocalPublishMessage E c rs m b) = b_retains b"
  "b_acls (handleLocalPublishMessage E c rs m b) = b_acls b"
  "isPersistentSession j (handleLocalPublishMessage E c rs m b) = isPersistentSession j b"
proof -
  have "b_sessions (fold (publish_route E c m) rs b) = b_sessions b \<and> b_wills (fold (publish_route E c m) rs b) = b_wills b \<and>
    b_connections (fold (publish_route E c m) rs b) = b_connections b \<and>
    b_connCount (fold (publish_route E c m) rs b) = b_connCount b \<and> b_router (fold (publish_route E c m) rs b) = b_router b \<and>
    b_retains (fold (publish_route E c m) rs b) = b_retains b \<and> b_acls (fold (publish_route E c m) rs b) = b_acls b \<and>
    isPersistentSession j (fold (publish_route E c m) rs b) = isPersistentSession j b"
    by (induction rs arbitrary: b) simp_all
  then show "b_sessions (handleLocalPublishMessage E c rs m b) = b_sessions b"
    "b_wills (handleLocalPublishMessage E c rs m b) = b_wills b"
    "b_connections (handleLocalPublishMessage E c rs m b) = b_connections b"
    "b_connCount (handleLocalPublishMessage E c rs m b) = b_connCount b"
    "b_router (handleLocalPublishMessage E c rs m b) = b_router b"
    "b_retains (handleLocalPublishMessage E c rs m b) = b_retains b"
    "b_acls (handleLocalPublishMessage E c rs m b) = b_acls b"
    "isPersistentSession j (handleLocalPublishMessage E c rs m b) = isPersistentSession j b"
    by (simp_all add: handleLocalPublishMessage_def)
qed

text \<open>What reaches one client: the routes to it, in their order.\<close>

definition routes_to :: "js_string \<Rightarrow> (js_string \<times> int) list \<Rightarrow> int list" where
  "routes_to clientId routes = map snd (filter (\<lambda>r. fst r = clientId) routes)"

lemma local_publish_wrappers:
  "b_wrappers (handleLocalPublishMessage E c rs m b) i =
     map_option (\<lambda>(n, w). (n, fold (publishMessage E (session_config c) m) (routes_to i rs) w)) (b_wrappers b i)"
proof (induction rs arbitrary: b)
  case Nil
  then show ?case by (simp add: handleLocalPublishMessage_def routes_to_def option.map_id0 map_option_case split: option.split)
next
  case (Cons r rs)
  obtain j q where r: "r = (j, q)" by (cases r)
  have "b_wrappers (publish_route E c m r b) i =
      (if i = j then map_option (\<lambda>(n, w). (n, publishMessage E (session_config c) m q w)) (b_wrappers b i)
       else b_wrappers b i)"
    by (cases "b_wrappers b j") (auto simp: r publish_route_def on_wrapper_at split: option.split)
  then show ?case using Cons.IH [of "publish_route E c m r b"] r
    by (auto simp: handleLocalPublishMessage_def routes_to_def map_option_case split: option.split)
qed

lemma local_publish_dom [simp]:
  "b_wrappers (handleLocalPublishMessage E c rs m b) i = None \<longleftrightarrow> b_wrappers b i = None"
  by (simp add: local_publish_wrappers)

lemma local_publish_stores:
  "b_stores (handleLocalPublishMessage E c rs m b) i =
     (if b_wrappers b i = None \<and> isPersistentSession i b
      then map_option (\<lambda>w. w\<lparr>w_queue := fold (\<lambda>q queue. snd (cache_enqueue (session_config c) m i q queue))
        (routes_to i rs) (w_queue w)\<rparr>) (b_stores b i)
      else b_stores b i)"
proof (induction rs arbitrary: b)
  case Nil
  then show ?case by (simp add: handleLocalPublishMessage_def routes_to_def map_option_case split: option.split)
next
  case (Cons r rs)
  obtain j q where r: "r = (j, q)" by (cases r)
  have w: "b_wrappers (publish_route E c m r b) i = None \<longleftrightarrow> b_wrappers b i = None"
    by (cases "b_wrappers b j") (auto simp: r publish_route_def on_wrapper_at split: option.split)
  have "b_stores (publish_route E c m r b) i =
      (if i = j \<and> b_wrappers b i = None \<and> isPersistentSession i b
       then map_option (\<lambda>w. w\<lparr>w_queue := snd (cache_enqueue (session_config c) m i q (w_queue w))\<rparr>) (b_stores b i)
       else b_stores b i)"
    by (auto simp: r publish_route_def split: option.split)
  then show ?case using Cons.IH [of "publish_route E c m r b"] r w
    by (auto simp: handleLocalPublishMessage_def routes_to_def map_option_case split: option.split)
qed

end
