(* ===== verification/Broker_Runs.thy ===== *)
theory Broker_Runs
  imports Broker
begin

text \<open>
  What holds in every run of a broker: each session is a run of a session, the connections are
  counted and bounded, the router is one that the operations of the router produce. On that rest
  the properties of the broker: whom a publication reaches, that a QoS 2 message is routed once,
  and where the handlers of connections and wills go wrong.
\<close>

subsection \<open>The sessions of a broker\<close>

lemma dequeue_one_identity [simp]:
  "wrapper_class (snd (dequeue_one E c m w)) = wrapper_class w" "thisClientId (snd (dequeue_one E c m w)) = thisClientId w"
  by (simp_all add: dequeue_one_def dequeue_transient_def dequeue_persistent_def Let_def case_prod_beta
      put_inflight_def split: wrapper_class.split)

lemma dequeue_identity [simp]: "thisClientId (dequeue E c w) = thisClientId w"
proof (induction E c w rule: dequeue.induct)
  case (1 E c w)
  then show ?case by (subst dequeue.simps) (auto simp: Let_def)
qed

lemma handle_message_identity [simp]: "thisClientId (snd (handle_message E c m w)) = thisClientId w"
  by (simp add: handle_message_def inflight_def enqueue_def Let_def put_inflight_def split: wrapper_class.split)

lemma retry_identity [simp]:
  "thisClientId (retry_persistent E c m w) = thisClientId w" "thisClientId (retry_message E c m w) = thisClientId w"
  by (simp_all add: retry_message_def retry_transient_def retry_persistent_def Let_def publishRelease_def
      put_inflight_def remove_inflight_def split: wrapper_class.split option.split)

lemma session_step_identity [simp]: "thisClientId (session_step E c a w) = thisClientId w"
proof -
  have "thisClientId (snd (handle_retained E c rs w)) = thisClientId w" for rs
    by (induction rs arbitrary: w) (simp_all add: Let_def case_prod_beta)
  then show ?thesis
    by (cases a)
      (simp_all add: publishMessage_def publishRetainMessage_def publishCachedMessage_def receivePuback_def
        receivePubrec_def receivePubcomp_def inflightExpired_def retry_def receiveQos2Message_def releaseQos2Message_def
        remove_inflight_def deleteInflightTimeout_def put_inflight_def Let_def case_prod_beta
        split: option.split wrapper_class.split)
qed

lemma open_identity: "open_persistent E c keys w = Some w' \<Longrightarrow> thisClientId w' = thisClientId w"
proof -
  have "retryInflight_all E c keys w = Some v \<Longrightarrow> thisClientId v = thisClientId w" for v
    by (induction keys arbitrary: w) (auto split: option.splits)
  then show "open_persistent E c keys w = Some w' \<Longrightarrow> thisClientId w' = thisClientId w"
    by (auto simp: open_persistent_def publishCachedMessage_def)
qed

definition session_of :: "'e endpoint_ops \<Rightarrow> broker_config \<Rightarrow> js_string \<Rightarrow> 'e wrapper \<Rightarrow> bool" where
  "session_of E c i w \<longleftrightarrow> (\<exists>arr. session_run E (session_config c) w arr) \<and> thisClientId w = i"

lemma session_of_intros:
  "session_of E c i (new_wrapper cls i e)"
  "session_of E c i w \<Longrightarrow> session_of E c i (session_step E (session_config c) a w)"
  "session_of E c i w \<Longrightarrow> session_of E c i (w\<lparr>w_endpoint := e\<rparr>)"
  "session_of E c i w \<Longrightarrow> wrapper_class w = Persistent \<Longrightarrow>
   session_of E c i (w\<lparr>w_queue := snd (cache_enqueue (session_config c) m i q (w_queue w))\<rparr>)"
proof -
  show "session_of E c i (new_wrapper cls i e)"
    using session_run.start [of E "session_config c" cls i e] by (auto simp: session_of_def new_wrapper_def)
  show "session_of E c i w \<Longrightarrow> session_of E c i (session_step E (session_config c) a w)"
    using session_run.step by (fastforce simp: session_of_def)
  show "session_of E c i w \<Longrightarrow> session_of E c i (w\<lparr>w_endpoint := e\<rparr>)"
    using session_run.connection by (fastforce simp: session_of_def)
  assume w: "session_of E c i w" "wrapper_class w = Persistent"
  show "session_of E c i (w\<lparr>w_queue := snd (cache_enqueue (session_config c) m i q (w_queue w))\<rparr>)"
  proof (cases "fst (cache_enqueue (session_config c) m i q (w_queue w))")
    case True
    then have "cache_enqueue (session_config c) m i q (w_queue w) = (True, snd (cache_enqueue (session_config c) m i q (w_queue w)))"
      by (simp add: prod_eq_iff)
    then show ?thesis using w session_run.stored [of E "session_config c" w] by (fastforce simp: session_of_def)
  next
    case False
    then have "snd (cache_enqueue (session_config c) m i q (w_queue w)) = w_queue w"
      by (auto simp: cache_enqueue_def split: if_splits)
    then have "w\<lparr>w_queue := snd (cache_enqueue (session_config c) m i q (w_queue w))\<rparr> = w" by (cases w) simp
    then show ?thesis using w(1) by simp
  qed
qed

lemma session_of_reopened:
  assumes "session_of E c i w" "wrapper_class w = Persistent" "enumerates order" "timers \<in> {w_timeouts w, []}"
    and "open_wrapper E order (session_config c) (refreshEndpoint e (w\<lparr>w_timeouts := timers\<rparr>)) = Some w'"
  shows "session_of E c i w'"
proof -
  let ?v = "refreshEndpoint e (w\<lparr>w_timeouts := timers\<rparr>)"
  obtain arr where run: "session_run E (session_config c) w arr" using assms(1) by (auto simp: session_of_def)
  have v: "wrapper_class ?v = Persistent" "w_inflights ?v = w_inflights w" "thisClientId ?v = thisClientId w"
    using assms(2) by (simp_all add: refreshEndpoint_def)
  then have op: "open_persistent E (session_config c) (order (map fst (w_inflights w))) ?v = Some w'"
    using assms(5) by (simp add: open_wrapper_def)
  have "distinct (map fst (w_inflights w))" using run_ok [OF run] by (simp add: wrapper_ok_def ids_ok_def)
  then have "set (order (map fst (w_inflights w))) = fst ` set (w_inflights w)" "distinct (order (map fst (w_inflights w)))"
    using assms(3) by (simp_all add: enumerates_def)
  then have "session_run E (session_config c) w' arr"
    using session_run.reopened [OF run assms(2) _ _ assms(4) op] by blast
  moreover have "thisClientId w' = thisClientId w" using open_identity [OF op] v(3) by simp
  ultimately show ?thesis using assms(1) by (auto simp: session_of_def)
qed

definition sessions_ok :: "'e endpoint_ops \<Rightarrow> broker_config \<Rightarrow> 'e broker \<Rightarrow> bool" where
  "sessions_ok E c b \<longleftrightarrow>
     (\<forall>i n w. b_wrappers b i = Some (n, w) \<longrightarrow> session_of E c i w) \<and>
     (\<forall>i w. b_stores b i = Some w \<longrightarrow> session_of E c i w \<and> wrapper_class w = Persistent)"

lemma on_wrapper_sessions:
  assumes "sessions_ok E c b" "\<And>w. session_of E c i w \<Longrightarrow> session_of E c i (f w)"
  shows "sessions_ok E c (on_wrapper i f b)"
  using assms by (auto simp: sessions_ok_def on_wrapper_at)

text \<open>The operations of a session, as steps of its runs.\<close>

lemma session_of_operations:
  assumes "session_of E c i w"
  shows "session_of E c i (publishMessage E (session_config c) m q w)"
    "session_of E c i (publishRetainMessage E (session_config c) rs w)"
    "session_of E c i (receivePuback E (session_config c) k w)"
    "session_of E c i (receivePubrec (session_config c) k w)"
    "session_of E c i (receivePubcomp E (session_config c) k w)"
    "session_of E c i (inflightExpired E (session_config c) k w)"
    "session_of E c i (snd (receiveQos2Message (session_config c) p w))"
    "session_of E c i (snd (releaseQos2Message k w))"
proof -
  note step = session_of_intros(2) [OF assms]
  show "session_of E c i (publishMessage E (session_config c) m q w)" using step [of "Deliver m q"] by simp
  show "session_of E c i (publishRetainMessage E (session_config c) rs w)"
    using step [of "Retained (the rs)"] assms by (cases rs) (simp_all add: publishRetainMessage_def)
  show "session_of E c i (receivePuback E (session_config c) k w)" using step [of "Puback k"] by simp
  show "session_of E c i (receivePubrec (session_config c) k w)" using step [of "Pubrec k"] by simp
  show "session_of E c i (receivePubcomp E (session_config c) k w)" using step [of "Pubcomp k"] by simp
  show "session_of E c i (inflightExpired E (session_config c) k w)" using step [of "Expired k"] by simp
  show "session_of E c i (snd (receiveQos2Message (session_config c) p w))" using step [of "Qos2 p"] by simp
  show "session_of E c i (snd (releaseQos2Message k w))" using step [of "Release k"] by simp
qed

lemma local_publish_sessions:
  "sessions_ok E c b \<Longrightarrow> sessions_ok E c (handleLocalPublishMessage E c rs m b)"
  unfolding handleLocalPublishMessage_def
proof (induction rs arbitrary: b)
  case (Cons r rs)
  have "sessions_ok E c (publish_route E c m r b)"
    using Cons.prems
    by (auto simp: publish_route_def intro!: on_wrapper_sessions session_of_operations split: prod.split option.split)
      (auto simp: sessions_ok_def intro: session_of_intros(4))
  then show ?case using Cons.IH by simp
qed simp


lemma sessions_ok_cong:
  "b_wrappers b' = b_wrappers b \<Longrightarrow> b_stores b' = b_stores b \<Longrightarrow> sessions_ok E c b' = sessions_ok E c b"
  by (simp add: sessions_ok_def)

lemma handler_fields [simp]:
  "b_wrappers (destroyTransientSession i b) = b_wrappers b" "b_stores (destroyTransientSession i b) = b_stores b"
  "b_sessions (destroyTransientSession i b) = b_sessions b" "b_wills (destroyTransientSession i b) = b_wills b"
  "b_connections (destroyTransientSession i b) = b_connections b" "b_connCount (destroyTransientSession i b) = b_connCount b"
  "b_wrappers (destroyPersistentSession i b) = b_wrappers b"
  "b_stores (destroyPersistentSession i b) = (b_stores b)(i := None)"
  "b_sessions (destroyPersistentSession i b) = b_sessions b" "b_wills (destroyPersistentSession i b) = b_wills b"
  "b_connections (destroyPersistentSession i b) = b_connections b" "b_connCount (destroyPersistentSession i b) = b_connCount b"
  "b_wrappers (handleWillMessage x b) = b_wrappers b" "b_stores (handleWillMessage x b) = b_stores b"
  "b_sessions (handleWillMessage x b) = b_sessions b" "b_connections (handleWillMessage x b) = b_connections b"
  "b_connCount (handleWillMessage x b) = b_connCount b" "b_router (handleWillMessage x b) = b_router b"
  "b_wrappers (deleteWill i f b) = b_wrappers b" "b_stores (deleteWill i f b) = b_stores b"
  "b_sessions (deleteWill i f b) = b_sessions b" "b_connections (deleteWill i f b) = b_connections b"
  "b_connCount (deleteWill i f b) = b_connCount b" "b_router (deleteWill i f b) = b_router b"
  "b_wrappers (saveConnection x b) = b_wrappers b" "b_stores (saveConnection x b) = b_stores b"
  "b_sessions (saveConnection x b) = b_sessions b" "b_wills (saveConnection x b) = b_wills b"
  "b_router (saveConnection x b) = b_router b"
  "b_wrappers (deleteConnection x b) = b_wrappers b" "b_stores (deleteConnection x b) = b_stores b"
  "b_sessions (deleteConnection x b) = b_sessions b" "b_wills (deleteConnection x b) = b_wills b"
  "b_router (deleteConnection x b) = b_router b"
  "b_wrappers (subscribeTopic i t q b) = b_wrappers b" "b_stores (subscribeTopic i t q b) = b_stores b"
  "b_connections (subscribeTopic i t q b) = b_connections b" "b_connCount (subscribeTopic i t q b) = b_connCount b"
  "b_wrappers (unsubscribeTopic i t b) = b_wrappers b" "b_stores (unsubscribeTopic i t b) = b_stores b"
  "b_connections (unsubscribeTopic i t b) = b_connections b" "b_connCount (unsubscribeTopic i t b) = b_connCount b"
  "b_wrappers (handleRetainMessage c p b) = b_wrappers b" "b_stores (handleRetainMessage c p b) = b_stores b"
  "b_sessions (handleRetainMessage c p b) = b_sessions b" "b_router (handleRetainMessage c p b) = b_router b"
  "b_connections (handleRetainMessage c p b) = b_connections b" "b_connCount (handleRetainMessage c p b) = b_connCount b"
  by (simp_all add: destroyTransientSession_def destroyPersistentSession_def handleWillMessage_def deleteWill_def
      saveConnection_def deleteConnection_def subscribeTopic_def unsubscribeTopic_def handleRetainMessage_def
      Let_def split: option.split prod.split)

text \<open>\<open>close_wrapper\<close> deletes routes and at most the stored part of a session.\<close>

lemma close_wrapper_fields [simp]:
  "b_wrappers (close_wrapper i w b) = b_wrappers b" "b_sessions (close_wrapper i w b) = b_sessions b"
  "b_wills (close_wrapper i w b) = b_wills b" "b_connections (close_wrapper i w b) = b_connections b"
  "b_connCount (close_wrapper i w b) = b_connCount b"
  by (simp_all add: close_wrapper_def split: wrapper_class.split)

lemma close_earlier_fields [simp]:
  "b_wrappers (close_earlier x p old b) = b_wrappers b" "b_sessions (close_earlier x p old b) = b_sessions b"
  "b_wills (close_earlier x p old b) = b_wills b" "b_connections (close_earlier x p old b) = b_connections b"
  "b_connCount (close_earlier x p old b) = b_connCount b"
  by (simp_all add: close_earlier_def Let_def split: option.split)

lemma close_earlier_stores: "b_stores (close_earlier x p old b) j = Some v \<Longrightarrow> b_stores b j = Some v"
  by (auto simp: close_earlier_def close_wrapper_def Let_def split: option.splits if_splits wrapper_class.splits)

text \<open>What \<open>openSession\<close> does to the wrappers and to what has nothing to do with sessions.\<close>

lemma openSession_fields [simp]:
  "b_connections (snd (openSession E order c x b)) = b_connections b"
  "b_connCount (snd (openSession E order c x b)) = b_connCount b"
  "b_wills (snd (openSession E order c x b)) = b_wills b"
  "b_sessions (snd (openSession E order c x b)) = (b_sessions b)(conn_client x \<mapsto> conn_clean x)"
  by (simp_all add: openSession_def Let_def split: option.split)

lemma openSession_wrappers:
  "i \<noteq> conn_client x \<Longrightarrow> b_wrappers (snd (openSession E order c x b)) i = b_wrappers b i"
  "b_wrappers (snd (openSession E order c x b)) (conn_client x) \<noteq> None \<longleftrightarrow> fst (openSession E order c x b)"
  "b_wrappers (snd (openSession E order c x b)) (conn_client x) = Some (n, w) \<Longrightarrow> n = conn_id x"
  by (auto simp: openSession_def Let_def split: option.splits if_splits)

lemma build_wrapper_opened:
  assumes "sessions_ok E c b" "enumerates order"
    and "old = map_option snd (b_wrappers b (conn_client x))" "store = None \<or> store = b_stores b (conn_client x)"
    and "open_wrapper E order (session_config c) (build_wrapper x p old store) = Some w"
  shows "session_of E c (conn_client x) w"
proof -
  let ?i = "conn_client x"
  have fresh: "session_of E c ?i w"
    if "open_wrapper E order (session_config c) (new_wrapper cls ?i (conn_endpoint x)) = Some w" for cls
  proof (cases cls)
    case Transient
    then show ?thesis using that session_of_intros(1) by (auto simp: open_wrapper_def new_wrapper_def)
  next
    case Persistent
    let ?n = "new_wrapper Persistent ?i (conn_endpoint x)"
    have "refreshEndpoint (conn_endpoint x) (?n\<lparr>w_timeouts := []\<rparr>) = ?n" by (simp add: refreshEndpoint_def new_wrapper_def)
    moreover have "session_of E c ?i ?n" by (rule session_of_intros)
    moreover have "wrapper_class ?n = Persistent" by (simp add: new_wrapper_def)
    ultimately show ?thesis
      using that Persistent session_of_reopened [OF _ _ assms(2), where timers = "[]" and e = "conn_endpoint x"] by fastforce
  qed
  show ?thesis
  proof (cases "conn_clean x")
    case True
    then show ?thesis using fresh assms(5) by (simp add: build_wrapper_def)
  next
    case clean: False
    show ?thesis
    proof (cases "p \<and> old \<noteq> None")
      case True
      then obtain n v where v: "b_wrappers b ?i = Some (n, v)" "session_of E c ?i v"
        using assms(1,3) by (auto simp: sessions_ok_def)
      then have opened: "open_wrapper E order (session_config c) (refreshEndpoint (conn_endpoint x) v) = Some w"
        using assms(3,5) clean True by (simp add: build_wrapper_def)
      show ?thesis
      proof (cases "wrapper_class v")
        case Transient
        then show ?thesis using v(2) opened by (simp add: open_wrapper_def refreshEndpoint_def)
      next
        case Persistent
        then show ?thesis using session_of_reopened [OF v(2) _ assms(2), where timers = "w_timeouts v"] opened by simp
      qed
    next
      case False
      then have opened: "open_wrapper E order (session_config c) (new_persistent ?i (conn_endpoint x) store) = Some w"
        using assms(5) clean by (auto simp: build_wrapper_def)
      show ?thesis
      proof (cases store)
        case None
        then show ?thesis using opened fresh by (simp add: new_persistent_def)
      next
        case (Some v)
        then have v: "session_of E c ?i v" "wrapper_class v = Persistent" using assms(1,4) by (auto simp: sessions_ok_def)
        show ?thesis
          using session_of_reopened [OF v assms(2), where timers = "[]"] opened Some by (simp add: new_persistent_def)
      qed
    qed
  qed
qed

lemma openSession_sessions:
  assumes "sessions_ok E c b" "enumerates order"
  shows "sessions_ok E c (snd (openSession E order c x b))"
proof -
  define p where "p = isPersistentSession (conn_client x) b"
  define old where "old = map_option snd (b_wrappers b (conn_client x))"
  define b1 where "b1 = close_earlier x p old (b\<lparr>b_wrappers := (b_wrappers b)(conn_client x := None),
      b_sessions := (b_sessions b)(conn_client x \<mapsto> conn_clean x)\<rparr>)"
  define v where "v = build_wrapper x p old (b_stores b1 (conn_client x))"
  have b1: "b_wrappers b1 = (b_wrappers b)(conn_client x := None)" "\<And>j u. b_stores b1 j = Some u \<Longrightarrow> b_stores b j = Some u"
    using close_earlier_stores by (fastforce simp: b1_def)+
  then have "b_stores b1 (conn_client x) = None \<or> b_stores b1 (conn_client x) = b_stores b (conn_client x)"
    by (metis option.exhaust)
  then have w: "session_of E c (conn_client x) w" if "open_wrapper E order (session_config c) v = Some w" for w
    using build_wrapper_opened [OF assms old_def] that by (simp add: v_def)
  have "b_wrappers (snd (openSession E order c x b)) =
      (b_wrappers b)(conn_client x := map_option (\<lambda>w. (conn_id x, w)) (open_wrapper E order (session_config c) v))"
    "b_stores (snd (openSession E order c x b)) j = Some u \<Longrightarrow> b_stores b j = Some u" for j u
    using b1 by (auto simp: openSession_def Let_def p_def [symmetric] old_def [symmetric] b1_def [symmetric] v_def [symmetric]
        dest!: close_earlier_stores split: option.splits if_splits)
  then show ?thesis using assms(1) w by (fastforce simp: sessions_ok_def)
qed

text \<open>A session always opens: the identifiers that are enumerated are those of its window.\<close>

lemma open_wrapper_opens:
  assumes "wrapper_ok c w" "enumerates order"
  shows "open_wrapper E order c w \<noteq> None"
proof (cases "wrapper_class w")
  case Persistent
  have "distinct (map fst (w_inflights w))" using assms(1) by (simp add: wrapper_ok_def ids_ok_def)
  then have "distinct (order (map fst (w_inflights w)))" "set (order (map fst (w_inflights w))) \<subseteq> flight w"
    using assms(2) by (auto simp: enumerates_def flight_def)
  then show ?thesis using reopening_returns [OF assms(1)] Persistent by (auto simp: open_wrapper_def open_persistent_def)
qed (simp add: open_wrapper_def)

lemma wrapper_ok_connection [simp]:
  "wrapper_ok c (new_wrapper cls i e)" "wrapper_ok c (refreshEndpoint e w) = wrapper_ok c w"
  "wrapper_ok c (w\<lparr>w_timeouts := ts\<rparr>) = wrapper_ok c w"
  by (simp_all add: wrapper_ok_def new_wrapper_def ids_ok_def refreshEndpoint_def split: wrapper_class.split)

lemma openSession_opens:
  assumes "sessions_ok E c b" "enumerates order"
  shows "fst (openSession E order c x b)"
proof -
  have ok: "b_wrappers b i = Some (n, w) \<Longrightarrow> wrapper_ok (session_config c) w"
    "b_stores b i = Some w \<Longrightarrow> wrapper_ok (session_config c) w" for i n w
    using assms(1) run_ok by (fastforce simp: sessions_ok_def session_of_def)+
  define p where "p = isPersistentSession (conn_client x) b"
  define old where "old = map_option snd (b_wrappers b (conn_client x))"
  define b1 where "b1 = close_earlier x p old (b\<lparr>b_wrappers := (b_wrappers b)(conn_client x := None),
      b_sessions := (b_sessions b)(conn_client x \<mapsto> conn_clean x)\<rparr>)"
  define v where "v = build_wrapper x p old (b_stores b1 (conn_client x))"
  have "b_stores b1 (conn_client x) = Some w \<Longrightarrow> b_stores b (conn_client x) = Some w" for w
    using close_earlier_stores by (fastforce simp: b1_def)
  then have "wrapper_ok (session_config c) v"
    using ok by (auto simp: v_def old_def build_wrapper_def new_persistent_def split: option.split)
  then have "open_wrapper E order (session_config c) v \<noteq> None" by (rule open_wrapper_opens [OF _ assms(2)])
  then show ?thesis
    by (auto simp: openSession_def Let_def p_def [symmetric] old_def [symmetric] b1_def [symmetric] v_def [symmetric])
qed

lemma subscribe_all_sessions:
  "sessions_ok E c b \<Longrightarrow> sessions_ok E c (snd (subscribe_all E c x ts b))"
proof (induction ts arbitrary: b)
  case (Cons t ts)
  obtain topic q where t: "t = (topic, q)" by (cases t)
  have "sessions_ok E c (handlePublishRetainMessage E c (conn_client x) topic q (subscribeTopic (conn_client x) topic q b))"
    using Cons.prems
    by (auto simp: handlePublishRetainMessage_def sessions_ok_cong [of "subscribeTopic _ _ _ b" b]
        intro!: on_wrapper_sessions session_of_operations)
  then show ?case using Cons t by (simp add: Let_def case_prod_beta)
qed simp

lemma unsubscribe_fields [simp]:
  "b_wrappers (fold (unsubscribeTopic i) ts b) = b_wrappers b" "b_stores (fold (unsubscribeTopic i) ts b) = b_stores b"
  "b_connections (fold (unsubscribeTopic i) ts b) = b_connections b" "b_connCount (fold (unsubscribeTopic i) ts b) = b_connCount b"
proof -
  have "b_wrappers (fold (unsubscribeTopic i) ts b) = b_wrappers b \<and> b_stores (fold (unsubscribeTopic i) ts b) = b_stores b \<and>
    b_connections (fold (unsubscribeTopic i) ts b) = b_connections b \<and> b_connCount (fold (unsubscribeTopic i) ts b) = b_connCount b"
    by (induction ts arbitrary: b) simp_all
  then show "b_wrappers (fold (unsubscribeTopic i) ts b) = b_wrappers b" "b_stores (fold (unsubscribeTopic i) ts b) = b_stores b"
    "b_connections (fold (unsubscribeTopic i) ts b) = b_connections b" "b_connCount (fold (unsubscribeTopic i) ts b) = b_connCount b"
    by simp_all
qed

lemma will_publish_sessions: "sessions_ok E c b \<Longrightarrow> sessions_ok E c (handleWillPublish E c x b)"
proof -
  assume b: "sessions_ok E c b"
  have "sessions_ok E c (deleteWill i f v) = sessions_ok E c v" for i f v by (rule sessions_ok_cong) simp_all
  then show ?thesis using b by (simp add: handleWillPublish_def local_publish_sessions split: option.split)
qed

lemma closeSession_sessions: "sessions_ok E c b \<Longrightarrow> sessions_ok E c (closeSession E x b)"
  by (auto simp: closeSession_def sessions_ok_def Let_def split: option.splits wrapper_class.splits if_splits)

lemma accept_sessions:
  assumes "sessions_ok E c b" "enumerates order"
  shows "sessions_ok E c (snd (handleAccept E order c x b))"
proof -
  have "sessions_ok E c (handleWillMessage x (saveConnection x v)) = sessions_ok E c v" for v
    by (rule sessions_ok_cong) simp_all
  then show ?thesis using openSession_sessions [OF assms] by (simp add: handleAccept_def Let_def case_prod_beta)
qed

lemma release_sessions: "sessions_ok E c b \<Longrightarrow> sessions_ok E c (snd (handlePublishRelease E c x i b))"
proof -
  assume b: "sessions_ok E c b"
  then have "sessions_ok E c (b\<lparr>b_wrappers := (b_wrappers b)(conn_client x \<mapsto> (n, snd (releaseQos2Message i w)))\<rparr>)"
    if "b_wrappers b (conn_client x) = Some (n, w)" for n w
    using that session_of_operations(8) by (fastforce simp: sessions_ok_def)
  then show ?thesis using b
    by (auto simp: handlePublishRelease_def Let_def case_prod_beta local_publish_sessions split: option.split)
qed

lemma handlePublish_sessions: "sessions_ok E c b \<Longrightarrow> sessions_ok E c (snd (handlePublish E c x p b))"
proof -
  assume b: "sessions_ok E c b"
  then have "sessions_ok E c (handleRetainMessage c p b)" by (subst sessions_ok_cong) simp_all
  then show ?thesis using b
    by (auto simp: handlePublish_def Let_def local_publish_sessions intro!: on_wrapper_sessions session_of_operations)
qed

lemma endpoint_closed_sessions: "sessions_ok E c b \<Longrightarrow> sessions_ok E c (endpoint_closed E x b)"
  by (auto simp: endpoint_closed_def intro!: on_wrapper_sessions session_of_intros(3) split: option.split prod.split)

lemma broker_step_sessions:
  assumes "sessions_ok E c b" "enumerates order"
  shows "sessions_ok E c (broker_step E order auth c a b)"
proof (cases a)
  case (Connect x)
  then show ?thesis using assms accept_sessions [OF assms]
    by (auto simp: handleEndpoint_def Let_def case_prod_beta)
next
  case (Unsubscribe x topics)
  have "sessions_ok E c (fold (unsubscribeTopic (conn_client x)) topics b) = sessions_ok E c b"
    by (rule sessions_ok_cong) simp_all
  then show ?thesis using assms Unsubscribe by (simp add: handleUnsubscribe_def)
next
  case (Close x)
  have "sessions_ok E c (deleteConnection x v) = sessions_ok E c v" for v by (rule sessions_ok_cong) simp_all
  then show ?thesis using assms(1) Close
    by (simp add: handleClose_def closeSession_sessions will_publish_sessions endpoint_closed_sessions)
qed (use assms(1) in \<open>auto simp: handleSubscribe_def subscribe_all_sessions handlePublish_sessions release_sessions
      handlePublishAcknowledge_def handlePublishReceived_def handlePublishCompletion_def handleDisconnect_def
      intro!: on_wrapper_sessions session_of_operations session_of_intros(3)\<close>)

lemma run_broker_sessions:
  assumes "enumerates order"
  shows "sessions_ok E c (run_broker E order auth c acls es)"
proof -
  have "sessions_ok E c b \<Longrightarrow> sessions_ok E c (fold (broker_step E order auth c) es b)" for b
    by (induction es arbitrary: b) (simp_all add: broker_step_sessions assms)
  moreover have "sessions_ok E c (initial_broker acls)" by (simp add: sessions_ok_def initial_broker_def)
  ultimately show ?thesis by (simp add: run_broker_def)
qed

subsection \<open>The count of the connections\<close>

definition connections_ok :: "broker_config \<Rightarrow> 'e broker \<Rightarrow> bool" where
  "connections_ok c b \<longleftrightarrow>
     distinct (b_connections b) \<and> b_connCount b = int (length (b_connections b)) \<and>
     b_connCount b \<le> max 0 (mqttMaxConns c) \<and> set (b_connections b) = dom (b_wrappers b)"

text \<open>The connection that holds each client, from the history: the last one that was accepted for the
  client, until it closes.\<close>

fun hold ::
  "'e endpoint_ops \<Rightarrow> (int list \<Rightarrow> int list) \<Rightarrow> (js_string \<Rightarrow> js_string \<Rightarrow> bool) \<Rightarrow> broker_config \<Rightarrow>
   'e broker_event \<Rightarrow> 'e broker \<Rightarrow> (js_string \<Rightarrow> nat option) \<Rightarrow> (js_string \<Rightarrow> nat option)" where
  "hold E order auth c (Connect x) b h =
     (case fst (handleEndpoint E order auth c x b) of
        Accepted _ \<Rightarrow> h(conn_client x \<mapsto> conn_id x)
      | _ \<Rightarrow> h)"
| "hold E order auth c (Close x) b h =
     (if h (conn_client x) = Some (conn_id x) then h(conn_client x := None) else h)"
| "hold E order auth c _ b h = h"

fun holders ::
  "'e endpoint_ops \<Rightarrow> (int list \<Rightarrow> int list) \<Rightarrow> (js_string \<Rightarrow> js_string \<Rightarrow> bool) \<Rightarrow> broker_config \<Rightarrow>
   'e broker_event list \<Rightarrow> 'e broker \<Rightarrow> (js_string \<Rightarrow> nat option) \<Rightarrow> (js_string \<Rightarrow> nat option)" where
  "holders E order auth c [] b h = h"
| "holders E order auth c (a # es) b h =
     holders E order auth c es (broker_step E order auth c a b) (hold E order auth c a b h)"

definition held :: "(js_string \<Rightarrow> nat option) \<Rightarrow> 'e broker \<Rightarrow> bool" where
  "held h b \<longleftrightarrow> (\<forall>i. map_option fst (b_wrappers b i) = h i)"

lemma held_cong: "(\<And>i. map_option fst (b_wrappers b' i) = map_option fst (b_wrappers b i)) \<Longrightarrow> held h b' = held h b"
  by (simp add: held_def)

lemma map_holder [simp]: "map_option fst (map_option (\<lambda>(n, w). (n, f w)) v) = map_option fst v"
  by (cases v) auto

lemma on_wrapper_holder [simp]: "map_option fst (b_wrappers (on_wrapper i f b) j) = map_option fst (b_wrappers b j)"
  by (auto simp: on_wrapper_at split: option.split)

lemma on_wrapper_dom [simp]: "b_wrappers (on_wrapper i f b) j = None \<longleftrightarrow> b_wrappers b j = None"
  by (simp add: on_wrapper_at)

lemma connections_ok_cong:
  assumes "b_connections b' = b_connections b" "b_connCount b' = b_connCount b"
    and "\<And>i. b_wrappers b' i = None \<longleftrightarrow> b_wrappers b i = None"
  shows "connections_ok c b' = connections_ok c b"
  using assms by (simp add: connections_ok_def dom_def)

lemma subscribe_all_connections:
  "connections_ok c b \<Longrightarrow> connections_ok c (snd (subscribe_all E d x ts b))"
proof (induction ts arbitrary: b)
  case (Cons t ts)
  obtain topic q where t: "t = (topic, q)" by (cases t)
  have "connections_ok c (handlePublishRetainMessage E d (conn_client x) topic q (subscribeTopic (conn_client x) topic q b)) =
      connections_ok c b"
    by (rule connections_ok_cong) (simp_all add: handlePublishRetainMessage_def)
  then show ?case using Cons t by (simp add: Let_def case_prod_beta)
qed simp

lemma accept_connections:
  assumes "connections_ok c b" "\<not> limited c b" "fst (openSession E order d x b)"
  shows "connections_ok c (snd (handleAccept E order d x b))"
proof -
  let ?o = "openSession E order d x b"
  have "dom (b_wrappers (snd ?o)) = insert (conn_client x) (dom (b_wrappers b))"
    using assms(3) openSession_wrappers(1) [of _ x E order d b] openSession_wrappers(2) [of E order d x b]
    by (auto simp: dom_def simp del: not_None_eq) (metis)+
  then show ?thesis
    using assms by (auto simp: handleAccept_def Let_def case_prod_beta connections_ok_def limited_def saveConnection_def)
qed

lemma accept_held:
  assumes "held h b" "fst (openSession E order c x b)"
  shows "held (h(conn_client x \<mapsto> conn_id x)) (snd (handleAccept E order c x b))"
proof -
  obtain n w where "b_wrappers (snd (openSession E order c x b)) (conn_client x) = Some (n, w)" "n = conn_id x"
    using assms(2) openSession_wrappers(2,3) [of E order c x b] by fastforce
  then show ?thesis
    using assms openSession_wrappers(1) [of _ x E order c b]
    by (auto simp: held_def handleAccept_def Let_def case_prod_beta)
qed

lemma disconnected_publish:
  assumes "\<not> ep_connected E (w_endpoint w)"
  shows "w_endpoint (publishMessage E c m q w) = w_endpoint w"
  using assms
  by (auto simp: publishMessage_def handle_message_def inflight_def publish_def enqueue_def nextMessageId_def
      publishCachedMessage_def dequeue_stop Let_def split: option.split)

lemma disconnected_publishes:
  "\<not> ep_connected E (w_endpoint w) \<Longrightarrow> w_endpoint (fold (publishMessage E c m) qs w) = w_endpoint w"
  by (induction qs arbitrary: w) (simp_all add: disconnected_publish)

lemma will_publish_wrappers:
  "b_wrappers (handleWillPublish E c x b) i =
     (case b_wills b (conn_client x) of
        None \<Rightarrow> b_wrappers b i
      | Some wl \<Rightarrow> map_option (\<lambda>(n, w). (n, fold (publishMessage E (session_config c) (message_of_will wl))
          (routes_to i (getRoutes (sessionUpgradeQos c) (b_router b) (wl_topic wl) (wl_qos wl))) w)) (b_wrappers b i))"
  by (simp add: handleWillPublish_def local_publish_wrappers split: option.split)

lemma will_publish_fields [simp]:
  "b_connections (handleWillPublish E c x b) = b_connections b" "b_connCount (handleWillPublish E c x b) = b_connCount b"
  "b_sessions (handleWillPublish E c x b) = b_sessions b" "b_router (handleWillPublish E c x b) = b_router b"
  by (simp_all add: handleWillPublish_def split: option.split)

text \<open>The close of the connection that holds its client takes away the wrapper and the entry of the
  connection; the close of any other connection takes away neither.\<close>

lemma handleClose_holder:
  assumes "\<And>w. b_wrappers b (conn_client x) = Some (conn_id x, w) \<Longrightarrow> \<not> ep_connected E (w_endpoint w)"
    and "holds = (map_option fst (b_wrappers b (conn_client x)) = Some (conn_id x))" "b' = handleClose E d x b"
  shows "map_option fst (b_wrappers b' i) = (if i = conn_client x \<and> holds then None else map_option fst (b_wrappers b i)) \<and>
    b_connections b' = (if holds then removeAll (conn_client x) (b_connections b) else b_connections b) \<and>
    b_connCount b' = (if holds then b_connCount b - 1 else b_connCount b)"
proof -
  let ?b = "handleWillPublish E d x b"
  have ids: "map_option fst (b_wrappers ?b j) = map_option fst (b_wrappers b j)" for j
    by (auto simp: will_publish_wrappers split: option.split)
  show ?thesis
  proof (cases holds)
    case True
    then obtain w where w: "b_wrappers b (conn_client x) = Some (conn_id x, w)" using assms(2) by auto
    then obtain u where "b_wrappers ?b (conn_client x) = Some (conn_id x, u)" "w_endpoint u = w_endpoint w"
      using assms(1) by (cases "b_wills b (conn_client x)") (auto simp: will_publish_wrappers disconnected_publishes)
    then show ?thesis using True assms(1) [OF w] ids
      by (auto simp: assms(3) handleClose_def closeSession_def deleteConnection_def Let_def)
  next
    case False
    then have "b_wrappers ?b (conn_client x) = None \<or>
        (\<exists>n w. b_wrappers ?b (conn_client x) = Some (n, w) \<and> n \<noteq> conn_id x)"
      using ids [of "conn_client x"] assms(2)
      by (cases "b_wrappers b (conn_client x)"; cases "b_wrappers ?b (conn_client x)") auto
    then have "b' = ?b"
      by (auto simp: assms(3) handleClose_def deleteConnection_def closeSession_def)
    then show ?thesis using False ids by auto
  qed
qed

lemma dom_holder: "dom (b_wrappers b) = {i. map_option fst (b_wrappers b i) \<noteq> None}"
  by auto

lemma handleClose_connections:
  assumes "connections_ok c b"
    and "\<And>w. b_wrappers b (conn_client x) = Some (conn_id x, w) \<Longrightarrow> \<not> ep_connected E (w_endpoint w)"
  shows "connections_ok c (handleClose E d x b)"
proof -
  note close = handleClose_holder [of b x E, OF assms(2) refl refl, of d]
  show ?thesis
  proof (cases "map_option fst (b_wrappers b (conn_client x)) = Some (conn_id x)")
    case True
    then have mem: "conn_client x \<in> set (b_connections b)" using assms(1) by (auto simp: connections_ok_def)
    have "length (b_connections b) = Suc (length (removeAll (conn_client x) (b_connections b)))"
      using assms(1) mem by (simp add: connections_ok_def flip: distinct_remove1_removeAll)
        (metis One_nat_def Suc_pred length_pos_if_in_set length_remove1)
    moreover have "dom (b_wrappers (handleClose E d x b)) = dom (b_wrappers b) - {conn_client x}"
      using True close unfolding dom_holder by auto
    ultimately show ?thesis using assms(1) True close by (auto simp: connections_ok_def distinct_removeAll)
  next
    case False
    then have "dom (b_wrappers (handleClose E d x b)) = dom (b_wrappers b)"
      using close unfolding dom_holder by auto
    then show ?thesis using assms(1) False close by (simp add: connections_ok_def)
  qed
qed

lemma endpoint_closed_open:
  assumes "closes E" "b_wrappers (endpoint_closed E x b) (conn_client x) = Some (conn_id x, w)"
  shows "\<not> ep_connected E (w_endpoint w)"
  using assms by (auto simp: endpoint_closed_def on_wrapper_at closes_def split: option.splits if_splits)

lemma broker_step_connections:
  assumes "connections_ok c b" "closes E" "sessions_ok E c b" "enumerates order"
  shows "connections_ok c (broker_step E order auth c a b)"
proof (cases a)
  case (Connect x)
  then show ?thesis using assms(1) accept_connections [OF assms(1) _ openSession_opens [OF assms(3,4)], of x]
    by (auto simp: handleEndpoint_def Let_def case_prod_beta)
next
  case (Publish x p)
  have "connections_ok c (snd (handlePublish E c x p b)) = connections_ok c b"
    by (rule connections_ok_cong) (simp_all add: handlePublish_def Let_def)
  then show ?thesis using assms(1) Publish by simp
next
  case (Pub_release x i)
  have "connections_ok c (snd (handlePublishRelease E c x i b)) = connections_ok c b"
    by (rule connections_ok_cong)
      (auto simp: handlePublishRelease_def Let_def case_prod_beta split: option.split)
  then show ?thesis using assms(1) Pub_release by simp
next
  case (Close x)
  have "connections_ok c (endpoint_closed E x b) = connections_ok c b"
    by (rule connections_ok_cong) (auto simp: endpoint_closed_def split: option.split)
  then show ?thesis
    using assms(1) Close handleClose_connections [OF _ endpoint_closed_open [OF assms(2)]] by simp
next
  case (Unsubscribe x topics)
  have "connections_ok c (handleUnsubscribe x topics b) = connections_ok c b"
    by (rule connections_ok_cong) (simp_all add: handleUnsubscribe_def)
  then show ?thesis using assms(1) Unsubscribe by simp
qed (use assms(1) in \<open>simp_all add: handleSubscribe_def subscribe_all_connections handlePublishAcknowledge_def
      handlePublishReceived_def handlePublishCompletion_def handleDisconnect_def connections_ok_cong [of "on_wrapper _ _ b" b]\<close>)

lemma subscribe_all_held: "held h b \<Longrightarrow> held h (snd (subscribe_all E d x ts b))"
proof (induction ts arbitrary: b)
  case (Cons t ts)
  obtain topic q where t: "t = (topic, q)" by (cases t)
  have "held h (handlePublishRetainMessage E d (conn_client x) topic q (subscribeTopic (conn_client x) topic q b)) = held h b"
    by (rule held_cong) (simp add: handlePublishRetainMessage_def)
  then show ?case using Cons t by (simp add: Let_def case_prod_beta)
qed simp

lemma local_publish_holder [simp]:
  "map_option fst (b_wrappers (handleLocalPublishMessage E c rs m b) i) = map_option fst (b_wrappers b i)"
  by (auto simp: local_publish_wrappers split: option.split)

lemma broker_step_held:
  assumes "held h b" "closes E" "sessions_ok E c b" "enumerates order"
  shows "held (hold E order auth c a b h) (broker_step E order auth c a b)"
proof (cases a)
  case (Connect x)
  then show ?thesis using assms(1) accept_held [OF assms(1) openSession_opens [OF assms(3,4)], of x]
    by (auto simp: handleEndpoint_def Let_def case_prod_beta)
next
  case (Publish x p)
  have "held h (snd (handlePublish E c x p b)) = held h b"
    by (rule held_cong) (simp add: handlePublish_def Let_def)
  then show ?thesis using assms(1) Publish by simp
next
  case (Pub_release x i)
  have "held h (snd (handlePublishRelease E c x i b)) = held h b"
    by (rule held_cong) (auto simp: handlePublishRelease_def Let_def case_prod_beta split: option.split)
  then show ?thesis using assms(1) Pub_release by simp
next
  case (Close x)
  have "map_option fst (b_wrappers (endpoint_closed E x b) i) = h i" for i
    using assms(1) by (auto simp: held_def endpoint_closed_def split: option.split)
  then show ?thesis
    using handleClose_holder [where b = "endpoint_closed E x b" and d = c, OF endpoint_closed_open [OF assms(2)] refl refl] Close
    by (auto simp: held_def)
next
  case (Unsubscribe x topics)
  have "held h (handleUnsubscribe x topics b) = held h b"
    by (rule held_cong) (simp add: handleUnsubscribe_def)
  then show ?thesis using assms(1) Unsubscribe by simp
qed (use assms(1) in \<open>simp_all add: handleSubscribe_def subscribe_all_held handlePublishAcknowledge_def
      handlePublishReceived_def handlePublishCompletion_def handleDisconnect_def held_cong [of "on_wrapper _ _ b" b]\<close>)

lemma run_broker_connections:
  assumes "closes E" "enumerates order"
  shows "connections_ok c (run_broker E order auth c acls es) \<and>
    held (holders E order auth c es (initial_broker acls) Map.empty) (run_broker E order auth c acls es)"
proof -
  have "connections_ok c b \<Longrightarrow> sessions_ok E c b \<Longrightarrow> held h b \<Longrightarrow>
    connections_ok c (fold (broker_step E order auth c) es b) \<and>
    held (holders E order auth c es b h) (fold (broker_step E order auth c) es b)" for b h
  proof (induction es arbitrary: b h)
    case (Cons a es)
    note ok = Cons.prems(1,2) assms
    show ?case
      using Cons.IH [OF broker_step_connections [OF ok(1,3,2,4), of auth a] broker_step_sessions [OF ok(2,4), of auth a]
          broker_step_held [OF Cons.prems(3) ok(3,2,4), of auth a]] by simp
  qed simp
  moreover have "connections_ok c (initial_broker acls)" "sessions_ok E c (initial_broker acls)"
    "held Map.empty (initial_broker acls)"
    by (simp_all add: connections_ok_def initial_broker_def sessions_ok_def held_def)
  ultimately show ?thesis by (simp add: run_broker_def)
qed

subsection \<open>The router of a broker\<close>

definition routed :: "'e broker \<Rightarrow> bool" where
  "routed b \<longleftrightarrow> (\<exists>ops. list_all accepted ops \<and> b_router b = run_router ops)"

lemma routed_step:
  assumes "routed b" "accepted a" "b_router b' = router_step a (b_router b)"
  shows "routed b'"
proof -
  obtain ops where "list_all accepted ops" "b_router b = run_router ops" using assms(1) by (auto simp: routed_def)
  then have "list_all accepted (ops @ [a])" "b_router b' = run_router (ops @ [a])"
    using assms(2,3) by (simp_all add: run_router_def)
  then show ?thesis unfolding routed_def by blast
qed

lemma routed_cong: "b_router b' = b_router b \<Longrightarrow> routed b' = routed b"
  by (simp add: routed_def)

lemma routed_destroy:
  "routed b \<Longrightarrow> routed (destroyTransientSession i b)" "routed b \<Longrightarrow> routed (destroyPersistentSession i b)"
  by (rule routed_step [of b "Router_delete_client i"];
      simp add: destroyTransientSession_def destroyPersistentSession_def)+

lemma routed_close_earlier: "routed b \<Longrightarrow> routed (close_earlier x p old b)"
  by (auto simp: close_earlier_def close_wrapper_def Let_def routed_destroy split: option.split wrapper_class.split)

lemma routed_openSession:
  assumes "routed b"
  shows "routed (snd (openSession E order c x b))"
proof -
  let ?i = "conn_client x"
  define v where "v = close_earlier x (isPersistentSession ?i b) (map_option snd (b_wrappers b ?i))
    (b\<lparr>b_wrappers := (b_wrappers b)(?i := None), b_sessions := (b_sessions b)(?i \<mapsto> conn_clean x)\<rparr>)"
  have v: "routed v" unfolding v_def using assms by (intro routed_close_earlier) (simp add: routed_def)
  have "b_router (snd (openSession E order c x b)) = (if conn_clean x then b_router v else router_update ?i 0 (b_router v))"
    by (simp add: openSession_def Let_def v_def split: option.split)
  then show ?thesis
    using routed_cong [of _ v] v routed_step [OF v, of "Router_update ?i 0"] by (cases "conn_clean x") auto
qed

lemma routed_subscribeTopic:
  assumes "routed b" "checkSubscribeTopic topic"
  shows "routed (subscribeTopic i topic q b)"
proof -
  obtain ops where ops: "list_all accepted ops" "b_router b = run_router ops" using assms(1) by (auto simp: routed_def)
  have entries: "list_all entry_key_ok (routerCache (b_router b))"
    using run_router_ok [OF ops(1)] by (simp add: ops(2) router_ok_def)
  have topic: "r_topic r = topic" if "router_get i topic (b_router b) = Some r" for r
  proof -
    have "map_of (routerCache (b_router b)) (i, topic) = Some r" using that by (simp add: router_get_def split: if_splits)
    from entry_key_ok_of [OF entries this] show ?thesis by (simp add: entry_key_ok_def)
  qed
  obtain r where r: "b_router (subscribeTopic i topic q b) = router_step (Router_save r) (b_router b)" "r_topic r = topic"
    using topic by (cases "router_get i topic (b_router b)") (fastforce simp: subscribeTopic_def Let_def)+
  show ?thesis by (rule routed_step [OF assms(1) _ r(1)]) (simp add: r(2) assms(2))
qed

lemma routed_subscribe_all: "routed b \<Longrightarrow> routed (snd (subscribe_all E c x ts b))"
proof (induction ts arbitrary: b)
  case (Cons t ts)
  obtain topic q where t: "t = (topic, q)" by (cases t)
  have "routed (handlePublishRetainMessage E c (conn_client x) topic q v) = routed v" for v
    by (rule routed_cong) (simp add: handlePublishRetainMessage_def)
  then have "routed (handlePublishRetainMessage E c (conn_client x) topic q (subscribeTopic (conn_client x) topic q b))"
    if "checkSubscribeTopic topic" using that Cons.prems by (simp add: routed_subscribeTopic)
  then show ?case using Cons t by (auto simp: Let_def case_prod_beta)
qed simp

lemma routed_unsubscribe: "routed b \<Longrightarrow> routed (fold (unsubscribeTopic i) ts b)"
proof (induction ts arbitrary: b)
  case (Cons t ts)
  have "routed (unsubscribeTopic i t b)"
    using Cons.prems by (rule routed_step [of b "Router_delete i t"]) (simp_all add: unsubscribeTopic_def)
  then show ?case using Cons.IH by simp
qed simp

lemma routed_broker_step: "routed b \<Longrightarrow> routed (broker_step E order auth c a b)"
proof (cases a)
  case (Connect x)
  assume b: "routed b"
  have "routed (handleWillMessage x (saveConnection x v)) = routed v" for v by (rule routed_cong) simp
  then show ?thesis using Connect b routed_openSession [OF b]
    by (simp add: handleEndpoint_def handleAccept_def Let_def case_prod_beta)
next
  case (Close x)
  assume "routed b"
  then have "routed (handleWillPublish E c x (endpoint_closed E x b))"
    by (subst routed_cong) (auto simp: endpoint_closed_def split: option.split)
  then have "routed (deleteConnection x (handleWillPublish E c x (endpoint_closed E x b)))"
    by (subst routed_cong) simp_all
  moreover have "routed v \<Longrightarrow> routed (closeSession E x v)" for v :: "'a broker"
  proof -
    have "b_router (closeSession E x v) = b_router v \<or>
        b_router (closeSession E x v) = b_router (destroyTransientSession (conn_client x) v)"
      by (simp add: closeSession_def destroyTransientSession_def Let_def split: option.split)
    then show "routed v \<Longrightarrow> ?thesis" using routed_destroy(1) routed_cong by metis
  qed
  ultimately show ?thesis using Close by (simp add: handleClose_def)
next
  case (Unsubscribe x topics)
  assume "routed b"
  then show ?thesis using Unsubscribe by (simp add: handleUnsubscribe_def routed_unsubscribe)
next
  case (Subscribe x topics)
  assume "routed b"
  then show ?thesis using Subscribe by (simp add: handleSubscribe_def routed_subscribe_all)
next
  case (Publish x p)
  assume "routed b"
  then show ?thesis using Publish by (subst routed_cong) (simp_all add: handlePublish_def Let_def)
next
  case (Pub_release x i)
  assume "routed b"
  then show ?thesis using Pub_release
    by (subst routed_cong) (auto simp: handlePublishRelease_def Let_def case_prod_beta split: option.split)
qed (simp_all add: handlePublishAcknowledge_def handlePublishReceived_def handlePublishCompletion_def
      handleDisconnect_def routed_cong [of "on_wrapper _ _ b" b])

lemma run_broker_routed: "routed (run_broker E order auth c acls es)"
proof -
  have "routed b \<Longrightarrow> routed (fold (broker_step E order auth c) es b)" for b
    by (induction es arbitrary: b) (simp_all add: routed_broker_step)
  moreover have "routed (initial_broker acls)"
    using run_router_def [of "[]"] by (auto simp: routed_def initial_broker_def intro!: exI [of _ "[]"])
  ultimately show ?thesis by (simp add: run_broker_def)
qed

subsection \<open>A broker for examples\<close>

definition sample_client :: "nat \<Rightarrow> string \<Rightarrow> bool \<Rightarrow> will option \<Rightarrow> (bool \<times> int) connection" where
  "sample_client n i clean wl =
     \<lparr>conn_id = n, conn_endpoint = (True, 0), conn_client = js i, conn_clean = clean, conn_auth = None,
      conn_host = js ''10.0.0.1'', conn_will = wl\<rparr>"

definition sample_broker_config :: broker_config where
  "sample_broker_config =
     \<lparr>session_config = sample_config 0 5, sessionUpgradeQos = False, mqttMaxConns = 10, mqttClientIdMaxLen = 100,
      mqttRetainMaxCapacity = 10, mqttRetainMaxPayload = 100, authAllowAnonymous = True,
      authAclAllowNomatch = False\<rparr>"

definition sample_packet :: "int \<Rightarrow> int \<Rightarrow> packet" where
  "sample_packet i q =
     \<lparr>p_id = i, p_topic = js ''a/b'', p_payload = [7], p_qos = q, p_dup = False, p_retain = False\<rparr>"

definition sample_will :: "bool \<Rightarrow> will" where
  "sample_will r = \<lparr>wl_topic = js ''a/w'', wl_payload = [9], wl_qos = 1, wl_retain = r\<rparr>"

abbreviation sample_run_broker :: "(bool \<times> int) broker_event list \<Rightarrow> (bool \<times> int) broker" where
  "sample_run_broker \<equiv> run_broker counter_endpoint id (\<lambda>u p. False) sample_broker_config default_acls"

text \<open>A transient subscriber, a persistent subscriber that went away, and a publisher with a will.\<close>

definition sample_events :: "bool \<Rightarrow> (bool \<times> int) broker_event list" where
  "sample_events r =
     [Connect (sample_client 1 ''s'' True None), Subscribe (sample_client 1 ''s'' True None) [(js ''a/+'', 1)],
      Connect (sample_client 2 ''t'' False None), Subscribe (sample_client 2 ''t'' False None) [(js ''a/b'', 2)],
      Close (sample_client 2 ''t'' False None), Connect (sample_client 3 ''p'' True (Some (sample_will r)))]"

lemma sample_laws: "enumerates id" "closes counter_endpoint"
  by (simp_all add: enumerates_def closes_def counter_endpoint_def)

subsection \<open>Properties of the broker\<close>

text \<open>C11: Every session of a broker, with a wrapper or stored, is the session of its client and a
  run of a session: whatever the connections, subscriptions, publications and timers of all
  clients, its window, queue and waiting messages stay within their capacities.\<close>

theorem broker_sessions:
  assumes "enumerates order" "b = run_broker E order auth c acls es"
    and "b_wrappers b i = Some (n, w) \<or> b_stores b i = Some w"
  shows "thisClientId w = i \<and> (\<exists>arr. session_run E (session_config c) w arr) \<and>
    (inflightMaxCapacity (session_config c) > 0 \<longrightarrow>
       int (length (w_inflights w)) \<le> inflightMaxCapacity (session_config c)) \<and>
    (queueMaxCapacity (session_config c) > 0 \<longrightarrow> int (length (w_queue w)) \<le> queueMaxCapacity (session_config c)) \<and>
    (awaitMaxCapacity (session_config c) > 0 \<longrightarrow> int (length (w_awaits w)) \<le> awaitMaxCapacity (session_config c))"
proof -
  have "session_of E c i w"
    using run_broker_sessions [OF assms(1), of E c auth acls es] assms(2,3) by (auto simp: sessions_ok_def)
  then obtain arr where arr: "session_run E (session_config c) w arr" "thisClientId w = i" by (auto simp: session_of_def)
  moreover have "wrapper_ok (session_config c) w" by (rule run_ok [OF arr(1)])
  ultimately show ?thesis by (auto simp: wrapper_ok_def)
qed

text \<open>C15: The broker knows who is connected. In every run, the clients that the cache of connections
  lists, and those that have a session wrapper, are exactly those whose last accepted connection
  has not closed (\<open>holders\<close>, read off the events and the answers to the CONNECT packets), and the wrapper belongs to
  that connection; the count of connections is their number and never exceeds the configured maximum,
  although a client may come back on a new connection before its old one is closed.\<close>

theorem connections_bounded:
  assumes "closes E" "enumerates order" "b = run_broker E order auth c acls es" "mqttMaxConns c \<ge> 0"
    and "h = holders E order auth c es (initial_broker acls) Map.empty"
  shows "distinct (b_connections b) \<and> set (b_connections b) = dom h \<and> (\<forall>i. map_option fst (b_wrappers b i) = h i) \<and>
    b_connCount b = int (card (dom h)) \<and> b_connCount b \<le> mqttMaxConns c"
proof -
  have ok: "connections_ok c b" "held h b"
    using run_broker_connections [OF assms(1,2), of c auth acls es] assms(3,5) by simp_all
  then have dom: "dom (b_wrappers b) = dom h" unfolding dom_holder by (auto simp: held_def)
  then have "card (dom h) = length (b_connections b)"
    using ok(1) distinct_card [of "b_connections b"] by (simp add: connections_ok_def)
  then show ?thesis using ok dom assms(4) by (simp add: connections_ok_def held_def)
qed

definition matching_qualities :: "broker_config \<Rightarrow> 'e broker \<Rightarrow> js_string \<Rightarrow> js_string \<Rightarrow> int \<Rightarrow> int list" where
  "matching_qualities c b i topic q =
     map (\<lambda>r. calculate (sessionUpgradeQos c) q (r_routerQos r))
       (filter (\<lambda>r. r_client r = i \<and> mqtt_matches (levels topic) (levels (r_topic r))) (map snd (routerCache (b_router b))))"

text \<open>The filters of a client are neither a single slash nor end in two (there words are not levels).\<close>

definition regular_filters :: "js_string \<Rightarrow> 'e broker \<Rightarrow> bool" where
  "regular_filters i b \<longleftrightarrow>
     (\<forall>r \<in> set (map snd (routerCache (b_router b))). r_client r = i \<longrightarrow> regular (r_topic r))"

lemma routes_of_run:
  assumes "b = run_broker E order auth c acls es" "checkPublishTopic t" "regular t" "regular_filters i b"
  shows "routes_to i (getRoutes (sessionUpgradeQos c) (b_router b) t q) = matching_qualities c b i t q"
proof -
  obtain ops where "list_all accepted ops" "b_router b = run_router ops"
    using run_broker_routed [of E order auth c acls es] assms(1) by (auto simp: routed_def)
  then have "router_ok (b_router b)" using run_router_ok by simp
  define rs where "rs = map snd (routerCache (b_router b))"
  obtain found where
    routes: "getRoutes (sessionUpgradeQos c) (b_router b) t q =
        map (\<lambda>r. (r_client r, calculate (sessionUpgradeQos c) q (r_routerQos r))) (filter found rs)"
    and "\<forall>r \<in> set rs. (found r \<longrightarrow> mqtt_matches (levels t) (levels (r_topic r))) \<and>
       (regular (r_topic r) \<and> mqtt_matches (levels t) (levels (r_topic r)) \<longrightarrow> found r)"
    using getRoutes_found [OF \<open>router_ok (b_router b)\<close> assms(2,3), of "sessionUpgradeQos c" q] unfolding rs_def by blast
  then have "\<forall>r \<in> set rs. r_client r = i \<longrightarrow> found r = mqtt_matches (levels t) (levels (r_topic r))"
    using assms(4) unfolding regular_filters_def rs_def by blast
  then have "filter (\<lambda>r. r_client r = i \<and> found r) rs =
      filter (\<lambda>r. r_client r = i \<and> mqtt_matches (levels t) (levels (r_topic r))) rs"
    by (intro filter_cong) auto
  then show ?thesis unfolding routes matching_qualities_def rs_def [symmetric]
    by (simp add: routes_to_def filter_map comp_def) (simp add: conj_commute)
qed

text \<open>C10: What a publication of QoS 0 or 1 that its sender may make does to the session of any client
  whose filters are regular, in any state the broker can reach and whatever the others subscribe to: for
  each subscription of the client whose filter matches the topic level by level (\<open>mqtt_matches\<close>, without the rule
  of the protocol for topics that begin with a dollar sign) it is handed on once, at the quality of
  that subscription. A session with a wrapper publishes it, the queue of a persistent session
  without one takes it, and a session without a matching subscription stays as it is. The message is sent on
  as it came, with the RETAIN and DUP flags of its sender. The topic is regular too: single slashes
  and ends in two slashes are excluded on both sides (\<open>double_slash_lost\<close> shows why).\<close>

theorem publish_reaches_subscribers:
  assumes "b = run_broker E order auth c acls es" "p_qos p \<noteq> 2"
    and "checkPublishTopic (p_topic p)" "regular (p_topic p)" "permitted c x Pub (p_topic p) 0 b"
    and "regular_filters i b" "qs = matching_qualities c b i (p_topic p) (p_qos p)"
  shows "b_wrappers (snd (handlePublish E c x p b)) i =
      map_option (\<lambda>(n, w). (n, fold (publishMessage E (session_config c) (message_of_packet p)) qs w)) (b_wrappers b i) \<and>
    b_stores (snd (handlePublish E c x p b)) i =
      (if b_wrappers b i = None \<and> isPersistentSession i b
       then map_option (\<lambda>w. w\<lparr>w_queue := fold (\<lambda>q queue.
         snd (cache_enqueue (session_config c) (message_of_packet p) i q queue)) qs (w_queue w)\<rparr>) (b_stores b i)
       else b_stores b i)"
proof -
  have "routes_to i (getRoutes (sessionUpgradeQos c) (b_router b) (p_topic p) (p_qos p)) = qs"
    unfolding assms(7) by (rule routes_of_run [OF assms(1,3,4,6)])
  moreover have "isPersistentSession i (handleRetainMessage c p b) = isPersistentSession i b"
    by (simp add: isPersistentSession_def)
  ultimately show ?thesis using assms(2,3,5)
    by (simp add: handlePublish_def Let_def local_publish_wrappers local_publish_stores)
qed

lemma dequeue_awaits [simp]: "w_awaits (dequeue E c w) = w_awaits w"
proof (induction E c w rule: dequeue.induct)
  case (1 E c w)
  have "w_awaits (snd (dequeue_one E c m v)) = w_awaits v" for m and v :: "'a wrapper"
    by (simp add: dequeue_one_def dequeue_transient_def dequeue_persistent_def Let_def case_prod_beta
        split: wrapper_class.split)
  then show ?case using 1 by (subst dequeue.simps) (auto simp: Let_def)
qed

lemma publishMessage_awaits [simp]: "w_awaits (publishMessage E c m q w) = w_awaits w"
  by (simp add: publishMessage_def publishCachedMessage_def handle_message_def inflight_def enqueue_def Let_def
      case_prod_beta)

lemma publishes_awaits [simp]: "w_awaits (fold (publishMessage E c m) qs w) = w_awaits w"
  by (induction qs arbitrary: w) simp_all

lemma message_of_await_packet: "message_of_await (await_of_packet p i) = message_of_packet p"
  by (simp add: message_of_await_def await_of_packet_def message_of_packet_def)

lemma received_awaits:
  assumes "awaitMaxCapacity c > 0" "int (length (w_awaits w)) < awaitMaxCapacity c \<or> map_of (w_awaits w) (p_id p) \<noteq> None"
  shows "snd (receiveQos2Message c p w) =
    w\<lparr>w_awaits := AList.update (p_id p) (await_of_packet p (thisClientId w)) (w_awaits w)\<rparr>"
proof -
  have "aw_id (await_of_packet p i) = p_id p" for i by (simp add: await_of_packet_def)
  then show ?thesis using assms
    by (auto simp: receiveQos2Message_def Let_def expiring_putExt_def ignite_put_def split: wrapper_class.split)
qed

lemma qos2_publish_waits:
  assumes "b_wrappers b (conn_client x) = Some (n, w)" "p_qos p = 2" "\<not> p_retain p"
    and "checkPublishTopic (p_topic p)" "permitted c x Pub (p_topic p) 0 b"
  shows "snd (handlePublish E c x p b) =
    b\<lparr>b_wrappers := (b_wrappers b)(conn_client x \<mapsto> (n, snd (receiveQos2Message (session_config c) p w)))\<rparr>"
  using assms by (simp add: handlePublish_def handleRetainMessage_def on_wrapper_def Let_def)

text \<open>C14: A QoS 2 message is routed once. The broker keeps it until its PUBREL; when the client
  sends it again with the DUP flag before that, the copy replaces it; the PUBREL routes it to the
  sessions with a matching subscription, and a second PUBREL changes nothing at all.\<close>

theorem qos2_routed_once:
  assumes "b_wrappers b (conn_client x) = Some (n, w)" "p_qos p = 2" "\<not> p_retain p"
    and "checkPublishTopic (p_topic p)" "permitted c x Pub (p_topic p) 0 b"
    and "int (length (w_awaits w)) < awaitMaxCapacity (session_config c)"
    and "b2 = snd (handlePublish E c x (p\<lparr>p_dup := True\<rparr>) (snd (handlePublish E c x p b)))"
    and "b3 = snd (handlePublishRelease E c x (p_id p) b2)"
    and "i \<noteq> conn_client x"
  shows "b_wrappers b2 i = b_wrappers b i \<and>
    b_wrappers b3 i = map_option (\<lambda>(n, w). (n, fold (publishMessage E (session_config c) (message_of_packet (p\<lparr>p_dup := True\<rparr>)))
      (routes_to i (getRoutes (sessionUpgradeQos c) (b_router b) (p_topic p) 2)) w)) (b_wrappers b i) \<and>
    snd (handlePublishRelease E c x (p_id p) b3) = b3"
proof -
  let ?x = "conn_client x" and ?d = "p\<lparr>p_dup := True\<rparr>" and ?c = "session_config c"
  define a where "a = await_of_packet ?d (thisClientId w)"
  define w1 where "w1 = snd (receiveQos2Message ?c p w)"
  define w2 where "w2 = snd (receiveQos2Message ?c ?d w1)"
  have cap: "awaitMaxCapacity ?c > 0" using assms(6) by linarith
  have w1: "w1 = w\<lparr>w_awaits := AList.update (p_id p) (await_of_packet p (thisClientId w)) (w_awaits w)\<rparr>"
    unfolding w1_def using cap assms(6) by (intro received_awaits) simp_all
  then have w2: "w2 = w1\<lparr>w_awaits := AList.update (p_id p) a (w_awaits w1)\<rparr>"
    unfolding w2_def using cap received_awaits [of ?c w1 ?d] by (simp add: a_def update_conv')
  have b1: "snd (handlePublish E c x p b) = b\<lparr>b_wrappers := (b_wrappers b)(?x \<mapsto> (n, w1))\<rparr>"
    unfolding w1_def by (rule qos2_publish_waits [OF assms(1-5)])
  have b2: "b2 = b\<lparr>b_wrappers := (b_wrappers b)(?x \<mapsto> (n, w2))\<rparr>"
    unfolding assms(7) b1 w2_def
    by (subst qos2_publish_waits [of _ x n w1]) (use assms(2-5) in \<open>simp_all add: permitted_def\<close>)
  define w3 where "w3 = w2\<lparr>w_awaits := AList.delete (p_id p) (w_awaits w2)\<rparr>"
  have release: "releaseQos2Message (p_id p) w2 = (Some a, w3)"
    by (simp add: releaseQos2Message_def w2 w3_def update_conv')
  define rs where "rs = getRoutes (sessionUpgradeQos c) (b_router b) (p_topic p) 2"
  have b3: "b3 = handleLocalPublishMessage E c rs (message_of_packet ?d) (b\<lparr>b_wrappers := (b_wrappers b)(?x \<mapsto> (n, w3))\<rparr>)"
    using assms(2) release by (simp add: assms(8) b2 handlePublishRelease_def rs_def a_def message_of_await_packet)
      (simp add: await_of_packet_def)
  define w4 where "w4 = fold (publishMessage E ?c (message_of_packet ?d)) (routes_to ?x rs) w3"
  have b3x: "b_wrappers b3 ?x = Some (n, w4)" by (simp add: b3 local_publish_wrappers w4_def)
  have "p_id p \<notin> fst ` set (w_awaits w4)" by (simp add: w4_def w3_def delete_flight)
  then have "releaseQos2Message (p_id p) w4 = (None, w4)"
    by (cases w4) (simp add: releaseQos2Message_def map_of_eq_None_iff)
  then have "snd (handlePublishRelease E c x (p_id p) b3) = b3"
    using b3x by (simp add: handlePublishRelease_def fun_upd_idem)
  then show ?thesis using assms(9) by (simp add: b2 b3 local_publish_wrappers rs_def)
qed

text \<open>The CONNACK claims a stored session for every client that asks for one: \<open>session present\<close>
  is looked up when the new session has been saved already, so it is set for a client that the
  broker has never seen.\<close>

theorem session_present_always:
  assumes "\<not> conn_clean x" "\<not> limited c b" "authAllowAnonymous c"
    and "conn_client x \<noteq> []" "length (conn_client x) \<le> mqttClientIdMaxLen c"
  shows "fst (handleEndpoint E order auth c x b) = Accepted True"
proof -
  have "isPersistentSession (conn_client x) (snd (handleAccept E order c x b))"
    using assms(1) by (simp add: handleAccept_def isPersistentSession_def Let_def case_prod_beta)
  then show ?thesis using assms
    by (simp add: handleEndpoint_def validateClientId_def Let_def case_prod_beta)
      (simp add: handleAccept_def Let_def case_prod_beta)
qed

text \<open>C33: The will of a client is published although the client said goodbye: the handler of the
  DISCONNECT packet leaves the will in place, and the close of the connection publishes it to the
  matching sessions. A will with the RETAIN flag is not even deleted then.\<close>

theorem disconnect_publishes_will:
  assumes "b_wills b (conn_client x) = Some wl" "i \<noteq> conn_client x"
    and "b' = handleClose E c x (handleDisconnect x b)"
  shows "b_wrappers b' i =
      map_option (\<lambda>(n, w). (n, fold (publishMessage E (session_config c) (message_of_will wl))
        (routes_to i (getRoutes (sessionUpgradeQos c) (b_router b) (wl_topic wl) (wl_qos wl))) w)) (b_wrappers b i) \<and>
    b_wills b' (conn_client x) = (if wl_retain wl then Some wl else None)"
proof -
  let ?b = "handleWillPublish E c x b"
  have close: "b_wrappers (closeSession E x v) i = b_wrappers v i" "b_wills (closeSession E x v) = b_wills v" for v
    using assms(2) by (auto simp: closeSession_def Let_def split: option.split)
  have "b_wills ?b (conn_client x) = (if wl_retain wl then Some wl else None)"
    using assms(1) by (simp add: handleWillPublish_def deleteWill_def)
  then show ?thesis using assms(1) by (simp add: assms(3) handleDisconnect_def handleClose_def close will_publish_wrappers)
qed


subsection \<open>Examples\<close>

definition sample_broker :: "bool \<Rightarrow> (bool \<times> int) broker" where
  "sample_broker r = sample_run_broker (sample_events r)"

definition publisher :: "bool \<Rightarrow> (bool \<times> int) connection" where
  "publisher r = sample_client 3 ''p'' True (Some (sample_will r))"

lemma sample_state:
  "let b = sample_broker r in
     b_wrappers b (js ''s'') \<noteq> None \<and> b_wrappers b (js ''t'') = None \<and> isPersistentSession (js ''t'') b \<and>
     b_connCount b = 2 \<and> b_wills b (js ''p'') = Some (sample_will r) \<and>
     map_option (\<lambda>(n, w). (n, w_awaits w)) (b_wrappers b (js ''p'')) = Some (3, []) \<and>
     regular_filters (js ''s'') b \<and> regular_filters (js ''t'') b \<and>
     permitted sample_broker_config (publisher r) Pub (js ''a/b'') 0 b \<and>
     matching_qualities sample_broker_config b (js ''s'') (js ''a/b'') 1 = [1] \<and>
     matching_qualities sample_broker_config b (js ''t'') (js ''a/b'') 1 = [1]"
  by code_simp

lemma sample_topic: "checkPublishTopic (js ''a/b'')" "regular (js ''a/b'')" "js ''s'' \<noteq> js ''p''"
  by code_simp+

theorem broker_sessions_witness:
  "\<exists>n w arr. b_wrappers (sample_broker True) (js ''s'') = Some (n, w) \<and>
     session_run counter_endpoint (session_config sample_broker_config) w arr"
proof -
  obtain n w where w: "b_wrappers (sample_broker True) (js ''s'') = Some (n, w)"
    using sample_state [of True] by (auto simp: Let_def)
  then show ?thesis
    using broker_sessions [OF sample_laws(1) sample_broker_def [of True]] by blast
qed

theorem connections_bounded_witness:
  "let h = holders counter_endpoint id (\<lambda>u p. False) sample_broker_config (sample_events True) (initial_broker default_acls) Map.empty in
   b_connCount (sample_broker True) = 2 \<and> card (dom h) = 2 \<and> h (js ''s'') \<noteq> None \<and> h (js ''t'') = None"
proof -
  define h where "h = holders counter_endpoint id (\<lambda>u p. False) sample_broker_config (sample_events True) (initial_broker default_acls) Map.empty"
  have c: "b_connCount (sample_broker True) = 2" "b_wrappers (sample_broker True) (js ''s'') \<noteq> None"
    "b_wrappers (sample_broker True) (js ''t'') = None" using sample_state [of True] by (simp_all add: Let_def)
  have "b_connCount (sample_broker True) = int (card (dom h))" "map_option fst (b_wrappers (sample_broker True) i) = h i" for i
    using connections_bounded [OF sample_laws(2,1) sample_broker_def [of True] _ h_def]
    by (simp_all add: sample_broker_config_def)
  note h = this(1) this(2) [of "js ''s''"] this(2) [of "js ''t''"]
  have "card (dom h) = 2" using h(1) c(1) by simp
  moreover have "h (js ''s'') \<noteq> None" using c(2) unfolding h(2) [symmetric] by blast
  moreover have "h (js ''t'') = None" using c(3) unfolding h(3) [symmetric] by simp
  ultimately show ?thesis using c(1) unfolding Let_def h_def [symmetric] by blast
qed

theorem publish_reaches_subscribers_witness:
  "b_wrappers (snd (handlePublish counter_endpoint sample_broker_config (publisher False) (sample_packet 5 1) (sample_broker False))) (js ''s'') =
     map_option (\<lambda>(n, w). (n, publishMessage counter_endpoint (sample_config 0 5) (message_of_packet (sample_packet 5 1)) 1 w))
       (b_wrappers (sample_broker False) (js ''s'')) \<and>
   b_stores (snd (handlePublish counter_endpoint sample_broker_config (publisher False) (sample_packet 5 1) (sample_broker False))) (js ''t'') =
     map_option (\<lambda>w. w\<lparr>w_queue := snd (cache_enqueue (sample_config 0 5) (message_of_packet (sample_packet 5 1)) (js ''t'') 1 (w_queue w))\<rparr>)
       (b_stores (sample_broker False) (js ''t''))"
proof -
  note state = sample_state [of False, unfolded Let_def]
  have p: "p_topic (sample_packet 5 1) = js ''a/b''" "p_qos (sample_packet 5 1) = 1" by (simp_all add: sample_packet_def)
  have "session_config sample_broker_config = sample_config 0 5" by (simp add: sample_broker_config_def)
  then show ?thesis
    using publish_reaches_subscribers [OF sample_broker_def [of False], of "sample_packet 5 1" "publisher False", OF _ _ _ _ _ refl]
      state sample_topic p by simp
qed

theorem qos2_routed_once_witness:
  "let b2 = snd (handlePublish counter_endpoint sample_broker_config (publisher False) ((sample_packet 5 2)\<lparr>p_dup := True\<rparr>)
         (snd (handlePublish counter_endpoint sample_broker_config (publisher False) (sample_packet 5 2) (sample_broker False))));
       b3 = snd (handlePublishRelease counter_endpoint sample_broker_config (publisher False) 5 b2) in
   b_wrappers b2 (js ''s'') = b_wrappers (sample_broker False) (js ''s'') \<and>
   snd (handlePublishRelease counter_endpoint sample_broker_config (publisher False) 5 b3) = b3"
proof -
  note state = sample_state [of False, unfolded Let_def]
  obtain w where w: "b_wrappers (sample_broker False) (js ''p'') = Some (3, w)" "w_awaits w = []" using state by auto
  have p: "conn_client (publisher False) = js ''p''" by (simp add: publisher_def sample_client_def)
  have cap: "awaitMaxCapacity (session_config sample_broker_config) = 10"
    by (simp add: sample_broker_config_def sample_config_def)
  show ?thesis
    using qos2_routed_once [of "sample_broker False" "publisher False" 3 w "sample_packet 5 2" sample_broker_config
        _ counter_endpoint _ "js ''s''", OF _ _ _ _ _ _ refl refl] w p state sample_topic cap
    by (simp add: sample_packet_def Let_def)
qed

theorem session_present_always_witness:
  "fst (handleEndpoint counter_endpoint id (\<lambda>u p. False) sample_broker_config (sample_client 1 ''new'' False None)
     (initial_broker default_acls)) = Accepted True"
  by (rule session_present_always)
    (simp_all add: sample_client_def sample_broker_config_def limited_def initial_broker_def js_def)

theorem disconnect_publishes_will_witness:
  "b_wills (handleClose counter_endpoint sample_broker_config (publisher True) (handleDisconnect (publisher True) (sample_broker True)))
     (js ''p'') = Some (sample_will True)"
proof -
  have "conn_client (publisher True) = js ''p''" by (simp add: publisher_def sample_client_def)
  then show ?thesis
    using disconnect_publishes_will [of "sample_broker True" "publisher True" "sample_will True" "js ''s''", OF _ _ refl]
      sample_state [of True] sample_topic(3) by (simp add: Let_def sample_will_def)
qed


end
