(* ===== verification/End_To_End.thy ===== *)
theory End_To_End
  imports Delivery Broker_Runs
begin

text \<open>
  The client and the broker together: a message that an application hands to the client of the
  console travels to the broker, through the session of a subscriber, to the client of the subscriber
  and to its application. The two programs meet in the packets of the protocol. Between the bytes of a
  connection and the handlers of the broker is the MQTT server of Vert.x, which is not part of the
  repository: its codec is a parameter, and what is relied on is that it speaks the protocol
  (\<open>speaks_mqtt\<close>). \<open>own_codec\<close>, made of the codec of the client, shows that this can hold.
\<close>

subsection \<open>The codec of the server\<close>

datatype client_packet =
    Client_publish packet
  | Client_puback int
  | Client_pubrec int
  | Client_pubrel int
  | Client_pubcomp int

record mqtt_codec =
  cd_packet :: "bytes \<Rightarrow> client_packet option"
  cd_answer :: "answer \<Rightarrow> bytes"
  cd_delivery :: "publication \<Rightarrow> int \<Rightarrow> bytes"

definition packet_of :: "message \<Rightarrow> int \<Rightarrow> packet" where
  "packet_of m n =
     \<lparr>p_id = n, p_topic = the (destinationName m), p_payload = payload_bytes (payload m), p_qos = qos m,
      p_dup = duplicate m, p_retain = retained m\<rparr>"

lemma packet_of_fields [simp]:
  "p_id (packet_of m n) = n" "p_topic (packet_of m n) = the (destinationName m)" "p_qos (packet_of m n) = qos m"
  "p_retain (packet_of m n) = retained m" "p_dup (packet_of m n) = duplicate m"
  "p_payload (packet_of m n) = payload_bytes (payload m)"
  by (simp_all add: packet_of_def)

definition delivery_bytes :: "publication \<Rightarrow> int \<Rightarrow> bytes" where
  "delivery_bytes p n =
     frame (first_of PUBLISH (publish_flags (pub_dup p) (pub_qos p) (pub_retain p)))
       (publish_body (pub_topic p) (pub_qos p) n (pub_payload p))"

text \<open>A message that fits into a packet.\<close>

definition fits :: "message \<Rightarrow> bool" where
  "fits m \<longleftrightarrow> storable m \<and> qos m > 0 \<and> length (utf8 (the (destinationName m))) < 2 ^ 16 \<and>
     length (payload_bytes (payload m)) < 2 ^ 27"

definition speaks_mqtt :: "mqtt_codec \<Rightarrow> bool" where
  "speaks_mqtt V \<longleftrightarrow>
     (\<forall>m n. fits m \<and> 0 \<le> n \<and> n < 2 ^ 16 \<longrightarrow> cd_packet V (publish_bytes m n) = Some (Client_publish (packet_of m n))) \<and>
     (\<forall>n. 0 \<le> n \<and> n < 2 ^ 16 \<longrightarrow>
        cd_packet V (ack_bytes PUBACK n) = Some (Client_puback n) \<and> cd_packet V (ack_bytes PUBREC n) = Some (Client_pubrec n) \<and>
        cd_packet V (ack_bytes PUBREL n) = Some (Client_pubrel n) \<and> cd_packet V (ack_bytes PUBCOMP n) = Some (Client_pubcomp n) \<and>
        cd_answer V (Ack n) = ack_bytes PUBACK n \<and> cd_answer V (Rec n) = ack_bytes PUBREC n \<and>
        cd_answer V (Rel n) = ack_bytes PUBREL n \<and> cd_answer V (Comp n) = ack_bytes PUBCOMP n) \<and>
     (\<forall>p n. cd_delivery V p n = delivery_bytes p n)"

definition own_codec :: mqtt_codec where
  "own_codec =
     \<lparr>cd_packet = (\<lambda>bs. case decodeMessage bs 0 of
          Inr (Some w, _) \<Rightarrow>
            (let n = (case ident w of Num n \<Rightarrow> n | NaN \<Rightarrow> 0) in
             case mtype w of
               PUBLISH \<Rightarrow> map_option (\<lambda>m. Client_publish (packet_of m n)) (payloadMessage w)
             | PUBACK \<Rightarrow> Some (Client_puback n) | PUBREC \<Rightarrow> Some (Client_pubrec n)
             | PUBREL \<Rightarrow> Some (Client_pubrel n) | PUBCOMP \<Rightarrow> Some (Client_pubcomp n) | _ \<Rightarrow> None)
        | _ \<Rightarrow> None),
      cd_answer = (\<lambda>a. case a of Ack n \<Rightarrow> ack_bytes PUBACK n | Rec n \<Rightarrow> ack_bytes PUBREC n
        | Rel n \<Rightarrow> ack_bytes PUBREL n | Comp n \<Rightarrow> ack_bytes PUBCOMP n),
      cd_delivery = delivery_bytes\<rparr>"

lemma own_packet:
  assumes "server_packet bs w"
  shows "decodeMessage bs 0 = Inr (Some w, length bs)"
  using server_packet_decode [OF assms, of "[]" "[]"] by simp

lemma publish_server_packet:
  assumes "fits m" "0 \<le> n" "n < 2 ^ 16"
  shows "server_packet (publish_bytes m n)
    (publish_wire (duplicate m) (qos m) (retained m) (the (destinationName m)) n (payload_bytes (payload m)))"
proof -
  have m: "qos m \<in> {0, 1, 2}" "wf_utf16 (the (destinationName m))" "length (utf8 (the (destinationName m))) < 2 ^ 16"
    "length (payload_bytes (payload m)) < 2 ^ 27"
    using assms(1) by (auto simp: fits_def storable_def wf_message_def split: option.splits)
  then show ?thesis unfolding publish_bytes_def
    by (intro server_packet.publish) (use assms m in \<open>simp_all add: publish_body_def\<close>)
qed

lemma own_codec_speaks: "speaks_mqtt own_codec"
proof -
  have "cd_packet own_codec (publish_bytes m n) = Some (Client_publish (packet_of m n))"
    if "fits m" "0 \<le> n" "n < 2 ^ 16" for m n
    using that own_packet [OF publish_server_packet [OF that]]
    by (simp add: own_codec_def publish_wire_def WireMessage_def ident_def packet_of_def fits_def)
  moreover have "decodeMessage (ack_bytes t n) 0 = Inr (Some (reply t (Num n)), length (ack_bytes t n))"
    if "t \<in> {PUBACK, PUBREC, PUBREL, PUBCOMP}" "0 \<le> n" "n < 2 ^ 16" for t n
    by (rule own_packet [OF ack_server_packet [OF that]])
  ultimately show ?thesis
    by (simp add: speaks_mqtt_def own_codec_def reply_def WireMessage_def ident_def)
qed

subsection \<open>A client talks to the broker\<close>

text \<open>The packets of a connection reach the handlers one after the other; a packet that the server
  does not understand is not handled.\<close>

definition receive_packet ::
  "'e endpoint_ops \<Rightarrow> mqtt_codec \<Rightarrow> broker_config \<Rightarrow> 'e connection \<Rightarrow> bytes \<Rightarrow> 'e broker \<Rightarrow> answer list \<times> 'e broker" where
  "receive_packet E V cf x bs b =
     (case cd_packet V bs of
        None \<Rightarrow> ([], b)
      | Some (Client_publish p) \<Rightarrow> handlePublish E cf x p b
      | Some (Client_puback n) \<Rightarrow> ([], handlePublishAcknowledge E cf x n b)
      | Some (Client_pubrec n) \<Rightarrow> handlePublishReceived cf x n b
      | Some (Client_pubrel n) \<Rightarrow> handlePublishRelease E cf x n b
      | Some (Client_pubcomp n) \<Rightarrow> ([], handlePublishCompletion E cf x n b))"

fun receive_packets ::
  "'e endpoint_ops \<Rightarrow> mqtt_codec \<Rightarrow> broker_config \<Rightarrow> 'e connection \<Rightarrow> bytes list \<Rightarrow> 'e broker \<Rightarrow> answer list \<times> 'e broker" where
  "receive_packets E V cf x [] b = ([], b)"
| "receive_packets E V cf x (bs # rest) b =
     (let (as, b) = receive_packet E V cf x bs b; (as', b) = receive_packets E V cf x rest b in (as @ as', b))"

text \<open>What the client has put on the socket since its state \<open>c\<close>.\<close>

definition sends :: "client \<Rightarrow> client \<Rightarrow> bytes list" where
  "sends c c' = [bs. SocketSend bs \<leftarrow> drop (length (out c)) (out c')]"

text \<open>The two sides take turns until the client has nothing more to send; \<open>k\<close> bounds the rounds.\<close>

fun talk ::
  "nat \<Rightarrow> 'e endpoint_ops \<Rightarrow> mqtt_codec \<Rightarrow> broker_config \<Rightarrow> 'e connection \<Rightarrow> bytes list \<Rightarrow> client \<Rightarrow> 'e broker \<Rightarrow>
   client \<times> 'e broker" where
  "talk 0 E V cf x bss c b = (c, b)"
| "talk (Suc k) E V cf x bss c b =
     (if bss = [] then (c, b)
      else (let (as, b) = receive_packets E V cf x bss b;
                c' = run (map (\<lambda>a. Socket_data (cd_answer V a)) as) c in
            talk k E V cf x (sends c c') c' b))"

lemma sends_simps [simp]:
  "out c' = out c @ es \<Longrightarrow> sends c c' = [bs. SocketSend bs \<leftarrow> es]"
  by (simp add: sends_def)

lemma talk_done [simp]: "talk k E V cf x [] c b = (c, b)"
  by (cases k) simp_all

subsection \<open>The sender\<close>

lemma acknowledged_run:
  assumes "sending lk c" "obj_get (sentMessages c) (Num n) = Some s" "t = PUBACK \<or> t = PUBCOMP" "0 \<le> n" "n < 2 ^ 16"
  shows "sending lk (run [Socket_data (ack_bytes t n)] c)"
    "out (run [Socket_data (ack_bytes t n)] c) = out c @ [MessageDelivered (payloadMessage s)]"
proof -
  have get: "obj_get (sentMessages (heard c)) (Num n) = Some s" using assms(2) by simp
  obtain c' where c': "handleMessage (reply t (Num n)) (heard c) = (Inr (), c')" "sending lk c'"
    "out c' = out (heard c) @ [MessageDelivered (payloadMessage s)]"
    by (rule complete_ready [OF sending_heard [OF assms(1)] get assms(3)])
  have "ready c" using assms(1) by (simp add: sending_def)
  then have "run [Socket_data (ack_bytes t n)] c = c'"
    using receive_ack [OF _ _ assms(4,5) c'(1)] assms(3) by auto
  then show "sending lk (run [Socket_data (ack_bytes t n)] c)"
    "out (run [Socket_data (ack_bytes t n)] c) = out c @ [MessageDelivered (payloadMessage s)]" using c' by simp_all
qed

lemma pubrec_run:
  assumes "sending lk c" "obj_get (sentMessages c) (Num n) = Some s" "mtype s = PUBLISH" "0 \<le> n" "n < 2 ^ 16"
  obtains s' where "sending lk (run [Socket_data (ack_bytes PUBREC n)] c)"
    "obj_get (sentMessages (run [Socket_data (ack_bytes PUBREC n)] c)) (Num n) = Some s'" "payloadMessage s' = payloadMessage s"
    "out (run [Socket_data (ack_bytes PUBREC n)] c) = out c @ [SocketSend (ack_bytes PUBREL n)]"
proof -
  have get: "obj_get (sentMessages (heard c)) (Num n) = Some s" using assms(2) by simp
  obtain c' s' where c': "handleMessage (reply PUBREC (Num n)) (heard c) = (Inr (), c')" "sending lk c'"
    "obj_get (sentMessages c') = (obj_get (sentMessages (heard c)))(Num n \<mapsto> s')" "payloadMessage s' = payloadMessage s"
    "out c' = out (heard c) @ [SocketSend (ack_bytes PUBREL n)]"
    by (rule pubrec_ready [OF sending_heard [OF assms(1)] get assms(3)])
  have "ready c" using assms(1) by (simp add: sending_def)
  then have "run [Socket_data (ack_bytes PUBREC n)] c = c'" using receive_ack [OF _ _ assms(4,5) c'(1)] by simp
  then show ?thesis using that [of s'] c' by simp
qed

text \<open>What the broker does with the message: at once, or when it is released.\<close>

definition broker_accepts :: "'e endpoint_ops \<Rightarrow> broker_config \<Rightarrow> 'e connection \<Rightarrow> packet \<Rightarrow> 'e broker \<Rightarrow> 'e broker" where
  "broker_accepts E cf x p b =
     (let b = snd (handlePublish E cf x p b) in
      if p_qos p = 2 then snd (handlePublishRelease E cf x (p_id p) b) else b)"

lemma sender_talk:
  assumes V: "speaks_mqtt V" and c: "sending lk c" and m: "fits m"
    and room: "int (length (sentMessages c)) \<le> maxMessageIdentifier c"
    and n: "n = next_free (sentMessages c) (message_identifier c)" "0 \<le> n" "n < 2 ^ 16"
    and c1: "c1 = run [Call_send m] c"
  obtains c2 where "talk (3 + k) E V cf x (sends c c1) c1 b = (c2, broker_accepts E cf x (packet_of m n) b)" "sending lk c2"
    "out c2 = out c @ [SocketSend (publish_bytes m n)] @
      (if qos m = 2 then [SocketSend (ack_bytes PUBREL n)] else []) @ [MessageDelivered (Some m)]"
proof -
  have st: "storable m" "qos m > 0" using m by (simp_all add: fits_def)
  then have q: "qos m = 1 \<or> qos m = 2" by (auto simp: storable_def)
  obtain d w where d: "send m c = (Inr (), d)" "sending lk d"
    "obj_get (sentMessages d) = (obj_get (sentMessages c))(Num n \<mapsto> w)" "mtype w = PUBLISH" "payloadMessage w = Some m"
    "out d = out c @ [SocketSend (publish_bytes m n)]"
    using send_ready [OF c st room n(1)] by metis
  have [simp]: "c1 = d" using c1 d(1) by simp
  have get: "obj_get (sentMessages d) (Num n) = Some w" using d(3) by simp
  have pub: "receive_packet E V cf x (publish_bytes m n) b = handlePublish E cf x (packet_of m n) b" for b
    using V m n(2,3) by (simp add: receive_packet_def speaks_mqtt_def)
  have sends1: "sends c d = [publish_bytes m n]" using d(6) by simp
  have three: "3 + k = Suc (Suc (Suc k))" by simp
  from q show ?thesis
  proof
    assume q: "qos m = 1"
    note fin = acknowledged_run [OF d(2) get _ n(2,3), of PUBACK]
    have "fst (handlePublish E cf x (packet_of m n) b) = [Ack n]" using q by (simp add: handlePublish_def)
    moreover have "cd_answer V (Ack n) = ack_bytes PUBACK n" using V n(2,3) by (simp add: speaks_mqtt_def)
    ultimately have "talk (3 + k) E V cf x (sends c c1) c1 b =
        (run [Socket_data (ack_bytes PUBACK n)] d, broker_accepts E cf x (packet_of m n) b)"
      using fin(2) q unfolding three
      by (simp add: sends1 pub Let_def case_prod_beta broker_accepts_def del: run.simps)
    with fin d(5,6) q show ?thesis by (intro that) simp_all
  next
    assume q: "qos m = 2"
    obtain s' where s': "sending lk (run [Socket_data (ack_bytes PUBREC n)] d)"
      "obj_get (sentMessages (run [Socket_data (ack_bytes PUBREC n)] d)) (Num n) = Some s'" "payloadMessage s' = payloadMessage w"
      "out (run [Socket_data (ack_bytes PUBREC n)] d) = out d @ [SocketSend (ack_bytes PUBREL n)]"
      by (rule pubrec_run [OF d(2) get d(4) n(2,3)])
    let ?d2 = "run [Socket_data (ack_bytes PUBREC n)] d"
    note fin = acknowledged_run [OF s'(1,2) _ n(2,3), of PUBCOMP]
    have "fst (handlePublish E cf x (packet_of m n) b) = [Rec n]" using q by (simp add: handlePublish_def)
    moreover have "cd_answer V (Rec n) = ack_bytes PUBREC n" "cd_answer V (Comp n) = ack_bytes PUBCOMP n"
      "receive_packet E V cf x (ack_bytes PUBREL n) b' = handlePublishRelease E cf x n b'" for b'
      using V n(2,3) by (simp_all add: speaks_mqtt_def receive_packet_def)
    moreover have "fst (handlePublishRelease E cf x n b') = [Comp n]" for b' by (simp add: handlePublishRelease_def)
    ultimately have "talk (3 + k) E V cf x (sends c c1) c1 b =
        (run [Socket_data (ack_bytes PUBCOMP n)] ?d2, broker_accepts E cf x (packet_of m n) b)"
      using fin(2) s'(4) q unfolding three
      by (simp add: sends1 pub Let_def case_prod_beta broker_accepts_def del: run.simps)
    with fin d(5,6) q s' show ?thesis by (intro that) simp_all
  qed
qed

subsection \<open>The broker\<close>

text \<open>A broker has room for a message: a QoS 2 message has to wait in the session of its sender.\<close>

definition takes :: "broker_config \<Rightarrow> 'e connection \<Rightarrow> packet \<Rightarrow> 'e broker \<Rightarrow> bool" where
  "takes c x p b \<longleftrightarrow> checkPublishTopic (p_topic p) \<and> permitted c x Pub (p_topic p) 0 b \<and> \<not> p_retain p \<and>
     (p_qos p = 2 \<longrightarrow> (case b_wrappers b (conn_client x) of
        None \<Rightarrow> False | Some (n, w) \<Rightarrow> int (length (w_awaits w)) < awaitMaxCapacity (session_config c)))"

lemma broker_accepts_forwards:
  assumes "takes c x p b" "i \<noteq> conn_client x"
  shows "b_wrappers (broker_accepts E c x p b) i =
    map_option (\<lambda>(j, w). (j, fold (publishMessage E (session_config c) (message_of_packet p))
      (routes_to i (getRoutes (sessionUpgradeQos c) (b_router b) (p_topic p) (p_qos p))) w)) (b_wrappers b i)"
proof (cases "p_qos p = 2")
  case False
  then show ?thesis using assms
    by (simp add: broker_accepts_def takes_def handlePublish_def handleRetainMessage_def Let_def local_publish_wrappers)
next
  case True
  let ?x = "conn_client x" and ?c = "session_config c"
  obtain n w where w: "b_wrappers b ?x = Some (n, w)" "int (length (w_awaits w)) < awaitMaxCapacity ?c"
    using assms(1) True by (auto simp: takes_def split: option.splits prod.splits)
  define a where "a = await_of_packet p (thisClientId w)"
  define w1 where "w1 = w\<lparr>w_awaits := AList.update (p_id p) a (w_awaits w)\<rparr>"
  have "awaitMaxCapacity ?c > 0" using w(2) by linarith
  from received_awaits [OF this disjI1 [OF w(2)]] have "snd (receiveQos2Message ?c p w) = w1" by (simp add: w1_def a_def)
  then have b1: "snd (handlePublish E c x p b) = b\<lparr>b_wrappers := (b_wrappers b)(?x \<mapsto> (n, w1))\<rparr>"
    using assms(1) True w(1) by (simp add: takes_def qos2_publish_waits)
  have "fst (releaseQos2Message (p_id p) w1) = Some a" by (simp add: releaseQos2Message_def w1_def update_conv')
  moreover have "aw_topic a = p_topic p" "aw_qos a = p_qos p" "message_of_await a = message_of_packet p"
    by (simp_all add: a_def message_of_await_packet) (simp_all add: await_of_packet_def)
  ultimately show ?thesis using assms(2) True
    by (simp add: broker_accepts_def b1 handlePublishRelease_def case_prod_beta Let_def local_publish_wrappers)
qed

subsection \<open>The session of the subscriber\<close>

text \<open>A session that can send at once.\<close>

definition open_session :: "'e endpoint_ops \<Rightarrow> session_config \<Rightarrow> 'e wrapper \<Rightarrow> bool" where
  "open_session E c w \<longleftrightarrow> ep_connected E (w_endpoint w) \<and> w_queue w = [] \<and> \<not> isInflightFull c w"

lemma open_session_sends:
  assumes E: "publishes E" "counts E" and w: "open_session E c w" and q: "q > 0"
    and w': "w' = publishMessage E c m q w"
  shows "sent_log w' = sent_log w @ [First (publication_of (m\<lparr>m_qos := q\<rparr>))]" "w_queue w' = []"
    "ep_lastMessageId E (w_endpoint w') = nextMessageId E (w_endpoint w)" "ep_connected E (w_endpoint w')"
proof -
  define m' where "m' = m\<lparr>m_client := thisClientId w, m_qos := q, m_id := nextMessageId E (w_endpoint w)\<rparr>"
  define v where "v = saveInflightTimeout (m_id m') (put_inflight c (m_id m') m' w)"
  have v: "w_endpoint v = w_endpoint w" "w_queue v = []" "sent_log v = sent_log w"
    using w by (simp_all add: v_def saveInflightTimeout_def put_inflight_def open_session_def split: wrapper_class.split)
  have conn: "ep_connected E (w_endpoint v)" using w v(1) by (simp add: open_session_def)
  obtain e where e: "ep_publish E (publication_of m') (w_endpoint v) = Some e"
    "publish E m' False v = (ep_lastMessageId E e, v\<lparr>w_endpoint := e, sent_log := sent_log v @ [First (publication_of m')]\<rparr>)"
    by (rule publish_connected [OF E(1) conn, of False m']) (use q in \<open>simp add: m'_def\<close>)
  have e': "ep_connected E e" "ep_lastMessageId E e = nextMessageId E (w_endpoint w)"
    using E(2) conn e(1) q v(1) unfolding counts_def by (auto simp: m'_def)
  have pos: "nextMessageId E (w_endpoint w) > 0" using next_positive [OF E(1)] w by (simp add: open_session_def)
  have "handle_message E c (m\<lparr>m_client := thisClientId w, m_qos := q\<rparr>) w = publish E m' False v"
    using w q pos by (simp add: handle_message_def inflight_def open_session_def Let_def m'_def v_def)
  then have "w' = v\<lparr>w_endpoint := e, sent_log := sent_log v @ [First (publication_of m')]\<rparr>"
    using pos e(2) e'(2) by (simp add: w' publishMessage_def Let_def ENQUEUE_SUCCEEDED_def)
  then show "sent_log w' = sent_log w @ [First (publication_of (m\<lparr>m_qos := q\<rparr>))]" "w_queue w' = []"
    "ep_lastMessageId E (w_endpoint w') = nextMessageId E (w_endpoint w)" "ep_connected E (w_endpoint w')"
    using v e' by (simp_all add: m'_def publication_of_def)
qed

subsection \<open>The receiver\<close>

definition arriving :: "publication \<Rightarrow> message" where
  "arriving p =
     \<lparr>payload = PArray (Uint8Array (pub_payload p)), destinationName = Some (pub_topic p), qos = pub_qos p,
      retained = pub_retain p, duplicate = pub_dup p\<rparr>"

lemma receive_one:
  assumes "ready c" "server_packet bs w" "handleMessage w (heard c) = (Inr (), c')"
  shows "run [Socket_data bs] c = c'"
  using socket_data_ready [OF assms(1), of "[bs]" "[w]"] assms(2,3)
  by (simp add: thenc_def bindc_def returnc_def)

lemma receiving_heard: "receiving c \<Longrightarrow> receiving (heard c)"
  by (simp add: receiving_def)

lemma receive_publish1:
  assumes "receiving c"
  shows "\<exists>c'. handleMessage (publish_wire dup 1 ret d n p) c = (Inr (), c') \<and> receiving c' \<and>
    out c' = out c @ [SocketSend (ack_bytes PUBACK n),
      MessageArrived (Some \<lparr>payload = PArray (Uint8Array p), destinationName = Some d, qos = 1, retained = ret, duplicate = dup\<rparr>)]"
proof -
  let ?w = "publish_wire dup 1 ret d n p"
  have w: "mtype ?w = PUBLISH" "ident ?w = Num n" "payloadMessage ?w = Some \<lparr>payload = PArray (Uint8Array p),
      destinationName = Some d, qos = 1, retained = ret, duplicate = dup\<rparr>"
    by (simp_all add: publish_wire_def WireMessage_def ident_def)
  have "ready c" using assms by (simp add: receiving_def)
  from schedule_ready [OF this encode_reply [of PUBACK n]]
  have "handleMessage ?w c = (Inr (), (sent (ack_bytes PUBACK n) c)
      \<lparr>out := out (sent (ack_bytes PUBACK n) c) @ [MessageArrived (payloadMessage ?w)]\<rparr>)"
    using assms
    by (simp add: handleMessage_def dispatch_def receivePublish_def receiveMessage_def w deref_def action_defs receiving_def)
  then show ?thesis using assms by (simp add: receiving_def w)
qed

text \<open>The packets that the receiver answers with, in the broker.\<close>

lemma acknowledge_idle:
  assumes "b_wrappers b (conn_client y) = Some (j, w)" "w_queue w = []"
  shows "\<exists>w'. b_wrappers (handlePublishAcknowledge E c y k b) (conn_client y) = Some (j, w') \<and>
      k \<notin> fst ` set (w_inflights w') \<and> sent_log w' = sent_log w"
    "\<exists>w'. b_wrappers (handlePublishCompletion E c y k b) (conn_client y) = Some (j, w') \<and>
      k \<notin> fst ` set (w_inflights w') \<and> sent_log w' = sent_log w"
  using assms
  by (simp_all add: handlePublishAcknowledge_def handlePublishCompletion_def on_wrapper_at receivePuback_def receivePubcomp_def
      publishCachedMessage_def remove_inflight_def deleteInflightTimeout_def dequeue_stop delete_flight)

lemma received_idle:
  assumes "b_wrappers b (conn_client y) = Some (j, w)" "w_queue w = []"
  shows "\<exists>w'. b_wrappers (snd (handlePublishReceived c y k b)) (conn_client y) = Some (j, w') \<and> w_queue w' = [] \<and>
    sent_log w' = sent_log w"
  using assms
  by (auto simp: handlePublishReceived_def on_wrapper_at receivePubrec_def put_inflight_def split: option.split wrapper_class.split)

lemma receiver_talk:
  assumes V: "speaks_mqtt V" and r: "receiving r" and k: "0 \<le> k" "k < 2 ^ 16"
    and p: "pub_qos p = 1 \<or> pub_qos p = 2" "wf_utf16 (pub_topic p)" "length (utf8 (pub_topic p)) < 2 ^ 16"
      "length (pub_payload p) < 2 ^ 27"
    and b: "b_wrappers b (conn_client y) = Some (j, w)" "w_queue w = []"
    and r1: "r1 = run [Socket_data (cd_delivery V p k)] r"
  obtains r2 b2 w2 where "talk (3 + f) E V cf y (sends r r1) r1 b = (r2, b2)"
    "b_wrappers b2 (conn_client y) = Some (j, w2)" "k \<notin> fst ` set (w_inflights w2)" "sent_log w2 = sent_log w"
    "out r2 = out r @ (if pub_qos p = 1 then [SocketSend (ack_bytes PUBACK k), MessageArrived (Some (arriving p))]
       else [SocketSend (ack_bytes PUBREC k), MessageArrived (Some (arriving p)), SocketSend (ack_bytes PUBCOMP k)])"
proof -
  let ?w = "publish_wire (pub_dup p) (pub_qos p) (pub_retain p) (pub_topic p) k (pub_payload p)"
  have pkt: "server_packet (cd_delivery V p k) ?w"
  proof -
    have "cd_delivery V p k = delivery_bytes p k" using V by (simp add: speaks_mqtt_def)
    then show ?thesis unfolding delivery_bytes_def
      by simp (intro server_packet.publish, use p k in \<open>auto simp: publish_body_def\<close>)
  qed
  have hr: "receiving (heard r)" "ready r" using r receiving_heard by (simp_all add: receiving_def)
  have three: "3 + f = Suc (Suc (Suc f))" by simp
  from p(1) show ?thesis
  proof
    assume q: "pub_qos p = 1"
    obtain c' where c': "handleMessage ?w (heard r) = (Inr (), c')"
      "out c' = out r @ [SocketSend (ack_bytes PUBACK k), MessageArrived (Some (arriving p))]"
      using receive_publish1 [OF hr(1), of "pub_dup p" "pub_retain p" "pub_topic p" k "pub_payload p"] q
      by (auto simp: arriving_def)
    have [simp]: "r1 = c'" unfolding r1 by (rule receive_one [OF hr(2) pkt c'(1)])
    have "receive_packet E V cf y (ack_bytes PUBACK k) b = ([], handlePublishAcknowledge E cf y k b)"
      using V k by (simp add: receive_packet_def speaks_mqtt_def)
    then have "talk (3 + f) E V cf y (sends r r1) r1 b = (c', handlePublishAcknowledge E cf y k b)"
      using c'(2) unfolding three by (simp add: Let_def sends_def)
    then show ?thesis using acknowledge_idle(1) [OF b, of E cf k] c'(2) q by (auto intro: that)
  next
    assume q: "pub_qos p = 2"
    obtain c' where c': "handleMessage ?w (heard r) = (Inr (), c')" "receiving c'" "pending c' k = Some (Some (arriving p))"
      "out c' = out r @ [SocketSend (ack_bytes PUBREC k)]"
      using receive_publish [OF hr(1), of "pub_dup p" "pub_retain p" "pub_topic p" k "pub_payload p"] q
      by (auto simp: arriving_def)
    have [simp]: "r1 = c'" unfolding r1 by (rule receive_one [OF hr(2) pkt c'(1)])
    have hc: "receiving (heard c')" "ready c'" "pending (heard c') = pending c'"
      using c'(2) receiving_heard by (simp_all add: receiving_def pending_def fun_eq_iff)
    obtain c'' where c'': "handleMessage (reply PUBREL (Num k)) (heard c') = (Inr (), c'')"
      "out c'' = out c' @ [MessageArrived (Some (arriving p)), SocketSend (ack_bytes PUBCOMP k)]"
      using receive_release [OF hc(1), of k] c'(3) hc(3) by auto
    have rel: "run [Socket_data (ack_bytes PUBREL k)] c' = c''"
      by (rule receive_one [OF hc(2) ack_server_packet c''(1)]) (use k in simp_all)
    let ?b1 = "snd (handlePublishReceived cf y k b)"
    obtain v where v: "b_wrappers ?b1 (conn_client y) = Some (j, v)" "w_queue v = []" "sent_log v = sent_log w"
      using received_idle [OF b, of cf k] by auto
    have "receive_packet E V cf y (ack_bytes PUBREC k) b = handlePublishReceived cf y k b"
      "receive_packet E V cf y (ack_bytes PUBCOMP k) b' = ([], handlePublishCompletion E cf y k b')"
      "cd_answer V (Rel k) = ack_bytes PUBREL k" "fst (handlePublishReceived cf y k b) = [Rel k]" for b'
      using V k by (simp_all add: receive_packet_def speaks_mqtt_def handlePublishReceived_def)
    then have "talk (3 + f) E V cf y (sends r r1) r1 b = (c'', handlePublishCompletion E cf y k ?b1)"
      using c'(4) c''(2) rel unfolding three
      by (simp add: Let_def case_prod_beta del: run.simps) (simp add: sends_def)
    then show ?thesis using acknowledge_idle(2) [OF v(1,2), of E cf k] c'(4) c''(2) v(3) q by (auto intro: that)
  qed
qed

subsection \<open>From application to application\<close>

text \<open>C4: A message arrives, when nothing stands in its way. The sender is a connected client with
  nothing queued or half received, a callback for delivered messages and a free identifier below 65536, and sends a storable message that fits the packet format at
  QoS 1 or 2, not to be retained; the broker may be in any state it can reach, permits the publication, has
  room for it if its QoS is 2, and the topic is regular.
  The subscriber is another client that is connected, whose session has an empty queue,
  room in its window and a next identifier below 65536, whose filters are regular, and of whose subscriptions exactly one matches, to be
  served at QoS 1 or 2. No packet is lost, and no timer fires before the exchange is over. Then the
  sender's application is told once that the message is delivered; the session of the subscriber
  transmits it exactly once, with its topic and payload; and when the two sides have exchanged what they have to
  say, the subscriber's application has been given the message exactly once and the broker has
  forgotten the identifier. (Outside of these conditions it can be more than once: for each further
  matching subscription, and for each retry, which goes out under a new identifier.)\<close>

theorem published_message_arrives:
  assumes server: "speaks_mqtt V" "publishes E" "counts E" "b = run_broker E order auth cf acls es"
    and sender: "sending lk c" "fits m" "int (length (sentMessages c)) \<le> maxMessageIdentifier c"
      "n = next_free (sentMessages c) (message_identifier c)" "0 \<le> n" "n < 2 ^ 16"
    and permitted: "takes cf x (packet_of m n) b" "regular (the (destinationName m))"
      "regular_filters (conn_client y) b"
    and subscriber: "conn_client y \<noteq> conn_client x" "b_wrappers b (conn_client y) = Some (j, w)"
      "open_session E (session_config cf) w" "nextMessageId E (w_endpoint w) < 2 ^ 16"
      "matching_qualities cf b (conn_client y) (the (destinationName m)) (qos m) = [q]" "q = 1 \<or> q = 2"
    and exchange: "c1 = run [Call_send m] c" "talk (3 + k) E V cf x (sends c c1) c1 b = (c2, b1)"
  shows "[d. MessageDelivered d \<leftarrow> drop (length (out c)) (out c2)] = [Some m] \<and>
    (\<exists>w1 p i. b_wrappers b1 (conn_client y) = Some (j, w1) \<and> sent_log w1 = sent_log w @ [First p] \<and>
       i = ep_lastMessageId E (w_endpoint w1) \<and>
       pub_topic p = the (destinationName m) \<and> pub_payload p = payload_bytes (payload m) \<and> pub_qos p = q \<and>
       (\<forall>r r1. receiving r \<and> r1 = run [Socket_data (cd_delivery V p i)] r \<longrightarrow>
          (\<exists>r2 b2 w2. talk (3 + k) E V cf y (sends r r1) r1 b1 = (r2, b2) \<and>
             [d. MessageArrived d \<leftarrow> drop (length (out r)) (out r2)] = [Some (arriving p)] \<and>
             b_wrappers b2 (conn_client y) = Some (j, w2) \<and> i \<notin> fst ` set (w_inflights w2) \<and> sent_log w2 = sent_log w1)))"
proof -
  let ?t = "the (destinationName m)" and ?p = "packet_of m n" and ?c = "session_config cf"
  define p where "p = publication_of ((message_of_packet ?p)\<lparr>m_qos := q\<rparr>)"
  obtain c' where c': "talk (3 + k) E V cf x (sends c c1) c1 b = (c', broker_accepts E cf x ?p b)"
    "out c' = out c @ [SocketSend (publish_bytes m n)] @
      (if qos m = 2 then [SocketSend (ack_bytes PUBREL n)] else []) @ [MessageDelivered (Some m)]"
    by (rule sender_talk [OF server(1) sender exchange(1)])
  then have b1: "b1 = broker_accepts E cf x ?p b" "c2 = c'" using exchange(2) by simp_all
  define w1 where "w1 = publishMessage E ?c (message_of_packet ?p) q w"
  have "checkPublishTopic ?t" using permitted(1) by (simp add: takes_def)
  then have "routes_to (conn_client y) (getRoutes (sessionUpgradeQos cf) (b_router b) ?t (qos m)) = [q]"
    using routes_of_run [OF server(4) _ permitted(2,3)] subscriber(5) by simp
  then have w1: "b_wrappers b1 (conn_client y) = Some (j, w1)"
    using broker_accepts_forwards [OF permitted(1) subscriber(1), of E] subscriber(2) by (simp add: b1 w1_def)
  have "q > 0" using subscriber(6) by auto
  note log = open_session_sends [OF server(2,3) subscriber(3) this w1_def]
  let ?i = "ep_lastMessageId E (w_endpoint w1)"
  have i: "0 \<le> ?i" "?i < 2 ^ 16"
    using next_positive [OF server(2), of "w_endpoint w"] subscriber(3,4) log(3) by (simp_all add: open_session_def)
  have p: "pub_topic p = ?t" "pub_payload p = payload_bytes (payload m)" "pub_qos p = q"
    by (simp_all add: p_def publication_of_def message_of_packet_def)
  have m: "wf_utf16 ?t" "length (utf8 ?t) < 2 ^ 16" "length (payload_bytes (payload m)) < 2 ^ 27"
    using sender(2) by (auto simp: fits_def storable_def wf_message_def split: option.splits)
  have receives: "\<exists>r2 b2 w2. talk (3 + k) E V cf y (sends r r1) r1 b1 = (r2, b2) \<and>
      [d. MessageArrived d \<leftarrow> drop (length (out r)) (out r2)] = [Some (arriving p)] \<and>
      b_wrappers b2 (conn_client y) = Some (j, w2) \<and> ?i \<notin> fst ` set (w_inflights w2) \<and> sent_log w2 = sent_log w1"
    if r: "receiving r" "r1 = run [Socket_data (cd_delivery V p ?i)] r" for r r1
  proof -
    obtain r2 b2 w2 where t: "talk (3 + k) E V cf y (sends r r1) r1 b1 = (r2, b2)"
      "b_wrappers b2 (conn_client y) = Some (j, w2)" "?i \<notin> fst ` set (w_inflights w2)" "sent_log w2 = sent_log w1"
      "out r2 = out r @ (if pub_qos p = 1 then [SocketSend (ack_bytes PUBACK ?i), MessageArrived (Some (arriving p))]
         else [SocketSend (ack_bytes PUBREC ?i), MessageArrived (Some (arriving p)), SocketSend (ack_bytes PUBCOMP ?i)])"
      by (rule receiver_talk [OF server(1) r(1) i _ _ _ _ w1 log(2) r(2)]) (use p m subscriber(6) in simp_all)
    then show ?thesis by auto
  qed
  have "[d. MessageDelivered d \<leftarrow> drop (length (out c)) (out c2)] = [Some m]" by (simp add: b1(2) c'(2))
  moreover have "sent_log w1 = sent_log w @ [First p]" using log(1) by (simp add: p_def)
  ultimately show ?thesis using w1 p receives by blast
qed

text \<open>The client of the console publishes to \<open>a/b\<close>; the subscriber of \<open>a/+\<close> is another one of its kind.\<close>

definition sample_publication :: message where
  "sample_publication =
     \<lparr>payload = PString (js ''hello''), destinationName = Some (js ''a/b''), qos = 1, retained = False, duplicate = False\<rparr>"

lemma sample_publication_fits: "fits sample_publication" "regular (js ''a/b'')"
proof -
  have "storable sample_publication" "qos sample_publication > 0" "length (utf8 (the (destinationName sample_publication))) = 3"
    "length (payload_bytes (payload sample_publication)) = 5" by code_simp+
  then show "fits sample_publication" by (simp add: fits_def)
  show "regular (js ''a/b'')" by code_simp
qed

lemma sample_subscriber:
  "case b_wrappers (sample_broker False) (js ''s'') of None \<Rightarrow> False
   | Some (j, w) \<Rightarrow> open_session counter_endpoint (session_config sample_broker_config) w \<and>
       nextMessageId counter_endpoint (w_endpoint w) = 1 \<and> sent_log w = []"
  by code_simp

lemma sample_takes: "takes sample_broker_config (publisher False) (packet_of sample_publication 1) (sample_broker False)"
  by code_simp

theorem published_message_arrives_witness:
  "let c = run connecting listening_client; c1 = run [Call_send sample_publication] c;
       b1 = snd (talk 3 counter_endpoint own_codec sample_broker_config (publisher False) (sends c c1) c1 (sample_broker False)) in
   \<exists>j w1 p i r2. b_wrappers b1 (js ''s'') = Some (j, w1) \<and> sent_log w1 = [First p] \<and>
     r2 = fst (talk 3 counter_endpoint own_codec sample_broker_config (sample_client 1 ''s'' True None)
       (sends c (run [Socket_data (delivery_bytes p i)] c)) (run [Socket_data (delivery_bytes p i)] c) b1) \<and>
     [d. MessageArrived d \<leftarrow> drop (length (out c)) (out r2)] = [Some (arriving p)]"
proof -
  let ?y = "sample_client 1 ''s'' True None"
  define c where "c = run connecting listening_client"
  define c1 where "c1 = run [Call_send sample_publication] c"
  define t where "t = talk (3 + 0) counter_endpoint own_codec sample_broker_config (publisher False) (sends c c1) c1 (sample_broker False)"
  have n: "1 = next_free (sentMessages c) (message_identifier c)" unfolding c_def
    using connected_fields by (subst next_free.simps) (simp add: obj_get_def limits_def)
  have c: "sending plain_key c" "int (length (sentMessages c)) \<le> maxMessageIdentifier c" "receiving c"
    using connected_sending connected_fields by (simp_all add: c_def limits_def receiving_def obj_ok_def)
  obtain j w where w: "b_wrappers (sample_broker False) (js ''s'') = Some (j, w)"
    "open_session counter_endpoint (session_config sample_broker_config) w"
    "nextMessageId counter_endpoint (w_endpoint w) = 1" "sent_log w = []"
    using sample_subscriber by (auto split: option.splits)
  have names: "conn_client (sample_client k ''s'' True None) = js ''s''" "conn_client (publisher False) = js ''p''"
    "the (destinationName sample_publication) = js ''a/b''" "qos sample_publication = 1" for k
    by (simp_all add: sample_client_def publisher_def sample_publication_def)
  note state = sample_state [of False, unfolded Let_def]
  have t: "talk (3 + 0) counter_endpoint own_codec sample_broker_config (publisher False) (sends c c1) c1 (sample_broker False) =
      (fst t, snd t)" by (simp add: t_def)
  have topic: "regular (the (destinationName sample_publication))"
    "regular_filters (conn_client ?y) (sample_broker False)"
    using state sample_publication_fits(2) by (simp_all add: names)
  have sub: "conn_client ?y \<noteq> conn_client (publisher False)" "b_wrappers (sample_broker False) (conn_client ?y) = Some (j, w)"
    "nextMessageId counter_endpoint (w_endpoint w) < 2 ^ 16"
    "matching_qualities sample_broker_config (sample_broker False) (conn_client ?y) (the (destinationName sample_publication))
       (qos sample_publication) = [1]"
    using w state sample_topic(3) by (simp_all add: names)
  have small: "0 \<le> (1 :: int)" "(1 :: int) < 2 ^ 16" "(1 :: int) = 1 \<or> (1 :: int) = 2" by simp_all
  note arrives = published_message_arrives [OF own_codec_speaks counter_laws sample_broker_def [of False] c(1)
      sample_publication_fits(1) c(2) n small(1,2) sample_takes topic sub(1,2) w(2) sub(3,4) small(3) c1_def t]
  from arrives [THEN conjunct2] obtain w1 p i where w1: "b_wrappers (snd t) (conn_client ?y) = Some (j, w1)"
    "sent_log w1 = sent_log w @ [First p]" and receives: "\<forall>r r1. receiving r \<and> r1 = run [Socket_data (cd_delivery own_codec p i)] r \<longrightarrow>
       (\<exists>r2 b2 w2. talk (3 + 0) counter_endpoint own_codec sample_broker_config ?y (sends r r1) r1 (snd t) = (r2, b2) \<and>
          [d. MessageArrived d \<leftarrow> drop (length (out r)) (out r2)] = [Some (arriving p)] \<and>
          b_wrappers b2 (conn_client ?y) = Some (j, w2) \<and> i \<notin> fst ` set (w_inflights w2) \<and> sent_log w2 = sent_log w1)"
    by (elim exE conjE)
  let ?r1 = "run [Socket_data (delivery_bytes p i)] c"
  have d: "cd_delivery own_codec p i = delivery_bytes p i" by (simp add: own_codec_def)
  obtain r2 b2 where r2: "talk (3 + 0) counter_endpoint own_codec sample_broker_config ?y (sends c ?r1) ?r1 (snd t) = (r2, b2)"
    "[d. MessageArrived d \<leftarrow> drop (length (out c)) (out r2)] = [Some (arriving p)]"
    using receives c(3) unfolding d by blast
  show ?thesis unfolding Let_def c_def [symmetric] c1_def [symmetric]
    using w1 w(4) r2 t_def names(1) by (intro exI [of _ j] exI [of _ w1] exI [of _ p] exI [of _ i] exI [of _ r2]) simp
qed

end
