(* ===== verification/Regex.thy ===== *)
theory Regex
  imports Prelude
begin

text \<open>
  The regular expressions of JavaScript as far as the program uses them: patterns as a
  datatype, a parser for their source text, and the backtracking matcher with the order of
  its alternatives. A pattern without assertions has a language, and an anchored pattern
  accepts exactly the strings of its language; the proofs about single patterns rest on that.

  The flag \<open>i\<close> folds the case of the letters \<open>a\<close> to \<open>z\<close>. No pattern of the program tells two
  other characters apart that differ in case only.
\<close>

named_theorems regex_simps \<open>membership in the language of a pattern\<close>

subsection \<open>Patterns\<close>

type_synonym ranges = "(int \<times> int) list"

datatype regex =
    Eps
  | Chars bool ranges \<comment> \<open>negated, code units\<close>
  | Seq regex regex
  | Alt regex regex
  | Rep regex nat "nat option" bool \<comment> \<open>minimum, maximum, greedy\<close>
  | Bol | Eol | WordBoundary
  | NotAhead regex

definition in_ranges :: "ranges \<Rightarrow> int \<Rightarrow> bool" where
  "in_ranges rs n \<longleftrightarrow> list_ex (\<lambda>(a, b). a \<le> n \<and> n \<le> b) rs"

definition swap_case :: "int \<Rightarrow> int" where
  "swap_case n = (if 65 \<le> n \<and> n \<le> 90 then n + 32 else if 97 \<le> n \<and> n \<le> 122 then n - 32 else n)"

definition char_matches :: "bool \<Rightarrow> bool \<Rightarrow> ranges \<Rightarrow> 16 word \<Rightarrow> bool" where
  "char_matches ig neg rs u \<longleftrightarrow>
     neg \<noteq> (in_ranges rs (uint u) \<or> ig \<and> in_ranges rs (swap_case (uint u)))"

definition digit_ranges :: ranges where "digit_ranges = [(48, 57)]"

definition word_ranges :: ranges where "word_ranges = [(48, 57), (65, 90), (95, 95), (97, 122)]"

definition space_ranges :: ranges where
  "space_ranges =
     [(9, 13), (32, 32), (160, 160), (0x1680, 0x1680), (0x2000, 0x200A),
      (0x2028, 0x2029), (0x202F, 0x202F), (0x205F, 0x205F), (0x3000, 0x3000), (0xFEFF, 0xFEFF)]"

definition line_ranges :: ranges where
  "line_ranges = [(10, 10), (13, 13), (0x2028, 0x2029)]"

text \<open>The units outside of ascending, disjoint ranges.\<close>

fun complement_from :: "int \<Rightarrow> ranges \<Rightarrow> ranges" where
  "complement_from n [] = [(n, 65535)]"
| "complement_from n ((a, b) # rs) =
     (if n < a then (n, a - 1) # complement_from (b + 1) rs else complement_from (b + 1) rs)"

subsection \<open>Parsing\<close>

definition lit :: "int \<Rightarrow> regex" where
  "lit n = Chars False [(n, n)]"

definition hex_value :: "int \<Rightarrow> int option" where
  "hex_value n =
     (if 48 \<le> n \<and> n \<le> 57 then Some (n - 48)
      else if 65 \<le> n \<and> n \<le> 70 then Some (n - 55)
      else if 97 \<le> n \<and> n \<le> 102 then Some (n - 87) else None)"

fun hex_number :: "int \<Rightarrow> int list \<Rightarrow> int option" where
  "hex_number n [] = Some n"
| "hex_number n (d # ds) = (case hex_value d of None \<Rightarrow> None | Some x \<Rightarrow> hex_number (16 * n + x) ds)"

datatype escape = OneChar int | ClassOf ranges | Boundary

text \<open>An escape after its backslash. Back references and \<open>\\c\<close> are outside of the syntax.\<close>

fun parse_escape :: "int list \<Rightarrow> (escape \<times> int list) option" where
  "parse_escape [] = None"
| "parse_escape (c # s) =
     (if c = 100 then Some (ClassOf digit_ranges, s)
      else if c = 68 then Some (ClassOf (complement_from 0 digit_ranges), s)
      else if c = 119 then Some (ClassOf word_ranges, s)
      else if c = 87 then Some (ClassOf (complement_from 0 word_ranges), s)
      else if c = 115 then Some (ClassOf space_ranges, s)
      else if c = 83 then Some (ClassOf (complement_from 0 space_ranges), s)
      else if c = 98 then Some (Boundary, s)
      else if c = 116 then Some (OneChar 9, s)
      else if c = 110 then Some (OneChar 10, s)
      else if c = 118 then Some (OneChar 11, s)
      else if c = 102 then Some (OneChar 12, s)
      else if c = 114 then Some (OneChar 13, s)
      else if c = 120 then map_option (\<lambda>n. (OneChar n, drop 2 s)) (if length s < 2 then None else hex_number 0 (take 2 s))
      else if c = 117 then map_option (\<lambda>n. (OneChar n, drop 4 s)) (if length s < 4 then None else hex_number 0 (take 4 s))
      else if in_ranges word_ranges c then None
      else Some (OneChar c, s))"

fun class_atom :: "int list \<Rightarrow> (escape \<times> int list) option" where
  "class_atom [] = None"
| "class_atom (c # s) =
     (if c = 92 then (case parse_escape s of Some (Boundary, s') \<Rightarrow> Some (OneChar 8, s') | r \<Rightarrow> r)
      else Some (OneChar c, s))"

fun parse_class :: "nat \<Rightarrow> int list \<Rightarrow> (ranges \<times> int list) option" where
  "parse_class 0 s = None"
| "parse_class (Suc fuel) s =
     (case s of
        [] \<Rightarrow> None
      | c # s1 \<Rightarrow>
          if c = 93 then Some ([], s1)
          else (case class_atom s of
                  None \<Rightarrow> None
                | Some (ClassOf rs, s2) \<Rightarrow>
                    map_option (\<lambda>(rs', s'). (rs @ rs', s')) (parse_class fuel s2)
                | Some (OneChar a, s2) \<Rightarrow>
                    (case s2 of
                       d # e # s3 \<Rightarrow>
                         if d = 45 \<and> e \<noteq> 93
                         then (case class_atom (e # s3) of
                                 Some (OneChar b, s4) \<Rightarrow>
                                   if a \<le> b then map_option (\<lambda>(rs', s'). ((a, b) # rs', s')) (parse_class fuel s4)
                                   else None
                               | _ \<Rightarrow> None)
                         else map_option (\<lambda>(rs', s'). ((a, a) # rs', s')) (parse_class fuel s2)
                     | _ \<Rightarrow> map_option (\<lambda>(rs', s'). ((a, a) # rs', s')) (parse_class fuel s2))
                | Some (Boundary, s2) \<Rightarrow> None))"

definition is_digit_int :: "int \<Rightarrow> bool" where
  "is_digit_int n \<longleftrightarrow> 48 \<le> n \<and> n \<le> 57"

fun nat_value :: "nat \<Rightarrow> int list \<Rightarrow> nat" where
  "nat_value n [] = n"
| "nat_value n (d # ds) = nat_value (10 * n + nat (d - 48)) ds"

definition parse_nat :: "int list \<Rightarrow> (nat \<times> int list) option" where
  "parse_nat s =
     (let ds = takeWhile is_digit_int s in if ds = [] then None else Some (nat_value 0 ds, dropWhile is_digit_int s))"

text \<open>Minimum and maximum of a quantifier, if there is one.\<close>

definition parse_bounds :: "int list \<Rightarrow> ((nat \<times> nat option) \<times> int list) option" where
  "parse_bounds s =
     (case s of
        [] \<Rightarrow> None
      | c # s1 \<Rightarrow>
          if c = 42 then Some ((0, None), s1)
          else if c = 43 then Some ((1, None), s1)
          else if c = 63 then Some ((0, Some 1), s1)
          else if c = 123 then
            (case parse_nat s1 of
               Some (m, c2 # s2) \<Rightarrow>
                 if c2 = 125 then Some ((m, Some m), s2)
                 else if c2 = 44 then
                   (case s2 of
                      c3 # s3 \<Rightarrow>
                        if c3 = 125 then Some ((m, None), s3)
                        else (case parse_nat s2 of
                                Some (k, c4 # s4) \<Rightarrow> if c4 = 125 \<and> m \<le> k then Some ((m, Some k), s4) else None
                              | _ \<Rightarrow> None)
                    | [] \<Rightarrow> None)
                 else None
             | _ \<Rightarrow> None)
          else None)"

definition quantified :: "regex \<Rightarrow> int list \<Rightarrow> regex \<times> int list" where
  "quantified r s =
     (case parse_bounds s of
        None \<Rightarrow> (r, s)
      | Some ((m, k), s1) \<Rightarrow>
          (case s1 of
             c # s2 \<Rightarrow> if c = 63 then (Rep r m k False, s2) else (Rep r m k True, s1)
           | [] \<Rightarrow> (Rep r m k True, s1)))"

definition seq_of :: "regex \<Rightarrow> regex \<Rightarrow> regex" where
  "seq_of a b = (if b = Eps then a else Seq a b)"

definition special :: "int \<Rightarrow> bool" where
  "special c \<longleftrightarrow> c \<in> {40, 41, 42, 43, 63, 91, 92, 93, 94, 123, 124, 125} \<or> c = 36 \<or> c = 46"

text \<open>
  A disjunction, a sequence of terms, a term without its quantifier. Captures are not used,
  so a group is its content. The fuel is the length of the text, twice.
\<close>

fun parse_alt :: "nat \<Rightarrow> int list \<Rightarrow> (regex \<times> int list) option"
  and parse_seq :: "nat \<Rightarrow> int list \<Rightarrow> (regex \<times> int list) option"
  and parse_group :: "nat \<Rightarrow> int list \<Rightarrow> (regex \<times> int list) option"
  and parse_term :: "nat \<Rightarrow> int list \<Rightarrow> (regex \<times> int list) option" where
  "parse_alt 0 s = None"
| "parse_alt (Suc fuel) s =
     (case parse_seq fuel s of
        None \<Rightarrow> None
      | Some (a, []) \<Rightarrow> Some (a, [])
      | Some (a, c # s1) \<Rightarrow>
          if c = 124 then map_option (\<lambda>(b, s'). (Alt a b, s')) (parse_alt fuel s1)
          else Some (a, c # s1))"
| "parse_seq 0 s = None"
| "parse_seq (Suc fuel) s =
     (case s of
        [] \<Rightarrow> Some (Eps, [])
      | c # _ \<Rightarrow>
          if c = 124 \<or> c = 41 then Some (Eps, s)
          else (case parse_term fuel s of
                  None \<Rightarrow> None
                | Some (a, s1) \<Rightarrow> map_option (\<lambda>(b, s'). (seq_of a b, s')) (parse_seq fuel s1)))"
| "parse_group 0 s = None"
| "parse_group (Suc fuel) s =
     (case parse_alt fuel s of
        Some (r, c # s1) \<Rightarrow> if c = 41 then Some (r, s1) else None
      | _ \<Rightarrow> None)"
| "parse_term 0 s = None"
| "parse_term (Suc fuel) s =
     (case s of
        [] \<Rightarrow> None
      | c # s1 \<Rightarrow>
          if c = 94 then Some (Bol, s1)
          else if c = 36 then Some (Eol, s1)
          else if c = 46 then Some (quantified (Chars True line_ranges) s1)
          else if c = 91 then
            (case s1 of
               [] \<Rightarrow> None
             | d # s2 \<Rightarrow>
                 map_option (\<lambda>(rs, s'). quantified (Chars (d = 94) rs) s')
                   (parse_class (length s) (if d = 94 then s2 else s1)))
          else if c = 92 then
            (case parse_escape s1 of
               None \<Rightarrow> None
             | Some (OneChar n, s') \<Rightarrow> Some (quantified (lit n) s')
             | Some (ClassOf rs, s') \<Rightarrow> Some (quantified (Chars False rs) s')
             | Some (Boundary, s') \<Rightarrow> Some (WordBoundary, s'))
          else if c = 40 then
            (case s1 of
               q # d # s2 \<Rightarrow>
                 if q \<noteq> 63 then map_option (\<lambda>(r, s'). quantified r s') (parse_group fuel s1)
                 else if d = 58 then map_option (\<lambda>(r, s'). quantified r s') (parse_group fuel s2)
                 else if d = 33 then map_option (\<lambda>(r, s'). (NotAhead r, s')) (parse_group fuel s2)
                 else None
             | _ \<Rightarrow> None)
          else if special c then None
          else Some (quantified (lit c) s1))"

definition parse_regex :: "js_string \<Rightarrow> regex option" where
  "parse_regex s =
     (case parse_alt (2 * length s + 2) (map uint s) of Some (r, []) \<Rightarrow> Some r | _ \<Rightarrow> None)"

text \<open>
  The source of a pattern in the theories: the backslash is written as a tilde. A tilde in
  the source is written as its escape.
\<close>

definition pat :: "string \<Rightarrow> js_string" where
  "pat s = map (\<lambda>c. if c = CHR ''~'' then 92 else of_char c) s"

definition re :: "string \<Rightarrow> regex" where
  "re s = (case parse_regex (pat s) of Some r \<Rightarrow> r | None \<Rightarrow> Chars False [])"

subsection \<open>Matching\<close>

text \<open>
  A position in the string: the unit before it, if there is one, and the rest. The matcher
  gives the positions at which a match from a position can end, the preferred one first. An
  optional repetition that consumes nothing is dropped, as the standard says, so the length
  of the rest bounds their number.
\<close>

type_synonym pos = "16 word option \<times> js_string"

definition word_unit :: "16 word option \<Rightarrow> bool" where
  "word_unit u = (case u of None \<Rightarrow> False | Some u \<Rightarrow> in_ranges word_ranges (uint u))"

definition hd_opt :: "'a list \<Rightarrow> 'a option" where
  "hd_opt xs = (case xs of [] \<Rightarrow> None | x # _ \<Rightarrow> Some x)"

primrec times :: "nat \<Rightarrow> (pos \<Rightarrow> pos list) \<Rightarrow> pos \<Rightarrow> pos list" where
  "times 0 m x = [x]"
| "times (Suc n) m x = concat (map (times n m) (m x))"

primrec optionals :: "nat \<Rightarrow> (pos \<Rightarrow> pos list) \<Rightarrow> bool \<Rightarrow> pos \<Rightarrow> pos list" where
  "optionals 0 m greedy x = [x]"
| "optionals (Suc n) m greedy x =
     (let more = concat (map (\<lambda>y. if length (snd y) < length (snd x) then optionals n m greedy y else []) (m x)) in
      if greedy then more @ [x] else x # more)"

definition optional_count :: "nat \<Rightarrow> nat option \<Rightarrow> pos \<Rightarrow> nat" where
  "optional_count m k x = (case k of None \<Rightarrow> length (snd x) | Some k \<Rightarrow> min (k - m) (length (snd x)))"

primrec matches :: "bool \<Rightarrow> regex \<Rightarrow> pos \<Rightarrow> pos list" where
  "matches ig Eps x = [x]"
| "matches ig (Chars neg rs) x =
     (case snd x of [] \<Rightarrow> [] | u # s \<Rightarrow> if char_matches ig neg rs u then [(Some u, s)] else [])"
| "matches ig (Seq a b) x = concat (map (matches ig b) (matches ig a x))"
| "matches ig (Alt a b) x = matches ig a x @ matches ig b x"
| "matches ig (Rep r m k greedy) x =
     concat (map (\<lambda>y. optionals (optional_count m k y) (matches ig r) greedy y) (times m (matches ig r) x))"
| "matches ig Bol x = (if fst x = None then [x] else [])"
| "matches ig Eol x = (if snd x = [] then [x] else [])"
| "matches ig WordBoundary x = (if word_unit (fst x) \<noteq> word_unit (hd_opt (snd x)) then [x] else [])"
| "matches ig (NotAhead r) x = (if matches ig r x = [] then [x] else [])"

fun positions :: "16 word option \<Rightarrow> js_string \<Rightarrow> pos list" where
  "positions p [] = [(p, [])]"
| "positions p (u # s) = (p, u # s) # positions (Some u) s"

definition test_from :: "bool \<Rightarrow> regex \<Rightarrow> js_string \<Rightarrow> bool" where
  "test_from ig r s \<longleftrightarrow> list_ex (\<lambda>x. matches ig r x \<noteq> []) (positions None s)"

abbreviation test :: "regex \<Rightarrow> js_string \<Rightarrow> bool" where
  "test \<equiv> test_from False"

abbreviation test_i :: "regex \<Rightarrow> js_string \<Rightarrow> bool" where
  "test_i \<equiv> test_from True"

text \<open>
  \<open>replace\<close> and \<open>match\<close> with the flag \<open>g\<close>: the successive matches with the text between them;
  after an empty match one unit is passed over. The fuel is the length of the text.
\<close>

fun pieces :: "nat \<Rightarrow> bool \<Rightarrow> regex \<Rightarrow> pos \<Rightarrow> (js_string + 16 word) list" where
  "pieces 0 ig r x = []"
| "pieces (Suc fuel) ig r x =
     (case matches ig r x of
        [] \<Rightarrow>
          (case snd x of [] \<Rightarrow> [] | u # s \<Rightarrow> Inr u # pieces fuel ig r (Some u, s))
      | y # _ \<Rightarrow>
          if length (snd y) < length (snd x)
          then Inl (take (length (snd x) - length (snd y)) (snd x)) # pieces fuel ig r y
          else (case snd x of [] \<Rightarrow> [Inl []] | u # s \<Rightarrow> Inl [] # Inr u # pieces fuel ig r (Some u, s)))"

definition all_pieces :: "bool \<Rightarrow> regex \<Rightarrow> js_string \<Rightarrow> (js_string + 16 word) list" where
  "all_pieces ig r s = pieces (Suc (length s)) ig r (None, s)"

definition replace_global :: "bool \<Rightarrow> regex \<Rightarrow> (js_string \<Rightarrow> js_string) \<Rightarrow> js_string \<Rightarrow> js_string" where
  "replace_global ig r f s = concat (map (\<lambda>p. case p of Inl t \<Rightarrow> f t | Inr u \<Rightarrow> [u]) (all_pieces ig r s))"

definition match_global :: "bool \<Rightarrow> regex \<Rightarrow> js_string \<Rightarrow> js_string list" where
  "match_global ig r s = concat (map (\<lambda>p. case p of Inl t \<Rightarrow> [t] | Inr u \<Rightarrow> []) (all_pieces ig r s))"

subsection \<open>Languages\<close>

text \<open>A pattern is pure when it has no assertion; the bounds of a quantifier are in order.\<close>

primrec pure :: "regex \<Rightarrow> bool" where
  "pure Eps = True"
| "pure (Chars neg rs) = True"
| "pure (Seq a b) = (pure a \<and> pure b)"
| "pure (Alt a b) = (pure a \<and> pure b)"
| "pure (Rep r m k greedy) = (pure r \<and> (case k of None \<Rightarrow> True | Some k \<Rightarrow> m \<le> k))"
| "pure Bol = False"
| "pure Eol = False"
| "pure WordBoundary = False"
| "pure (NotAhead r) = False"

definition within :: "nat option \<Rightarrow> nat \<Rightarrow> bool" where
  "within k n \<longleftrightarrow> (case k of None \<Rightarrow> True | Some k \<Rightarrow> n \<le> k)"

primrec in_lang :: "bool \<Rightarrow> regex \<Rightarrow> js_string \<Rightarrow> bool" where
  "in_lang ig Eps w = (w = [])"
| "in_lang ig (Chars neg rs) w = (\<exists>u. w = [u] \<and> char_matches ig neg rs u)"
| "in_lang ig (Seq a b) w = (\<exists>v v'. w = v @ v' \<and> in_lang ig a v \<and> in_lang ig b v')"
| "in_lang ig (Alt a b) w = (in_lang ig a w \<or> in_lang ig b w)"
| "in_lang ig (Rep r m k greedy) w =
     (\<exists>ws. w = concat ws \<and> (\<forall>v \<in> set ws. in_lang ig r v) \<and> m \<le> length ws \<and> within k (length ws))"
| "in_lang ig Bol w = False"
| "in_lang ig Eol w = False"
| "in_lang ig WordBoundary w = False"
| "in_lang ig (NotAhead r) w = False"

definition shift :: "16 word option \<Rightarrow> js_string \<Rightarrow> 16 word option" where
  "shift p w = (if w = [] then p else Some (last w))"

lemma shift_simps [simp]: "shift p [] = p" "shift (shift p v) w = shift p (v @ w)"
  by (simp_all add: shift_def)

text \<open>\<open>recognises m L\<close>: the positions \<open>m\<close> leads to are those after a word of \<open>L\<close>.\<close>

definition recognises :: "(pos \<Rightarrow> pos list) \<Rightarrow> (js_string \<Rightarrow> bool) \<Rightarrow> bool" where
  "recognises m L \<longleftrightarrow>
     (\<forall>p s y. y \<in> set (m (p, s)) \<longleftrightarrow> (\<exists>w t. s = w @ t \<and> L w \<and> y = (shift p w, t)))"

lemma recognisesD:
  "recognises m L \<Longrightarrow> y \<in> set (m (p, s)) \<longleftrightarrow> (\<exists>w t. s = w @ t \<and> L w \<and> y = (shift p w, t))"
  unfolding recognises_def by blast

lemma recognisesE:
  assumes "recognises m L" "y \<in> set (m (p, s))"
  obtains w t where "s = w @ t" "L w" "y = (shift p w, t)"
  using assms unfolding recognises_def by blast

lemma recognisesI: "recognises m L \<Longrightarrow> L w \<Longrightarrow> (shift p w, t) \<in> set (m (p, w @ t))"
  unfolding recognises_def by blast

lemma recognises_times:
  assumes "recognises m L"
  shows "recognises (times n m) (\<lambda>w. \<exists>ws. w = concat ws \<and> length ws = n \<and> (\<forall>v \<in> set ws. L v))"
proof (induction n)
  case 0
  then show ?case by (auto simp: recognises_def)
next
  case (Suc n)
  show ?case unfolding recognises_def
  proof (intro allI iffI)
    fix p s y assume "y \<in> set (times (Suc n) m (p, s))"
    then obtain z where z: "z \<in> set (m (p, s))" "y \<in> set (times n m z)" by auto
    then obtain w t where w: "s = w @ t" "L w" "z = (shift p w, t)" using recognisesD [OF assms] by blast
    with z obtain ws t' where ws: "t = concat ws @ t'" "length ws = n" "\<forall>v \<in> set ws. L v"
        "y = (shift (shift p w) (concat ws), t')"
      using recognisesD [OF Suc] by blast
    show "\<exists>w t. s = w @ t \<and> (\<exists>ws. w = concat ws \<and> length ws = Suc n \<and> (\<forall>v \<in> set ws. L v)) \<and> y = (shift p w, t)"
      by (rule exI [of _ "w @ concat ws"], rule exI [of _ t'])
        (use w ws in \<open>auto intro!: exI [of _ "w # ws"]\<close>)
  next
    fix p s y
    assume "\<exists>w t. s = w @ t \<and> (\<exists>ws. w = concat ws \<and> length ws = Suc n \<and> (\<forall>v \<in> set ws. L v)) \<and> y = (shift p w, t)"
    then obtain v ws t where *: "s = v @ concat ws @ t" "L v" "length ws = n" "\<forall>v \<in> set ws. L v"
        "y = (shift (shift p v) (concat ws), t)"
      by (auto simp: length_Suc_conv)
    then have "(shift p v, concat ws @ t) \<in> set (m (p, s))" using recognisesD [OF assms] by blast
    moreover have "y \<in> set (times n m (shift p v, concat ws @ t))" using * recognisesD [OF Suc] by blast
    ultimately show "y \<in> set (times (Suc n) m (p, s))" by auto
  qed
qed

lemma recognises_optionals:
  assumes "recognises m L"
  shows "recognises (optionals n m g)
     (\<lambda>w. \<exists>ws. w = concat ws \<and> length ws \<le> n \<and> (\<forall>v \<in> set ws. L v \<and> v \<noteq> []))"
proof (induction n)
  case 0
  then show ?case by (auto simp: recognises_def)
next
  case (Suc n)
  have opt: "y \<in> set (optionals (Suc n) m g x) \<longleftrightarrow>
      y = x \<or> (\<exists>z \<in> set (m x). length (snd z) < length (snd x) \<and> y \<in> set (optionals n m g z))" for x y
    by (auto simp: Let_def split: if_splits)
  show ?case unfolding recognises_def
  proof (intro allI iffI)
    fix p s y assume y: "y \<in> set (optionals (Suc n) m g (p, s))"
    show "\<exists>w t. s = w @ t \<and> (\<exists>ws. w = concat ws \<and> length ws \<le> Suc n \<and> (\<forall>v \<in> set ws. L v \<and> v \<noteq> [])) \<and> y = (shift p w, t)"
    proof (cases "y = (p, s)")
      case True
      then show ?thesis by (intro exI [of _ "[]"] exI [of _ s]) (auto intro!: exI [of _ "[]"])
    next
      case False
      with y obtain z where z: "z \<in> set (m (p, s))" "length (snd z) < length s" "y \<in> set (optionals n m g z)"
        unfolding opt by auto
      then obtain w t where w: "s = w @ t" "L w" "z = (shift p w, t)" using recognisesD [OF assms] by blast
      with z obtain ws t' where ws: "t = concat ws @ t'" "length ws \<le> n" "\<forall>v \<in> set ws. L v \<and> v \<noteq> []"
          "y = (shift (shift p w) (concat ws), t')"
        using recognisesD [OF Suc] by blast
      show ?thesis
        by (rule exI [of _ "w @ concat ws"], rule exI [of _ t'])
          (use w ws z in \<open>auto intro!: exI [of _ "w # ws"]\<close>)
    qed
  next
    fix p s y
    assume "\<exists>w t. s = w @ t \<and> (\<exists>ws. w = concat ws \<and> length ws \<le> Suc n \<and> (\<forall>v \<in> set ws. L v \<and> v \<noteq> [])) \<and> y = (shift p w, t)"
    then obtain ws t where *: "s = concat ws @ t" "length ws \<le> Suc n" "\<forall>v \<in> set ws. L v \<and> v \<noteq> []"
        "y = (shift p (concat ws), t)" by blast
    show "y \<in> set (optionals (Suc n) m g (p, s))"
    proof (cases ws)
      case Nil
      then show ?thesis unfolding opt using * by simp
    next
      case (Cons v vs)
      have "(shift p v, concat vs @ t) \<in> set (m (p, s))" using * Cons recognisesD [OF assms] by auto
      moreover have "y \<in> set (optionals n m g (shift p v, concat vs @ t))"
        using * Cons recognisesD [OF Suc] by auto
      ultimately show ?thesis unfolding opt using * Cons by force
    qed
  qed
qed

lemma concat_nonempty: "concat (filter (\<lambda>v. v \<noteq> []) ws) = concat ws"
  by (induction ws) auto

lemma length_concat_nonempty: "\<forall>v \<in> set ws. v \<noteq> [] \<Longrightarrow> length ws \<le> length (concat ws)"
proof (induction ws)
  case (Cons v ws)
  then show ?case by (cases v) auto
qed simp

text \<open>The repetition: dropping the empty iterations beyond the minimum changes no word.\<close>

lemma recognises_Rep:
  assumes m: "recognises (matches ig r) (in_lang ig r)" and k: "\<And>j. k = Some j \<Longrightarrow> n \<le> j"
  shows "recognises (matches ig (Rep r n k g)) (in_lang ig (Rep r n k g))"
  unfolding recognises_def
proof (intro allI iffI)
  fix p s y assume "y \<in> set (matches ig (Rep r n k g) (p, s))"
  then obtain z where z: "z \<in> set (times n (matches ig r) (p, s))"
      "y \<in> set (optionals (optional_count n k z) (matches ig r) g z)" by auto
  obtain ws t where ws: "s = concat ws @ t" "length ws = n" "\<forall>v \<in> set ws. in_lang ig r v" "z = (shift p (concat ws), t)"
    using z(1) recognisesD [OF recognises_times [OF m]] by blast
  obtain vs t' where vs: "t = concat vs @ t'" "length vs \<le> optional_count n k z" "\<forall>v \<in> set vs. in_lang ig r v"
      "y = (shift (shift p (concat ws)) (concat vs), t')"
    using recognisesE [OF recognises_optionals [OF m] z(2) [unfolded ws(4)]] ws(4) by metis
  have "within k (length (ws @ vs))"
    using vs(2) ws(2) k by (auto simp: within_def optional_count_def split: option.splits)
  then have "in_lang ig (Rep r n k g) (concat (ws @ vs))"
    using ws(2,3) vs(3) unfolding in_lang.simps by (intro exI [of _ "ws @ vs"]) auto
  moreover have "s = concat (ws @ vs) @ t'" "y = (shift p (concat (ws @ vs)), t')" using ws vs by simp_all
  ultimately show "\<exists>w t. s = w @ t \<and> in_lang ig (Rep r n k g) w \<and> y = (shift p w, t)" by blast
next
  fix p s y assume "\<exists>w t. s = w @ t \<and> in_lang ig (Rep r n k g) w \<and> y = (shift p w, t)"
  then obtain ws t where ws: "s = concat ws @ t" "\<forall>v \<in> set ws. in_lang ig r v" "n \<le> length ws" "within k (length ws)"
      "y = (shift p (concat ws), t)" by auto
  define us vs where "us = take n ws" and "vs = filter (\<lambda>v. v \<noteq> []) (drop n ws)"
  let ?z = "(shift p (concat us), concat vs @ t)"
  have cat: "concat ws = concat us @ concat vs"
    unfolding us_def vs_def concat_nonempty by (simp flip: concat_append)
  have us: "length us = n" "\<forall>v \<in> set us. in_lang ig r v"
    using ws by (auto simp: us_def dest: in_set_takeD)
  have vs: "\<forall>v \<in> set vs. in_lang ig r v \<and> v \<noteq> []"
    using ws by (auto simp: vs_def dest: in_set_dropD)
  have "s = concat us @ (concat vs @ t)" using ws cat by simp
  then have z: "?z \<in> set (times n (matches ig r) (p, s))"
    unfolding recognisesD [OF recognises_times [OF m]] using us by blast
  have "length vs \<le> optional_count n k ?z"
  proof -
    have "length vs \<le> length (concat vs)" by (rule length_concat_nonempty) (simp add: vs_def)
    moreover have "length vs \<le> length ws - n" unfolding vs_def
      using length_filter_le [of "\<lambda>v. v \<noteq> []" "drop n ws"] by simp
    ultimately show ?thesis using ws(4) by (auto simp: within_def optional_count_def split: option.splits)
  qed
  moreover have "y = (shift (shift p (concat us)) (concat vs), t)" using ws cat by simp
  ultimately have "y \<in> set (optionals (optional_count n k ?z) (matches ig r) g ?z)"
    unfolding recognisesD [OF recognises_optionals [OF m]] using vs by blast
  with z show "y \<in> set (matches ig (Rep r n k g) (p, s))" by auto
qed

text \<open>The backtracking matcher finds exactly the words of the language.\<close>

lemma matches_lang: "pure r \<Longrightarrow> recognises (matches ig r) (in_lang ig r)"
proof (induction r)
  case Eps
  then show ?case by (auto simp: recognises_def)
next
  case (Chars neg rs)
  then show ?case
  proof -
    have "y \<in> set (matches ig (Chars neg rs) (p, s)) \<longleftrightarrow>
        (\<exists>w t. s = w @ t \<and> (\<exists>u. w = [u] \<and> char_matches ig neg rs u) \<and> y = (shift p w, t))" for p s y
      by (cases s) (auto simp: shift_def)
    then show ?thesis unfolding recognises_def in_lang.simps by (intro allI)
  qed
next
  case (Seq a b)
  then have a: "recognises (matches ig a) (in_lang ig a)" and b: "recognises (matches ig b) (in_lang ig b)" by auto
  show ?case unfolding recognises_def
  proof (intro allI)
    fix p s y
    have "y \<in> set (matches ig (Seq a b) (p, s)) \<longleftrightarrow>
        (\<exists>z. z \<in> set (matches ig a (p, s)) \<and> y \<in> set (matches ig b z))" by auto
    also have "\<dots> \<longleftrightarrow> (\<exists>w t. s = w @ t \<and> in_lang ig a w \<and> y \<in> set (matches ig b (shift p w, t)))"
      unfolding recognisesD [OF a] by blast
    also have "\<dots> \<longleftrightarrow> (\<exists>v v' t. s = v @ v' @ t \<and> in_lang ig a v \<and> in_lang ig b v' \<and> y = (shift p (v @ v'), t))"
      unfolding recognisesD [OF b] by auto
    also have "\<dots> \<longleftrightarrow> (\<exists>w t. s = w @ t \<and> in_lang ig (Seq a b) w \<and> y = (shift p w, t))"
      unfolding in_lang.simps by (metis append.assoc)
    finally show "y \<in> set (matches ig (Seq a b) (p, s)) \<longleftrightarrow> (\<exists>w t. s = w @ t \<and> in_lang ig (Seq a b) w \<and> y = (shift p w, t))" .
  qed
next
  case (Alt a b)
  then show ?case by (auto simp: recognises_def)
next
  case (Rep r m k g)
  then show ?case by (intro recognises_Rep) (auto split: option.splits)
qed simp_all

text \<open>The pattern before a closing \<open>$\<close>.\<close>

primrec anchored :: "regex \<Rightarrow> regex option" where
  "anchored Eps = None"
| "anchored (Chars neg rs) = None"
| "anchored (Seq a b) = map_option (Seq a) (anchored b)"
| "anchored (Alt a b) = None"
| "anchored (Rep r m k g) = None"
| "anchored Bol = None"
| "anchored Eol = Some Eps"
| "anchored WordBoundary = None"
| "anchored (NotAhead r) = None"

lemma anchored_lang:
  "anchored r = Some r' \<Longrightarrow> pure r' \<Longrightarrow> matches ig r (p, s) \<noteq> [] \<longleftrightarrow> in_lang ig r' s"
proof (induction r arbitrary: r' p s)
  case (Seq a b)
  then obtain b' where b: "anchored b = Some b'" "r' = Seq a b'" "pure a" "pure b'" by auto
  have "matches ig (Seq a b) (p, s) \<noteq> [] \<longleftrightarrow> (\<exists>y \<in> set (matches ig a (p, s)). matches ig b y \<noteq> [])"
    by auto
  also have "\<dots> \<longleftrightarrow> (\<exists>w t. s = w @ t \<and> in_lang ig a w \<and> in_lang ig b' t)"
    (is "?l \<longleftrightarrow> ?r")
  proof
    assume ?l
    then obtain y where y: "y \<in> set (matches ig a (p, s))" "matches ig b y \<noteq> []" by blast
    obtain w t where w: "s = w @ t" "in_lang ig a w" "y = (shift p w, t)"
      by (rule recognisesE [OF matches_lang [OF b(3)] y(1)])
    moreover have "in_lang ig b' t" using Seq.IH(2) [OF b(1,4)] y(2) w(3) by simp
    ultimately show ?r by blast
  next
    assume ?r
    then obtain w t where w: "s = w @ t" "in_lang ig a w" "in_lang ig b' t" by blast
    have "(shift p w, t) \<in> set (matches ig a (p, s))"
      unfolding w(1) by (rule recognisesI [OF matches_lang [OF b(3)] w(2)])
    moreover have "matches ig b (shift p w, t) \<noteq> []" using Seq.IH(2) [OF b(1,4)] w(3) by simp
    ultimately show ?l by blast
  qed
  finally show ?case using b(2) by simp
qed auto

lemma positions_later: "x \<in> set (positions (Some u) s) \<Longrightarrow> fst x \<noteq> None"
  by (induction "Some u" s arbitrary: u rule: positions.induct) auto

lemma test_from_start: "test_from ig (Seq Bol r) s \<longleftrightarrow> matches ig r (None, s) \<noteq> []"
proof -
  have "\<not> list_ex (\<lambda>x. matches ig (Seq Bol r) x \<noteq> []) (positions (Some u) t)" for u t
    unfolding list_ex_iff using positions_later [of _ u t] by auto
  then show ?thesis unfolding test_from_def by (cases s) simp_all
qed

lemma test_anchored:
  assumes "anchored r = Some r'" "pure r'"
  shows "test_from ig (Seq Bol r) s \<longleftrightarrow> in_lang ig r' s"
  using anchored_lang [OF assms] by (simp add: test_from_start)

subsection \<open>Words of simple patterns\<close>

lemma lang_class_rep [regex_simps]:
  "in_lang ig (Rep (Chars neg rs) m k g) w \<longleftrightarrow>
     (\<forall>u \<in> set w. char_matches ig neg rs u) \<and> m \<le> length w \<and> within k (length w)"
proof
  assume "in_lang ig (Rep (Chars neg rs) m k g) w"
  then obtain ws where ws: "w = concat ws" "\<forall>v \<in> set ws. \<exists>u. v = [u] \<and> char_matches ig neg rs u"
    "m \<le> length ws" "within k (length ws)" by auto
  have "length (concat ws) = length ws" using ws(2) by (induction ws) auto
  then show "(\<forall>u \<in> set w. char_matches ig neg rs u) \<and> m \<le> length w \<and> within k (length w)"
    using ws by fastforce
next
  assume "(\<forall>u \<in> set w. char_matches ig neg rs u) \<and> m \<le> length w \<and> within k (length w)"
  moreover have "concat (map (\<lambda>u. [u]) w) = w" by (induction w) auto
  ultimately show "in_lang ig (Rep (Chars neg rs) m k g) w"
    by (auto intro!: exI [of _ "map (\<lambda>u. [u]) w"])
qed

lemma lang_optional [regex_simps]: "in_lang ig (Rep r 0 (Some 1) g) w \<longleftrightarrow> w = [] \<or> in_lang ig r w"
proof
  assume "in_lang ig (Rep r 0 (Some 1) g) w"
  then obtain ws where "w = concat ws" "\<forall>v \<in> set ws. in_lang ig r v" "length ws \<le> 1"
    by (auto simp: within_def)
  then show "w = [] \<or> in_lang ig r w" by (cases ws) auto
next
  assume "w = [] \<or> in_lang ig r w"
  then show "in_lang ig (Rep r 0 (Some 1) g) w"
    by (auto simp: within_def intro: exI [of _ "[]"] exI [of _ "[w]"])
qed

text \<open>Letters are the only units that \<open>i\<close> folds.\<close>

lemma swap_case_low: "swap_case n \<noteq> n \<Longrightarrow> 65 \<le> swap_case n"
  by (auto simp: swap_case_def split: if_splits)

lemma char_matches_low [regex_simps]:
  "list_all (\<lambda>(a, b). b < 65) rs \<Longrightarrow> char_matches ig neg rs u \<longleftrightarrow> neg \<noteq> in_ranges rs (uint u)"
proof -
  assume rs: "list_all (\<lambda>(a, b). b < 65) rs"
  then have "in_ranges rs n \<Longrightarrow> n < 65" for n
    by (fastforce simp: in_ranges_def list_ex_iff list_all_iff)
  then have "in_ranges rs (swap_case (uint u)) \<Longrightarrow> in_ranges rs (uint u)"
    using swap_case_low [of "uint u"] by fastforce
  then show ?thesis by (auto simp: char_matches_def)
qed

lemma in_ranges_simps [simp]:
  "in_ranges [] n = False"
  "in_ranges ((a, b) # rs) n \<longleftrightarrow> a \<le> n \<and> n \<le> b \<or> in_ranges rs n"
  by (simp_all add: in_ranges_def)

lemma char_matches_case [regex_simps]: "char_matches False neg rs u \<longleftrightarrow> neg \<noteq> in_ranges rs (uint u)"
  by (simp add: char_matches_def)

text \<open>Reading a word from its front.\<close>

lemma lang_front [regex_simps]:
  "in_lang ig (Seq (Chars neg rs) b) w \<longleftrightarrow>
     (case w of [] \<Rightarrow> False | u # w' \<Rightarrow> char_matches ig neg rs u \<and> in_lang ig b w')"
  "in_lang ig (Seq (Rep r 0 (Some (Suc 0)) g) b) w \<longleftrightarrow> in_lang ig b w \<or> in_lang ig (Seq r b) w"
proof -
  show "in_lang ig (Seq (Chars neg rs) b) w \<longleftrightarrow>
     (case w of [] \<Rightarrow> False | u # w' \<Rightarrow> char_matches ig neg rs u \<and> in_lang ig b w')"
    by (cases w) (auto, metis append_Cons append_Nil)
  have "in_lang ig (Seq (Rep r 0 (Some 1) g) b) w \<longleftrightarrow>
      (\<exists>v v'. w = v @ v' \<and> (v = [] \<or> in_lang ig r v) \<and> in_lang ig b v')"
    by (simp only: in_lang.simps(3) lang_optional)
  then show "in_lang ig (Seq (Rep r 0 (Some (Suc 0)) g) b) w \<longleftrightarrow> in_lang ig b w \<or> in_lang ig (Seq r b) w"
    unfolding One_nat_def in_lang.simps(3) by (metis append_Nil)
qed

lemma lang_single [regex_simps]:
  "in_lang ig (Chars neg rs) w \<longleftrightarrow> (case w of [u] \<Rightarrow> char_matches ig neg rs u | _ \<Rightarrow> False)"
  "in_lang ig (Rep r 0 (Some (Suc 0)) g) w \<longleftrightarrow> w = [] \<or> in_lang ig r w"
  using lang_optional [of ig r g w] by (auto split: list.splits)

lemmas front_simps = regex_simps in_lang.simps(1,4) lit_def list.case

subsection \<open>Tests that are not bound to the start\<close>

lemma positions_iff: "x \<in> set (positions p s) \<longleftrightarrow> (\<exists>a b. s = a @ b \<and> x = (shift p a, b))"
proof (induction p s rule: positions.induct)
  case (2 p u s)
  have "(\<exists>a b. u # s = a @ b \<and> x = (shift p a, b)) \<longleftrightarrow>
      x = (p, u # s) \<or> (\<exists>a b. s = a @ b \<and> x = (shift p (u # a), b))"
    by (auto simp: Cons_eq_append_conv)
  moreover have "shift p (u # a) = shift (Some u) a" for a by (simp add: shift_def)
  ultimately show ?case using 2 by simp
qed simp

lemma test_pure:
  assumes "pure r"
  shows "test_from ig r s \<longleftrightarrow> (\<exists>a w b. s = a @ w @ b \<and> in_lang ig r w)"
proof
  assume "test_from ig r s"
  then obtain x where x: "x \<in> set (positions None s)" "matches ig r x \<noteq> []"
    unfolding test_from_def list_ex_iff by blast
  then obtain a b where s: "s = a @ b" "x = (shift None a, b)" unfolding positions_iff by blast
  obtain y where "y \<in> set (matches ig r (shift None a, b))" using x(2) s(2) by (cases "matches ig r x") auto
  from recognisesE [OF matches_lang [OF assms] this] s(1)
  show "\<exists>a w b. s = a @ w @ b \<and> in_lang ig r w" by metis
next
  assume "\<exists>a w b. s = a @ w @ b \<and> in_lang ig r w"
  then obtain a w b where s: "s = a @ w @ b" "in_lang ig r w" by blast
  have "matches ig r (shift None a, w @ b) \<noteq> []"
    using recognisesI [OF matches_lang [OF assms] s(2), of "shift None a" b] by (metis empty_iff empty_set)
  moreover have "(shift None a, w @ b) \<in> set (positions None s)" unfolding positions_iff using s by blast
  ultimately show "test_from ig r s" unfolding test_from_def list_ex_iff by blast
qed

lemma test_class_some: "test_from ig (Rep (Chars neg rs) (Suc 0) None g) s \<longleftrightarrow> (\<exists>u \<in> set s. char_matches ig neg rs u)"
proof -
  have "test_from ig (Rep (Chars neg rs) (Suc 0) None g) s \<longleftrightarrow>
      (\<exists>a w b. s = a @ w @ b \<and> (\<forall>u \<in> set w. char_matches ig neg rs u) \<and> w \<noteq> [])"
    using test_pure [of "Rep (Chars neg rs) (Suc 0) None g" ig s]
    by (simp add: lang_class_rep within_def Suc_le_eq del: in_lang.simps)
  also have "\<dots> \<longleftrightarrow> (\<exists>u \<in> set s. char_matches ig neg rs u)"
  proof
    assume "\<exists>u \<in> set s. char_matches ig neg rs u"
    then obtain a u b where "s = a @ [u] @ b" "char_matches ig neg rs u" by (auto dest: split_list)
    then show "\<exists>a w b. s = a @ w @ b \<and> (\<forall>u \<in> set w. char_matches ig neg rs u) \<and> w \<noteq> []"
      by (intro exI [of _ a] exI [of _ "[u]"] exI [of _ b]) simp
  qed (metis Un_iff ex_in_conv set_append set_empty)
  finally show ?thesis .
qed

lemma test_Alt: "test_from ig (Alt a b) v \<longleftrightarrow> test_from ig a v \<or> test_from ig b v"
  by (auto simp: test_from_def list_ex_iff)

text \<open>The units of a word are those of the classes of its pattern.\<close>

primrec classes_within :: "(16 word \<Rightarrow> bool) \<Rightarrow> bool \<Rightarrow> regex \<Rightarrow> bool" where
  "classes_within P ig Eps = True"
| "classes_within P ig (Chars neg rs) = (\<forall>u. char_matches ig neg rs u \<longrightarrow> P u)"
| "classes_within P ig (Seq a b) = (classes_within P ig a \<and> classes_within P ig b)"
| "classes_within P ig (Alt a b) = (classes_within P ig a \<and> classes_within P ig b)"
| "classes_within P ig (Rep r m k g) = classes_within P ig r"
| "classes_within P ig Bol = True"
| "classes_within P ig Eol = True"
| "classes_within P ig WordBoundary = True"
| "classes_within P ig (NotAhead r) = True"

lemma lang_units: "classes_within P ig r \<Longrightarrow> in_lang ig r w \<Longrightarrow> u \<in> set w \<Longrightarrow> P u"
  by (induction r arbitrary: w) fastforce+

end
