(* ===== verification/Methods.thy ===== *)
theory Methods
  imports Forms Regex
begin

text \<open>
  The validation methods of \<open>additional-methods.js\<close> and \<open>jquery.validate.js\<close> that test a value
  against patterns. A method gets the field, the value that is checked and its parameter; the
  patterns are quoted from the source, a backslash as a tilde. Methods with check digits are in
  the theory \<open>Checksums\<close>.
\<close>

subsection \<open>Methods that are one pattern\<close>

definition by_pattern :: "regex \<Rightarrow> field_input \<Rightarrow> js_string \<Rightarrow> outcome" where
  "by_pattern r f v = or_optional f (test r v)"

definition by_pattern_i :: "regex \<Rightarrow> field_input \<Rightarrow> js_string \<Rightarrow> outcome" where
  "by_pattern_i r f v = or_optional f (test_i r v)"

definition email_re :: regex where
  "email_re = re (''^[a-zA-Z0-9.!#$%&\\'*+~/=?^_`{|}~x7E-]+@[a-zA-Z0-9](?:[a-zA-Z0-9-]{0,61}[a-zA-Z0-9])?(?:'' @
      ''~.[a-zA-Z0-9](?:[a-zA-Z0-9-]{0,61}[a-zA-Z0-9])?)*$'')"

definition email :: "field_input \<Rightarrow> js_string \<Rightarrow> outcome" where
  "email = by_pattern email_re"

definition url_re :: regex where
  "url_re = re (''^(?:(?:(?:https?|ftp):)?~/~/)(?:~S+(?::~S*)?@)?(?:(?!(?:10|127)(?:~.~d{1,3}){3})(?!(?:16'' @
      ''9~.254|192~.168)(?:~.~d{1,3}){2})(?!172~.(?:1[6-9]|2~d|3[0-1])(?:~.~d{1,3}){2})(?:[1-9]~d'' @
      ''?|1~d~d|2[01]~d|22[0-3])(?:~.(?:1?~d{1,2}|2[0-4]~d|25[0-5])){2}(?:~.(?:[1-9]~d?|1~d~d|2['' @
      ''0-4]~d|25[0-4]))|(?:(?:[a-z~u00a1-~uffff0-9]-*)*[a-z~u00a1-~uffff0-9]+)(?:~.(?:[a-z~u00a'' @
      ''1-~uffff0-9]-*)*[a-z~u00a1-~uffff0-9]+)*(?:~.(?:[a-z~u00a1-~uffff]{2,})).?)(?::~d{2,5})?'' @
      ''(?:[/?#]~S*)?$'')"

definition url :: "field_input \<Rightarrow> js_string \<Rightarrow> outcome" where
  "url = by_pattern_i url_re"

definition dateISO_re :: regex where
  "dateISO_re = re ''^~d{4}[~/~-](0?[1-9]|1[012])[~/~-](0?[1-9]|[12][0-9]|3[01])$''"

definition dateISO :: "field_input \<Rightarrow> js_string \<Rightarrow> outcome" where
  "dateISO = by_pattern dateISO_re"

definition number_re :: regex where
  "number_re = re ''^(?:-?~d+|-?~d{1,3}(?:,~d{3})+)?(?:~.~d+)?$''"

definition number :: "field_input \<Rightarrow> js_string \<Rightarrow> outcome" where
  "number = by_pattern number_re"

definition digits :: "field_input \<Rightarrow> js_string \<Rightarrow> outcome" where
  "digits = by_pattern (re ''^~d+$'')"

definition alphanumeric :: "field_input \<Rightarrow> js_string \<Rightarrow> outcome" where
  "alphanumeric = by_pattern_i (re ''^~w+$'')"

definition dateFA_re :: regex where
  "dateFA_re = re (''^[1-4]~d{3}~/((0?[1-6]~/((3[0-1])|([1-2][0-9])|(0?[1-9])))|((1[0-2]|(0?[7-9]))~/(30|([1-'' @
      ''2][0-9])|(0?[1-9]))))$'')"

definition dateFA :: "field_input \<Rightarrow> js_string \<Rightarrow> outcome" where
  "dateFA = by_pattern dateFA_re"

definition dateNL :: "field_input \<Rightarrow> js_string \<Rightarrow> outcome" where
  "dateNL = by_pattern (re ''^(0?[1-9]|[12]~d|3[01])[~.~/~-](0?[1-9]|1[012])[~.~/~-]([12]~d)?(~d~d)$'')"

definition giroaccountNL :: "field_input \<Rightarrow> js_string \<Rightarrow> outcome" where
  "giroaccountNL = by_pattern (re ''^[0-9]{1,7}$'')"

definition integer :: "field_input \<Rightarrow> js_string \<Rightarrow> outcome" where
  "integer = by_pattern (re ''^-?~d+$'')"

definition ipv4_re :: regex where
  "ipv4_re = re (''^(25[0-5]|2[0-4]~d|[01]?~d~d?)~.(25[0-5]|2[0-4]~d|[01]?~d~d?)~.(25[0-5]|2[0-4]~d|[01]?~d'' @
      ''~d?)~.(25[0-5]|2[0-4]~d|[01]?~d~d?)$'')"

definition ipv4 :: "field_input \<Rightarrow> js_string \<Rightarrow> outcome" where
  "ipv4 = by_pattern_i ipv4_re"

definition ipv6_re :: regex where
  "ipv6_re = re (''^((([0-9A-Fa-f]{1,4}:){7}[0-9A-Fa-f]{1,4})|(([0-9A-Fa-f]{1,4}:){6}:[0-9A-Fa-f]{1,4})|((['' @
      ''0-9A-Fa-f]{1,4}:){5}:([0-9A-Fa-f]{1,4}:)?[0-9A-Fa-f]{1,4})|(([0-9A-Fa-f]{1,4}:){4}:([0-9'' @
      ''A-Fa-f]{1,4}:){0,2}[0-9A-Fa-f]{1,4})|(([0-9A-Fa-f]{1,4}:){3}:([0-9A-Fa-f]{1,4}:){0,3}[0-'' @
      ''9A-Fa-f]{1,4})|(([0-9A-Fa-f]{1,4}:){2}:([0-9A-Fa-f]{1,4}:){0,4}[0-9A-Fa-f]{1,4})|(([0-9A'' @
      ''-Fa-f]{1,4}:){6}((~b((25[0-5])|(1~d{2})|(2[0-4]~d)|(~d{1,2}))~b)~.){3}(~b((25[0-5])|(1~d'' @
      ''{2})|(2[0-4]~d)|(~d{1,2}))~b))|(([0-9A-Fa-f]{1,4}:){0,5}:((~b((25[0-5])|(1~d{2})|(2[0-4]'' @
      ''~d)|(~d{1,2}))~b)~.){3}(~b((25[0-5])|(1~d{2})|(2[0-4]~d)|(~d{1,2}))~b))|(::([0-9A-Fa-f]{'' @
      ''1,4}:){0,5}((~b((25[0-5])|(1~d{2})|(2[0-4]~d)|(~d{1,2}))~b)~.){3}(~b((25[0-5])|(1~d{2})|'' @
      ''(2[0-4]~d)|(~d{1,2}))~b))|([0-9A-Fa-f]{1,4}::([0-9A-Fa-f]{1,4}:){0,5}[0-9A-Fa-f]{1,4})|('' @
      ''::([0-9A-Fa-f]{1,4}:){0,6}[0-9A-Fa-f]{1,4})|(([0-9A-Fa-f]{1,4}:){1,7}:))$'')"

definition ipv6 :: "field_input \<Rightarrow> js_string \<Rightarrow> outcome" where
  "ipv6 = by_pattern_i ipv6_re"

definition lettersonly :: "field_input \<Rightarrow> js_string \<Rightarrow> outcome" where
  "lettersonly = by_pattern_i (re ''^[a-z]+$'')"

definition letterswithbasicpunc :: "field_input \<Rightarrow> js_string \<Rightarrow> outcome" where
  "letterswithbasicpunc = by_pattern_i (re ''^[a-z~-.,()\\'\"~s]+$'')"

definition mobileNL :: "field_input \<Rightarrow> js_string \<Rightarrow> outcome" where
  "mobileNL = by_pattern (re ''^((~+|00(~s|~s?~-~s?)?)31(~s|~s?~-~s?)?(~(0~)[~-~s]?)?|0)6((~s|~s?~-~s?)?[0-9]){8}$'')"

definition netmask_re :: regex where
  "netmask_re = re (''^(254|252|248|240|224|192|128)~.0~.0~.0|255~.(254|252|248|240|224|192|128|0)~.0~.0|255~.'' @
      ''255~.(254|252|248|240|224|192|128|0)~.0|255~.255~.255~.(254|252|248|240|224|192|128|0)'')"

definition netmask :: "field_input \<Rightarrow> js_string \<Rightarrow> outcome" where
  "netmask = by_pattern_i netmask_re"

definition nowhitespace :: "field_input \<Rightarrow> js_string \<Rightarrow> outcome" where
  "nowhitespace = by_pattern_i (re ''^~S+$'')"

definition phoneNL :: "field_input \<Rightarrow> js_string \<Rightarrow> outcome" where
  "phoneNL = by_pattern (re ''^((~+|00(~s|~s?~-~s?)?)31(~s|~s?~-~s?)?(~(0~)[~-~s]?)?|0)[1-9]((~s|~s?~-~s?)?[0-9]){8}$'')"

definition postalcodeBR :: "field_input \<Rightarrow> js_string \<Rightarrow> outcome" where
  "postalcodeBR = by_pattern (re ''^~d{2}.~d{3}-~d{3}?$|^~d{5}-?~d{3}?$'')"

definition postalCodeCA :: "field_input \<Rightarrow> js_string \<Rightarrow> outcome" where
  "postalCodeCA = by_pattern_i (re ''^[ABCEGHJKLMNPRSTVXY]~d[ABCEGHJKLMNPRSTVWXYZ] *~d[ABCEGHJKLMNPRSTVWXYZ]~d$'')"

definition postalcodeIT :: "field_input \<Rightarrow> js_string \<Rightarrow> outcome" where
  "postalcodeIT = by_pattern (re ''^~d{5}$'')"

definition postalcodeNL :: "field_input \<Rightarrow> js_string \<Rightarrow> outcome" where
  "postalcodeNL = by_pattern (re ''^[1-9][0-9]{3}~s?[a-zA-Z]{2}$'')"

definition postcodeUK_re :: regex where
  "postcodeUK_re = re (''^((([A-PR-UWYZ][0-9])|([A-PR-UWYZ][0-9][0-9])|([A-PR-UWYZ][A-HK-Y][0-9])|([A-PR-UWYZ][A-'' @
      ''HK-Y][0-9][0-9])|([A-PR-UWYZ][0-9][A-HJKSTUW])|([A-PR-UWYZ][A-HK-Y][0-9][ABEHMNPRVWXY]))'' @
      ''~s?([0-9][ABD-HJLNP-UW-Z]{2})|(GIR)~s?(0AA))$'')"

definition postcodeUK :: "field_input \<Rightarrow> js_string \<Rightarrow> outcome" where
  "postcodeUK = by_pattern_i postcodeUK_re"

definition time_re :: regex where
  "time_re = re ''^([01]~d|2[0-3]|[0-9])(:[0-5]~d){1,2}$''"

definition time :: "field_input \<Rightarrow> js_string \<Rightarrow> outcome" where
  "time = by_pattern time_re"

definition time12h :: "field_input \<Rightarrow> js_string \<Rightarrow> outcome" where
  "time12h = by_pattern_i (re ''^((0?[1-9]|1[012])(:[0-5]~d){1,2}(~ ?[AP]M))$'')"

definition url2_re :: regex where
  "url2_re = re (''^(https?|ftp):~/~/(((([a-z]|~d|-|~.|_|~x7E|[~u00A0-~uD7FF~uF900-~uFDCF~uFDF0-~uFFEF])|(%'' @
      ''[~da-f]{2})|[!~$&\\'~(~)~*~+,;=]|:)*@)?(((~d|[1-9]~d|1~d~d|2[0-4]~d|25[0-5])~.(~d|[1-9]~d'' @
      ''|1~d~d|2[0-4]~d|25[0-5])~.(~d|[1-9]~d|1~d~d|2[0-4]~d|25[0-5])~.(~d|[1-9]~d|1~d~d|2[0-4]~d'' @
      ''|25[0-5]))|((([a-z]|~d|[~u00A0-~uD7FF~uF900-~uFDCF~uFDF0-~uFFEF])|(([a-z]|~d|[~u00A0-~uD'' @
      ''7FF~uF900-~uFDCF~uFDF0-~uFFEF])([a-z]|~d|-|~.|_|~x7E|[~u00A0-~uD7FF~uF900-~uFDCF~uFDF0-~u'' @
      ''FFEF])*([a-z]|~d|[~u00A0-~uD7FF~uF900-~uFDCF~uFDF0-~uFFEF])))~.)*(([a-z]|[~u00A0-~uD7FF~u'' @
      ''F900-~uFDCF~uFDF0-~uFFEF])|(([a-z]|[~u00A0-~uD7FF~uF900-~uFDCF~uFDF0-~uFFEF])([a-z]|~d|-'' @
      ''|~.|_|~x7E|[~u00A0-~uD7FF~uF900-~uFDCF~uFDF0-~uFFEF])*([a-z]|[~u00A0-~uD7FF~uF900-~uFDCF'' @
      ''~uFDF0-~uFFEF])))~.?)(:~d*)?)(~/((([a-z]|~d|-|~.|_|~x7E|[~u00A0-~uD7FF~uF900-~uFDCF~uFDF'' @
      ''0-~uFFEF])|(%[~da-f]{2})|[!~$&\\'~(~)~*~+,;=]|:|@)+(~/(([a-z]|~d|-|~.|_|~x7E|[~u00A0-~uD'' @
      ''7FF~uF900-~uFDCF~uFDF0-~uFFEF])|(%[~da-f]{2})|[!~$&\\'~(~)~*~+,;=]|:|@)*)*)?)?(~?((([a-z'' @
      '']|~d|-|~.|_|~x7E|[~u00A0-~uD7FF~uF900-~uFDCF~uFDF0-~uFFEF])|(%[~da-f]{2})|[!~$&\\'~(~)~*'' @
      ''~+,;=]|:|@)|[~uE000-~uF8FF]|~/|~?)*)?(#((([a-z]|~d|-|~.|_|~x7E|[~u00A0-~uD7FF~uF900-~uFD'' @
      ''CF~uFDF0-~uFFEF])|(%[~da-f]{2})|[!~$&\\'~(~)~*~+,;=]|:|@)|~/|~?)*)?$'')"

definition url2 :: "field_input \<Rightarrow> js_string \<Rightarrow> outcome" where
  "url2 = by_pattern_i url2_re"

definition zipcodeUS :: "field_input \<Rightarrow> js_string \<Rightarrow> outcome" where
  "zipcodeUS = by_pattern (re ''^~d{5}(-~d{4})?$'')"

definition ziprange_re :: regex where
  "ziprange_re = re ''^90[2-5]~d~{2~}-~d{4}$''"

definition ziprange :: "field_input \<Rightarrow> js_string \<Rightarrow> outcome" where
  "ziprange = by_pattern ziprange_re"

subsection \<open>Phone numbers that are cleaned first\<close>

definition without :: "regex \<Rightarrow> js_string \<Rightarrow> js_string" where
  "without r v = replace_global False r (\<lambda>_. []) v"

definition phone_method :: "regex \<Rightarrow> regex \<Rightarrow> field_input \<Rightarrow> js_string \<Rightarrow> outcome" where
  "phone_method remove r f v =
     (let phone_number = without remove v in
      or_optional f (length phone_number > 9 \<and> test r phone_number))"

definition mobileUK :: "field_input \<Rightarrow> js_string \<Rightarrow> outcome" where
  "mobileUK = phone_method (re ''~(|~)|~s+|-'')
     (re ''^(?:(?:(?:00~s?|~+)44~s?|0)7(?:[1345789]~d{2}|624)~s?~d{3}~s?~d{3})$'')"

definition phonesUK :: "field_input \<Rightarrow> js_string \<Rightarrow> outcome" where
  "phonesUK = phone_method (re ''~(|~)|~s+|-'')
     (re ''^(?:(?:(?:00~s?|~+)44~s?|0)(?:1~d{8,9}|[23]~d{9}|7(?:[1345789]~d{8}|624~d{6})))$'')"

definition phoneUK :: "field_input \<Rightarrow> js_string \<Rightarrow> outcome" where
  "phoneUK = phone_method (re ''~(|~)|~s+|-'')
     (re (''^(?:(?:(?:00~s?|~+)44~s?)|(?:~(?0))(?:~d{2}~)?~s?~d{4}~s?~d{4}|~d{3}~)?~s?~d{3}~s?~d{3,4'' @
      ''}|~d{4}~)?~s?(?:~d{5}|~d{3}~s?~d{3})|~d{5}~)?~s?~d{4,5})$''))"

definition phoneUS :: "field_input \<Rightarrow> js_string \<Rightarrow> outcome" where
  "phoneUS = phone_method (re ''~s+'')
     (re (''^(~+?1-?)?(~([2-9]([02-9]~d|1[02-9])~)|[2-9]([02-9]~d|1[02-9]))-?[2-9]([02-9]~d|1[02-9])'' @
      ''-?~d{4}$''))"

subsection \<open>Counting words\<close>

definition stripHtml :: "js_string \<Rightarrow> js_string" where
  "stripHtml v =
     without (re ''[.(),;:!?%#$\\'~\"_+=~/~-~u201C~u201D~u2019]*'')
       (replace_global True (re ''&nbsp;|&#160;'') (\<lambda>_. js '' '')
         (replace_global False (re ''<.[^<>]*?>'') (\<lambda>_. js '' '') v))"

text \<open>The number of words; without any, \<open>match\<close> is \<open>null\<close>, whose length cannot be read.\<close>

definition word_count :: "js_string \<Rightarrow> nat res" where
  "word_count v =
     (let ws = match_global False (re ''~b~w+~b'') (stripHtml v) in
      if ws = [] then Inl TypeError else Inr (length ws))"

definition count_words :: "(nat \<Rightarrow> bool) \<Rightarrow> field_input \<Rightarrow> js_string \<Rightarrow> outcome res" where
  "count_words ok f v =
     (if optional f then Inr DependencyMismatch
      else bindr (word_count v) (\<lambda>n. Inr (verdict (ok n))))"

definition maxWords :: "nat \<Rightarrow> field_input \<Rightarrow> js_string \<Rightarrow> outcome res" where
  "maxWords k = count_words (\<lambda>n. n \<le> k)"

definition minWords :: "nat \<Rightarrow> field_input \<Rightarrow> js_string \<Rightarrow> outcome res" where
  "minWords k = count_words (\<lambda>n. n \<ge> k)"

definition rangeWords :: "nat \<Rightarrow> nat \<Rightarrow> field_input \<Rightarrow> js_string \<Rightarrow> outcome res" where
  "rangeWords a b = count_words (\<lambda>n. n \<ge> a \<and> n \<le> b)"

subsection \<open>Patterns that are built at run time\<close>

text \<open>\<open>None\<close>: the constructor \<open>RegExp\<close> throws, or the text is outside of the syntax of \<open>parse_regex\<close>.\<close>

definition commas_to_bars :: "js_string \<Rightarrow> js_string" where
  "commas_to_bars s = map (\<lambda>u. if u = 44 then 124 else u) s"

definition type_param :: "js_string option \<Rightarrow> js_string" where
  "type_param param = (case param of Some p \<Rightarrow> without (re ''~s'') p | None \<Rightarrow> js ''image/*'')"

definition escape_types :: "js_string \<Rightarrow> js_string" where
  "escape_types s =
     replace_global False (re ''~/~*'') (\<lambda>_. js ''/.*'')
       (commas_to_bars
         (replace_global False (re ''[~-~[~]~/~{~}~(~)~+~?~.~~~^~$~|]'') (\<lambda>m. 92 # m) s))"

text \<open>The files of a file input are their media types; \<open>None\<close> is any other input.\<close>

definition accept :: "js_string option \<Rightarrow> js_string list option \<Rightarrow> field_input \<Rightarrow> outcome option" where
  "accept param files f =
     (if optional f then Some DependencyMismatch
      else (case files of
              None \<Rightarrow> Some Valid
            | Some ts \<Rightarrow>
                if ts = [] then Some Valid
                else map_option (\<lambda>r. verdict (list_all (test_i r) ts))
                       (parse_regex (js ''.?('' @ escape_types (type_param param) @ js '')$''))))"

definition extension :: "js_string option \<Rightarrow> field_input \<Rightarrow> js_string \<Rightarrow> outcome option" where
  "extension param f v =
     (let p = (case param of Some p \<Rightarrow> commas_to_bars p | None \<Rightarrow> js ''png|jpe?g|gif'') in
      if optional f then Some DependencyMismatch
      else map_option (\<lambda>r. verdict (test_i r v)) (parse_regex (pat ''~.('' @ p @ js '')$'')))"

datatype pattern_param = PatternText js_string | PatternRegex bool regex

definition pattern :: "pattern_param \<Rightarrow> field_input \<Rightarrow> js_string \<Rightarrow> outcome option" where
  "pattern param f v =
     (if optional f then Some Valid
      else (case param of
              PatternText p \<Rightarrow>
                map_option (\<lambda>r. verdict (test r v)) (parse_regex (js ''^(?:'' @ p @ js '')$''))
            | PatternRegex ig r \<Rightarrow> Some (verdict (test_from ig r v))))"

text \<open>A symbol, or a symbol with the flag that requires it.\<close>

datatype currency_param = Symbol js_string | SymbolFlag js_string bool

definition currency_text :: "currency_param \<Rightarrow> js_string" where
  "currency_text param =
     (let symbol = (case param of Symbol s \<Rightarrow> s | SymbolFlag s _ \<Rightarrow> s);
          soft = (case param of Symbol _ \<Rightarrow> True | SymbolFlag _ b \<Rightarrow> b);
          symbol = filter (\<lambda>u. u \<noteq> 44) symbol in
      js ''^['' @ (if soft then symbol @ js '']'' else symbol @ js '']?'') @
      pat (''([1-9]{1}[0-9]{0,2}(~,[0-9]{3})*(~.[0-9]{0,2})?|[1-9]{1}[0-9]{0,}(~.[0-9]{0,2})?|'' @
           ''0(~.[0-9]{0,2})?|(~.[0-9]{1,2})?)$''))"

definition currency :: "currency_param \<Rightarrow> field_input \<Rightarrow> js_string \<Rightarrow> outcome option" where
  "currency param f v =
     map_option (\<lambda>r. or_optional f (test r v)) (parse_regex (currency_text param))"

subsection \<open>States of the United States\<close>

record state_options =
  caseSensitive :: bool
  includeTerritories :: bool
  includeMilitary :: bool

definition default_states :: state_options where
  "default_states = \<lparr>caseSensitive = False, includeTerritories = False, includeMilitary = False\<rparr>"

definition stateUS_re :: "state_options \<Rightarrow> regex" where
  "stateUS_re opts =
     (if \<not> includeTerritories opts \<and> \<not> includeMilitary opts
      then re (''^(A[KLRZ]|C[AOT]|D[CE]|FL|GA|HI|I[ADLN]|K[SY]|LA|M[ADEINOST]|N[CDEHJMVY]|'' @
               ''O[HKR]|PA|RI|S[CD]|T[NX]|UT|V[AT]|W[AIVY])$'')
      else if includeTerritories opts \<and> includeMilitary opts
      then re (''^(A[AEKLPRSZ]|C[AOT]|D[CE]|FL|G[AU]|HI|I[ADLN]|K[SY]|LA|M[ADEINOPST]|N[CDEHJMVY]|'' @
               ''O[HKR]|P[AR]|RI|S[CD]|T[NX]|UT|V[AIT]|W[AIVY])$'')
      else if includeTerritories opts
      then re (''^(A[KLRSZ]|C[AOT]|D[CE]|FL|G[AU]|HI|I[ADLN]|K[SY]|LA|M[ADEINOPST]|N[CDEHJMVY]|'' @
               ''O[HKR]|P[AR]|RI|S[CD]|T[NX]|UT|V[AIT]|W[AIVY])$'')
      else re (''^(A[AEKLPRZ]|C[AOT]|D[CE]|FL|GA|HI|I[ADLN]|K[SY]|LA|M[ADEINOST]|N[CDEHJMVY]|'' @
               ''O[HKR]|PA|RI|S[CD]|T[NX]|UT|V[AT]|W[AIVY])$''))"

definition stateUS :: "state_options option \<Rightarrow> field_input \<Rightarrow> js_string \<Rightarrow> outcome" where
  "stateUS options f v =
     (let opts = (case options of Some q \<Rightarrow> q | None \<Rightarrow> default_states) in
      or_optional f (test_from (\<not> caseSensitive opts) (stateUS_re opts) v))"

definition notEqualTo_method :: "page \<Rightarrow> string \<Rightarrow> field_input \<Rightarrow> js_string \<Rightarrow> outcome" where
  "notEqualTo_method pg s f v = or_optional f (run_method pg f v (equalTo s) \<noteq> Valid)"

subsection \<open>Addresses\<close>

definition octet_re :: regex where
  "octet_re = re ''25[0-5]|2[0-4]~d|[01]?~d~d?''"

lemma octet_re_eq:
  "octet_re =
     Alt (Seq (lit 50) (Seq (lit 53) (Chars False [(48, 53)])))
       (Alt (Seq (lit 50) (Seq (Chars False [(48, 52)]) (Chars False [(48, 57)])))
         (Seq (Rep (Chars False [(48, 48), (49, 49)]) 0 (Some 1) True)
           (Seq (Chars False [(48, 57)]) (Rep (Chars False [(48, 57)]) 0 (Some 1) True))))"
  by code_simp

lemma ipv4_re_eq:
  "ipv4_re =
     Seq Bol (Seq octet_re (Seq (lit 46) (Seq octet_re (Seq (lit 46) (Seq octet_re (Seq (lit 46)
       (Seq octet_re Eol)))))))"
  by code_simp

definition decimal :: "js_string \<Rightarrow> int" where
  "decimal w = foldl (\<lambda>n d. 10 * n + (uint d - 48)) 0 w"

definition all_digits :: "js_string \<Rightarrow> bool" where
  "all_digits w \<longleftrightarrow> (\<forall>u \<in> set w. is_digit u)"

lemma is_digit_uint: "is_digit u \<longleftrightarrow> 48 \<le> uint u \<and> uint u \<le> 57"
  by (simp add: is_digit_def word_le_def)

text \<open>One to three digits with a value of at most 255; leading zeros are allowed.\<close>

definition octet :: "js_string \<Rightarrow> bool" where
  "octet w \<longleftrightarrow> w \<noteq> [] \<and> length w \<le> 3 \<and> all_digits w \<and> decimal w \<le> 255"

lemma octet_lang: "in_lang ig octet_re w \<longleftrightarrow> octet w"
proof -
  consider "w = []" | a where "w = [a]" | a b where "w = [a, b]" | a b c where "w = [a, b, c]"
    | a b c d ds where "w = a # b # c # d # ds"
    by (metis list.exhaust)
  then show ?thesis
    by cases (auto simp: octet_re_eq octet_def front_simps all_digits_def decimal_def is_digit_uint simp del: in_lang.simps(2,3,5))
qed

lemma test_ipv4:
  "test_from ig ipv4_re v \<longleftrightarrow>
     (\<exists>a b c d. v = a @ [46] @ b @ [46] @ c @ [46] @ d \<and> octet a \<and> octet b \<and> octet c \<and> octet d)"
proof -
  let ?r = "Seq octet_re (Seq (lit 46) (Seq octet_re (Seq (lit 46) (Seq octet_re (Seq (lit 46) (Seq octet_re Eps))))))"
  have "in_lang ig (Seq (lit 46) b) w \<longleftrightarrow> (\<exists>t. w = 46 # t \<and> in_lang ig b t)" for b w
    by (auto simp: front_simps word_uint_eq_iff split: list.splits simp del: in_lang.simps(2,3,5))
  then have dot: "in_lang ig (Seq octet_re (Seq (lit 46) b)) w \<longleftrightarrow>
      (\<exists>a t. w = a @ 46 # t \<and> octet a \<and> in_lang ig b t)" for b w
    by (simp only: in_lang.simps(3) [of _ octet_re] octet_lang) blast
  have "test_from ig ipv4_re v \<longleftrightarrow> in_lang ig ?r v"
    unfolding ipv4_re_eq by (rule test_anchored) (simp_all add: octet_re_eq lit_def)
  also have "\<dots> \<longleftrightarrow> (\<exists>a s. v = a @ 46 # s \<and> octet a \<and> (\<exists>b t. s = b @ 46 # t \<and> octet b \<and>
      (\<exists>c d. t = c @ 46 # d \<and> octet c \<and> octet d)))"
    unfolding dot by (simp add: octet_lang)
  also have "\<dots> \<longleftrightarrow> (\<exists>a b c d. v = a @ 46 # b @ 46 # c @ 46 # d \<and> octet a \<and> octet b \<and> octet c \<and> octet d)"
    by metis
  finally show ?thesis by simp
qed

text \<open>A field for the witnesses.\<close>

definition text_field :: "string \<Rightarrow> field_input" where
  "text_field v = \<lparr>in_name = ''value'', in_value = js v, in_visible = True, in_disabled = False\<rparr>"

text \<open>
  \<open>ipv4\<close> accepts exactly four numbers of at most 255 in decimal, with one to three digits each
  and dots between them; numbers with leading zeros are accepted.
\<close>

theorem ipv4_iff:
  assumes "\<not> optional f"
  shows "ipv4 f v = Valid \<longleftrightarrow>
    (\<exists>a b c d. v = a @ [46] @ b @ [46] @ c @ [46] @ d \<and> octet a \<and> octet b \<and> octet c \<and> octet d)"
proof -
  have "ipv4 f v = Valid \<longleftrightarrow> test_i ipv4_re v"
    using assms by (simp add: ipv4_def by_pattern_i_def or_optional_def verdict_def)
  then show ?thesis unfolding test_ipv4 .
qed

lemma ipv4_iff_witness: "ipv4 (text_field ''x'') (js ''192.168.010.1'') = Valid"
proof -
  have "\<not> optional (text_field ''x'')" by code_simp
  moreover have "js ''192.168.010.1'' = js ''192'' @ [46] @ js ''168'' @ [46] @ js ''010'' @ [46] @ js ''1''" by code_simp
  moreover have "octet (js ''192'') \<and> octet (js ''168'') \<and> octet (js ''010'') \<and> octet (js ''1'')" by code_simp
  ultimately show ?thesis using ipv4_iff by metis
qed

subsection \<open>Patterns that miss their purpose\<close>

lemma ziprange_re_eq:
  "ziprange_re = Seq Bol (Seq (lit 57) (Seq (lit 48) (Seq (Chars False [(50, 53)]) (Seq (Chars False [(48, 57)])
     (Seq (lit 123) (Seq (lit 50) (Seq (lit 125) (Seq (lit 45)
       (Seq (Rep (Chars False [(48, 57)]) 4 (Some 4) True) Eol)))))))))"
  by code_simp

text \<open>The braces are escaped: no ZIP code of the range is accepted.\<close>

theorem ziprange_refuses_codes:
  assumes "\<not> optional f" "is_digit c"
  shows "ziprange f (js ''90'' @ [a, b, c] @ s) = Invalid"
proof -
  let ?r = "Seq (lit 57) (Seq (lit 48) (Seq (Chars False [(50, 53)]) (Seq (Chars False [(48, 57)])
     (Seq (lit 123) (Seq (lit 50) (Seq (lit 125) (Seq (lit 45)
       (Seq (Rep (Chars False [(48, 57)]) 4 (Some 4) True) Eps))))))))"
  have "test ziprange_re (57 # 48 # a # b # c # s) \<longleftrightarrow> in_lang False ?r (57 # 48 # a # b # c # s)"
    unfolding ziprange_re_eq by (rule test_anchored) (simp_all add: lit_def)
  also have "\<not> \<dots>"
  proof -
    have "\<not> char_matches False False [(123, 123)] c"
      using assms(2) by (auto simp: char_matches_case is_digit_uint)
    then show ?thesis by (simp add: lit_def lang_front del: in_lang.simps(3))
  qed
  finally show ?thesis using assms(1) by (simp add: ziprange_def by_pattern_def or_optional_def verdict_def js_def)
qed

text \<open>Of the four alternatives only the first is bound to the start, and none to the end.\<close>

definition last_mask_re :: regex where
  "last_mask_re = re ''255~.255~.255~.(254|252|248|240|224|192|128|0)''"

lemma netmask_re_alternatives:
  "netmask_re =
     Alt (re ''^(254|252|248|240|224|192|128)~.0~.0~.0'')
       (Alt (re ''255~.(254|252|248|240|224|192|128|0)~.0~.0'')
         (Alt (re ''255~.255~.(254|252|248|240|224|192|128|0)~.0'') last_mask_re))"
  by code_simp

lemma last_mask_re_eq:
  "\<exists>r1 r2 r3 r4 r5 r6 r7.
     last_mask_re = Seq (lit 50) (Seq (lit 53) (Seq (lit 53) (Seq (lit 46) (Seq (lit 50) (Seq (lit 53) (Seq (lit 53)
       (Seq (lit 46) (Seq (lit 50) (Seq (lit 53) (Seq (lit 53) (Seq (lit 46)
         (Alt r1 (Alt r2 (Alt r3 (Alt r4 (Alt r5 (Alt r6 (Alt r7 (lit 48)))))))))))))))))))"
  unfolding last_mask_re_def by (intro exI) code_simp

theorem netmask_not_anchored:
  assumes "\<not> optional f"
  shows "netmask f (a @ js ''255.255.255.0'' @ b) = Valid"
proof -
  have "in_lang True last_mask_re (js ''255.255.255.0'')"
  proof -
    obtain r1 r2 r3 r4 r5 r6 r7 where "last_mask_re = Seq (lit 50) (Seq (lit 53) (Seq (lit 53) (Seq (lit 46) (Seq (lit 50)
       (Seq (lit 53) (Seq (lit 53) (Seq (lit 46) (Seq (lit 50) (Seq (lit 53) (Seq (lit 53) (Seq (lit 46)
         (Alt r1 (Alt r2 (Alt r3 (Alt r4 (Alt r5 (Alt r6 (Alt r7 (lit 48)))))))))))))))))))"
      using last_mask_re_eq by blast
    note eq = this
    show ?thesis unfolding eq by (simp add: js_def front_simps del: in_lang.simps(2,3,5))
  qed
  moreover have "pure last_mask_re" by code_simp
  ultimately have "test_i netmask_re (a @ js ''255.255.255.0'' @ b)"
    unfolding netmask_re_alternatives test_Alt by (metis test_pure)
  then show ?thesis using assms by (simp add: netmask_def by_pattern_i_def or_optional_def verdict_def)
qed

definition amount_re :: regex where
  "amount_re =
     re (''([1-9]{1}[0-9]{0,2}(~,[0-9]{3})*(~.[0-9]{0,2})?|[1-9]{1}[0-9]{0,}(~.[0-9]{0,2})?|'' @
         ''0(~.[0-9]{0,2})?|(~.[0-9]{1,2})?)'')"

lemma currency_RM:
  "parse_regex (currency_text (Symbol (js ''RM''))) = Some (Seq Bol (Seq (Chars False [(82, 82), (77, 77)]) (Seq amount_re Eol)))"
  by code_simp

lemma amount_re_eq:
  "amount_re =
     (let dot = Chars False [(46, 46)]; nz = Rep (Chars False [(49, 57)]) 1 (Some 1) True; d = Chars False [(48, 57)];
          cents = Rep (Seq dot (Rep d 0 (Some 2) True)) 0 (Some 1) True in
      Alt (Seq nz (Seq (Rep d 0 (Some 2) True)
            (Seq (Rep (Seq (Chars False [(44, 44)]) (Rep d 3 (Some 3) True)) 0 None True) cents)))
       (Alt (Seq nz (Seq (Rep d 0 None True) cents))
         (Alt (Seq (Chars False [(48, 48)]) cents)
           (Rep (Seq dot (Rep d 1 (Some 2) True)) 0 (Some 1) True))))"
  by code_simp

lemma amount_units: "pure amount_re" "classes_within (\<lambda>u. uint u \<noteq> 77) False amount_re"
proof -
  show "pure amount_re" by code_simp
  show "classes_within (\<lambda>u. uint u \<noteq> 77) False amount_re"
    unfolding amount_re_eq Let_def by (simp add: char_matches_case)
qed

text \<open>A symbol of several letters becomes a class of letters, of which a value can have one.\<close>

theorem currency_text_symbol:
  assumes "\<not> optional f"
  shows "currency (Symbol (js ''RM'')) f (js ''RM'' @ v) = Some Invalid"
proof -
  let ?r = "Seq (Chars False [(82, 82), (77, 77)]) (Seq amount_re Eps)"
  have "test (Seq Bol (Seq (Chars False [(82, 82), (77, 77)]) (Seq amount_re Eol))) (js ''RM'' @ v) \<longleftrightarrow>
      in_lang False ?r (js ''RM'' @ v)"
    by (rule test_anchored) (simp_all add: amount_units)
  moreover have "\<not> in_lang False ?r (js ''RM'' @ v)"
  proof -
    have "\<not> in_lang False (Seq amount_re Eps) (77 # v)"
      using lang_units [OF amount_units(2), of "77 # v" 77] by auto
    then show ?thesis by (simp add: js_def lang_front(1) del: in_lang.simps(3))
  qed
  ultimately show ?thesis using assms by (simp add: currency_def currency_RM or_optional_def verdict_def)
qed

end
