(* ===== verification/Checksums.thy ===== *)
theory Checksums
  imports Methods Utf8
begin

text \<open>
  The validation methods of \<open>additional-methods.js\<close> that compute check digits: bank accounts,
  IBAN, credit cards, tax numbers, vehicle numbers; and \<open>dateITA\<close>, which checks a date against
  the calendar. Numbers that may be \<open>NaN\<close> are \<open>jsnum\<close>. The argument \<open>up\<close> is the table of upper
  case beyond ASCII, from a code point to its text.
\<close>

subsection \<open>Upper case, digits\<close>

definition upper_unit :: "(int \<Rightarrow> js_string) \<Rightarrow> 16 word \<Rightarrow> js_string" where
  "upper_unit up u =
     (let n = uint u in
      if n < 128 then [if 97 \<le> n \<and> n \<le> 122 then word_of_int (n - 32) else u] else up n)"

fun toUpperCase :: "(int \<Rightarrow> js_string) \<Rightarrow> js_string \<Rightarrow> js_string" where
  "toUpperCase up [] = []"
| "toUpperCase up [u] = upper_unit up u"
| "toUpperCase up (u # v # s) =
     (if is_high (uint u) \<and> 0xDC00 \<le> uint v \<and> uint v \<le> 0xDFFF
      then up (0x10000 + (uint u - 0xD800) * 0x400 + (uint v - 0xDC00)) @ toUpperCase up s
      else upper_unit up u @ toUpperCase up (v # s))"

text \<open>\<open>parseInt\<close> of one unit, and the number one unit stands for in arithmetic.\<close>

definition parse_unit :: "16 word \<Rightarrow> jsnum" where
  "parse_unit u = (if is_digit u then Num (uint u - 48) else NaN)"

definition unit_number :: "16 word \<Rightarrow> jsnum" where
  "unit_number u =
     (if is_digit u then Num (uint u - 48) else if in_ranges space_ranges (uint u) then Num 0 else NaN)"

text \<open>The sum of the units with descending weights.\<close>

fun weighted :: "(16 word \<Rightarrow> jsnum) \<Rightarrow> int \<Rightarrow> js_string \<Rightarrow> jsnum" where
  "weighted conv w [] = Num 0"
| "weighted conv w (d # ds) = nadd (nmul w (conv d)) (weighted conv (w - 1) ds)"

fun nmod :: "jsnum \<Rightarrow> int \<Rightarrow> jsnum" where
  "nmod (Num a) n = Num (a mod n)"
| "nmod NaN n = NaN"

text \<open>\<open>===\<close> on numbers: \<open>NaN\<close> equals nothing.\<close>

definition neq_nan :: "jsnum \<Rightarrow> jsnum \<Rightarrow> bool" where
  "neq_nan a b \<longleftrightarrow> a = b \<and> a \<noteq> NaN"

definition substring :: "nat \<Rightarrow> nat \<Rightarrow> 'a list \<Rightarrow> 'a list" where
  "substring a b s = take (b - a) (drop a s)"

subsection \<open>Bank accounts\<close>

definition bankaccountNL_re :: regex where
  "bankaccountNL_re = re ''^[0-9]{9}|([0-9]{2} ){3}[0-9]{3}$''"

definition bankaccountNL :: "field_input \<Rightarrow> js_string \<Rightarrow> outcome" where
  "bankaccountNL f v =
     (if optional f then Valid
      else if \<not> test bankaccountNL_re v then Invalid
      else (let account = without (re '' '') v in
            verdict (nmod (weighted unit_number (int (length account)) account) 11 = Num 0)))"

definition bankorgiroaccountNL :: "field_input \<Rightarrow> js_string \<Rightarrow> outcome" where
  "bankorgiroaccountNL f v =
     or_optional f (bankaccountNL f v \<noteq> Invalid \<or> giroaccountNL f v \<noteq> Invalid)"

definition bic_re :: regex where
  "bic_re = re ''^([A-Z]{6}[A-Z2-9][A-NP-Z1-9])(X{3}|[A-WY-Z0-9][A-Z0-9]{2})?$''"

definition bic :: "(int \<Rightarrow> js_string) \<Rightarrow> field_input \<Rightarrow> js_string \<Rightarrow> outcome" where
  "bic up f v = or_optional f (test bic_re (toUpperCase up v))"

subsection \<open>IBAN\<close>

definition bbancountrypatterns :: "(string \<times> string) list" where
  "bbancountrypatterns =
     [(''AL'', ''~d{8}[~dA-Z]{16}''), (''AD'', ''~d{8}[~dA-Z]{12}''), (''AT'', ''~d{16}''),
      (''AZ'', ''[~dA-Z]{4}~d{20}''), (''BE'', ''~d{12}''), (''BH'', ''[A-Z]{4}[~dA-Z]{14}''),
      (''BA'', ''~d{16}''), (''BR'', ''~d{23}[A-Z][~dA-Z]''),
      (''BG'', ''[A-Z]{4}~d{6}[~dA-Z]{8}''), (''CR'', ''~d{17}''), (''HR'', ''~d{17}''),
      (''CY'', ''~d{8}[~dA-Z]{16}''), (''CZ'', ''~d{20}''), (''DK'', ''~d{14}''),
      (''DO'', ''[A-Z]{4}~d{20}''), (''EE'', ''~d{16}''), (''FO'', ''~d{14}''),
      (''FI'', ''~d{14}''), (''FR'', ''~d{10}[~dA-Z]{11}~d{2}''), (''GE'', ''[~dA-Z]{2}~d{16}''),
      (''DE'', ''~d{18}''), (''GI'', ''[A-Z]{4}[~dA-Z]{15}''), (''GR'', ''~d{7}[~dA-Z]{16}''),
      (''GL'', ''~d{14}''), (''GT'', ''[~dA-Z]{4}[~dA-Z]{20}''), (''HU'', ''~d{24}''),
      (''IS'', ''~d{22}''), (''IE'', ''[~dA-Z]{4}~d{14}''), (''IL'', ''~d{19}''),
      (''IT'', ''[A-Z]~d{10}[~dA-Z]{12}''), (''KZ'', ''~d{3}[~dA-Z]{13}''),
      (''KW'', ''[A-Z]{4}[~dA-Z]{22}''), (''LV'', ''[A-Z]{4}[~dA-Z]{13}''),
      (''LB'', ''~d{4}[~dA-Z]{20}''), (''LI'', ''~d{5}[~dA-Z]{12}''), (''LT'', ''~d{16}''),
      (''LU'', ''~d{3}[~dA-Z]{13}''), (''MK'', ''~d{3}[~dA-Z]{10}~d{2}''),
      (''MT'', ''[A-Z]{4}~d{5}[~dA-Z]{18}''), (''MR'', ''~d{23}''),
      (''MU'', ''[A-Z]{4}~d{19}[A-Z]{3}''), (''MC'', ''~d{10}[~dA-Z]{11}~d{2}''),
      (''MD'', ''[~dA-Z]{2}~d{18}''), (''ME'', ''~d{18}''), (''NL'', ''[A-Z]{4}~d{10}''),
      (''NO'', ''~d{11}''), (''PK'', ''[~dA-Z]{4}~d{16}''), (''PS'', ''[~dA-Z]{4}~d{21}''),
      (''PL'', ''~d{24}''), (''PT'', ''~d{21}''), (''RO'', ''[A-Z]{4}[~dA-Z]{16}''),
      (''SM'', ''[A-Z]~d{10}[~dA-Z]{12}''), (''SA'', ''~d{2}[~dA-Z]{18}''), (''RS'', ''~d{18}''),
      (''SK'', ''~d{20}''), (''SI'', ''~d{15}''), (''ES'', ''~d{20}''), (''SE'', ''~d{20}''),
      (''CH'', ''~d{5}[~dA-Z]{12}''), (''TN'', ''~d{20}''), (''TR'', ''~d{5}[~dA-Z]{17}''),
      (''AE'', ''~d{3}~d{16}''), (''GB'', ''[A-Z]{4}~d{14}''), (''VG'', ''[~dA-Z]{4}~d{16}'')]"

definition bbanpattern :: "js_string \<Rightarrow> js_string option" where
  "bbanpattern countrycode =
     map_of (map (\<lambda>(c, p). (js c, pat p)) bbancountrypatterns) countrycode"

text \<open>
  The digits of the check are the decimal positions of the characters in the alphabet; a
  character outside of it contributes \<open>-1\<close>.
\<close>

definition alphabet :: js_string where
  "alphabet = js ''0123456789ABCDEFGHIJKLMNOPQRSTUVWXYZ''"

definition alphabet_index :: "16 word \<Rightarrow> js_string" where
  "alphabet_index u =
     (case indexOf alphabet [u] of Some i \<Rightarrow> show_base 10 i | None \<Rightarrow> js ''-1'')"

fun check_digits :: "bool \<Rightarrow> js_string \<Rightarrow> js_string" where
  "check_digits leadingZeroes [] = []"
| "check_digits leadingZeroes (u # s) =
     (let lz = leadingZeroes \<and> u = 48 in (if lz then [] else alphabet_index u) @ check_digits lz s)"

text \<open>
  One digit of the long division: the remainder so far, printed, with the next character
  behind it, is read as a number. A sign makes it \<open>NaN\<close>, and so do the letters of \<open>NaN\<close>.
\<close>

definition rest_step :: "jsnum option \<Rightarrow> 16 word \<Rightarrow> jsnum option" where
  "rest_step cRest c =
     Some (case cRest of
             None \<Rightarrow> nmod (parse_unit c) 97
           | Some NaN \<Rightarrow> NaN
           | Some (Num r) \<Rightarrow> nmod (nadd (Num (10 * r)) (parse_unit c)) 97)"

text \<open>Spaces are removed; the format of a country that is not listed is not checked.\<close>

definition iban_text :: "(int \<Rightarrow> js_string) \<Rightarrow> js_string \<Rightarrow> js_string" where
  "iban_text up v = toUpperCase up (without (re '' '') v)"

definition country_format :: "js_string \<Rightarrow> bool" where
  "country_format s =
     (case bbanpattern (substring 0 2 s) of
        None \<Rightarrow> True
      | Some p \<Rightarrow>
          (case parse_regex (pat ''^[A-Z]{2}~d{2}'' @ p @ pat ''$'') of
             None \<Rightarrow> False | Some r \<Rightarrow> test r s))"

definition iban_remainder :: "js_string \<Rightarrow> jsnum option" where
  "iban_remainder ibancheck = foldl rest_step None (check_digits True ibancheck)"

definition iban :: "(int \<Rightarrow> js_string) \<Rightarrow> field_input \<Rightarrow> js_string \<Rightarrow> outcome" where
  "iban up f v =
     (if optional f then Valid
      else let s = iban_text up v in
        if length s < 5 then Invalid
        else if \<not> country_format s then Invalid
        else verdict (iban_remainder (drop 4 s @ take 4 s) = Some (Num 1)))"

subsection \<open>Credit cards\<close>

fun luhn_sum :: "bool \<Rightarrow> js_string \<Rightarrow> int" where
  "luhn_sum bEven [] = 0"
| "luhn_sum bEven (d # ds) =
     (let nDigit = uint d - 48;
          nDigit = (if bEven then (if 2 * nDigit > 9 then 2 * nDigit - 9 else 2 * nDigit) else nDigit) in
      nDigit + luhn_sum (\<not> bEven) ds)"

definition only_digits :: "js_string \<Rightarrow> js_string" where
  "only_digits v = without (re ''~D'') v"

definition creditcard :: "field_input \<Rightarrow> js_string \<Rightarrow> outcome" where
  "creditcard f v =
     (if optional f then DependencyMismatch
      else if test (re ''[^0-9 ~-]+'') v then Invalid
      else let value = only_digits v in
        if length value < 13 \<or> length value > 19 then Invalid
        else verdict (luhn_sum False (rev value) mod 10 = 0))"

record card_types =
  mastercard :: bool
  visa :: bool
  amex :: bool
  dinersclub :: bool
  enroute :: bool
  discover :: bool
  jcb :: bool
  unknown :: bool
  all_types :: bool

definition valid_types :: "card_types \<Rightarrow> int" where
  "valid_types p =
     (let set_bit = (\<lambda>b k t. if b then t OR k else t) in
      if all_types p then 0x01 OR 0x02 OR 0x04 OR 0x08 OR 0x10 OR 0x20 OR 0x40 OR 0x80
      else set_bit (unknown p) 0x80 (set_bit (jcb p) 0x40 (set_bit (discover p) 0x20
          (set_bit (enroute p) 0x10 (set_bit (dinersclub p) 0x08 (set_bit (amex p) 0x04
            (set_bit (visa p) 0x02 (set_bit (mastercard p) 0x01 0))))))))"

definition creditcardtypes :: "card_types \<Rightarrow> js_string \<Rightarrow> bool" where
  "creditcardtypes param v =
     (if test (re ''[^0-9~-]+'') v then False
      else let value = only_digits v; validTypes = valid_types param; n = length value in
        if validTypes AND 0x01 \<noteq> 0 \<and> test (re ''^(5[12345])'') value then n = 16
        else if validTypes AND 0x02 \<noteq> 0 \<and> test (re ''^(4)'') value then n = 16
        else if validTypes AND 0x04 \<noteq> 0 \<and> test (re ''^(3[47])'') value then n = 15
        else if validTypes AND 0x08 \<noteq> 0 \<and> test (re ''^(3(0[012345]|[68]))'') value then n = 14
        else if validTypes AND 0x10 \<noteq> 0 \<and> test (re ''^(2(014|149))'') value then n = 15
        else if validTypes AND 0x20 \<noteq> 0 \<and> test (re ''^(6011)'') value then n = 16
        else if validTypes AND 0x40 \<noteq> 0 \<and> test (re ''^(3)'') value then n = 16
        else if validTypes AND 0x40 \<noteq> 0 \<and> test (re ''^(2131|1800)'') value then n = 15
        else validTypes AND 0x80 \<noteq> 0)"

subsection \<open>Tax numbers\<close>

definition cif_re :: regex where
  "cif_re = re ''^([ABCDEFGHJKLMNPQRSUVW])(~d{7})([0-9A-J])$''"

text \<open>The digits of a CIF by position; the even positions, counted from 0, are doubled.\<close>

fun cif_sum :: "bool \<Rightarrow> js_string \<Rightarrow> int" where
  "cif_sum doubled [] = 0"
| "cif_sum doubled (d # ds) =
     (let n = uint d - 48 in
      (if doubled then (if 2 * n < 10 then 2 * n else 2 * n - 9) else n) + cif_sum (\<not> doubled) ds)"

definition cifES :: "field_input \<Rightarrow> js_string \<Rightarrow> outcome" where
  "cifES f v =
     (if optional f then Valid
      else let letter = substring 0 1 v; number = substring 1 8 v; control = substring 8 9 v in
        if length v \<noteq> 9 \<or> \<not> test_i cif_re v then Invalid
        else let all_sum = cif_sum True number;
                 digit = 10 - all_sum mod 10;
                 digit = (if digit > 9 then 0 else digit);
                 control_digit = show_int 10 digit;
                 control_letter = substring (nat digit) (nat digit + 1) (js ''JABCDEFGHI'') in
          if test (re ''[ABEH]'') letter then verdict (control = control_digit)
          else if test (re ''[KPQS]'') letter then verdict (control = control_letter)
          else verdict (control = control_digit \<or> control = control_letter))"

definition cpf_check :: "jsnum \<Rightarrow> jsnum \<Rightarrow> bool" where
  "cpf_check s cn =
     (let result = nmod (nmul 10 s) 11;
          result = (if result = Num 10 \<or> result = Num 11 then Num 0 else result) in
      neq_nan result cn)"

definition cpf_dump :: "js_string \<Rightarrow> bool" where
  "cpf_dump v \<longleftrightarrow> v = [] \<or> list_ex (\<lambda>d. v = replicate 11 (digit_char d)) [0..<10]"

definition cpf_clean :: "js_string \<Rightarrow> js_string" where
  "cpf_clean v = without (re ''([~x7E!@#$%^&*()_+=`{}~[~]~-|~~:;\\'<>,.~/? ])+'') v"

definition cpfBR :: "js_string \<Rightarrow> bool" where
  "cpfBR v =
     (let value = cpf_clean v in
      if length value \<noteq> 11 then False
      else let firstCN = parse_unit (value ! 9); secondCN = parse_unit (value ! 10) in
        if cpf_dump value then False
        else if cpf_check (weighted parse_unit 10 (take 9 value)) firstCN
        then cpf_check (weighted parse_unit 11 (take 10 value)) secondCN
        else False)"

definition nie_letters :: js_string where
  "nie_letters = js ''TRWAGMYFPDXBNJZSQVHLCKET''"

definition char_at :: "js_string \<Rightarrow> jsnum \<Rightarrow> js_string" where
  "char_at s n = (case n of NaN \<Rightarrow> take 1 s | Num i \<Rightarrow> substring (nat i) (nat i + 1) s)"

definition nie_re :: regex where
  "nie_re = re ''^[MXYZ]{1}[0-9]{7,8}[TRWAGMYFPDXBNJZSQVHLCKET]{1}$''"

definition nie_number :: "js_string \<Rightarrow> jsnum" where
  "nie_number v =
     (case v of
        [] \<Rightarrow> NaN
      | c # ds \<Rightarrow>
          let c = (if c = 88 then 48 else if c = 89 then 49 else if c = 90 then 50 else c);
              number = take (if length v = 9 then 8 else 9) (c # ds) in
          if is_digit c then Num (decimal (takeWhile is_digit number)) else NaN)"

definition nieES :: "(int \<Rightarrow> js_string) \<Rightarrow> field_input \<Rightarrow> js_string \<Rightarrow> outcome" where
  "nieES up f v =
     (if optional f then Valid
      else let letter = toUpperCase up (drop (length v - 1) v); value = toUpperCase up v in
        if length value > 10 \<or> length value < 9 \<or> \<not> test_i nie_re value then Invalid
        else verdict (char_at nie_letters (nmod (nie_number value) 23) = letter))"

definition nif_letters :: js_string where
  "nif_letters = js ''TRWAGMYFPDXBNJZSQVHLCKE''"

definition nif_re :: regex where
  "nif_re = re (''((^[A-Z]{1}[0-9]{7}[A-Z0-9]{1}$|^[T]{1}[A-Z0-9]{8}$)|'' @ ''^[0-9]{8}[A-Z]{1}$)'')"

definition nifES :: "(int \<Rightarrow> js_string) \<Rightarrow> field_input \<Rightarrow> js_string \<Rightarrow> outcome" where
  "nifES up f v =
     (if optional f then Valid
      else let value = toUpperCase up v in
        if \<not> test nif_re value then Invalid
        else if test (re ''^[0-9]{8}[A-Z]{1}$'') value
        then verdict (char_at nif_letters (Num (decimal (substring 0 8 value) mod 23)) = substring 8 9 value)
        else if test (re ''^[KLM]{1}'') value
        then verdict (substring 8 9 value = char_at nif_letters (Num (decimal (substring 1 8 value) mod 23)))
        else Invalid)"

definition nip_steps :: "int list" where
  "nip_steps = [6, 5, 7, 2, 3, 4, 5, 6, 7]"

definition nipPL :: "js_string \<Rightarrow> bool" where
  "nipPL v =
     (let value = without (re ''[^0-9]'') v in
      if length value \<noteq> 10 then False
      else let intSum = sum_list (map (\<lambda>(s, d). s * (uint d - 48)) (zip nip_steps value));
               int2 = intSum mod 11;
               intControlNr = (if int2 = 10 then 0 else int2) in
        intControlNr = uint (value ! 9) - 48)"

subsection \<open>Vehicle identification numbers\<close>

text \<open>
  The running sum becomes a string when a unit is neither a number nor a letter of the table.
  \<open>number_of\<close> is the conversion of such a string to a number; what is not an integer counts as
  \<open>NaN\<close>, since only the remainder 10 matters.
\<close>

datatype vin_sum = Total int | Text js_string

definition LL :: js_string where
  "LL = js ''ABCDEFGHJKLMNPRSTUVWXYZ''"

definition VL :: "int list" where
  "VL = [1, 2, 3, 4, 5, 6, 7, 8, 1, 2, 3, 4, 5, 7, 9, 2, 3, 4, 5, 6, 7, 8, 9]"

definition FL :: "int list" where
  "FL = [8, 7, 6, 5, 4, 3, 2, 10, 0, 9, 8, 7, 6, 5, 4, 3, 2]"

fun add_total :: "int \<Rightarrow> vin_sum \<Rightarrow> vin_sum" where
  "add_total k (Total n) = Total (n + k)"
| "add_total k (Text s) = Text (s @ show_int 10 k)"

fun add_text :: "16 word \<Rightarrow> vin_sum \<Rightarrow> vin_sum" where
  "add_text u (Total n) = Text (show_int 10 n @ [u])"
| "add_text u (Text s) = Text (s @ [u])"

text \<open>The check unit \<open>cdv\<close> is \<open>None\<close> before position 8.\<close>

fun vin_loop :: "(int \<Rightarrow> js_string) \<Rightarrow> nat \<Rightarrow> vin_sum \<Rightarrow> 16 word option \<Rightarrow> js_string \<Rightarrow> vin_sum \<times> 16 word option" where
  "vin_loop up i rs cdv [] = (rs, cdv)"
| "vin_loop up i rs cdv (d # ds) =
     (let f = FL ! i; cdv = (if i = 8 then Some d else cdv) in
      case unit_number d of
        Num k \<Rightarrow> vin_loop up (Suc i) (add_total (k * f) rs) cdv ds
      | NaN \<Rightarrow>
          (case upper_unit up d of
             [c] \<Rightarrow>
               (case indexOf LL [c] of
                  Some n \<Rightarrow>
                    vin_loop up (Suc i) (add_total (VL ! n * f) rs)
                      (if n = 8 \<and> (case cdv of None \<Rightarrow> True | Some x \<Rightarrow> unit_number x = NaN)
                       then Some (LL ! n) else cdv) ds
                | None \<Rightarrow> vin_loop up (Suc i) (add_text d rs) cdv ds)
           | _ \<Rightarrow> vin_loop up (Suc i) (add_text d rs) cdv ds))"

text \<open>The remainder is a number, unless it is 10; the check unit is a string.\<close>

definition vinUS :: "(int \<Rightarrow> js_string) \<Rightarrow> (js_string \<Rightarrow> jsnum) \<Rightarrow> js_string \<Rightarrow> bool" where
  "vinUS up number_of v =
     (if length v \<noteq> 17 then False
      else case vin_loop up 0 (Total 0) None v of
        (rs, cdv) \<Rightarrow>
          let cd = nmod (case rs of Total n \<Rightarrow> Num n | Text s \<Rightarrow> number_of s) 11 in
          if cd = Num 10 then cdv = Some 88 else False)"

subsection \<open>Dates of the calendar\<close>

definition leap_year :: "int \<Rightarrow> bool" where
  "leap_year y \<longleftrightarrow> y mod 4 = 0 \<and> (y mod 100 \<noteq> 0 \<or> y mod 400 = 0)"

definition month_days :: "int \<Rightarrow> int \<Rightarrow> int" where
  "month_days y m =
     (if m = 1 then (if leap_year y then 29 else 28) else if m \<in> {3, 5, 8, 10} then 30 else 31)"

text \<open>
  \<open>Date.UTC\<close> of a year, a month from 0 and a day, read back: years up to 99 are those of the
  twentieth century, months carry into the year, days into the months. The fuel is the
  largest day number with two digits.
\<close>

fun carry_days :: "nat \<Rightarrow> int \<Rightarrow> int \<Rightarrow> int \<Rightarrow> int \<times> int \<times> int" where
  "carry_days 0 y m d = (y, m, d)"
| "carry_days (Suc fuel) y m d =
     (if d < 1
      then (let y' = (if m = 0 then y - 1 else y); m' = (if m = 0 then 11 else m - 1) in
            carry_days fuel y' m' (d + month_days y' m'))
      else if d > month_days y m
      then carry_days fuel (if m = 11 then y + 1 else y) (if m = 11 then 0 else m + 1) (d - month_days y m)
      else (y, m, d))"

definition utc_fields :: "int \<Rightarrow> int \<Rightarrow> int \<Rightarrow> int \<times> int \<times> int" where
  "utc_fields y m d =
     (let y = (if 0 \<le> y \<and> y \<le> 99 then 1900 + y else y) in
      carry_days 99 (y + m div 12) (m mod 12) d)"

definition dateITA_re :: regex where
  "dateITA_re = re ''^~d{1,2}~/~d{1,2}~/~d{4}$''"

fun split_on :: "16 word \<Rightarrow> js_string \<Rightarrow> js_string list" where
  "split_on c [] = [[]]"
| "split_on c (u # s) =
     (if u = c then [] # split_on c s
      else (case split_on c s of [] \<Rightarrow> [[u]] | w # ws \<Rightarrow> (u # w) # ws))"

definition dateITA :: "field_input \<Rightarrow> js_string \<Rightarrow> outcome" where
  "dateITA f v =
     (let check =
        (if test dateITA_re v
         then (let adata = split_on 47 v;
                   gg = decimal (adata ! 0); mm = decimal (adata ! 1); aaaa = decimal (adata ! 2) in
               utc_fields aaaa (mm - 1) gg = (aaaa, mm - 1, gg))
         else False) in
      or_optional f check)"

subsection \<open>Cleaning a value\<close>

lemma without_class: "without (Chars neg rs) v = filter (\<lambda>u. \<not> char_matches False neg rs u) v"
proof -
  have "concat (map (\<lambda>p. case p of Inl t \<Rightarrow> [] | Inr u \<Rightarrow> [u]) (pieces fuel False (Chars neg rs) (p, s))) =
      filter (\<lambda>u. \<not> char_matches False neg rs u) s" if "length s < fuel" for fuel p s
    using that
  proof (induction fuel arbitrary: p s)
    case (Suc fuel)
    then show ?case by (cases s) auto
  qed simp
  from this [of v "Suc (length v)" None] show ?thesis
    unfolding without_def replace_global_def all_pieces_def by simp
qed

lemma only_digits_filter: "only_digits v = filter is_digit v"
proof -
  have "re ''~D'' = Chars False [(0, 47), (58, 65535)]" by code_simp
  moreover have "\<not> char_matches False False [(0, 47), (58, 65535)] u \<longleftrightarrow> is_digit u" for u
    using unsigned_less [of u, where 'a = int] by (auto simp: char_matches_def is_digit_uint)
  ultimately show ?thesis by (simp add: only_digits_def without_class)
qed

subsection \<open>Credit cards\<close>

definition luhn_digit :: "bool \<Rightarrow> 16 word \<Rightarrow> int" where
  "luhn_digit bEven d = luhn_sum bEven [d]"

lemma luhn_sum_append: "luhn_sum b (xs @ ys) = luhn_sum b xs + luhn_sum (b = even (length xs)) ys"
proof (induction xs arbitrary: b)
  case (Cons x xs)
  have "((\<not> b) = even (length xs)) = (b = odd (length xs))" by blast
  then show ?case using Cons by (simp add: Let_def)
qed simp

lemma digit_units: "is_digit d \<longleftrightarrow> d \<in> set (map digit_char [0..<10])"
proof
  assume d: "is_digit d"
  have lo: "48 \<le> unat d" and hi: "unat d \<le> 57" using d by (simp_all add: is_digit_def word_le_nat_alt)
  then have "unat d - 48 < 10" "48 + (unat d - 48) = unat d" by linarith+
  then have "d = digit_char (unat d - 48)" by (simp add: digit_char_def)
  moreover have "unat d - 48 \<in> set [0..<10]"
    using \<open>unat d - 48 < 10\<close> by (subst set_upt) simp
  ultimately show "d \<in> set (map digit_char [0..<10])" unfolding set_map by (rule image_eqI)
next
  assume "d \<in> set (map digit_char [0..<10])"
  then show "is_digit d" by (auto intro: is_digit_char)
qed

lemma luhn_digit_table:
  "list_all (\<lambda>x. list_all (\<lambda>y. list_all (\<lambda>b.
       (x \<noteq> y \<longrightarrow> (luhn_digit b x - luhn_digit b y) mod 10 \<noteq> 0) \<and>
       (x \<noteq> y \<longrightarrow> {x, y} \<noteq> {48, 57} \<longrightarrow>
         (luhn_digit b x + luhn_digit (\<not> b) y - luhn_digit b y - luhn_digit (\<not> b) x) mod 10 \<noteq> 0))
     [False, True]) (map digit_char [0..<10])) (map digit_char [0..<10])"
  by code_simp

lemma luhn_digit_differ:
  assumes "is_digit x" "is_digit y" "x \<noteq> y"
  shows "(luhn_digit b x - luhn_digit b y) mod 10 \<noteq> 0"
    and "{x, y} \<noteq> {48, 57} \<Longrightarrow>
      (luhn_digit b x + luhn_digit (\<not> b) y - luhn_digit b y - luhn_digit (\<not> b) x) mod 10 \<noteq> 0"
  using luhn_digit_table assms by (cases b; simp only: list_all_iff digit_units; simp)+

lemma luhn_rev:
  "luhn_sum b (rev (a @ xs @ c)) =
     luhn_sum b (rev c) + luhn_sum (b = even (length c)) (rev xs) +
     luhn_sum ((b = even (length c)) = even (length xs)) (rev a)"
  by (simp add: luhn_sum_append)

lemma luhn_pair: "luhn_sum b [y, x] = luhn_digit b y + luhn_digit (\<not> b) x"
  by (simp add: luhn_digit_def Let_def)

lemma mod10_differ: "(a - b :: int) mod 10 \<noteq> 0 \<Longrightarrow> (c + a + e) mod 10 = 0 \<Longrightarrow> (c + b + e) mod 10 \<noteq> 0"
  by presburger

lemma luhn_substitution:
  assumes "is_digit x" "is_digit y" "x \<noteq> y" "luhn_sum False (rev (a @ [x] @ c)) mod 10 = 0"
  shows "luhn_sum False (rev (a @ [y] @ c)) mod 10 \<noteq> 0"
  using mod10_differ [OF luhn_digit_differ(1) [OF assms(1-3)]] assms(4)
  unfolding luhn_rev [of False a "[x]" c] luhn_rev [of False a "[y]" c] luhn_digit_def by simp

lemma luhn_transposition:
  assumes "is_digit x" "is_digit y" "x \<noteq> y" "{x, y} \<noteq> {48, 57}" "luhn_sum False (rev (a @ [x, y] @ c)) mod 10 = 0"
  shows "luhn_sum False (rev (a @ [y, x] @ c)) mod 10 \<noteq> 0"
proof -
  let ?b = "False = even (length c)"
  have "(luhn_digit ?b y + luhn_digit (\<not> ?b) x - (luhn_digit ?b x + luhn_digit (\<not> ?b) y)) mod 10 \<noteq> 0"
    using luhn_digit_differ(2) [of y x ?b] assms(1-4) by (simp add: insert_commute algebra_simps)
  from mod10_differ [OF this] assms(5) show ?thesis
    unfolding luhn_rev [of False a "[x, y]" c] luhn_rev [of False a "[y, x]" c]
    by (simp add: luhn_pair del: luhn_sum.simps)
qed


lemma card_pattern:
  "test (re ''[^0-9 ~-]+'') v \<longleftrightarrow> (\<exists>u \<in> set v. \<not> is_digit u \<and> u \<noteq> 32 \<and> u \<noteq> 45)"
proof -
  have "re ''[^0-9 ~-]+'' = Rep (Chars True [(48, 57), (32, 32), (45, 45)]) (Suc 0) None True" by code_simp
  then show ?thesis by (auto simp: test_class_some regex_simps is_digit_uint word_uint_eq_iff)
qed

lemma creditcard_iff:
  "creditcard f v = Valid \<longleftrightarrow>
     \<not> optional f \<and> (\<forall>u \<in> set v. is_digit u \<or> u = 32 \<or> u = 45) \<and>
     13 \<le> length (filter is_digit v) \<and> length (filter is_digit v) \<le> 19 \<and>
     luhn_sum False (rev (filter is_digit v)) mod 10 = 0"
  by (auto simp: creditcard_def card_pattern only_digits_filter verdict_def Let_def)

text \<open>
  A credit card number that is accepted is no longer accepted after one of its digits has
  been replaced by another, nor after two neighbouring digits have been exchanged, unless they
  are 0 and 9; whatever separators it is written with.
\<close>

theorem creditcard_detects_errors:
  assumes "is_digit x" "is_digit y" "x \<noteq> y"
  shows "(creditcard f (a @ [x] @ c) = Valid \<longrightarrow> creditcard f (a @ [y] @ c) \<noteq> Valid) \<and>
    (creditcard f (a @ [x, y] @ c) = Valid \<longrightarrow> {x, y} \<noteq> {48, 57} \<longrightarrow>
      creditcard f (a @ [y, x] @ c) \<noteq> Valid)"
  using luhn_substitution [OF assms, of "filter is_digit a" "filter is_digit c"]
    luhn_transposition [OF assms, of "filter is_digit a" "filter is_digit c"] assms(1,2)
  by (simp add: creditcard_iff)

lemma creditcard_detects_errors_witness:
  "creditcard (text_field ''4242'') (js ''4242 4242 4242 4242'') = Valid \<and>
   creditcard (text_field ''4242'') (js ''4242 4242 4242 4241'') \<noteq> Valid \<and>
   creditcard (text_field ''4242'') (js ''4242 4242 4242 4224'') \<noteq> Valid"
proof -
  have ok: "creditcard (text_field ''4242'') (js ''4242 4242 4242 4242'') = Valid" by code_simp
  show ?thesis
    using ok creditcard_detects_errors [of 50 49 "text_field ''4242''" "js ''4242 4242 4242 424''" "[]"]
      creditcard_detects_errors [of 52 50 "text_field ''4242''" "js ''4242 4242 4242 42''" "[]"]
    by (simp add: is_digit_def js_def doubleton_eq_iff)
qed

subsection \<open>IBAN\<close>

definition alnum :: "16 word \<Rightarrow> bool" where
  "alnum u \<longleftrightarrow> is_digit u \<or> 65 \<le> uint u \<and> uint u \<le> 90"

text \<open>The number of ISO 7064: a letter stands for 10 to 35.\<close>

definition number_step :: "int \<Rightarrow> 16 word \<Rightarrow> int" where
  "number_step n u = (if is_digit u then 10 * n + (uint u - 48) else 100 * n + (uint u - 55))"

definition iban_number :: "js_string \<Rightarrow> int" where
  "iban_number s = foldl number_step 0 s"

lemma alphabet_table:
  "list_all (\<lambda>u. alphabet_index u =
       (if is_digit u then [u] else [digit_char (nat (uint u - 55) div 10), digit_char (nat (uint u - 55) mod 10)]))
     alphabet"
  by code_simp

lemma alphabet_eq: "alphabet = map word_of_int ([48..57] @ [65..90])"
  by code_simp

lemma set_alphabet: "u \<in> set alphabet \<longleftrightarrow> alnum u"
proof
  assume "u \<in> set alphabet"
  then show "alnum u" by (auto simp: alphabet_eq alnum_def is_digit_uint uint_word_of_int take_bit_int_eq_self simp del: upto.simps)
next
  assume "alnum u"
  then have "uint u \<in> set ([48..57] @ [65..90])"
    unfolding alnum_def is_digit_uint set_append set_upto Un_iff atLeastAtMost_iff .
  then have "word_of_int (uint u) \<in> set alphabet" unfolding alphabet_eq set_map by (rule imageI)
  then show "u \<in> set alphabet" by simp
qed

lemma indexOf_single_none: "indexOf s [u] = None \<longleftrightarrow> u \<notin> set s"
  by (induction s) auto

lemma alphabet_index_other: "\<not> alnum u \<Longrightarrow> alphabet_index u = js ''-1''"
  using indexOf_single_none [of alphabet u] by (simp add: alphabet_index_def set_alphabet)

lemma rest_step_digit:
  "is_digit c \<Longrightarrow> rest_step (Some (Num (n mod 97))) c = Some (Num ((10 * n + (uint c - 48)) mod 97))"
  unfolding rest_step_def parse_unit_def
  by (simp add: mod_add_left_eq [of "10 * (n mod 97)", symmetric] mod_mult_right_eq) (metis mod_add_left_eq mod_mult_right_eq)

lemma rest_step_None: "rest_step None c = rest_step (Some (Num 0)) c"
  by (cases "parse_unit c") (simp_all add: rest_step_def)

lemma rest_step_NaN [simp]: "rest_step (Some NaN) c = Some NaN"
  by (simp add: rest_step_def)

lemma foldl_NaN [simp]: "foldl rest_step (Some NaN) w = Some NaN"
  by (induction w) simp_all

lemma rest_of_text:
  "foldl rest_step (Some (Num (n mod 97))) (concat (map alphabet_index s)) =
     Some (if list_all alnum s then Num (foldl number_step n s mod 97) else NaN)"
proof (induction s arbitrary: n)
  case (Cons u s)
  show ?case
  proof (cases "alnum u")
    case False
    have "rest_step (Some (Num (n mod 97))) 45 = Some NaN" by (simp add: rest_step_def parse_unit_def is_digit_def)
    then show ?thesis using False by (simp add: alphabet_index_other js_def foldl_NaN)
  next
    case True
    have t: "alphabet_index u = (if is_digit u then [u] else
        [digit_char (nat (uint u - 55) div 10), digit_char (nat (uint u - 55) mod 10)])"
      using alphabet_table True by (simp only: list_all_iff set_alphabet)
    have "foldl rest_step (Some (Num (n mod 97))) (alphabet_index u) = Some (Num (number_step n u mod 97))"
    proof (cases "is_digit u")
      case True
      then show ?thesis using t by (simp add: rest_step_digit number_step_def)
    next
      case False
      then have k: "10 \<le> nat (uint u - 55)" "nat (uint u - 55) \<le> 35" using True by (auto simp: alnum_def)
      let ?k = "nat (uint u - 55)"
      have d: "?k div 10 < 10" "?k mod 10 < 10" using k by auto
      have "foldl rest_step (Some (Num (n mod 97))) (alphabet_index u) =
          Some (Num ((10 * (10 * n + int (?k div 10)) + int (?k mod 10)) mod 97))"
        using t False d by (simp add: rest_step_digit is_digit_char uint_decimal_digit)
      also have "10 * int (?k div 10) + int (?k mod 10) = int ?k"
        by (metis mult_div_mod_eq of_nat_add of_nat_mult of_nat_numeral)
      then have "10 * (10 * n + int (?k div 10)) + int (?k mod 10) = 100 * n + int ?k" by simp
      also have "int ?k = uint u - 55" using k by simp
      finally show ?thesis using False by (simp add: number_step_def)
    qed
    then show ?thesis using True Cons by simp
  qed
qed simp

lemma check_digits_False: "check_digits False s = concat (map alphabet_index s)"
  by (induction s) simp_all

lemma check_digits_True:
  "foldl rest_step (Some (Num 0)) (check_digits True s) = foldl rest_step (Some (Num 0)) (concat (map alphabet_index s))"
proof (induction s)
  case (Cons u s)
  have "alphabet_index 48 = [48]" by code_simp
  moreover have "rest_step (Some (Num 0)) 48 = Some (Num 0)" by code_simp
  ultimately show ?case using Cons by (cases "u = 48") (simp_all add: check_digits_False)
qed simp

lemma iban_remainder_iff: "iban_remainder s = Some (Num 1) \<longleftrightarrow> list_all alnum s \<and> iban_number s mod 97 = 1"
proof -
  have "iban_remainder s = Some (Num 1) \<longleftrightarrow> foldl rest_step (Some (Num 0)) (check_digits True s) = Some (Num 1)"
    by (cases "check_digits True s") (simp_all add: iban_remainder_def rest_step_None)
  also have "\<dots> \<longleftrightarrow> foldl rest_step (Some (Num (0 mod 97))) (concat (map alphabet_index s)) = Some (Num 1)"
    by (simp add: check_digits_True)
  finally show ?thesis unfolding rest_of_text by (auto simp: iban_number_def)
qed

text \<open>
  C40: An IBAN is accepted exactly when its text without spaces and in upper case has at least
  five characters, fits the format of its country, consists of digits and letters only, and the
  number it stands for, with the first four characters moved to the end, is 1 modulo 97: the long
  division over the characters computes this remainder.
\<close>

theorem iban_valid_iff:
  assumes "\<not> optional f"
  shows "iban up f v = Valid \<longleftrightarrow>
    (let s = iban_text up v in
     5 \<le> length s \<and> country_format s \<and> list_all alnum s \<and> iban_number (drop 4 s @ take 4 s) mod 97 = 1)"
proof -
  have "list_all alnum (drop 4 s @ take 4 s) \<longleftrightarrow> list_all alnum s" for s
    by (metis append_take_drop_id list_all_append)
  then show ?thesis
    using assms by (auto simp: iban_def Let_def verdict_def iban_remainder_iff)
qed

lemma iban_valid_iff_witness:
  "iban (\<lambda>_. []) (text_field ''GB'') (js ''gb82 WEST 1234 5698 7654 32'') = Valid"
proof -
  let ?s = "js ''GB82WEST12345698765432''"
  have "\<not> optional (text_field ''GB'')" by code_simp
  moreover have "iban_text (\<lambda>_. []) (js ''gb82 WEST 1234 5698 7654 32'') = ?s" by code_simp
  moreover have "5 \<le> length ?s \<and> country_format ?s \<and> list_all alnum ?s \<and> iban_number (drop 4 ?s @ take 4 ?s) mod 97 = 1"
    by code_simp
  ultimately show ?thesis using iban_valid_iff by metis
qed

subsection \<open>Vehicle identification numbers\<close>

text \<open>One step keeps the check unit, takes it at position 8, or replaces it by J.\<close>

lemma table_unit: "LL ! 8 = 74"
  by code_simp

lemma vin_loop_step:
  "\<exists>rs' cdv'. vin_loop up i rs cdv (d # ds) = vin_loop up (Suc i) rs' cdv' ds \<and>
     (cdv' = (if i = 8 then Some d else cdv) \<or> cdv' = Some 74)"
proof (cases "unit_number d")
  case NaN
  show ?thesis
  proof (cases "\<exists>c n. upper_unit up d = [c] \<and> indexOf LL [c] = Some n")
    case True
    then obtain c n where "upper_unit up d = [c]" "indexOf LL [c] = Some n" by blast
    with NaN show ?thesis by (cases "n = 8") (auto simp: Let_def table_unit)
  next
    case False
    with NaN show ?thesis by (auto simp: Let_def split: list.splits option.splits)
  qed
next
  case (Num k)
  then show ?thesis by (auto simp: Let_def)
qed

lemma vin_loop_check_unit:
  "snd (vin_loop up i rs cdv ds) = Some 88 \<Longrightarrow>
     cdv = Some 88 \<or> i \<le> 8 \<and> 8 - i < length ds \<and> ds ! (8 - i) = 88"
proof (induction ds arbitrary: i rs cdv)
  case (Cons d ds)
  obtain rs' cdv' where step: "vin_loop up i rs cdv (d # ds) = vin_loop up (Suc i) rs' cdv' ds"
      "cdv' = (if i = 8 then Some d else cdv) \<or> cdv' = Some 74"
    using vin_loop_step by metis
  with Cons have "cdv' = Some 88 \<or> Suc i \<le> 8 \<and> 8 - Suc i < length ds \<and> ds ! (8 - Suc i) = 88" by metis
  then show ?case
  proof
    assume "cdv' = Some 88"
    with step(2) show ?thesis by (auto split: if_splits)
  next
    assume later: "Suc i \<le> 8 \<and> 8 - Suc i < length ds \<and> ds ! (8 - Suc i) = 88"
    then have "8 - i = Suc (8 - Suc i)" by linarith
    with later show ?thesis by simp
  qed
qed simp

text \<open>
  A vehicle identification number is accepted only if its check character, the ninth, is X:
  the remainder is compared as a number with the check digit as a string, so every number with
  a check digit is refused, whatever its other characters are.
\<close>

theorem vin_with_check_digit_refused:
  assumes "is_digit (v ! 8)"
  shows "\<not> vinUS up number_of v"
proof
  assume "vinUS up number_of v"
  then have "snd (vin_loop up 0 (Total 0) None v) = Some 88"
    by (auto simp: vinUS_def Let_def split: prod.splits if_splits)
  from vin_loop_check_unit [OF this] have "v ! 8 = 88" by simp
  with assms show False by (simp add: is_digit_def)
qed

lemma vin_with_check_digit_refused_witness: "\<not> vinUS (\<lambda>_. []) (\<lambda>_. NaN) (js ''11111111111111111'')"
  by (rule vin_with_check_digit_refused) code_simp

subsection \<open>Dates\<close>

definition valid_date :: "int \<Rightarrow> int \<Rightarrow> int \<Rightarrow> bool" where
  "valid_date y m d \<longleftrightarrow> 1 \<le> m \<and> m \<le> 12 \<and> 1 \<le> d \<and> d \<le> month_days y (m - 1)"

lemma month_days_bounds: "28 \<le> month_days y m" "month_days y m \<le> 31"
  by (simp_all add: month_days_def)

lemma carry_days_valid: "1 \<le> d \<Longrightarrow> d \<le> month_days y m \<Longrightarrow> carry_days fuel y m d = (y, m, d)"
  by (cases fuel) simp_all

lemma carry_days_less:
  "1 \<le> d \<Longrightarrow> carry_days fuel y m d = (y', m', d') \<Longrightarrow> d' \<le> d"
proof (induction fuel arbitrary: y m d)
  case (Suc fuel)
  show ?case
  proof (cases "d \<le> month_days y m")
    case True
    then show ?thesis using Suc.prems by (simp add: carry_days_valid del: carry_days.simps)
  next
    case False
    then have "d' \<le> d - month_days y m" using Suc by auto
    then show ?thesis using month_days_bounds(1) [of y m] by linarith
  qed
qed simp

lemma carry_days_year: "0 \<le> m \<Longrightarrow> m \<le> 11 \<Longrightarrow> carry_days fuel y m d = (y', m', d') \<Longrightarrow> y - int fuel \<le> y'"
proof (induction fuel arbitrary: y m d)
  case (Suc fuel)
  consider "1 \<le> d" "d \<le> month_days y m"
    | y1 m1 d1 where "carry_days (Suc fuel) y m d = carry_days fuel y1 m1 d1" "y - 1 \<le> y1" "0 \<le> m1" "m1 \<le> 11"
  proof -
    consider "d < 1" | "1 \<le> d" "d \<le> month_days y m" | "1 \<le> d" "\<not> d \<le> month_days y m" by linarith
    then show thesis
    proof cases
      case 1
      let ?y = "if m = 0 then y - 1 else y" and ?m = "if m = 0 then 11 else m - 1"
      show thesis by (rule that(2) [of ?y ?m "d + month_days ?y ?m"]) (use 1 Suc.prems(1,2) in \<open>simp_all add: Let_def\<close>)
    next
      case 2
      then show thesis by (rule that(1))
    next
      case 3
      let ?y = "if m = 11 then y + 1 else y" and ?m = "if m = 11 then 0 else m + 1"
      show thesis by (rule that(2) [of ?y ?m "d - month_days y m"]) (use 3 Suc.prems(1,2) in simp_all)
    qed
  qed
  then show ?case
  proof cases
    case 1
    then show ?thesis using Suc.prems by (simp add: carry_days_valid del: carry_days.simps)
  next
    case (2 y1 m1 d1)
    then have "y1 - int fuel \<le> y'" using Suc by metis
    then show ?thesis using 2(2) by simp
  qed
qed simp

lemma carry_days_same:
  assumes "carry_days (Suc fuel) y m d = (y', m', d)" "0 \<le> d"
  shows "1 \<le> d \<and> d \<le> month_days y m"
proof (cases "d = 0")
  case True
  obtain y1 m1 where "carry_days (Suc fuel) y m 0 = carry_days fuel y1 m1 (month_days y1 m1)"
    by (auto simp: Let_def)
  then have "d = month_days y1 m1"
    using assms(1) True month_days_bounds(1) [of y1 m1] by (simp add: carry_days_valid del: carry_days.simps)
  then show ?thesis using True month_days_bounds(1) [of y1 m1] by simp
next
  case False
  have "d \<le> month_days y m"
  proof (rule ccontr)
    assume more: "\<not> d \<le> month_days y m"
    then obtain y1 m1 where "carry_days (Suc fuel) y m d = carry_days fuel y1 m1 (d - month_days y m)"
      using False assms(2) by auto
    then have "d \<le> d - month_days y m"
      using carry_days_less [of "d - month_days y m" fuel y1 m1] assms(1) more by simp
    then show False using month_days_bounds(1) [of y m] by simp
  qed
  then show ?thesis using False assms(2) by simp
qed

lemma utc_fields_iff:
  assumes "0 \<le> y" "0 \<le> m" "m \<le> 99" "0 \<le> d" "d \<le> 99"
  shows "utc_fields y (m - 1) d = (y, m - 1, d) \<longleftrightarrow> 100 \<le> y \<and> valid_date y m d"
proof
  assume eq: "utc_fields y (m - 1) d = (y, m - 1, d)"
  let ?Y = "if 0 \<le> y \<and> y \<le> 99 then 1900 + y else y"
  have c: "carry_days 99 (?Y + (m - 1) div 12) ((m - 1) mod 12) d = (y, m - 1, d)"
    using eq by (simp add: utc_fields_def Let_def del: carry_days.simps)
  have y: "100 \<le> y"
  proof (rule ccontr)
    assume "\<not> 100 \<le> y"
    moreover have "?Y + (m - 1) div 12 - 99 \<le> y" using carry_days_year [OF _ _ c] by simp
    moreover have "- 1 \<le> (m - 1) div 12" using assms(2) by linarith
    ultimately show False using assms(1) by (simp split: if_splits)
  qed
  have "99 = Suc 98" by simp
  then have v: "1 \<le> d \<and> d \<le> month_days (?Y + (m - 1) div 12) ((m - 1) mod 12)"
    using carry_days_same [of 98] c assms(4) by metis
  with c have "?Y + (m - 1) div 12 = y" "(m - 1) mod 12 = m - 1" by (simp_all only: carry_days_valid prod.inject)
  then show "100 \<le> y \<and> valid_date y m d"
    using v y assms by (auto simp: valid_date_def)
next
  assume "100 \<le> y \<and> valid_date y m d"
  then show "utc_fields y (m - 1) d = (y, m - 1, d)"
    by (simp add: utc_fields_def valid_date_def carry_days_valid del: carry_days.simps)
qed

lemma dateITA_re_eq:
  "dateITA_re = Seq Bol (Seq (Rep (Chars False [(48, 57)]) (Suc 0) (Some 2) True) (Seq (lit 47)
     (Seq (Rep (Chars False [(48, 57)]) (Suc 0) (Some 2) True) (Seq (lit 47)
       (Seq (Rep (Chars False [(48, 57)]) 4 (Some 4) True) Eol)))))"
  by code_simp

lemma digits_class: "(\<forall>u \<in> set w. char_matches ig False [(48, 57)] u) \<longleftrightarrow> all_digits w"
  by (auto simp: all_digits_def is_digit_uint regex_simps)

definition date_text :: "js_string \<Rightarrow> js_string \<Rightarrow> js_string \<Rightarrow> js_string \<Rightarrow> bool" where
  "date_text v d m y \<longleftrightarrow>
     v = d @ [47] @ m @ [47] @ y \<and> all_digits d \<and> length d \<in> {1, 2} \<and> all_digits m \<and> length m \<in> {1, 2} \<and>
     all_digits y \<and> length y = 4"

lemma test_dateITA: "test dateITA_re v \<longleftrightarrow> (\<exists>d m y. date_text v d m y)"
proof -
  let ?D = "\<lambda>a b. Rep (Chars False [(48, 57)]) a (Some b) True"
  let ?r = "Seq (?D (Suc 0) 2) (Seq (lit 47) (Seq (?D (Suc 0) 2) (Seq (lit 47) (Seq (?D 4 4) Eps))))"
  have "in_lang False (Seq (lit 47) b) w \<longleftrightarrow> (\<exists>t. w = 47 # t \<and> in_lang False b t)" for b w
    by (auto simp: front_simps word_uint_eq_iff split: list.splits simp del: in_lang.simps(2,3,5))
  then have slash: "in_lang False (Seq a (Seq (lit 47) b)) w \<longleftrightarrow>
      (\<exists>u t. w = u @ 47 # t \<and> in_lang False a u \<and> in_lang False b t)" for a b w
    by (simp only: in_lang.simps(3) [of _ a]) blast
  have D: "in_lang False (?D a b) w \<longleftrightarrow> all_digits w \<and> a \<le> length w \<and> length w \<le> b" for a b w
    by (simp add: lang_class_rep digits_class within_def del: in_lang.simps)
  have two: "Suc 0 \<le> n \<and> n \<le> 2 \<longleftrightarrow> n \<in> {1, 2}" for n :: nat by auto
  have four: "4 \<le> n \<and> n \<le> 4 \<longleftrightarrow> n = 4" for n :: nat by auto
  have last: "in_lang False (Seq (?D 4 4) Eps) w \<longleftrightarrow> in_lang False (?D 4 4) w" for w by simp
  have "test dateITA_re v \<longleftrightarrow> in_lang False ?r v"
    unfolding dateITA_re_eq by (rule test_anchored) (simp_all add: lit_def)
  also have "\<dots> \<longleftrightarrow> (\<exists>d s. v = d @ 47 # s \<and> (all_digits d \<and> length d \<in> {1, 2}) \<and>
      (\<exists>m y. s = m @ 47 # y \<and> (all_digits m \<and> length m \<in> {1, 2}) \<and> all_digits y \<and> length y = 4))"
    unfolding slash last D two four ..
  also have "\<dots> \<longleftrightarrow> (\<exists>d m y. v = d @ 47 # m @ 47 # y \<and> (all_digits d \<and> length d \<in> {1, 2}) \<and>
      (all_digits m \<and> length m \<in> {1, 2}) \<and> all_digits y \<and> length y = 4)" by metis
  finally show ?thesis by (simp only: date_text_def append_Cons append_Nil conj_assoc)
qed

lemma split_on_last: "c \<notin> set s \<Longrightarrow> split_on c s = [s]"
  by (induction s) auto

lemma split_on_append: "c \<notin> set w \<Longrightarrow> split_on c (w @ c # s) = w # split_on c s"
  by (induction w) auto

lemma split_date: "date_text v d m y \<Longrightarrow> split_on 47 v = [d, m, y]"
proof -
  assume t: "date_text v d m y"
  have "all_digits w \<Longrightarrow> 47 \<notin> set w" for w by (auto simp: all_digits_def is_digit_def)
  then show ?thesis using t by (simp add: date_text_def split_on_append split_on_last)
qed

lemma decimal_bounds:
  assumes "all_digits w"
  shows "0 \<le> decimal w" and "length w \<in> {1, 2} \<Longrightarrow> decimal w \<le> 99"
proof -
  have "0 \<le> n \<Longrightarrow> all_digits w \<Longrightarrow> 0 \<le> foldl (\<lambda>n d. 10 * n + (uint d - 48)) n w" for n
    by (induction w arbitrary: n) (auto simp: all_digits_def is_digit_uint)
  then show "0 \<le> decimal w" using assms by (simp add: decimal_def)
  assume "length w \<in> {1, 2}"
  then show "decimal w \<le> 99"
    using assms by (auto simp: decimal_def all_digits_def is_digit_uint length_Suc_conv numeral_2_eq_2)
qed

text \<open>
  \<open>dateITA\<close> accepts exactly the dates of the calendar in the form day, month and four digits
  of the year from the year 100 on; the dates of the years 0 to 99 are refused, because
  \<open>Date.UTC\<close> takes these for years of the twentieth century.
\<close>

theorem dateITA_iff:
  assumes "\<not> optional f"
  shows "dateITA f v = Valid \<longleftrightarrow>
    (\<exists>d m y. date_text v d m y \<and> 100 \<le> decimal y \<and> valid_date (decimal y) (decimal m) (decimal d))"
proof -
  have "utc_fields (decimal y) (decimal m - 1) (decimal d) = (decimal y, decimal m - 1, decimal d) \<longleftrightarrow>
      100 \<le> decimal y \<and> valid_date (decimal y) (decimal m) (decimal d)" if "date_text v d m y" for d m y
    using that by (intro utc_fields_iff) (auto simp: date_text_def intro: decimal_bounds)
  then show ?thesis
    using assms split_date [of v]
    by (auto simp: dateITA_def or_optional_def verdict_def Let_def test_dateITA) (metis list.inject)+
qed

lemma dateITA_iff_witness: "dateITA (text_field ''x'') (js ''29/02/2000'') = Valid"
proof -
  have "date_text (js ''29/02/2000'') (js ''29'') (js ''02'') (js ''2000'') \<and> 100 \<le> decimal (js ''2000'') \<and>
      valid_date (decimal (js ''2000'')) (decimal (js ''02'')) (decimal (js ''29''))" by code_simp
  moreover have "\<not> optional (text_field ''x'')" by code_simp
  ultimately show ?thesis using dateITA_iff by blast
qed

end
