(* ===== verification/Json_View.thy ===== *)
theory Json_View
  imports Regex
begin

text \<open>
  The view of a JSON value that \<open>api.html\<close> shows
  (\<open>static/components/jquery-jsonview/dist/js/jquery.jsonview.js\<close>): \<open>JSONFormatter\<close> writes the value
  as markup, which the browser reads. The model has the markup as a string, the reading of markup
  by a browser as a state machine over its units, and the tree that is meant. A view whose options
  leave the escaping on is read as that tree: the data appears as text only, it starts no element
  and no attribute, links lead to web pages or files, and the text of the view is the JSON text of
  the value. \<open>Json_Collapser\<close> goes on with the tree.
\<close>

subsection \<open>Values\<close>

text \<open>
  A value by the class that \<open>Object.prototype.toString\<close> gives it. A number is given by its decimal
  text, an object by the pairs that \<open>for ... in\<close> enumerates; \<open>JOther\<close> is a value of another class
  (a date, a function), by the name of the class in lower case.
\<close>

datatype json =
    JNull
  | JUndefined
  | JNumber js_string
  | JString js_string
  | JBool bool
  | JArray "json list"
  | JObject "(js_string \<times> json) list"
  | JOther js_string

record view_options =
  collapsed :: bool
  nl2br :: bool
  recursive_collapser :: bool
  escape_keys :: bool
  strict :: bool

definition defaultOptions :: view_options where
  "defaultOptions =
     \<lparr>collapsed = False, nl2br = False, recursive_collapser = False, escape_keys = True, strict = False\<rparr>"

definition value_type :: "json \<Rightarrow> js_string" where
  "value_type v =
     (case v of
        JNull \<Rightarrow> js ''null''
      | JUndefined \<Rightarrow> js ''undefined''
      | JNumber t \<Rightarrow> js ''number''
      | JString s \<Rightarrow> js ''string''
      | JBool b \<Rightarrow> js ''boolean''
      | JArray vs \<Rightarrow> js ''array''
      | JObject ms \<Rightarrow> js ''object''
      | JOther c \<Rightarrow> c)"

definition JSON_VALUE_TYPES :: "js_string list" where
  "JSON_VALUE_TYPES =
     [js ''object'', js ''array'', js ''number'', js ''string'', js ''boolean'', js ''null'']"

text \<open>\<open>jQuery.inArray\<close>: the position, or -1.\<close>

fun inArray :: "'a \<Rightarrow> 'a list \<Rightarrow> int" where
  "inArray x [] = - 1"
| "inArray x (y # ys) = (if x = y then 0 else let n = inArray x ys in if n < 0 then - 1 else n + 1)"

subsection \<open>Escaping\<close>

text \<open>\<open>replace\<close> with the flag \<open>g\<close> and a pattern of one unit.\<close>

definition replace_units :: "16 word \<Rightarrow> js_string \<Rightarrow> js_string \<Rightarrow> js_string" where
  "replace_units u t s = concat (map (\<lambda>x. if x = u then t else [x]) s)"

definition htmlEncode :: "js_string \<Rightarrow> js_string" where
  "htmlEncode s =
     replace_units 62 (js ''&gt;'')
       (replace_units 60 (js ''&lt;'')
         (replace_units 34 (js ''&quot;'')
           (replace_units 38 (js ''&amp;'') s)))"

text \<open>
  \<open>JSON.stringify\<close> of a string: control characters, quotes, backslashes and unpaired surrogates are
  escaped.
\<close>

definition hex4 :: "16 word \<Rightarrow> js_string" where
  "hex4 u =
     map digit_char [unat u div 4096 mod 16, unat u div 256 mod 16, unat u div 16 mod 16, unat u mod 16]"

definition unicode_escape :: "16 word \<Rightarrow> js_string" where
  "unicode_escape u = [92, 117] @ hex4 u"

definition is_lead :: "16 word \<Rightarrow> bool" where
  "is_lead u \<longleftrightarrow> 0xD800 \<le> u \<and> u \<le> 0xDBFF"

definition is_trail :: "16 word \<Rightarrow> bool" where
  "is_trail u \<longleftrightarrow> 0xDC00 \<le> u \<and> u \<le> 0xDFFF"

definition quote_unit :: "16 word \<Rightarrow> js_string" where
  "quote_unit u =
     (if u = 8 then [92, 98]
      else if u = 9 then [92, 116]
      else if u = 10 then [92, 110]
      else if u = 12 then [92, 102]
      else if u = 13 then [92, 114]
      else if u = 34 then [92, 34]
      else if u = 92 then [92, 92]
      else if u < 32 \<or> is_lead u \<or> is_trail u then unicode_escape u
      else [u])"

fun quote_units :: "js_string \<Rightarrow> js_string" where
  "quote_units [] = []"
| "quote_units [u] = quote_unit u"
| "quote_units (u # v # s) =
     (if is_lead u \<and> is_trail v then u # v # quote_units s
      else quote_unit u @ quote_units (v # s))"

definition stringify :: "js_string \<Rightarrow> js_string" where
  "stringify s = [34] @ quote_units s @ [34]"

text \<open>\<open>slice(1, -1)\<close> of a string.\<close>

definition slice_ends :: "js_string \<Rightarrow> js_string" where
  "slice_ends s = butlast (tl s)"

definition jsString :: "js_string \<Rightarrow> js_string" where
  "jsString s = htmlEncode (slice_ends (stringify s))"

definition decorateWithSpan :: "js_string \<Rightarrow> js_string \<Rightarrow> js_string" where
  "decorateWithSpan v className =
     js ''<span class='' @ [34] @ className @ [34] @ js ''>'' @ htmlEncode v @ js ''</span>''"

subsection \<open>Values as markup\<close>

definition nullToHTML :: js_string where
  "nullToHTML = decorateWithSpan (js ''null'') (js ''null'')"

definition undefinedToHTML :: js_string where
  "undefinedToHTML = decorateWithSpan (js ''undefined'') (js ''undefined'')"

definition numberToHTML :: "js_string \<Rightarrow> js_string" where
  "numberToHTML t = decorateWithSpan t (js ''num'')"

definition booleanToHTML :: "bool \<Rightarrow> js_string" where
  "booleanToHTML b = decorateWithSpan (js (if b then ''true'' else ''false'')) (js ''bool'')"

definition url_pattern :: regex where
  "url_pattern = re ''^(http|https|file):~/~/[^~s]+$''"

definition newLinePattern :: regex where
  "newLinePattern = re ''([^>~~r~~n]?)(~~r~~n|~~n~~r|~~r|~~n)''"

text \<open>
  The first group of \<open>newLinePattern\<close> takes one unit, not a backslash, or nothing; the second
  starts with a backslash. So the first group is the first unit of the match unless that is a
  backslash.
\<close>

definition line_break :: "js_string \<Rightarrow> js_string" where
  "line_break m = (if hd m = 92 then [] else [hd m]) @ js ''<br />''"

definition quote_span :: js_string where
  "quote_span = js ''<span class='' @ [34] @ js ''q'' @ [34] @ js ''>'' @ [34] @ js ''</span>''"

definition stringToHTML :: "view_options \<Rightarrow> js_string \<Rightarrow> js_string" where
  "stringToHTML opts s =
     (if test_i url_pattern s
      then js ''<a href='' @ [34] @ htmlEncode s @ [34] @ js ''>'' @ quote_span @ jsString s @ quote_span @ js ''</a>''
      else let v = jsString s;
               broken = nl2br opts \<and> test newLinePattern v;
               multilineClass = (if broken then js '' multiline'' else []);
               v' = (if broken then replace_global False newLinePattern line_break v else v)
           in js ''<span class='' @ [34] @ js ''string'' @ multilineClass @ [34] @ js ''>'' @
              [34] @ v' @ [34] @ js ''</span>'')"

text \<open>The end of \<open>arrayToHTML\<close> and of \<open>objectToHTML\<close>: the brackets around the items.\<close>

definition list_html :: "js_string \<Rightarrow> nat \<Rightarrow> js_string \<Rightarrow> js_string" where
  "list_html kind level output =
     js ''<ul class='' @ [34] @ kind @ js '' level'' @ show_base 10 level @
       (if level = 0 then [] else js '' collapsible'') @ [34] @ js ''>'' @ output @ js ''</ul>''"

definition array_html :: "nat \<Rightarrow> bool \<Rightarrow> js_string \<Rightarrow> js_string" where
  "array_html level hasContents output =
     (if hasContents then js ''['' @ list_html (js ''array'') level output @ js '']'' else js ''[ ]'')"

definition object_html :: "nat \<Rightarrow> bool \<Rightarrow> js_string \<Rightarrow> js_string" where
  "object_html level hasContents output =
     (if hasContents then js ''{'' @ list_html (js ''obj'') level output @ js ''}'' else js ''{ }'')"

definition key_html :: "view_options \<Rightarrow> js_string \<Rightarrow> js_string" where
  "key_html opts prop =
     js ''<li><a class='' @ [34] @ js ''prop'' @ [34] @ js '' href='' @ [34] @ js ''javascript:;'' @ [34] @ js ''>'' @
     quote_span @ (if escape_keys opts then jsString prop else prop) @ quote_span @ js ''</a>: ''"

text \<open>
  \<open>valueToHTML\<close> with the loops of \<open>arrayToHTML\<close> and \<open>objectToHTML\<close>; \<open>numProps\<close> counts the items that
  are left. In strict mode the result of \<open>inArray\<close> is negated as a number, so the test is true at the
  position 0. A value of another class has no method of its own: the call throws.
\<close>

fun valueToHTML :: "view_options \<Rightarrow> nat \<Rightarrow> json \<Rightarrow> js_string res"
  and array_loop :: "view_options \<Rightarrow> nat \<Rightarrow> nat \<Rightarrow> json list \<Rightarrow> js_string res"
  and object_loop :: "view_options \<Rightarrow> nat \<Rightarrow> nat \<Rightarrow> (js_string \<times> json) list \<Rightarrow> js_string res" where
  "valueToHTML opts level v =
     (if strict opts \<and> inArray (value_type v) JSON_VALUE_TYPES = 0
      then Inl (Error (value_type v @ js '' is not a valid JSON value type''))
      else case v of
             JNull \<Rightarrow> Inr nullToHTML
           | JUndefined \<Rightarrow> Inr undefinedToHTML
           | JNumber t \<Rightarrow> Inr (numberToHTML t)
           | JString s \<Rightarrow> Inr (stringToHTML opts s)
           | JBool b \<Rightarrow> Inr (booleanToHTML b)
           | JArray vs \<Rightarrow>
               bindr (array_loop opts level (length vs) vs)
                 (\<lambda>output. Inr (array_html level (vs \<noteq> []) output))
           | JObject ms \<Rightarrow>
               bindr (object_loop opts level (length ms) ms)
                 (\<lambda>output. Inr (object_html level (ms \<noteq> []) output))
           | JOther c \<Rightarrow> Inl TypeError)"
| "array_loop opts level numProps [] = Inr []"
| "array_loop opts level numProps (v # vs) =
     bindr (valueToHTML opts (level + 1) v) (\<lambda>html.
     bindr (array_loop opts level (numProps - 1) vs) (\<lambda>rest.
     Inr (js ''<li>'' @ html @ (if 1 < numProps then js '','' else []) @ js ''</li>'' @ rest)))"
| "object_loop opts level numProps [] = Inr []"
| "object_loop opts level numProps ((prop, v) # ms) =
     bindr (valueToHTML opts (level + 1) v) (\<lambda>html.
     bindr (object_loop opts level (numProps - 1) ms) (\<lambda>rest.
     Inr (key_html opts prop @ html @ (if 1 < numProps then js '','' else []) @ js ''</li>'' @ rest)))"

definition jsonToHTML :: "view_options \<Rightarrow> json \<Rightarrow> js_string res" where
  "jsonToHTML opts v =
     bindr (valueToHTML opts 0 v) (\<lambda>html.
     Inr (js ''<div class='' @ [34] @ js ''jsonview'' @ [34] @ js ''>'' @ html @ js ''</div>''))"


subsection \<open>Reading markup\<close>

text \<open>
  The tokenizer of the HTML standard, restricted to tags with attributes in double quotes and to the
  four named characters; everything else is not read (\<open>None\<close>). A null unit in an attribute becomes
  the replacement character.
\<close>

datatype token =
    Open js_string "(js_string \<times> js_string) list"
  | Close js_string
  | Unit "16 word"

datatype reading =
    Data
  | TagOpen
  | TagName bool js_string
  | BeforeAttr js_string "(js_string \<times> js_string) list"
  | AttrName js_string "(js_string \<times> js_string) list" js_string
  | BeforeValue js_string "(js_string \<times> js_string) list" js_string
  | Value js_string "(js_string \<times> js_string) list" js_string js_string
  | AfterValue js_string "(js_string \<times> js_string) list"
  | DataRef js_string
  | ValueRef js_string "(js_string \<times> js_string) list" js_string js_string js_string

definition is_lower :: "16 word \<Rightarrow> bool" where
  "is_lower u \<longleftrightarrow> 97 \<le> u \<and> u \<le> 122"

definition char_ref :: "js_string \<Rightarrow> 16 word option" where
  "char_ref name =
     (if name = js ''amp'' then Some 38 else if name = js ''quot'' then Some 34
      else if name = js ''lt'' then Some 60 else if name = js ''gt'' then Some 62 else None)"

fun read_unit :: "reading \<Rightarrow> 16 word \<Rightarrow> (reading \<times> token list) option" where
  "read_unit Data u =
     (if u = 38 then Some (DataRef [], [])
      else if u = 60 then Some (TagOpen, [])
      else if u = 0 \<or> u = 13 then None
      else Some (Data, [Unit u]))"
| "read_unit TagOpen u =
     (if u = 47 then Some (TagName False [], [])
      else if is_lower u then Some (TagName True [u], []) else None)"
| "read_unit (TagName opening name) u =
     (if is_lower u then Some (TagName opening (name @ [u]), [])
      else if name = [] then None
      else if u = 62 then Some (Data, [if opening then Open name [] else Close name])
      else if u = 32 \<and> opening then Some (BeforeAttr name [], []) else None)"
| "read_unit (BeforeAttr tag as) u =
     (if is_lower u then Some (AttrName tag as [u], []) else None)"
| "read_unit (AttrName tag as n) u =
     (if is_lower u then Some (AttrName tag as (n @ [u]), [])
      else if u = 61 then Some (BeforeValue tag as n, []) else None)"
| "read_unit (BeforeValue tag as n) u =
     (if u = 34 then Some (Value tag as n [], []) else None)"
| "read_unit (Value tag as n v) u =
     (if u = 34 then Some (AfterValue tag (as @ [(n, v)]), [])
      else if u = 38 then Some (ValueRef tag as n v [], [])
      else if u = 0 then Some (Value tag as n (v @ [0xFFFD]), [])
      else if u = 13 then None
      else Some (Value tag as n (v @ [u]), []))"
| "read_unit (AfterValue tag as) u =
     (if u = 32 then Some (BeforeAttr tag as, [])
      else if u = 62 then Some (Data, [Open tag as]) else None)"
| "read_unit (DataRef name) u =
     (if is_lower u then Some (DataRef (name @ [u]), [])
      else if u = 59 then map_option (\<lambda>c. (Data, [Unit c])) (char_ref name) else None)"
| "read_unit (ValueRef tag as n v name) u =
     (if is_lower u then Some (ValueRef tag as n v (name @ [u]), [])
      else if u = 59 then map_option (\<lambda>c. (Value tag as n (v @ [c]), [])) (char_ref name) else None)"

fun reads :: "reading \<Rightarrow> js_string \<Rightarrow> (reading \<times> token list) option" where
  "reads st [] = Some (st, [])"
| "reads st (u # s) =
     (case read_unit st u of
        None \<Rightarrow> None
      | Some (st', ts) \<Rightarrow> map_option (\<lambda>(st'', us). (st'', ts @ us)) (reads st' s))"

definition read_html :: "js_string \<Rightarrow> token list option" where
  "read_html s = (case reads Data s of Some (Data, ts) \<Rightarrow> Some ts | _ \<Rightarrow> None)"

subsection \<open>The tree of a value\<close>

text \<open>The flag of an element says whether its style hides it.\<close>

datatype dom =
    Txt js_string
  | El js_string "(js_string \<times> js_string) list" bool "dom list"

fun tokens :: "dom \<Rightarrow> token list" where
  "tokens (Txt s) = map Unit s"
| "tokens (El tag as hidden ds) = Open tag as # concat (map tokens ds) @ [Close tag]"

fun dom_text :: "dom \<Rightarrow> js_string" where
  "dom_text (Txt s) = s"
| "dom_text (El tag as hidden ds) = concat (map dom_text ds)"

fun put_before :: "js_string \<Rightarrow> dom list \<Rightarrow> dom list" where
  "put_before s (Txt t # ds) = Txt (s @ t) # ds"
| "put_before s ds = Txt s # ds"

fun put_after :: "dom list \<Rightarrow> js_string \<Rightarrow> dom list" where
  "put_after [] s = [Txt s]"
| "put_after [Txt t] s = [Txt (t @ s)]"
| "put_after (d # ds) s = d # put_after ds s"

definition class_attr :: "js_string \<Rightarrow> js_string \<times> js_string" where
  "class_attr c = (js ''class'', c)"

definition plain_span :: "js_string \<Rightarrow> js_string \<Rightarrow> dom list" where
  "plain_span c s = [El (js ''span'') [class_attr c] False [Txt s]]"

definition quote_node :: dom where
  "quote_node = El (js ''span'') [class_attr (js ''q'')] False [Txt [34]]"

definition quoted_nodes :: "js_string \<Rightarrow> dom list" where
  "quoted_nodes s =
     [quote_node] @ (if s = [] then [] else [Txt (quote_units s)]) @ [quote_node]"

definition attr_units :: "js_string \<Rightarrow> js_string" where
  "attr_units s = map (\<lambda>u. if u = 0 then 0xFFFD else u) s"

definition string_nodes :: "js_string \<Rightarrow> dom list" where
  "string_nodes s =
     (if test_i url_pattern s
      then [El (js ''a'') [(js ''href'', attr_units s)] False (quoted_nodes s)]
      else plain_span (js ''string'') (stringify s))"

definition list_class :: "js_string \<Rightarrow> nat \<Rightarrow> js_string" where
  "list_class kind level =
     kind @ js '' level'' @ show_base 10 level @ (if level = 0 then [] else js '' collapsible'')"

definition list_node :: "js_string \<Rightarrow> nat \<Rightarrow> dom list \<Rightarrow> dom" where
  "list_node kind level items = El (js ''ul'') [class_attr (list_class kind level)] False items"

definition key_node :: "js_string \<Rightarrow> dom" where
  "key_node prop =
     El (js ''a'') [class_attr (js ''prop''), (js ''href'', js ''javascript:;'')] False (quoted_nodes prop)"

definition comma :: "bool \<Rightarrow> dom list \<Rightarrow> dom list" where
  "comma follows ds = (if follows then put_after ds (js '','') else ds)"

text \<open>The nodes of a value, the items of an array, the items of an object.\<close>

fun value_nodes :: "nat \<Rightarrow> json \<Rightarrow> dom list"
  and array_items :: "nat \<Rightarrow> json list \<Rightarrow> dom list"
  and object_items :: "nat \<Rightarrow> (js_string \<times> json) list \<Rightarrow> dom list" where
  "value_nodes level JNull = plain_span (js ''null'') (js ''null'')"
| "value_nodes level JUndefined = plain_span (js ''undefined'') (js ''undefined'')"
| "value_nodes level (JNumber t) = plain_span (js ''num'') t"
| "value_nodes level (JString s) = string_nodes s"
| "value_nodes level (JBool b) = plain_span (js ''bool'') (js (if b then ''true'' else ''false''))"
| "value_nodes level (JArray vs) =
     (if vs = [] then [Txt (js ''[ ]'')]
      else [Txt (js ''[''), list_node (js ''array'') level (array_items (level + 1) vs), Txt (js '']'')])"
| "value_nodes level (JObject ms) =
     (if ms = [] then [Txt (js ''{ }'')]
      else [Txt (js ''{''), list_node (js ''obj'') level (object_items (level + 1) ms), Txt (js ''}'')])"
| "value_nodes level (JOther c) = []"
| "array_items level [] = []"
| "array_items level (v # vs) =
     El (js ''li'') [] False (comma (vs \<noteq> []) (value_nodes level v)) # array_items level vs"
| "object_items level [] = []"
| "object_items level ((prop, v) # ms) =
     El (js ''li'') [] False (key_node prop # put_before (js '': '') (comma (ms \<noteq> []) (value_nodes level v)))
       # object_items level ms"

definition view :: "json \<Rightarrow> dom" where
  "view v = El (js ''div'') [class_attr (js ''jsonview'')] False (value_nodes 0 v)"

text \<open>The value as JSON text, with a blank after each colon and inside of empty brackets.\<close>

fun json_text :: "json \<Rightarrow> js_string"
  and elements_text :: "json list \<Rightarrow> js_string"
  and members_text :: "(js_string \<times> json) list \<Rightarrow> js_string" where
  "json_text JNull = js ''null''"
| "json_text JUndefined = js ''undefined''"
| "json_text (JNumber t) = t"
| "json_text (JString s) = stringify s"
| "json_text (JBool b) = js (if b then ''true'' else ''false'')"
| "json_text (JArray vs) = (if vs = [] then js ''[ ]'' else js ''['' @ elements_text vs @ js '']'')"
| "json_text (JObject ms) = (if ms = [] then js ''{ }'' else js ''{'' @ members_text ms @ js ''}'')"
| "json_text (JOther c) = []"
| "elements_text [] = []"
| "elements_text (v # vs) = json_text v @ (if vs = [] then [] else js '','' @ elements_text vs)"
| "members_text [] = []"
| "members_text ((k, v) # ms) =
     stringify k @ js '': '' @ json_text v @ (if ms = [] then [] else js '','' @ members_text ms)"

fun printable :: "json \<Rightarrow> bool"
  and all_printable :: "json list \<Rightarrow> bool"
  and members_printable :: "(js_string \<times> json) list \<Rightarrow> bool" where
  "printable JNull = True"
| "printable JUndefined = True"
| "printable (JNumber t) = (t \<noteq> [] \<and> list_all (\<lambda>u. 32 < u \<and> u < 127) t)"
| "printable (JString s) = True"
| "printable (JBool b) = True"
| "printable (JArray vs) = all_printable vs"
| "printable (JObject ms) = members_printable ms"
| "printable (JOther c) = False"
| "all_printable [] = True"
| "all_printable (v # vs) = (printable v \<and> all_printable vs)"
| "members_printable [] = True"
| "members_printable ((k, v) # ms) = (printable v \<and> members_printable ms)"



subsection \<open>Reading back\<close>

lemma reads_append:
  "reads st (s @ t) =
     (case reads st s of
        None \<Rightarrow> None
      | Some (st', ts) \<Rightarrow> map_option (\<lambda>(st'', us). (st'', ts @ us)) (reads st' t))"
proof (induction s arbitrary: st)
  case Nil
  then show ?case by (cases "reads st t") auto
next
  case (Cons u s)
  show ?case
  proof (cases "read_unit st u")
    case (Some p)
    then show ?thesis
      by (cases p, cases "reads (fst p) s")
        (auto simp: Cons.IH option.map_comp o_def case_prod_beta' split: option.splits)
  qed simp
qed

definition emits :: "js_string \<Rightarrow> token list \<Rightarrow> bool" where
  "emits s ts \<longleftrightarrow> reads Data s = Some (Data, ts)"

named_theorems emits_intros \<open>what pieces of markup are read as\<close>

lemma emits_Nil [emits_intros]: "emits [] []"
  by (simp add: emits_def)

lemma emits_append [emits_intros]: "emits s ts \<Longrightarrow> emits t us \<Longrightarrow> emits (s @ t) (ts @ us)"
  by (simp add: emits_def reads_append)

lemma emits_read_html: "emits s ts \<Longrightarrow> read_html s = Some ts"
  by (simp add: emits_def read_html_def)

lemma htmlEncode_Nil [simp]: "htmlEncode [] = []"
  by (simp add: htmlEncode_def replace_units_def)

lemma replace_all_append: "replace_units u t (r @ s) = replace_units u t r @ replace_units u t s"
  by (simp add: replace_units_def)

lemma htmlEncode_append: "htmlEncode (r @ s) = htmlEncode r @ htmlEncode s"
  by (simp add: htmlEncode_def replace_all_append)

lemma htmlEncode_unit:
  "htmlEncode [u] =
     (if u = 38 then js ''&amp;'' else if u = 34 then js ''&quot;'' else if u = 60 then js ''&lt;''
      else if u = 62 then js ''&gt;'' else [u])"
  by (simp add: htmlEncode_def replace_units_def js_def)

lemma htmlEncode_Cons: "htmlEncode (u # s) = htmlEncode [u] @ htmlEncode s"
  using htmlEncode_append [of "[u]" s] by simp

definition clean :: "js_string \<Rightarrow> bool" where
  "clean s \<longleftrightarrow> list_all (\<lambda>u. u \<noteq> 0 \<and> u \<noteq> 13) s"

lemma clean_simps [simp]:
  "clean []" "clean (u # s) \<longleftrightarrow> u \<noteq> 0 \<and> u \<noteq> 13 \<and> clean s" "clean (s @ t) \<longleftrightarrow> clean s \<and> clean t"
  by (auto simp: clean_def)

lemma encoded_data: "u \<noteq> 0 \<Longrightarrow> u \<noteq> 13 \<Longrightarrow> reads Data (htmlEncode [u]) = Some (Data, [Unit u])"
  by (simp add: htmlEncode_unit js_def is_lower_def char_ref_def)

lemma encoded_value:
  "u \<noteq> 13 \<Longrightarrow> reads (Value tag as n v) (htmlEncode [u]) = Some (Value tag as n (v @ attr_units [u]), [])"
  by (simp add: htmlEncode_unit js_def is_lower_def char_ref_def attr_units_def)

lemma emits_text: "clean s \<Longrightarrow> emits (htmlEncode s) (map Unit s)"
proof (induction s)
  case Nil
  show ?case by (simp add: emits_Nil)
next
  case (Cons u s)
  have "emits (htmlEncode [u] @ htmlEncode s) ([Unit u] @ map Unit s)"
    by (rule emits_append) (use Cons in \<open>simp_all add: emits_def encoded_data\<close>)
  then show ?case by (subst htmlEncode_Cons) simp
qed

lemma reads_value:
  "13 \<notin> set s \<Longrightarrow> reads (Value tag as n v) (htmlEncode s) = Some (Value tag as n (v @ attr_units s), [])"
proof (induction s arbitrary: v)
  case (Cons u s)
  then show ?case
    by (subst htmlEncode_Cons) (simp add: reads_append encoded_value attr_units_def)
qed (simp add: attr_units_def)


subsection \<open>What the formatter writes_nodes\<close>

lemma slice_stringify [simp]: "slice_ends (stringify s) = quote_units s"
  by (simp add: slice_ends_def stringify_def butlast_append)

lemma jsString_eq: "jsString s = htmlEncode (quote_units s)"
  by (simp add: jsString_def)

lemma hex_digits: "\<forall>d \<in> set [0..<16]. digit_char d \<noteq> 0 \<and> digit_char d \<noteq> 13"
  by code_simp

lemma clean_hex4: "clean (hex4 u)"
  using hex_digits by (simp add: hex4_def)

lemma clean_quote_unit: "clean (quote_unit u)"
  by (auto simp: quote_unit_def unicode_escape_def clean_hex4)

lemma clean_surrogate: "is_lead u \<Longrightarrow> clean [u]" "is_trail u \<Longrightarrow> clean [u]"
  by (auto simp: is_lead_def is_trail_def)

lemma clean_quote_units: "clean (quote_units s)"
  using clean_surrogate
  by (induction s rule: quote_units.induct) (simp_all add: clean_quote_unit)

lemma emits_jsString [emits_intros]: "emits (jsString s) (map Unit (quote_units s))"
  unfolding jsString_eq by (rule emits_text [OF clean_quote_units])

lemma emits_close [emits_intros]: 
  "emits (js ''</span>'') [Close (js ''span'')]" "emits (js ''</a>'') [Close (js ''a'')]"
  "emits (js ''</li>'') [Close (js ''li'')]" "emits (js ''</ul>'') [Close (js ''ul'')]"
  "emits (js ''</div>'') [Close (js ''div'')]"
  by (simp_all add: emits_def js_def is_lower_def)

lemma emits_open [emits_intros]: "emits (js ''<li>'') [Open (js ''li'') []]"
  by (simp add: emits_def js_def is_lower_def)

text \<open>A class attribute, with the markup that the scripts put around it.\<close>

definition harmless :: "js_string \<Rightarrow> bool" where
  "harmless s \<longleftrightarrow> list_all (\<lambda>u. u \<noteq> 0 \<and> u \<noteq> 13 \<and> u \<noteq> 34 \<and> u \<noteq> 38 \<and> u \<noteq> 60) s"

lemma harmless_append [simp]: "harmless (s @ t) \<longleftrightarrow> harmless s \<and> harmless t"
  by (simp add: harmless_def)

lemma reads_harmless: "harmless s \<Longrightarrow> reads (Value tag as n v) s = Some (Value tag as n (v @ s), [])"
  by (induction s arbitrary: v) (simp_all add: harmless_def)

lemma emits_harmless: "harmless s \<Longrightarrow> emits s (map Unit s)"
  by (induction s) (simp_all add: harmless_def emits_def)

definition starts :: "js_string \<Rightarrow> js_string \<Rightarrow> bool" where
  "starts tag s \<longleftrightarrow> reads Data s = Some (Value tag [] (js ''class'') [], [])"

lemma starts_class:
  "starts (js ''span'') (js ''<span class='' @ [34])" "starts (js ''ul'') (js ''<ul class='' @ [34])"
  "starts (js ''div'') (js ''<div class='' @ [34])" "starts (js ''a'') (js ''<li><a class='' @ [34]) = False"
  by (simp_all add: starts_def js_def is_lower_def)

lemma emits_class:
  assumes "starts tag s" "harmless c"
  shows "emits (s @ c @ [34] @ js ''>'') [Open tag [class_attr c]]"
  using assms by (simp add: starts_def emits_def reads_append reads_harmless class_attr_def js_def)

lemma emits_span:
  "harmless c \<Longrightarrow> clean s \<Longrightarrow> emits (decorateWithSpan s c) (concat (map tokens (plain_span c s)))"
  using emits_append [OF emits_class [OF starts_class(1)] emits_append [OF emits_text emits_close(1)]]
  by (simp add: decorateWithSpan_def plain_span_def)

lemma emits_quote_span [emits_intros]: "emits quote_span (tokens quote_node)"
  by (simp add: emits_def quote_span_def quote_node_def class_attr_def js_def is_lower_def)


lemma emits_quoted: "emits (quote_span @ jsString s @ quote_span) (concat (map tokens (quoted_nodes s)))"
  using emits_append [OF emits_quote_span emits_append [OF emits_jsString emits_quote_span], of s]
  by (cases "s = []") (simp_all add: quoted_nodes_def)

text \<open>A pattern that avoids a unit has no word with it.\<close>

primrec avoids :: "bool \<Rightarrow> 16 word \<Rightarrow> regex \<Rightarrow> bool" where
  "avoids ig u Eps = True"
| "avoids ig u (Chars neg rs) = (\<not> char_matches ig neg rs u)"
| "avoids ig u (Seq a b) = (avoids ig u a \<and> avoids ig u b)"
| "avoids ig u (Alt a b) = (avoids ig u a \<and> avoids ig u b)"
| "avoids ig u (Rep r m k greedy) = avoids ig u r"
| "avoids ig u Bol = True"
| "avoids ig u Eol = True"
| "avoids ig u WordBoundary = True"
| "avoids ig u (NotAhead r) = True"

lemma avoids_lang: "avoids ig u r \<Longrightarrow> in_lang ig r w \<Longrightarrow> u \<notin> set w"
proof (induction r arbitrary: w)
  case (Rep r m k g)
  from Rep.prems(2) obtain ws where "w = concat ws" "\<forall>v \<in> set ws. in_lang ig r v" by auto
  then show ?case using Rep by auto
qed auto

definition scheme_pattern :: regex where
  "scheme_pattern = re ''(http|https|file)''"

definition url_rest :: regex where
  "url_rest = Seq (lit 58) (Seq (lit 47) (Seq (lit 47) (Seq (re ''[^~s]+'') Eps)))"

lemma url_pattern_eq:
  "url_pattern = Seq Bol (Seq scheme_pattern (Seq (lit 58) (Seq (lit 47) (Seq (lit 47) (Seq (re ''[^~s]+'') Eol)))))"
  by code_simp

lemma url_pure: "pure (Seq scheme_pattern url_rest)" "pure scheme_pattern" "pure (re ''[^~s]+'')"
  by code_simp+

lemma test_url: "test_i url_pattern s \<longleftrightarrow> in_lang True (Seq scheme_pattern url_rest) s"
  unfolding url_pattern_eq by (rule test_anchored [OF _ url_pure(1)]) (simp add: url_rest_def)

lemma url_without_return: "test_i url_pattern s \<Longrightarrow> 13 \<notin> set s"
  unfolding test_url by (erule avoids_lang [rotated]) code_simp

definition lower_unit :: "16 word \<Rightarrow> 16 word" where
  "lower_unit u = (if 65 \<le> u \<and> u \<le> 90 then u + 32 else u)"


lemma fold_letter:
  assumes "97 \<le> n" "n \<le> 122"
  shows "char_matches True False [(n, n)] u \<longleftrightarrow> lower_unit u = word_of_int n"
proof -
  have "uint (u + 32) = uint u + 32" if "uint u \<le> 90"
    using that by (simp add: uint_word_ariths take_bit_eq_mod)
  moreover have "uint (word_of_int n :: 16 word) = n"
    using assms by (simp add: uint_word_of_int take_bit_eq_mod)
  ultimately show ?thesis
    using assms uint_ge_0 [of u]
    by (auto simp: char_matches_def swap_case_def lower_unit_def word_le_def word_uint_eq_iff [of _ "word_of_int n"])
qed

lemma scheme_lang:
  "in_lang True scheme_pattern p \<longleftrightarrow> map lower_unit p \<in> {js ''http'', js ''https'', js ''file''}"
proof -
  have eq: "scheme_pattern =
      (let w = (\<lambda>n. Chars False [(n, n)])
       in Alt (Seq (w 104) (Seq (w 116) (Seq (w 116) (w 112))))
          (Alt (Seq (w 104) (Seq (w 116) (Seq (w 116) (Seq (w 112) (w 115)))))
            (Seq (w 102) (Seq (w 105) (Seq (w 108) (w 101))))))"
    by code_simp
  show ?thesis unfolding eq Let_def
    by (auto simp: lang_front lang_single fold_letter js_def split: list.splits simp del: in_lang.simps(2,3))
qed

text \<open>A link leads to a web page or to a file, never to a script.\<close>

lemma url_scheme:
  assumes "test_i url_pattern s"
  shows "\<exists>p t. s = p @ js ''://'' @ t \<and> map lower_unit p \<in> {js ''http'', js ''https'', js ''file''}"
proof -
  obtain p r where s: "s = p @ r" "in_lang True scheme_pattern p" "in_lang True url_rest r"
    using assms unfolding test_url by auto
  have "\<exists>t. r = js ''://'' @ t"
    using s(3) by (auto simp: url_rest_def front_simps word_uint_eq_iff js_def split: list.splits simp del: in_lang.simps(2,3))
  then show ?thesis using s scheme_lang by blast
qed


lemma tokens_put_after: "concat (map tokens (put_after ds s)) = concat (map tokens ds) @ map Unit s"
  by (induction ds s rule: put_after.induct) simp_all

lemma tokens_put_before: "concat (map tokens (put_before s ds)) = map Unit s @ concat (map tokens ds)"
  by (induction s ds rule: put_before.induct) simp_all

lemma tokens_comma: "concat (map tokens (comma b ds)) = concat (map tokens ds) @ (if b then [Unit 44] else [])"
  by (simp add: comma_def tokens_put_after js_def)

lemma emits_comma: "emits (if b then js '','' else []) (if b then [Unit 44] else [])"
  by (simp add: emits_def js_def)

lemma harmless_literals [simp]:
  "harmless (js ''null'')" "harmless (js ''undefined'')" "harmless (js ''num'')" "harmless (js ''bool'')"
  "harmless (js ''string'')" "harmless (js ''q'')" "harmless (js ''jsonview'')" "harmless (js ''array'')"
  "harmless (js ''obj'')" "harmless (js '' level'')" "harmless (js '' collapsible'')" "harmless []"
  by (simp_all add: harmless_def js_def)

lemma harmless_level [simp]: "harmless (show_base 10 n)"
proof -
  have "u \<noteq> 0 \<and> u \<noteq> 13 \<and> u \<noteq> 34 \<and> u \<noteq> 38 \<and> u \<noteq> 60" if "u \<in> set (show_base 10 n)" for u
    using show_base_digits [OF that] by (auto simp: is_digit_def)
  then show ?thesis by (simp add: harmless_def list_all_iff)
qed

lemma harmless_list_class: "harmless kind \<Longrightarrow> harmless (list_class kind level)"
  by (simp add: list_class_def)

lemma emits_list:
  assumes "harmless kind" "emits output (concat (map tokens items))"
  shows "emits (list_html kind level output) (tokens (list_node kind level items))"
  using emits_append [OF emits_class [OF starts_class(2) harmless_list_class [OF assms(1), of level]]
      emits_append [OF assms(2) emits_close(4)]]
  by (simp add: list_html_def list_node_def list_class_def)

lemma emits_link:
  assumes "13 \<notin> set s"
  shows "emits (js ''<a href='' @ [34] @ htmlEncode s @ [34] @ js ''>'') [Open (js ''a'') [(js ''href'', attr_units s)]]"
proof -
  have "reads Data (js ''<a href='' @ [34]) = Some (Value (js ''a'') [] (js ''href'') [], [])"
    by (simp add: js_def is_lower_def)
  moreover have "reads (Value (js ''a'') [] (js ''href'') v) ([34] @ js ''>'') = Some (Data, [Open (js ''a'') [(js ''href'', v)]])" for v
    by (simp add: js_def)
  ultimately show ?thesis
    using reads_append [of Data "js ''<a href='' @ [34]" "htmlEncode s @ [34] @ js ''>''"]
    by (simp add: emits_def reads_append [of "Value tag as n v" for tag as n v] reads_value [OF assms])
qed

lemma emits_string:
  assumes "\<not> nl2br opts"
  shows "emits (stringToHTML opts s) (concat (map tokens (string_nodes s)))"
proof (cases "test_i url_pattern s")
  case True
  then show ?thesis
    using emits_append [OF emits_link [OF url_without_return] emits_append [OF emits_quoted emits_close(2)]]
    by (simp add: stringToHTML_def string_nodes_def)
next
  case False
  have quote: "emits [34] [Unit 34]" by (simp add: emits_def)
  have "emits (js ''<span class='' @ [34] @ js ''string'' @ [34] @ js ''>'' @ [34] @ jsString s @ [34] @ js ''</span>'')
      ([Open (js ''span'') [class_attr (js ''string'')]] @ [Unit 34] @ map Unit (quote_units s) @ [Unit 34] @ [Close (js ''span'')])"
    using emits_append [OF emits_class [OF starts_class(1), of "js ''string''"]
        emits_append [OF quote emits_append [OF emits_jsString emits_append [OF quote emits_close(1)]]], of s] by simp
  then show ?thesis using False assms
    by (simp add: stringToHTML_def string_nodes_def plain_span_def stringify_def Let_def)
qed

lemma emits_key:
  assumes "escape_keys opts"
  shows "emits (key_html opts prop) (Open (js ''li'') [] # tokens (key_node prop) @ map Unit (js '': ''))"
proof -
  have "emits (js ''<a class='' @ [34] @ js ''prop'' @ [34] @ js '' href='' @ [34] @ js ''javascript:;'' @ [34] @ js ''>'')
      [Open (js ''a'') [class_attr (js ''prop''), (js ''href'', js ''javascript:;'')]]"
    by (simp add: emits_def js_def is_lower_def class_attr_def)
  moreover have "emits (js '': '') (map Unit (js '': ''))" by (simp add: emits_def js_def)
  moreover have "js ''<li><a class='' = js ''<li>'' @ js ''<a class=''" by (simp add: js_def)
  ultimately show ?thesis
    using emits_append [OF emits_open emits_append [OF _ emits_append [OF emits_quoted emits_append [OF emits_close(2)]]]] assms
    by (fastforce simp: key_html_def key_node_def js_def)
qed


lemma number_text: "list_all (\<lambda>u. 32 < u \<and> u < 127) t \<Longrightarrow> clean t"
  by (induction t) auto

definition escaping_options :: "view_options \<Rightarrow> bool" where
  "escaping_options opts \<longleftrightarrow> \<not> strict opts \<and> escape_keys opts \<and> \<not> nl2br opts"

declare valueToHTML.simps [simp del]

lemma valueToHTML_plain:
  assumes "\<not> strict opts"
  shows "valueToHTML opts level JNull = Inr nullToHTML"
    "valueToHTML opts level JUndefined = Inr undefinedToHTML"
    "valueToHTML opts level (JNumber t) = Inr (numberToHTML t)"
    "valueToHTML opts level (JString s) = Inr (stringToHTML opts s)"
    "valueToHTML opts level (JBool b) = Inr (booleanToHTML b)"
    "valueToHTML opts level (JArray vs) =
       bindr (array_loop opts level (length vs) vs) (\<lambda>output. Inr (array_html level (vs \<noteq> []) output))"
    "valueToHTML opts level (JObject ms) =
       bindr (object_loop opts level (length ms) ms) (\<lambda>output. Inr (object_html level (ms \<noteq> []) output))"
  using assms by (simp_all add: valueToHTML.simps)

definition writes_nodes :: "js_string res \<Rightarrow> dom list \<Rightarrow> bool" where
  "writes_nodes r ds \<longleftrightarrow> (\<exists>html. r = Inr html \<and> emits html (concat (map tokens ds)))"

lemma writes_span:
  "harmless c \<Longrightarrow> clean s \<Longrightarrow> writes_nodes (Inr (decorateWithSpan s c)) (plain_span c s)"
  by (simp add: writes_nodes_def emits_span)

lemma clean_literals:
  "clean (js ''null'')" "clean (js ''undefined'')" "clean (js ''true'')" "clean (js ''false'')"
  by (simp_all add: js_def)

lemma emits_brackets: "emits (js ''['') [Unit 91]" "emits (js '']'') [Unit 93]"
    "emits (js ''{'') [Unit 123]" "emits (js ''}'') [Unit 125]"
    "emits [91, 32, 93] [Unit 91, Unit 32, Unit 93]" "emits [123, 32, 125] [Unit 123, Unit 32, Unit 125]"
  by (simp_all add: emits_def js_def)

lemma writes_array:
  assumes "writes_nodes r (array_items (level + 1) vs)"
  shows "writes_nodes (bindr r (\<lambda>output. Inr (array_html level (vs \<noteq> []) output))) (value_nodes level (JArray vs))"
proof -
  obtain out where out: "r = Inr out" "emits out (concat (map tokens (array_items (level + 1) vs)))"
    using assms unfolding writes_nodes_def by blast
  show ?thesis
    using emits_append [OF emits_brackets(1) emits_append [OF emits_list [OF harmless_literals(8) out(2)] emits_brackets(2)]]
    by (simp add: writes_nodes_def out(1) array_html_def emits_brackets js_def)
qed

lemma writes_object:
  assumes "writes_nodes r (object_items (level + 1) ms)"
  shows "writes_nodes (bindr r (\<lambda>output. Inr (object_html level (ms \<noteq> []) output))) (value_nodes level (JObject ms))"
proof -
  obtain out where out: "r = Inr out" "emits out (concat (map tokens (object_items (level + 1) ms)))"
    using assms unfolding writes_nodes_def by blast
  show ?thesis
    using emits_append [OF emits_brackets(3) emits_append [OF emits_list [OF harmless_literals(9) out(2)] emits_brackets(4)]]
    by (simp add: writes_nodes_def out(1) object_html_def emits_brackets js_def)
qed

lemma writes_array_item:
  assumes "writes_nodes r (value_nodes (level + 1) v)" "writes_nodes r' (array_items (level + 1) vs)"
  shows "writes_nodes
     (bindr r (\<lambda>html. bindr r' (\<lambda>rest.
        Inr (js ''<li>'' @ html @ (if 1 < length (v # vs) then js '','' else []) @ js ''</li>'' @ rest))))
     (array_items (level + 1) (v # vs))"
proof -
  obtain html rest where "r = Inr html" "r' = Inr rest"
      "emits html (concat (map tokens (value_nodes (level + 1) v)))"
      "emits rest (concat (map tokens (array_items (level + 1) vs)))"
    using assms unfolding writes_nodes_def by blast
  then show ?thesis
    using emits_append [OF emits_open emits_append [OF _ emits_append [OF emits_comma [of "vs \<noteq> []"] emits_append [OF emits_close(3)]]]]
    by (fastforce simp: writes_nodes_def tokens_comma)
qed

lemma writes_object_item:
  assumes "escape_keys opts" "writes_nodes r (value_nodes (level + 1) v)" "writes_nodes r' (object_items (level + 1) ms)"
  shows "writes_nodes
     (bindr r (\<lambda>html. bindr r' (\<lambda>rest.
        Inr (key_html opts k @ html @ (if 1 < length ((k, v) # ms) then js '','' else []) @ js ''</li>'' @ rest))))
     (object_items (level + 1) ((k, v) # ms))"
proof -
  obtain html rest where "r = Inr html" "r' = Inr rest"
      "emits html (concat (map tokens (value_nodes (level + 1) v)))"
      "emits rest (concat (map tokens (object_items (level + 1) ms)))"
    using assms(2,3) unfolding writes_nodes_def by blast
  then show ?thesis
    using emits_append [OF emits_key [OF assms(1), of k] emits_append [OF _ emits_append [OF emits_comma [of "ms \<noteq> []"] emits_append [OF emits_close(3)]]]]
    by (fastforce simp: writes_nodes_def tokens_comma tokens_put_before)
qed

lemma writes_value:
  assumes "escaping_options opts"
  shows "printable v \<Longrightarrow> writes_nodes (valueToHTML opts level v) (value_nodes level v)"
    and "all_printable vs \<Longrightarrow> writes_nodes (array_loop opts level (length vs) vs) (array_items (level + 1) vs)"
    and "members_printable ms \<Longrightarrow> writes_nodes (object_loop opts level (length ms) ms) (object_items (level + 1) ms)"
proof (induction v and vs and ms arbitrary: level and level and level
    rule: printable_all_printable_members_printable.induct)
  case (6 vs)
  then show ?case using assms writes_array [OF "6.IH" [of level]] 
    by (simp add: valueToHTML_plain escaping_options_def del: value_nodes.simps)
next
  case (7 ms)
  then show ?case using assms writes_object [OF "7.IH" [of level]] 
    by (simp add: valueToHTML_plain escaping_options_def del: value_nodes.simps)
next
  case (10 v vs)
  then have "writes_nodes (valueToHTML opts (level + 1) v) (value_nodes (level + 1) v)"
    "writes_nodes (array_loop opts level (length vs) vs) (array_items (level + 1) vs)" by auto
  from writes_array_item [OF this] show ?case by simp
next
  case (12 k v ms)
  then have "writes_nodes (valueToHTML opts (level + 1) v) (value_nodes (level + 1) v)"
    "writes_nodes (object_loop opts level (length ms) ms) (object_items (level + 1) ms)" by auto
  from writes_object_item [OF _ this] assms show ?case by (simp add: escaping_options_def)
next
  case (4 s)
  then show ?case using assms by (simp add: valueToHTML_plain escaping_options_def writes_nodes_def emits_string)
qed (use assms in \<open>auto simp: valueToHTML_plain escaping_options_def nullToHTML_def undefinedToHTML_def
      numberToHTML_def booleanToHTML_def number_text clean_literals emits_span writes_nodes_def emits_Nil\<close>)


text \<open>What is read in the page.\<close>

lemma text_put_after: "concat (map dom_text (put_after ds s)) = concat (map dom_text ds) @ s"
  by (induction ds s rule: put_after.induct) simp_all

lemma text_put_before: "concat (map dom_text (put_before s ds)) = s @ concat (map dom_text ds)"
  by (induction s ds rule: put_before.induct) simp_all

lemma text_comma: "concat (map dom_text (comma b ds)) = concat (map dom_text ds) @ (if b then js '','' else [])"
  by (simp add: comma_def text_put_after)

lemma text_quoted: "concat (map dom_text (quoted_nodes s)) = stringify s"
  by (simp add: quoted_nodes_def quote_node_def stringify_def)

lemmas text_simps = text_put_before text_comma text_quoted plain_span_def string_nodes_def list_node_def key_node_def

lemma value_text:
  "concat (map dom_text (value_nodes level v)) = json_text v"
  "concat (map dom_text (array_items level vs)) = elements_text vs"
  "concat (map dom_text (object_items level ms)) = members_text ms"
  by (induction level v and level vs and level ms rule: value_nodes_array_items_object_items.induct)
    (simp_all add: text_simps)

definition is_link :: "js_string \<Rightarrow> bool" where
  "is_link s \<longleftrightarrow>
     list_ex (\<lambda>p. prefix_of (p @ js ''://'') (map lower_unit s)) [js ''http'', js ''https'', js ''file'']"

fun safe_token :: "token \<Rightarrow> bool" where
  "safe_token (Open tag as) \<longleftrightarrow>
     tag \<in> {js ''div'', js ''span'', js ''a'', js ''ul'', js ''li''} \<and>
     list_all (\<lambda>(n, x). n = js ''class'' \<or> n = js ''href'' \<and> (x = js ''javascript:;'' \<or> is_link x)) as"
| "safe_token (Close tag) = True"
| "safe_token (Unit u) = True"

lemma link_attr: 
  assumes "test_i url_pattern s"
  shows "is_link (attr_units s)"
proof -
  obtain p t where s: "s = p @ js ''://'' @ t" "map lower_unit p \<in> {js ''http'', js ''https'', js ''file''}"
    using url_scheme [OF assms] by blast
  have "lower_unit 0 = 0" by (simp add: lower_unit_def)
  then have "map lower_unit (attr_units p) = map lower_unit p"
    using s(2) by (auto simp: attr_units_def js_def)
  then show ?thesis using s
    by (auto simp: is_link_def attr_units_def js_def lower_unit_def [of 58] lower_unit_def [of 47])
qed


lemma safe_units [simp]: "list_all safe_token (map Unit s)"
  by (simp add: list_all_iff)

lemma safe_put:
  "list_all safe_token (concat (map tokens (put_after ds s))) \<longleftrightarrow> list_all safe_token (concat (map tokens ds))"
  "list_all safe_token (concat (map tokens (put_before s ds))) \<longleftrightarrow> list_all safe_token (concat (map tokens ds))"
  by (simp_all add: tokens_put_after tokens_put_before)

lemma safe_comma:
  "list_all safe_token (concat (map tokens (comma b ds))) \<longleftrightarrow> list_all safe_token (concat (map tokens ds))"
  by (simp add: tokens_comma)

lemma safe_class: "safe_token (Open tag [class_attr c]) \<longleftrightarrow> tag \<in> {js ''div'', js ''span'', js ''a'', js ''ul'', js ''li''}"
  by (simp add: class_attr_def)

declare safe_token.simps(1) [simp del]

lemma safe_quoted: "list_all safe_token (concat (map tokens (quoted_nodes s)))"
  by (simp add: quoted_nodes_def quote_node_def safe_class)

lemma safe_key: "safe_token (Open (js ''a'') [class_attr (js ''prop''), (js ''href'', js ''javascript:;'')])"
  by (simp add: class_attr_def safe_token.simps(1))

lemma safe_link: "is_link x \<Longrightarrow> safe_token (Open (js ''a'') [(js ''href'', x)])"
  by (simp add: safe_token.simps(1))

lemma safe_values:
  "list_all safe_token (concat (map tokens (value_nodes level v)))"
  "list_all safe_token (concat (map tokens (array_items level vs)))"
  "list_all safe_token (concat (map tokens (object_items level ms)))"
proof (induction level v and level vs and level ms rule: value_nodes_array_items_object_items.induct)
  case (4 level s)
  then show ?case
    by (auto simp: string_nodes_def plain_span_def safe_class safe_quoted safe_link link_attr)
qed (simp_all add: plain_span_def list_node_def key_node_def safe_class safe_put safe_comma safe_key safe_quoted
    safe_token.simps(1) [of _ "[]"])

lemma view_markup:
  assumes "escaping_options opts" "printable v"
  shows "\<exists>html. jsonToHTML opts v = Inr html \<and> read_html html = Some (tokens (view v))"
proof -
  obtain html where html: "valueToHTML opts 0 v = Inr html" "emits html (concat (map tokens (value_nodes 0 v)))"
    using writes_value(1) [OF assms] unfolding writes_nodes_def by blast
  have "emits (js ''<div class='' @ [34] @ js ''jsonview'' @ [34] @ js ''>'' @ html @ js ''</div>'') (tokens (view v))"
    using emits_append [OF emits_class [OF starts_class(3) harmless_literals(7)] emits_append [OF html(2) emits_close(5)]]
    by (simp add: view_def)
  then show ?thesis
    by (simp add: jsonToHTML_def html(1) emits_read_html)
qed


subsection \<open>The view is the value\<close>

text \<open>
  C19: With the escaping left on, the markup of a value without foreign parts is read by the browser
  as exactly the tree of the value. The only elements are those of the formatter, their
  attributes are its classes, the inert link of a key, and addresses of web pages and files, so
  that no string of the data becomes markup; and the text that is read is the JSON text of the
  value.
\<close>

theorem json_view_reads:
  assumes "escaping_options opts" "printable v"
  shows "\<exists>html. jsonToHTML opts v = Inr html \<and> read_html html = Some (tokens (view v)) \<and>
     list_all safe_token (tokens (view v)) \<and> dom_text (view v) = json_text v"
  using view_markup [OF assms] by (simp add: view_def safe_class safe_values value_text)

text \<open>A message that carries markup and a link.\<close>

definition sample :: json where
  "sample =
     JObject [(js ''topic<b>'', JString (js ''<script>'')), (js ''retain'', JBool True),
       (js ''links'', JArray [JString (js ''HTTP://host/?a&b''), JNumber (js ''1.5''), JNull])]"

theorem json_view_reads_witness:
  "\<exists>html. jsonToHTML defaultOptions sample = Inr html \<and> read_html html = Some (tokens (view sample)) \<and>
     list_all safe_token (tokens (view sample)) \<and> dom_text (view sample) = json_text sample"
  by (rule json_view_reads) (code_simp+)

text \<open>With the escaping of keys switched off, a key is markup.\<close>

theorem unescaped_key_is_markup:
  "case jsonToHTML (defaultOptions\<lparr>escape_keys := False\<rparr>) (JObject [(js ''<b>'', JNull)]) of
     Inr html \<Rightarrow> (case read_html html of Some ts \<Rightarrow> Open (js ''b'') [] \<in> set ts | None \<Rightarrow> False)
   | Inl e \<Rightarrow> False"
  by code_simp

text \<open>Strict mode refuses every object, and nothing else that the formatter can show.\<close>

theorem strict_refuses_objects:
  assumes "strict opts"
  shows "jsonToHTML opts (JObject ms) = Inl (Error (js ''object is not a valid JSON value type''))"
    and "jsonToHTML opts JUndefined = Inr (js ''<div class='' @ [34] @ js ''jsonview'' @ [34] @ js ''>'' @ undefinedToHTML @ js ''</div>'')"
  using assms
  by (simp_all add: jsonToHTML_def valueToHTML.simps [of opts 0 "JObject ms"] valueToHTML.simps [of opts 0 JUndefined]
      value_type_def JSON_VALUE_TYPES_def js_def)

text \<open>
  \<open>nl2br\<close> looks for the escape of a line break in the escaped text; the escape of a backslash before
  an \<open>n\<close> contains it. A path is broken in two, and one backslash remains.
\<close>

theorem nl2br_breaks_paths:
  "stringToHTML (defaultOptions\<lparr>nl2br := True\<rparr>) (js ''C:'' @ [92] @ js ''new'') =
     js ''<span class='' @ [34] @ js ''string multiline'' @ [34] @ js ''>'' @ [34] @
     js ''C:'' @ [92] @ js ''<br />ew'' @ [34] @ js ''</span>''"
  by code_simp

end
