(* ===== verification/Json_Document.thy ===== *)
theory Json_Document
  imports Json_View
begin

text \<open>
  The second half of \<open>jquery.jsonview.js\<close>: the document as a tree of nodes, the searches and changes
  the script uses, \<open>Collapser\<close>, the methods \<open>collapse\<close>, \<open>expand\<close> and \<open>toggle\<close>, and \<open>JSONView\<close>, which
  shows a value and gives each list in it a control.

  A node is addressed by its path from the element that the operation searches. The operations of
  \<open>Collapser\<close> take the collapser and go to its parent, so the model has them act on the parent (the
  item) and says at which position the collapser is. The collections of the script are live: each
  round of a loop searches the document as the round before left it.
\<close>

subsection \<open>The document\<close>

type_synonym dom_path = "nat list"

text \<open>The words of a class attribute.\<close>

fun class_words :: "js_string \<Rightarrow> js_string \<Rightarrow> js_string list" where
  "class_words w [] = [w]"
| "class_words w (u # s) = (if u = 32 then w # class_words [] s else class_words (w @ [u]) s)"

fun has_class :: "js_string \<Rightarrow> dom \<Rightarrow> bool" where
  "has_class c (Txt s) = False"
| "has_class c (El tag as hidden ds) =
     (case map_of as (js ''class'') of None \<Rightarrow> False | Some v \<Rightarrow> c \<in> set (class_words [] v))"

text \<open>\<open>getElementsByClassName\<close>: the descendants with the class, in document order.\<close>

fun by_class :: "js_string \<Rightarrow> dom \<Rightarrow> dom_path list"
  and kids_by_class :: "js_string \<Rightarrow> nat \<Rightarrow> dom list \<Rightarrow> dom_path list" where
  "by_class c (Txt s) = []"
| "by_class c (El tag as hidden ds) = kids_by_class c 0 ds"
| "kids_by_class c i [] = []"
| "kids_by_class c i (d # ds) =
     (if has_class c d then [[i]] else []) @ map ((#) i) (by_class c d) @ kids_by_class c (Suc i) ds"

fun dom_at :: "dom \<Rightarrow> dom_path \<Rightarrow> dom option" where
  "dom_at d [] = Some d"
| "dom_at (Txt s) (i # p) = None"
| "dom_at (El tag as hidden ds) (i # p) = (if i < length ds then dom_at (ds ! i) p else None)"

fun change_at :: "dom_path \<Rightarrow> (dom \<Rightarrow> dom res) \<Rightarrow> dom \<Rightarrow> dom res" where
  "change_at [] f d = f d"
| "change_at (i # p) f (Txt s) = Inl TypeError"
| "change_at (i # p) f (El tag as hidden ds) =
     (if i < length ds
      then bindr (change_at p f (ds ! i)) (\<lambda>d. Inr (El tag as hidden (ds[i := d])))
      else Inl TypeError)"

fun set_hidden :: "bool \<Rightarrow> dom \<Rightarrow> dom res" where
  "set_hidden b (Txt s) = Inl TypeError"
| "set_hidden b (El tag as hidden ds) = Inr (El tag as b ds)"

fun set_content :: "js_string \<Rightarrow> dom \<Rightarrow> dom res" where
  "set_content s (Txt t) = Inl TypeError"
| "set_content s (El tag as hidden ds) = Inr (El tag as hidden [Txt s])"

fun insert_child :: "nat \<Rightarrow> dom \<Rightarrow> dom \<Rightarrow> dom res" where
  "insert_child i d (Txt t) = Inl TypeError"
| "insert_child i d (El tag as hidden ds) = Inr (El tag as hidden (take i ds @ d # drop i ds))"

fun remove_child :: "dom_path \<Rightarrow> dom \<Rightarrow> dom res" where
  "remove_child [i] (El tag as hidden ds) = Inr (El tag as hidden (take i ds @ drop (Suc i) ds))"
| "remove_child p d = Inl DOMException"

definition is_hidden :: "dom \<Rightarrow> dom_path \<Rightarrow> bool" where
  "is_hidden d p \<longleftrightarrow> (case dom_at d p of Some (El tag as hidden ds) \<Rightarrow> hidden | _ \<Rightarrow> False)"

subsection \<open>Collapser\<close>

definition collapser_node :: "js_string \<Rightarrow> dom" where
  "collapser_node mark = El (js ''div'') [class_attr (js ''collapser'')] False [Txt mark]"

definition ellipsis_node :: dom where
  "ellipsis_node = El (js ''span'') [class_attr (js ''ellipsis'')] False [Txt [32, 8230, 32]]"

text \<open>
  The operations act on \<open>collapser.parentNode\<close>; the collapser is given by its position among
  the children of that node.
\<close>

definition collapseTarget :: "dom \<Rightarrow> dom_path option" where
  "collapseTarget item = (case by_class (js ''collapsible'') item of [] \<Rightarrow> None | p # _ \<Rightarrow> Some p)"

definition expand :: "nat \<Rightarrow> dom \<Rightarrow> dom res" where
  "expand k item =
     (case collapseTarget item of
        None \<Rightarrow> Inl TypeError
      | Some t \<Rightarrow>
          if \<not> is_hidden item t then Inr item
          else bindr (change_at [k] (set_content (js ''-'')) item) (\<lambda>item.
               bindr (change_at t (set_hidden False) item) (\<lambda>item.
               change_at (butlast t)
                 (\<lambda>parent. case by_class (js ''ellipsis'') parent of
                    [] \<Rightarrow> Inl TypeError
                  | e # _ \<Rightarrow> remove_child e parent) item)))"

definition collapse :: "nat \<Rightarrow> dom \<Rightarrow> dom res" where
  "collapse k item =
     (case collapseTarget item of
        None \<Rightarrow> Inl TypeError
      | Some t \<Rightarrow>
          if is_hidden item t then Inr item
          else bindr (change_at [k] (set_content (js ''+'')) item) (\<lambda>item.
               bindr (change_at t (set_hidden True) item) (\<lambda>item.
               change_at (butlast t) (insert_child (last t) ellipsis_node) item)))"

fun in_turn :: "('b \<Rightarrow> 'a \<Rightarrow> 'a res) \<Rightarrow> 'b list \<Rightarrow> 'a \<Rightarrow> 'a res" where
  "in_turn f [] d = Inr d"
| "in_turn f (x # xs) d = bindr (f x d) (in_turn f xs)"

text \<open>
  The \<open>i\<close>-th element of a live collection, by its parent and its position there.
\<close>

definition at_class :: "js_string \<Rightarrow> (nat \<Rightarrow> dom \<Rightarrow> dom res) \<Rightarrow> nat \<Rightarrow> dom \<Rightarrow> dom res" where
  "at_class c f i d =
     (let ps = by_class c d
      in if i < length ps then change_at (butlast (ps ! i)) (f (last (ps ! i))) d else Inl TypeError)"

definition toggle :: "view_options \<Rightarrow> nat \<Rightarrow> dom \<Rightarrow> dom res" where
  "toggle opts k item =
     (case collapseTarget item of
        None \<Rightarrow> Inl TypeError
      | Some t \<Rightarrow>
          let action = (if is_hidden item t then expand else collapse)
          in if recursive_collapser opts
             then in_turn (at_class (js ''collapser'') action) [0..<length (by_class (js ''collapser'') item)] item
             else action k item)"

definition bindEvent :: "view_options \<Rightarrow> dom \<Rightarrow> dom res" where
  "bindEvent opts item =
     (if dom_at item [0] = None then Inl TypeError else
      bindr (insert_child 0 (collapser_node (if collapsed opts then js ''+'' else js ''-'')) item)
       (\<lambda>item. if collapsed opts then collapse 0 item else Inr item))"

definition is_li :: "dom \<Rightarrow> bool" where
  "is_li d = (case d of El tag as hidden ds \<Rightarrow> tag = js ''li'' | Txt s \<Rightarrow> False)"

definition bind_items :: "view_options \<Rightarrow> dom \<Rightarrow> dom res" where
  "bind_items opts d =
     in_turn (at_class (js ''collapsible'') (\<lambda>k item. if is_li item then bindEvent opts item else Inr item))
       [0..<length (by_class (js ''collapsible'') d)] d"

text \<open>A click on the collapser with number \<open>n\<close>.\<close>

definition click_collapser :: "view_options \<Rightarrow> nat \<Rightarrow> dom \<Rightarrow> dom res" where
  "click_collapser opts n d = at_class (js ''collapser'') (toggle opts) n d"

text \<open>
  The listener on the first child of an item, for an event whose target is the node at a path:
  it toggles the first child of the parent of the target.
\<close>

definition click_first_child :: "view_options \<Rightarrow> dom_path \<Rightarrow> dom \<Rightarrow> dom res" where
  "click_first_child opts p d = change_at (butlast p) (toggle opts 0) d"

datatype view_method = Method_collapse | Method_expand | Method_toggle

definition mark_of :: "nat \<Rightarrow> dom \<Rightarrow> js_string" where
  "mark_of k item = (case dom_at item [k] of Some d \<Rightarrow> dom_text d | None \<Rightarrow> [])"

definition method_action :: "view_method \<Rightarrow> nat \<Rightarrow> dom \<Rightarrow> dom res" where
  "method_action m k item =
     (case m of
        Method_collapse \<Rightarrow> if mark_of k item = js ''-'' then collapse k item else Inr item
      | Method_expand \<Rightarrow> if mark_of k item = js ''+'' then expand k item else Inr item
      | Method_toggle \<Rightarrow> toggle defaultOptions k item)"

text \<open>The collapsers whose list has the level, or all of them.\<close>

definition selected :: "nat option \<Rightarrow> dom \<Rightarrow> dom_path \<Rightarrow> bool" where
  "selected level d p =
     (case dom_at d (butlast p) of
        Some (El tag as hidden ds) \<Rightarrow>
          list_ex (\<lambda>d. has_class (js ''collapsible'') d \<and>
            (case level of None \<Rightarrow> True | Some n \<Rightarrow> has_class (js ''level'' @ show_base 10 n) d)) ds
      | _ \<Rightarrow> False)"

text \<open>
  The methods run over a collection that is fixed before. No action adds or removes a collapser, so
  the number of a collapser in the document stays the same.
\<close>

definition JSONView_method :: "view_method \<Rightarrow> nat option \<Rightarrow> dom \<Rightarrow> dom res" where
  "JSONView_method m level d =
     (let ps = by_class (js ''collapser'') d
      in in_turn (at_class (js ''collapser'') (method_action m))
           (filter (\<lambda>n. selected level d (ps ! n)) [0..<length ps]) d)"

subsection \<open>JSONView\<close>

text \<open>
  The tree that a browser builds from the tokens: the nodes so far and the elements that are open.
  A tag that does not close the innermost element is outside of the fragment (\<open>None\<close>).
\<close>

type_synonym open_element = "js_string \<times> (js_string \<times> js_string) list \<times> dom list"

fun build :: "dom list \<Rightarrow> open_element list \<Rightarrow> token list \<Rightarrow> dom list option" where
  "build ds [] [] = Some ds"
| "build ds (fr # fs) [] = None"
| "build ds fs (Unit u # ts) = build (put_after ds [u]) fs ts"
| "build ds fs (Open tag as # ts) = build [] ((tag, as, ds) # fs) ts"
| "build ds [] (Close t # ts) = None"
| "build ds ((tag, as, outer) # fs) (Close t # ts) =
     (if t = tag then build (outer @ [El tag as False ds]) fs ts else None)"

definition parse_markup :: "js_string \<Rightarrow> dom list option" where
  "parse_markup html = (case read_html html of None \<Rightarrow> None | Some ts \<Rightarrow> build [] [] ts)"

text \<open>
  \<open>JSONView\<close> of a value; a text is parsed by \<open>JSON.parse\<close> first, which is not part of the model. The
  result is \<open>None\<close> if the markup is outside of the fragment that is read.
\<close>

definition JSONView :: "view_options \<Rightarrow> dom \<Rightarrow> json \<Rightarrow> dom res option" where
  "JSONView opts host v =
     (case jsonToHTML opts v of
        Inl e \<Rightarrow> Some (Inl e)
      | Inr html \<Rightarrow>
          (case (parse_markup html, host) of
             (Some ds, El tag as hidden _) \<Rightarrow> Some (bind_items opts (El tag as hidden ds))
           | _ \<Rightarrow> None))"

end
