(* ===== verification/Json_Items.thy ===== *)
theory Json_Items
  imports Json_Document
begin

text \<open>
  The document of a value as a function of its controls. The abstract state of a view is the control
  of each item (\<open>controls\<close>), addressed by the position of the item in the value; \<open>draw\<close> is the
  document that belongs to it. The lemmas say what the operations do to one item, where the items
  are in the document, and that a change of an item is a change of its control.
\<close>

subsection \<open>The view with its controls\<close>

datatype control = Unbound | Shown | Hidden

type_synonym controls = "nat list \<Rightarrow> control"

fun is_list :: "json \<Rightarrow> bool" where
  "is_list (JArray vs) = (vs \<noteq> [])"
| "is_list (JObject ms) = (ms \<noteq> [])"
| "is_list v = False"

definition controls_of :: "control \<Rightarrow> dom list" where
  "controls_of c =
     (case c of Unbound \<Rightarrow> [] | Shown \<Rightarrow> [collapser_node (js ''-'')] | Hidden \<Rightarrow> [collapser_node (js ''+'')])"

definition control_nodes :: "control \<Rightarrow> json \<Rightarrow> dom list" where
  "control_nodes c v = (if is_list v then controls_of c else [])"

definition list_nodes :: "control \<Rightarrow> js_string \<Rightarrow> dom list \<Rightarrow> dom list" where
  "list_nodes c cls items =
     (if c = Hidden then [ellipsis_node] else []) @ [El (js ''ul'') [class_attr cls] (c = Hidden) items]"

fun draw :: "controls \<Rightarrow> control \<Rightarrow> nat \<Rightarrow> json \<Rightarrow> dom list"
  and draw_elements :: "controls \<Rightarrow> nat \<Rightarrow> nat \<Rightarrow> json list \<Rightarrow> dom list"
  and draw_members :: "controls \<Rightarrow> nat \<Rightarrow> nat \<Rightarrow> (js_string \<times> json) list \<Rightarrow> dom list" where
  "draw st c level JNull = value_nodes level JNull"
| "draw st c level JUndefined = value_nodes level JUndefined"
| "draw st c level (JNumber t) = value_nodes level (JNumber t)"
| "draw st c level (JString s) = value_nodes level (JString s)"
| "draw st c level (JBool b) = value_nodes level (JBool b)"
| "draw st c level (JArray vs) =
     (if vs = [] then [Txt (js ''[ ]'')]
      else [Txt (js ''['')] @ list_nodes c (list_class (js ''array'') level) (draw_elements st 0 (level + 1) vs) @ [Txt (js '']'')])"
| "draw st c level (JObject ms) =
     (if ms = [] then [Txt (js ''{ }'')]
      else [Txt (js ''{'')] @ list_nodes c (list_class (js ''obj'') level) (draw_members st 0 (level + 1) ms) @ [Txt (js ''}'')])"
| "draw st c level (JOther x) = []"
| "draw_elements st i level [] = []"
| "draw_elements st i level (v # vs) =
     El (js ''li'') [] False
       (control_nodes (st [i]) v @ comma (vs \<noteq> []) (draw (\<lambda>q. st (i # q)) (st [i]) level v))
       # draw_elements st (i + 1) level vs"
| "draw_members st i level [] = []"
| "draw_members st i level ((k, v) # ms) =
     El (js ''li'') [] False
       (control_nodes (st [i]) v @
        key_node k # put_before (js '': '') (comma (ms \<noteq> []) (draw (\<lambda>q. st (i # q)) (st [i]) level v)))
       # draw_members st (i + 1) level ms"

definition json_page :: "controls \<Rightarrow> json \<Rightarrow> dom" where
  "json_page st v = El (js ''div'') [class_attr (js ''jsonview'')] False (draw st Unbound 0 v)"

lemma draw_unbound:
  "draw (\<lambda>q. Unbound) Unbound level v = value_nodes level v"
  "draw_elements (\<lambda>q. Unbound) i level vs = array_items level vs"
  "draw_members (\<lambda>q. Unbound) i level ms = object_items level ms"
  by (induction "\<lambda>q :: nat list. Unbound" Unbound level v and "\<lambda>q :: nat list. Unbound" i level vs and "\<lambda>q :: nat list. Unbound" i level ms
      rule: draw_draw_elements_draw_members.induct)
    (simp_all add: list_nodes_def list_node_def control_nodes_def controls_of_def)

lemma view_page: "view v = json_page (\<lambda>q. Unbound) v"
  by (simp add: view_def json_page_def draw_unbound)

subsection \<open>One item\<close>

definition children :: "json \<Rightarrow> (js_string option \<times> json) list" where
  "children v =
     (case v of
        JArray vs \<Rightarrow> map (Pair None) vs
      | JObject ms \<Rightarrow> map (\<lambda>(k, v). (Some k, v)) ms
      | _ \<Rightarrow> [])"

definition li_node :: "controls \<Rightarrow> nat \<Rightarrow> nat \<Rightarrow> js_string option \<Rightarrow> bool \<Rightarrow> json \<Rightarrow> dom" where
  "li_node st i level key follows v =
     El (js ''li'') [] False
       (control_nodes (st [i]) v @
        (let ds = comma follows (draw (\<lambda>q. st (i # q)) (st [i]) level v)
         in case key of None \<Rightarrow> ds | Some k \<Rightarrow> key_node k # put_before (js '': '') ds))"

fun draw_children :: "controls \<Rightarrow> nat \<Rightarrow> nat \<Rightarrow> (js_string option \<times> json) list \<Rightarrow> dom list" where
  "draw_children st i level [] = []"
| "draw_children st i level ((key, v) # ch) =
     li_node st i level key (ch \<noteq> []) v # draw_children st (i + 1) level ch"

lemma draw_elements_children: "draw_elements st i level vs = draw_children st i level (map (Pair None) vs)"
  by (induction vs arbitrary: i) (simp_all add: li_node_def)

lemma draw_members_children:
  "draw_members st i level ms = draw_children st i level (map (\<lambda>(k, v). (Some k, v)) ms)"
  by (induction ms arbitrary: i) (auto simp: li_node_def Let_def)

definition opening_text :: "json \<Rightarrow> js_string" where
  "opening_text v = (case v of JArray vs \<Rightarrow> js ''['' | _ \<Rightarrow> js ''{'')"

definition closing_text :: "json \<Rightarrow> js_string" where
  "closing_text v = (case v of JArray vs \<Rightarrow> js '']'' | _ \<Rightarrow> js ''}'')"

definition kind_of :: "json \<Rightarrow> js_string" where
  "kind_of v = (case v of JArray vs \<Rightarrow> js ''array'' | _ \<Rightarrow> js ''obj'')"

lemma draw_list:
  "is_list v \<Longrightarrow> draw st c level v =
     [Txt (opening_text v)] @ list_nodes c (list_class (kind_of v) level) (draw_children st 0 (level + 1) (children v)) @
     [Txt (closing_text v)]"
  by (cases v)
    (simp_all add: opening_text_def closing_text_def kind_of_def children_def draw_elements_children draw_members_children)

lemma draw_no_list: "\<not> is_list v \<Longrightarrow> draw st c level v = value_nodes level v"
  by (cases v) simp_all

definition item_node :: "control \<Rightarrow> dom list \<Rightarrow> js_string \<Rightarrow> dom list \<Rightarrow> js_string \<Rightarrow> dom" where
  "item_node c pre cls items post =
     El (js ''li'') [] False (controls_of c @ pre @ list_nodes c cls items @ [Txt post])"

definition item_front :: "js_string option \<Rightarrow> json \<Rightarrow> dom list" where
  "item_front key v =
     (case key of None \<Rightarrow> [Txt (opening_text v)] | Some k \<Rightarrow> [key_node k, Txt (js '': '' @ opening_text v)])"

lemma li_list:
  "is_list v \<Longrightarrow> li_node st i level key follows v =
     item_node (st [i]) (item_front key v) (list_class (kind_of v) level)
       (draw_children (\<lambda>q. st (i # q)) 0 (level + 1) (children v))
       (closing_text v @ (if follows then js '','' else []))"
  by (simp add: li_node_def item_node_def control_nodes_def draw_list comma_def item_front_def list_nodes_def
      split: option.split)

text \<open>Which classes the nodes have.\<close>

lemma class_words_word: "32 \<notin> set s \<Longrightarrow> class_words w s = [w @ s]"
  by (induction s arbitrary: w) simp_all

lemma class_words_space: "32 \<notin> set s \<Longrightarrow> class_words w (s @ 32 # t) = (w @ s) # class_words [] t"
  by (induction s arbitrary: w) simp_all

lemma has_class_El [simp]: "has_class c (El tag [class_attr v] h ds) \<longleftrightarrow> c \<in> set (class_words [] v)"
  by (simp add: class_attr_def)

lemma level_words:
  assumes "32 \<notin> set kind" 
  shows "class_words [] (list_class kind level) =
     [kind, js ''level'' @ show_base 10 level] @ (if level = 0 then [] else [js ''collapsible''])"
proof -
  have "32 \<notin> set (show_base 10 n)" for n
    using show_base_digits [of 32 n] by (auto simp: is_digit_def)
  moreover have "js '' level'' = 32 # js ''level''" "js '' collapsible'' = 32 # js ''collapsible''"
    by (simp_all add: js_def)
  ultimately show ?thesis using assms
    by (simp add: list_class_def class_words_space class_words_word)
      (simp add: js_def class_words_word class_words_space)
qed

lemma kind_space: "32 \<notin> set (kind_of v)"
  by (simp add: kind_of_def js_def split: json.split)

lemma kids_by_class_append:
  "kids_by_class c i (ds @ es) = kids_by_class c i ds @ kids_by_class c (i + length ds) es"
  by (induction ds arbitrary: i) simp_all


definition marker_classes :: "js_string list" where
  "marker_classes = [js ''collapsible'', js ''collapser'', js ''ellipsis'']"

definition neutral :: "dom list \<Rightarrow> bool" where
  "neutral ds \<longleftrightarrow> (\<forall>c \<in> set marker_classes. kids_by_class c 0 ds = [])"

lemma kids_by_class_shift: "kids_by_class c i ds = [] \<longleftrightarrow> kids_by_class c 0 ds = []"
proof (induction ds arbitrary: i)
  case (Cons d ds)
  show ?case using Cons [of "Suc i"] Cons [of "Suc 0"] by simp
qed simp

lemma neutralD: "neutral ds \<Longrightarrow> c \<in> set marker_classes \<Longrightarrow> kids_by_class c i ds = []"
  unfolding neutral_def kids_by_class_shift [of c i] by blast

lemma marker_simps [simp]:
  "js ''collapsible'' \<in> set marker_classes" "js ''collapser'' \<in> set marker_classes" "js ''ellipsis'' \<in> set marker_classes"
  by (simp_all add: marker_classes_def)

lemma neutral_simps [simp]:
  "neutral []" "neutral (Txt s # ds) \<longleftrightarrow> neutral ds" "neutral (ds @ es) \<longleftrightarrow> neutral ds \<and> neutral es"
  by (auto simp: neutral_def kids_by_class_append kids_by_class_shift [of _ "Suc i" for i]
      kids_by_class_shift [of _ "length xs" for xs])

lemma neutral_El [simp]:
  "neutral (El tag as h ks # ds) \<longleftrightarrow>
     (\<forall>c \<in> set marker_classes. \<not> has_class c (El tag as h ks)) \<and> neutral ks \<and> neutral ds"
  by (auto simp: neutral_def kids_by_class_shift [of _ "Suc i" for i])

lemma marker_words:
  "class_words [] (js ''prop'') = [js ''prop'']" "class_words [] (js ''q'') = [js ''q'']"
  "class_words [] (js ''null'') = [js ''null'']" "class_words [] (js ''undefined'') = [js ''undefined'']"
  "class_words [] (js ''num'') = [js ''num'']" "class_words [] (js ''bool'') = [js ''bool'']"
  "class_words [] (js ''string'') = [js ''string'']" "class_words [] (js ''collapser'') = [js ''collapser'']"
  "class_words [] (js ''ellipsis'') = [js ''ellipsis'']"
  by (simp_all add: js_def)

lemma marker_distinct:
  "\<forall>c \<in> set marker_classes. c \<noteq> js ''prop'' \<and> c \<noteq> js ''q'' \<and> c \<noteq> js ''null'' \<and> c \<noteq> js ''undefined'' \<and> c \<noteq> js ''num'' \<and>
     c \<noteq> js ''bool'' \<and> c \<noteq> js ''string''"
  by (simp add: marker_classes_def js_def)

lemma neutral_key: "neutral [key_node k]"
  by (simp add: key_node_def quoted_nodes_def quote_node_def class_attr_def)
    (simp add: marker_classes_def js_def)

lemma neutral_value: "\<not> is_list v \<Longrightarrow> neutral (value_nodes level v)"
  by (cases v)
    (auto simp: plain_span_def string_nodes_def quoted_nodes_def quote_node_def marker_words class_attr_def,
     auto simp: marker_classes_def js_def split: if_splits)

lemma put_after_Cons: "ds \<noteq> [] \<Longrightarrow> put_after (d # ds) s = d # put_after ds s"
  by (cases d; cases ds) simp_all

lemma neutral_put: "neutral (put_after ds s) \<longleftrightarrow> neutral ds" "neutral (put_before s ds) \<longleftrightarrow> neutral ds"
proof -
  have cons: "neutral (d # ds) \<longleftrightarrow> neutral [d] \<and> neutral ds" for d ds
    using neutral_simps(3) [of "[d]" ds] by simp
  show "neutral (put_after ds s) \<longleftrightarrow> neutral ds"
  proof (induction ds)
    case (Cons d ds)
    then show ?case using cons [of d] by (cases ds; cases d) (auto simp: put_after_Cons)
  qed simp
  show "neutral (put_before s ds) \<longleftrightarrow> neutral ds"
    by (induction s ds rule: put_before.induct) simp_all
qed

lemma neutral_comma: "neutral (comma b ds) \<longleftrightarrow> neutral ds"
  by (simp add: comma_def neutral_put)

lemma neutral_li: "\<not> is_list v \<Longrightarrow> neutral [li_node st i level key follows v]"
  using neutral_key neutral_simps(3) [of "[key_node k]" for k]
  by (auto simp: li_node_def control_nodes_def draw_no_list Let_def neutral_value neutral_comma neutral_put
      split: option.split)

lemma neutral_front: "neutral (item_front key v)"
  using neutral_key neutral_simps(3) [of "[key_node k]" "[Txt s]" for k s]
  by (auto simp: item_front_def split: option.split)


definition list_words :: "js_string \<Rightarrow> bool" where
  "list_words cls \<longleftrightarrow>
     js ''collapsible'' \<in> set (class_words [] cls) \<and> js ''collapser'' \<notin> set (class_words [] cls) \<and>
     js ''ellipsis'' \<notin> set (class_words [] cls)"

lemma marker_neq [simp]:
  "js ''collapsible'' \<noteq> js ''collapser''" "js ''collapser'' \<noteq> js ''collapsible''"
  "js ''collapsible'' \<noteq> js ''ellipsis''" "js ''ellipsis'' \<noteq> js ''collapsible''"
  "js ''collapser'' \<noteq> js ''ellipsis''" "js ''ellipsis'' \<noteq> js ''collapser''"
  by (simp_all add: js_def)

definition ul_pos :: "control \<Rightarrow> nat \<Rightarrow> nat" where
  "ul_pos c n = length (controls_of c) + n + (if c = Hidden then 1 else 0)"

lemma list_words_level: "0 < level \<Longrightarrow> list_words (list_class (kind_of v) level)"
  by (simp add: list_words_def level_words [OF kind_space]) (auto simp: kind_of_def js_def split: json.split)

lemma controls_by_class:
  "kids_by_class (js ''collapsible'') i (controls_of c) = []"
  "kids_by_class (js ''ellipsis'') i (controls_of c) = []"
  "kids_by_class (js ''collapser'') i (controls_of c) = (if c = Unbound then [] else [[i]])"
  by (auto simp: controls_of_def collapser_node_def marker_words simp del: has_class.simps(2) split: control.splits)

lemma by_class_item:
  assumes "neutral pre" "list_words cls"
  shows "by_class (js ''collapsible'') (item_node c pre cls items post) =
      [ul_pos c (length pre)] # map ((#) (ul_pos c (length pre))) (kids_by_class (js ''collapsible'') 0 items)"
    and "by_class (js ''collapser'') (item_node c pre cls items post) =
      (if c = Unbound then [] else [[0]]) @
      map ((#) (ul_pos c (length pre))) (kids_by_class (js ''collapser'') 0 items)"
    and "by_class (js ''ellipsis'') (item_node c pre cls items post) =
      (if c = Hidden then [[length (controls_of c) + length pre]] else []) @
      map ((#) (ul_pos c (length pre))) (kids_by_class (js ''ellipsis'') 0 items)"
  using assms neutralD [OF assms(1)]
  by (auto simp: item_node_def kids_by_class_append list_nodes_def controls_by_class ul_pos_def ellipsis_node_def
      marker_words list_words_def simp del: has_class.simps(2))

lemma item_target:
  assumes "neutral pre" "list_words cls"
  shows "collapseTarget (item_node c pre cls items post) = Some [ul_pos c (length pre)]"
  by (simp add: collapseTarget_def by_class_item [OF assms])

lemma item_hidden:
  "is_hidden (item_node c pre cls items post) [ul_pos c (length pre)] \<longleftrightarrow> c = Hidden"
  by (auto simp: is_hidden_def item_node_def list_nodes_def ul_pos_def nth_append controls_of_def)

text \<open>The operations on an item.\<close>

lemma collapse_marked:
  assumes "neutral pre" "list_words cls"
  shows "collapse 0 (El (js ''li'') [] False (collapser_node m # pre @ [El (js ''ul'') [class_attr cls] False items, Txt post])) =
     Inr (item_node Hidden pre cls items post)"
proof -
  have "collapseTarget (El (js ''li'') [] False (collapser_node m # pre @ [El (js ''ul'') [class_attr cls] False items, Txt post])) =
      Some [Suc (length pre)]"
    using assms neutralD [OF assms(1)]
    by (simp add: collapseTarget_def kids_by_class_append collapser_node_def marker_words list_words_def
        del: has_class.simps(2))
  then show ?thesis
    by (simp add: collapse_def is_hidden_def nth_append)
      (simp add: item_node_def controls_of_def list_nodes_def collapser_node_def nth_append list_update_append)
qed

lemma collapse_item:
  assumes "neutral pre" "list_words cls" "c \<noteq> Unbound"
  shows "collapse 0 (item_node c pre cls items post) = Inr (item_node Hidden pre cls items post)"
proof (cases c)
  case Shown
  then show ?thesis using collapse_marked [OF assms(1,2), of "js ''-''"]
    by (simp add: item_node_def controls_of_def list_nodes_def)
next
  case Hidden
  then show ?thesis by (simp add: collapse_def item_target [OF assms(1,2)] item_hidden)
qed (use assms(3) in simp)

lemma ellipsis_front:
  assumes "neutral pre"
  shows "by_class (js ''ellipsis'') (El tag as h (collapser_node m # pre @ ellipsis_node # ds)) =
     [Suc (length pre)] # kids_by_class (js ''ellipsis'') (Suc (Suc (length pre))) ds"
  using neutralD [OF assms]
  by (simp add: kids_by_class_append ellipsis_node_def collapser_node_def marker_words del: has_class.simps(2))

lemma set_content_collapser: "set_content s (collapser_node m) = Inr (collapser_node s)"
  by (simp add: collapser_node_def)

lemma expand_item:
  assumes "neutral pre" "list_words cls" "c \<noteq> Unbound"
  shows "expand 0 (item_node c pre cls items post) = Inr (item_node Shown pre cls items post)"
proof (cases "c = Hidden")
  case True
  have "controls_of Hidden = [collapser_node (js ''+'')]" "controls_of Shown = [collapser_node (js ''-'')]"
    by (simp_all add: controls_of_def)
  then show ?thesis
    by (simp add: True expand_def item_target [OF assms(1,2)] item_hidden)
     (simp add: item_node_def list_nodes_def ul_pos_def nth_append list_update_append set_content_collapser
        ellipsis_front [OF assms(1)] del: by_class.simps)
next
  case False
  with assms(3) have "c = Shown" by (cases c) auto
  then show ?thesis by (simp add: expand_def item_target [OF assms(1,2)] item_hidden)
qed

lemma toggle_item:
  assumes "neutral pre" "list_words cls" "c \<noteq> Unbound" "\<not> recursive_collapser opts"
  shows "toggle opts 0 (item_node c pre cls items post) =
    Inr (item_node (if c = Hidden then Shown else Hidden) pre cls items post)"
  using assms(3,4)
  by (cases "c = Hidden")
    (simp_all add: toggle_def item_target [OF assms(1,2)] item_hidden collapse_item [OF assms(1,2)] expand_item [OF assms(1,2)])

definition initial_control :: "view_options \<Rightarrow> control" where
  "initial_control opts = (if collapsed opts then Hidden else Shown)"

lemma bind_item:
  assumes "neutral pre" "list_words cls"
  shows "bindEvent opts (item_node Unbound pre cls items post) =
    Inr (item_node (initial_control opts) pre cls items post)"
proof -
  have "insert_child 0 (collapser_node m) (item_node Unbound pre cls items post) =
      Inr (El (js ''li'') [] False (collapser_node m # pre @ [El (js ''ul'') [class_attr cls] False items, Txt post]))" for m
    by (simp add: item_node_def controls_of_def list_nodes_def)
  moreover have "dom_at (item_node Unbound pre cls items post) [0] \<noteq> None"
    by (simp add: item_node_def)
  ultimately show ?thesis
    using collapse_marked [OF assms]
    by (simp add: bindEvent_def initial_control_def)
      (simp add: item_node_def controls_of_def list_nodes_def)
qed

subsection \<open>The items of a view\<close>

definition front_length :: "js_string option \<Rightarrow> nat" where
  "front_length key = (case key of None \<Rightarrow> 1 | Some k \<Rightarrow> 2)"

lemma length_item_front [simp]: "length (item_front key v) = front_length key"
  by (simp add: item_front_def front_length_def split: option.split)

text \<open>
  The items that hold a list, in document order: the position of the item in the value and the
  path from the list of the value to its node.
\<close>

fun sites :: "controls \<Rightarrow> json \<Rightarrow> (nat list \<times> dom_path) list"
  and element_sites :: "controls \<Rightarrow> nat \<Rightarrow> json list \<Rightarrow> (nat list \<times> dom_path) list"
  and member_sites :: "controls \<Rightarrow> nat \<Rightarrow> (js_string \<times> json) list \<Rightarrow> (nat list \<times> dom_path) list" where
  "sites st (JArray vs) = element_sites st 0 vs"
| "sites st (JObject ms) = member_sites st 0 ms"
| "sites st v = []"
| "element_sites st i [] = []"
| "element_sites st i (v # vs) =
     (if is_list v
      then ([i], [i]) # map (\<lambda>(q, p). (i # q, i # ul_pos (st [i]) 1 # p)) (sites (\<lambda>q. st (i # q)) v)
      else []) @ element_sites st (i + 1) vs"
| "member_sites st i [] = []"
| "member_sites st i ((k, v) # ms) =
     (if is_list v
      then ([i], [i]) # map (\<lambda>(q, p). (i # q, i # ul_pos (st [i]) 2 # p)) (sites (\<lambda>q. st (i # q)) v)
      else []) @ member_sites st (i + 1) ms"

fun child_sites :: "controls \<Rightarrow> nat \<Rightarrow> (js_string option \<times> json) list \<Rightarrow> (nat list \<times> dom_path) list" where
  "child_sites st i [] = []"
| "child_sites st i ((key, v) # ch) =
     (if is_list v
      then ([i], [i]) # map (\<lambda>(q, p). (i # q, i # ul_pos (st [i]) (front_length key) # p)) (sites (\<lambda>q. st (i # q)) v)
      else []) @ child_sites st (i + 1) ch"

lemma sites_children: "sites st v = child_sites st 0 (children v)"
proof -
  have "element_sites st i vs = child_sites st i (map (Pair None) vs)" for i vs
    by (induction vs arbitrary: i) (simp_all add: front_length_def)
  moreover have "member_sites st i ms = child_sites st i (map (\<lambda>(k, v). (Some k, v)) ms)" for i ms
    by (induction ms arbitrary: i) (auto simp: front_length_def)
  ultimately show ?thesis by (cases v) (simp_all add: children_def)
qed

definition items :: "json \<Rightarrow> nat list list" where
  "items v = map fst (sites (\<lambda>q. Unbound) v)"

lemma children_size: "(key, w) \<in> set (children v) \<Longrightarrow> size w < size v"
proof (cases v)
  case (JArray vs)
  assume "(key, w) \<in> set (children v)"
  then show ?thesis using JArray size_list_estimation' [of w vs "size w" size] by (auto simp: children_def)
next
  case (JObject ms)
  assume "(key, w) \<in> set (children v)"
  then obtain k where "(k, w) \<in> set ms" using JObject by (auto simp: children_def)
  then show ?thesis
    using JObject size_list_estimation' [of "(k, w)" ms "size w" "size_prod (\<lambda>x. 0) size"] by simp
qed (auto simp: children_def)

lemma children_induct [case_names children]:
  assumes "\<And>v. (\<And>key w. (key, w) \<in> set (children v) \<Longrightarrow> P w) \<Longrightarrow> P v"
  shows "P v"
  by (induction v rule: measure_induct_rule [of size]) (blast intro: assms children_size)

lemma site_items: "map fst (sites st v) = items v"
proof -
  have "map fst (sites st v) = map fst (sites st' v)" for st' :: controls
  proof (induction v arbitrary: st st' rule: children_induct)
    case (children v)
    have "map fst (child_sites st i ch) = map fst (child_sites st' i ch)"
      if "set ch \<subseteq> set (children v)" for i ch using that
    proof (induction ch arbitrary: i)
      case (Cons c ch)
      obtain key w where c: "c = (key, w)" by (cases c)
      then have "map fst (sites (\<lambda>q. st (i # q)) w) = map fst (sites (\<lambda>q. st' (i # q)) w)"
        using children [of key w] Cons.prems by auto
      then have "map ((#) i \<circ> fst) (sites (\<lambda>q. st (i # q)) w) = map ((#) i \<circ> fst) (sites (\<lambda>q. st' (i # q)) w)"
        by (metis map_map)
      then show ?case using Cons by (simp add: c o_def case_prod_beta')
    qed simp
    then show ?case by (simp add: sites_children)
  qed
  then show ?thesis by (simp add: items_def)
qed

lemma length_draw_children [simp]: "length (draw_children st i level ch) = length ch"
  by (induction st i level ch rule: draw_children.induct) simp_all

lemma nth_draw_children:
  "j < length ch \<Longrightarrow> draw_children st i level ch ! j =
     li_node st (i + j) level (fst (ch ! j)) (Suc j < length ch) (snd (ch ! j))"
proof (induction st i level ch arbitrary: j rule: draw_children.induct)
  case (2 st i level key v ch)
  then show ?case by (cases j) auto
qed simp

lemma li_node_cong: "(\<And>q. st (i # q) = st' (i # q)) \<Longrightarrow> li_node st i level key follows v = li_node st' i level key follows v"
  by (simp add: li_node_def)

lemma draw_children_cong:
  assumes "\<And>q. q \<noteq> [] \<Longrightarrow> st q = st' q"
  shows "draw_children st i level ch = draw_children st' i level ch"
proof (induction ch arbitrary: i)
  case (Cons c ch)
  then show ?case using li_node_cong [of st i st'] assms by (cases c) simp
qed simp

lemma draw_children_update:
  assumes "j < length ch" "\<And>k q. k \<noteq> i + j \<Longrightarrow> st (k # q) = st' (k # q)"
  shows "(draw_children st i level ch)[j := li_node st' (i + j) level (fst (ch ! j)) (Suc j < length ch) (snd (ch ! j))] =
     draw_children st' i level ch"
proof (rule nth_equalityI)
  fix k assume "k < length ((draw_children st i level ch)[j := li_node st' (i + j) level (fst (ch ! j)) (Suc j < length ch) (snd (ch ! j))])"
  then show "(draw_children st i level ch)[j := li_node st' (i + j) level (fst (ch ! j)) (Suc j < length ch) (snd (ch ! j))] ! k =
      draw_children st' i level ch ! k"
    using assms li_node_cong [of st "i + k" st'] by (cases "k = j") (simp_all add: nth_draw_children)
qed simp

definition child_site :: "controls \<Rightarrow> nat \<Rightarrow> js_string option \<Rightarrow> json \<Rightarrow> nat list \<Rightarrow> dom_path \<Rightarrow> bool" where
  "child_site st k key w q p \<longleftrightarrow>
     is_list w \<and>
     (q = [k] \<and> p = [k] \<or>
      (\<exists>q' p'. q = k # q' \<and> p = k # ul_pos (st [k]) (front_length key) # p' \<and>
         (q', p') \<in> set (sites (\<lambda>r. st (k # r)) w)))"

lemma child_sites_iff:
  "(q, p) \<in> set (child_sites st i ch) \<longleftrightarrow>
     (\<exists>j < length ch. child_site st (i + j) (fst (ch ! j)) (snd (ch ! j)) q p)"
proof (induction ch arbitrary: i)
  case (Cons c ch)
  obtain key w where c: "c = (key, w)" by (cases c)
  have "(q, p) \<in> set (child_sites st i (c # ch)) \<longleftrightarrow>
      child_site st i key w q p \<or> (\<exists>j < length ch. child_site st (Suc i + j) (fst (ch ! j)) (snd (ch ! j)) q p)"
    using Cons [of "Suc i"] by (auto simp: c child_site_def)
  also have "\<dots> \<longleftrightarrow> (\<exists>j < length (c # ch). child_site st (i + j) (fst ((c # ch) ! j)) (snd ((c # ch) ! j)) q p)"
    by (simp add: c Ex_less_Suc2)
  finally show ?case .
qed simp

lemma sites_iff:
  "(q, p) \<in> set (sites st v) \<longleftrightarrow>
     (\<exists>j < length (children v). child_site st j (fst (children v ! j)) (snd (children v ! j)) q p)"
  unfolding sites_children child_sites_iff by simp

definition acts :: "(dom \<Rightarrow> dom res) \<Rightarrow> control \<Rightarrow> control \<Rightarrow> bool" where
  "acts f c c' \<longleftrightarrow>
     (\<forall>pre cls items post. neutral pre \<longrightarrow> list_words cls \<longrightarrow>
        f (item_node c pre cls items post) = Inr (item_node c' pre cls items post))"

lemma acts_li:
  assumes "acts f (st [i]) c" "is_list v" "0 < level"
  shows "f (li_node st i level key follows v) = Inr (li_node (st([i] := c)) i level key follows v)"
proof -
  have "draw_children (\<lambda>q. (st([i] := c)) (i # q)) 0 (level + 1) (children v) =
      draw_children (\<lambda>q. st (i # q)) 0 (level + 1) (children v)"
    by (rule draw_children_cong) simp
  moreover have "f (item_node (st [i]) (item_front key v) (list_class (kind_of v) level) ds post) =
      Inr (item_node c (item_front key v) (list_class (kind_of v) level) ds post)" for ds post
    using assms(1) neutral_front list_words_level [OF assms(3)] unfolding acts_def by blast
  ultimately show ?thesis by (simp add: li_list [OF assms(2)] del: fun_upd_apply) simp
qed

text \<open>A change of an item changes the item in the view.\<close>

lemma change_in_item:
  assumes "change_at p f (El (js ''ul'') [class_attr cls] (c = Hidden) ds) = Inr (El (js ''ul'') [class_attr cls] (c = Hidden) ds')"
  shows "change_at (ul_pos c (length pre) # p) f (item_node c pre cls ds post) = Inr (item_node c pre cls ds' post)"
  using assms
  by (cases "c = Hidden") (simp_all add: item_node_def list_nodes_def ul_pos_def nth_append list_update_append)

lemma site_nonempty: "(q, p) \<in> set (sites st v) \<Longrightarrow> q \<noteq> []"
  using sites_iff [of q p st v] by (auto simp: child_site_def)

lemma change_subtree:
  assumes "(q, p) \<in> set (sites st v)" "0 < level"
    and "\<And>r. take (length q) r \<noteq> q \<Longrightarrow> st' r = st r"
    and "\<And>level key follows w. is_list w \<Longrightarrow> 0 < level \<Longrightarrow>
      f (li_node (\<lambda>r. st (butlast q @ r)) (last q) level key follows w) =
        Inr (li_node (\<lambda>r. st' (butlast q @ r)) (last q) level key follows w)"
  shows "change_at p f (El tag as h (draw_children st 0 level (children v))) =
     Inr (El tag as h (draw_children st' 0 level (children v)))"
  using assms
proof (induction v arbitrary: st st' q p level tag as h rule: children_induct)
  case (children v)
  obtain j where j: "j < length (children v)" "child_site st j (fst (children v ! j)) (snd (children v ! j)) q p"
    using children.prems(1) unfolding sites_iff by blast
  obtain key w where w: "children v ! j = (key, w)" by (cases "children v ! j")
  let ?li = "\<lambda>st. li_node st j level key (Suc j < length (children v)) w"
  have hd: "\<exists>r. q = j # r" and list: "is_list w" using j(2) by (auto simp: child_site_def w)
  have "change_at (tl p) f (?li st) = Inr (?li st')"
  proof (cases "q = [j]")
    case True
    then have "p = [j]" using j(2) site_nonempty by (auto simp: child_site_def)
    then show ?thesis using children.prems(4) [OF list children.prems(2)] by (simp add: True)
  next
    case False
    then obtain q' p' where qp: "q = j # q'" "p = j # ul_pos (st [j]) (front_length key) # p'"
        "(q', p') \<in> set (sites (\<lambda>r. st (j # r)) w)"
      using j(2) by (auto simp: child_site_def w)
    have q': "q' \<noteq> []" using site_nonempty qp(3) by blast
    have "change_at p' f (El tag as h (draw_children (\<lambda>r. st (j # r)) 0 (level + 1) (children w))) =
        Inr (El tag as h (draw_children (\<lambda>r. st' (j # r)) 0 (level + 1) (children w)))" for tag as h
    proof (rule children.IH [of key w q' p' "\<lambda>r. st (j # r)"])
      show "(key, w) \<in> set (children v)" using j(1) w by (metis nth_mem)
      show "st' (j # r) = st (j # r)" if "take (length q') r \<noteq> q'" for r
        by (rule children.prems(3)) (use that in \<open>simp add: qp(1)\<close>)
      show "f (li_node (\<lambda>r. st (j # butlast q' @ r)) (last q') level key follows w) =
        Inr (li_node (\<lambda>r. st' (j # butlast q' @ r)) (last q') level key follows w)"
        if "is_list w" "0 < level" for level key follows w
        using children.prems(4) [OF that, of key follows] q' by (simp add: qp(1))
    qed (use qp(3) in simp_all)
    note change = change_in_item [OF this, where pre = "item_front key w"]
    have "st' [j] = st [j]" by (rule children.prems(3)) (use q' in \<open>simp add: qp(1)\<close>)
    then show ?thesis using change unfolding li_list [OF list] by (simp add: qp(2))
  qed
  moreover have "p = j # tl p" using j(2) by (auto simp: child_site_def)
  moreover have "st (k # r) = st' (k # r)" if "k \<noteq> j" for k r
    using children.prems(3) [of "k # r"] hd that by auto
  ultimately show ?case
    using draw_children_update [OF j(1), of 0 st st' level] j(1)
    by (cases p) (simp_all add: nth_draw_children w)
qed

lemma change_site:
  assumes "(q, p) \<in> set (sites st v)" "acts f (st q) c" "0 < level"
  shows "change_at p f (El tag as h (draw_children st 0 level (children v))) =
     Inr (El tag as h (draw_children (st(q := c)) 0 level (children v)))"
proof (rule change_subtree [OF assms(1,3)])
  note q = site_nonempty [OF assms(1)]
  fix level key follows w assume "is_list w" "0 < (level :: nat)"
  from acts_li [OF _ this, of f "\<lambda>r. st (butlast q @ r)" "last q" c key follows] assms(2) q
  have "f (li_node (\<lambda>r. st (butlast q @ r)) (last q) level key follows w) =
      Inr (li_node ((\<lambda>r. st (butlast q @ r))([last q] := c)) (last q) level key follows w)" by simp
  moreover have "(\<lambda>r. st (butlast q @ r))([last q] := c) = (\<lambda>r. (st(q := c)) (butlast q @ r))"
    using append_butlast_last_id [OF q] by (auto simp: fun_eq_iff) (metis same_append_eq)
  ultimately show "f (li_node (\<lambda>r. st (butlast q @ r)) (last q) level key follows w) =
      Inr (li_node (\<lambda>r. (st(q := c)) (butlast q @ r)) (last q) level key follows w)" by simp
qed auto

subsection \<open>Finding the items\<close>

definition sited :: "nat set \<Rightarrow> dom_path list \<Rightarrow> (nat list \<times> dom_path) list \<Rightarrow> bool" where
  "sited ks ms ss \<longleftrightarrow> list_all2 (\<lambda>m s. \<exists>k \<in> ks. m = snd s @ [k]) ms ss"

lemma sited_simps [simp]:
  "sited ks [] []" "sited ks (m # ms) (s # ss) \<longleftrightarrow> (\<exists>k \<in> ks. m = snd s @ [k]) \<and> sited ks ms ss"
  by (simp_all add: sited_def)

lemma sited_append: "sited ks ms ss \<Longrightarrow> sited ks ms' ss' \<Longrightarrow> sited ks (ms @ ms') (ss @ ss')"
  unfolding sited_def by (rule list_all2_appendI)

lemma sited_map: "sited ks ms ss \<Longrightarrow> sited ks (map (\<lambda>m. p @ m) ms) (map (\<lambda>(q, r). (q' # q, p @ r)) ss)"
  unfolding sited_def list_all2_map1 list_all2_map2 by (erule list_all2_mono) auto

lemma sited_item:
  assumes "sited ks ms (sites st w)" "k \<in> ks"
  shows "sited ks (map ((#) i) ([k] # map ((#) u) ms)) (([i], [i]) # map (\<lambda>(q, p). (i # q, i # u # p)) (sites st w))"
  using sited_map [OF assms(1), of "[i, u]" i] assms(2) by (simp add: o_def)

lemma not_marked_li: "\<not> has_class c (li_node st i level key follows v)"
  by (simp add: li_node_def)

lemma sited_children:
  assumes marker: "\<And>i level key follows w ks'. is_list w \<Longrightarrow> 0 < level \<Longrightarrow>
      \<exists>k \<in> ks. by_class c (li_node st i level key follows w) =
        [k] # map ((#) (ul_pos (st [i]) (front_length key)))
          (kids_by_class c 0 (draw_children (\<lambda>q. st (i # q)) 0 (level + 1) (children w)))"
    and c: "c \<in> set marker_classes" "0 < level"
    and IH: "\<And>w i. w \<in> snd ` set ch \<Longrightarrow>
      sited ks (kids_by_class c 0 (draw_children (\<lambda>q. st (i # q)) 0 (level + 1) (children w))) (sites (\<lambda>q. st (i # q)) w)"
  shows "sited ks (kids_by_class c i (draw_children st i level ch)) (child_sites st i ch)"
  using IH
proof (induction ch arbitrary: i)
  case (Cons x ch)
  obtain key w where x: "x = (key, w)" by (cases x)
  let ?li = "li_node st i level key (ch \<noteq> []) w"
  have rest: "sited ks (kids_by_class c (i + 1) (draw_children st (i + 1) level ch)) (child_sites st (i + 1) ch)"
    using Cons.prems by (intro Cons.IH) auto
  show ?case
  proof (cases "is_list w")
    case True
    obtain k where k: "k \<in> ks" "by_class c ?li = [k] # map ((#) (ul_pos (st [i]) (front_length key)))
          (kids_by_class c 0 (draw_children (\<lambda>q. st (i # q)) 0 (level + 1) (children w)))"
      using marker [OF True c(2)] by blast
    have "sited ks (map ((#) i) (by_class c ?li)) (([i], [i]) # map (\<lambda>(q, p). (i # q, i # ul_pos (st [i]) (front_length key) # p)) (sites (\<lambda>q. st (i # q)) w))"
      unfolding k(2) by (rule sited_item [OF Cons.prems k(1)]) (simp add: x)
    from sited_append [OF this rest] True show ?thesis
      by (simp add: x not_marked_li)
  next
    case False
    from neutralD [OF neutral_li [OF False] c(1), of 0 st i level key "ch \<noteq> []"]
    have "by_class c ?li = []" by (simp add: not_marked_li)
    then show ?thesis using False rest by (simp add: x not_marked_li)
  qed
qed simp

lemma li_collapsible:
  "is_list w \<Longrightarrow> 0 < level \<Longrightarrow> by_class (js ''collapsible'') (li_node st i level key follows w) =
     [ul_pos (st [i]) (front_length key)] # map ((#) (ul_pos (st [i]) (front_length key)))
       (kids_by_class (js ''collapsible'') 0 (draw_children (\<lambda>q. st (i # q)) 0 (level + 1) (children w)))"
  by (simp add: li_list by_class_item(1) neutral_front list_words_level)

lemma li_collapser:
  "is_list w \<Longrightarrow> 0 < level \<Longrightarrow> st [i] \<noteq> Unbound \<Longrightarrow> by_class (js ''collapser'') (li_node st i level key follows w) =
     [0] # map ((#) (ul_pos (st [i]) (front_length key)))
       (kids_by_class (js ''collapser'') 0 (draw_children (\<lambda>q. st (i # q)) 0 (level + 1) (children w)))"
  by (simp add: li_list by_class_item(2) neutral_front list_words_level)

lemma sited_collapsible:
  "0 < level \<Longrightarrow> sited UNIV (kids_by_class (js ''collapsible'') 0 (draw_children st 0 level (children v))) (sites st v)"
proof (induction v arbitrary: st level rule: children_induct)
  case (children v)
  show ?case unfolding sites_children
    by (rule sited_children) (use children in \<open>auto simp: li_collapsible\<close>)
qed

lemma sited_collapser:
  "0 < level \<Longrightarrow> (\<And>q. st q \<noteq> Unbound) \<Longrightarrow>
   sited {0} (kids_by_class (js ''collapser'') 0 (draw_children st 0 level (children v))) (sites st v)"
proof (induction v arbitrary: st level rule: children_induct)
  case (children v)
  show ?case unfolding sites_children
    by (rule sited_children) (use children in \<open>auto simp: li_collapser\<close>)
qed


text \<open>The view in the element that shows it.\<close>

definition shown_in :: "dom \<Rightarrow> controls \<Rightarrow> json \<Rightarrow> dom" where
  "shown_in host st v =
     (case host of El tag as h ds \<Rightarrow> El tag as h [json_page st v] | Txt s \<Rightarrow> Txt s)"

lemma page_list:
  "is_list v \<Longrightarrow> json_page st v = El (js ''div'') [class_attr (js ''jsonview'')] False
     [Txt (opening_text v), El (js ''ul'') [class_attr (list_class (kind_of v) 0)] False (draw_children st 0 1 (children v)),
      Txt (closing_text v)]"
  by (simp add: json_page_def draw_list list_nodes_def)

lemma page_no_list: "\<not> is_list v \<Longrightarrow> json_page st v = json_page st' v \<and> neutral [json_page st v]"
  by (simp add: json_page_def draw_no_list neutral_value) (simp add: marker_classes_def js_def class_attr_def)

lemma marker_hd: "c \<in> set marker_classes \<Longrightarrow> hd c = 99 \<or> hd c = 101"
  by (simp add: marker_classes_def js_def) (elim disjE, simp_all)

lemma root_class: "c \<in> set marker_classes \<Longrightarrow> c \<notin> set (class_words [] (list_class (kind_of v) 0))"
proof
  assume "c \<in> set marker_classes" "c \<in> set (class_words [] (list_class (kind_of v) 0))"
  then have "hd (kind_of v) = 99 \<or> hd (kind_of v) = 101 \<or> hd (js ''level'' @ show_base 10 0) = 99 \<or>
      hd (js ''level'' @ show_base 10 0) = 101"
    using marker_hd by (auto simp: level_words [OF kind_space])
  then show False by (simp add: kind_of_def js_def split: json.splits)
qed

lemma page_class: "c \<in> set marker_classes \<Longrightarrow> c \<notin> set (class_words [] (js ''jsonview''))"
  by (auto simp: marker_classes_def js_def)

lemma by_class_shown:
  assumes "is_list v" "c \<in> set marker_classes"
  shows "by_class c (shown_in (El tag as h ds) st v) =
    map (\<lambda>m. [0, 1] @ m) (kids_by_class c 0 (draw_children st 0 1 (children v)))"
  using root_class [OF assms(2)] page_class [OF assms(2)]
  by (simp add: shown_in_def page_list [OF assms(1)] o_def del: has_class.simps(2))

lemma items_list: "items v \<noteq> [] \<Longrightarrow> is_list v"
  by (cases v) (auto simp: items_def)

lemma sited_shown:
  assumes "sited ks (kids_by_class c 0 (draw_children st 0 1 (children v))) (sites st v)" "is_list v" "c \<in> set marker_classes"
  shows "length (by_class c (shown_in (El tag as h ds) st v)) = length (items v)"
    and "n < length (items v) \<Longrightarrow> \<exists>k \<in> ks. \<exists>p. by_class c (shown_in (El tag as h ds) st v) ! n = [0, 1] @ p @ [k] \<and>
      (items v ! n, p) \<in> set (sites st v)"
proof -
  note by_class = by_class_shown [OF assms(2,3), of tag as h ds st]
  have len: "length (kids_by_class c 0 (draw_children st 0 1 (children v))) = length (sites st v)"
    using assms(1) unfolding sited_def by (rule list_all2_lengthD)
  then show "length (by_class c (shown_in (El tag as h ds) st v)) = length (items v)"
    unfolding by_class by (simp add: site_items [of st, symmetric])
  assume n: "n < length (items v)"
  then have n': "n < length (sites st v)" by (simp add: site_items [of st, symmetric])
  then obtain k where "k \<in> ks" "kids_by_class c 0 (draw_children st 0 1 (children v)) ! n = snd (sites st v ! n) @ [k]"
    using assms(1) unfolding sited_def list_all2_conv_all_nth by auto
  moreover have "(items v ! n, snd (sites st v ! n)) \<in> set (sites st v)"
    using n' unfolding site_items [of st, symmetric] by (simp add: in_set_conv_nth) (metis prod.collapse)
  ultimately show "\<exists>k \<in> ks. \<exists>p. by_class c (shown_in (El tag as h ds) st v) ! n = [0, 1] @ p @ [k] \<and>
      (items v ! n, p) \<in> set (sites st v)"
    using n' len unfolding by_class by auto
qed

lemma at_class_shown:
  assumes "sited ks (kids_by_class c 0 (draw_children st 0 1 (children v))) (sites st v)" "c \<in> set marker_classes"
    and n: "n < length (items v)"
    and change: "\<And>k p tag as h. k \<in> ks \<Longrightarrow> (items v ! n, p) \<in> set (sites st v) \<Longrightarrow>
      change_at p (f k) (El tag as h (draw_children st 0 1 (children v))) =
        Inr (El tag as h (draw_children st' 0 1 (children v)))"
  shows "at_class c f n (shown_in (El tag as h ds) st v) = Inr (shown_in (El tag as h ds) st' v)"
proof -
  have list: "is_list v" using n items_list by force
  obtain k p where p: "k \<in> ks" "by_class c (shown_in (El tag as h ds) st v) ! n = [0, 1] @ p @ [k]"
      "(items v ! n, p) \<in> set (sites st v)"
    using sited_shown(2) [OF assms(1) list assms(2) n] by blast
  have "at_class c f n (shown_in (El tag as h ds) st v) = change_at ([0, 1] @ p) (f k) (shown_in (El tag as h ds) st v)"
    using n by (simp add: at_class_def sited_shown(1) [OF assms(1) list assms(2)] p(2) Let_def butlast_append)
  also have "\<dots> = Inr (shown_in (El tag as h ds) st' v)"
    using change [OF p(1,3)] by (simp add: shown_in_def page_list [OF list])
  finally show ?thesis .
qed

lemma at_class_acts:
  assumes "sited ks (kids_by_class c 0 (draw_children st 0 1 (children v))) (sites st v)" "c \<in> set marker_classes"
    and "n < length (items v)" "\<And>k. k \<in> ks \<Longrightarrow> acts (f k) (st (items v ! n)) c'"
  shows "at_class c f n (shown_in (El tag as h ds) st v) =
    Inr (shown_in (El tag as h ds) (st(items v ! n := c')) v)"
  by (rule at_class_shown [OF assms(1-3)]) (rule change_site, assumption, rule assms(4), assumption, simp)

end
