(* ===== verification/Json_Collapser.thy ===== *)
theory Json_Collapser
  imports Json_Items
begin

text \<open>
  The view in use: each operation on the document that a user or a script can start is an update of
  the controls, the recursive collapser and the methods by level included; and the document that
  \<open>JSONView\<close> builds from the markup is the one with the initial controls.
\<close>

subsection \<open>The controls of the items\<close>

lemma items_sites: "q \<in> set (items v) \<longleftrightarrow> (\<exists>p. (q, p) \<in> set (sites st v))"
  unfolding site_items [of st, symmetric] by force

lemma items_iff:
  "q \<in> set (items v) \<longleftrightarrow>
     (\<exists>j < length (children v). is_list (snd (children v ! j)) \<and>
        (q = [j] \<or> (\<exists>q'. q = j # q' \<and> q' \<in> set (items (snd (children v ! j))))))"
proof -
  let ?st = "\<lambda>q :: nat list. Unbound"
  have "q \<in> set (items v) \<longleftrightarrow> (\<exists>p. (q, p) \<in> set (sites ?st v))" by (rule items_sites)
  also have "\<dots> \<longleftrightarrow> (\<exists>j < length (children v). \<exists>p. child_site ?st j (fst (children v ! j)) (snd (children v ! j)) q p)"
    by (subst sites_iff) blast
  finally show ?thesis by (auto simp: child_site_def items_sites [of _ _ ?st])
qed

lemma items_child:
  assumes "j < length (children v)" "children v ! j = (key, w)" "is_list w"
  shows "[j] \<in> set (items v)" "q \<in> set (items w) \<Longrightarrow> j # q \<in> set (items v)"
  using assms by (subst items_iff, force)+

lemma items_nonempty: "[] \<notin> set (items v)"
  by (subst items_iff) blast

lemma draw_children_items:
  assumes "\<And>q. q \<in> set (items v) \<Longrightarrow> st q = st' q"
  shows "draw_children st 0 level (children v) = draw_children st' 0 level (children v)"
  using assms
proof (induction v arbitrary: st st' level rule: children_induct)
  case (children v)
  show ?case
  proof (rule nth_equalityI)
    fix j assume "j < length (draw_children st 0 level (children v))"
    then have j: "j < length (children v)" by simp
    obtain key w where w: "children v ! j = (key, w)" by (cases "children v ! j")
    have "li_node st j level key (Suc j < length (children v)) w = li_node st' j level key (Suc j < length (children v)) w"
    proof (cases "is_list w")
      case True
      have "st [j] = st' [j]" by (rule children.prems) (rule items_child(1) [OF j w True])
      moreover have "draw_children (\<lambda>q. st (j # q)) 0 (level + 1) (children w) =
          draw_children (\<lambda>q. st' (j # q)) 0 (level + 1) (children w)"
      proof (rule children.IH [of key])
        show "(key, w) \<in> set (children v)" using j w by (metis nth_mem)
        fix q assume "q \<in> set (items w)"
        then show "st (j # q) = st' (j # q)" by (intro children.prems) (rule items_child(2) [OF j w True])
      qed
      ultimately show ?thesis by (simp add: li_list True)
    qed (simp add: li_node_def control_nodes_def draw_no_list)
    then show "draw_children st 0 level (children v) ! j = draw_children st' 0 level (children v) ! j"
      using j by (simp add: nth_draw_children w)
  qed simp
qed

lemma shown_in_cong:
  assumes "\<And>q. q \<in> set (items v) \<Longrightarrow> st q = st' q"
  shows "shown_in host st v = shown_in host st' v"
proof (cases "is_list v")
  case True
  have "draw_children st 0 1 (children v) = draw_children st' 0 1 (children v)"
    by (rule draw_children_items) (rule assms)
  then have "json_page st v = json_page st' v" using True by (simp add: page_list)
  then show ?thesis by (simp add: shown_in_def split: dom.split)
next
  case False
  then have "json_page st v = json_page st' v" using page_no_list [of v st st'] by blast
  then show ?thesis by (simp add: shown_in_def split: dom.split)
qed

lemma distinct_child_sites:
  assumes "\<And>w. w \<in> snd ` set ch \<Longrightarrow> distinct (items w)"
  shows "distinct (map fst (child_sites st i ch)) \<and> (\<forall>q \<in> set (map fst (child_sites st i ch)). i \<le> hd q)"
  using assms
proof (induction ch arbitrary: i)
  case (Cons x ch)
  obtain key w where x: "x = (key, w)" by (cases x)
  have eq: "map fst (child_sites st i (x # ch)) =
      (if is_list w then [i] # map ((#) i) (items w) else []) @ map fst (child_sites st (i + 1) ch)"
    by (simp add: x o_def case_prod_beta' flip: site_items [of "\<lambda>q. st (i # q)"])
  have "distinct (items w)" using Cons.prems by (simp add: x)
  moreover have "distinct (map fst (child_sites st (i + 1) ch))" "\<forall>q \<in> set (map fst (child_sites st (i + 1) ch)). i + 1 \<le> hd q"
    using Cons.IH [of "i + 1"] Cons.prems by auto
  ultimately show ?case using items_nonempty [of w]
    unfolding eq by (fastforce simp: distinct_map)
qed simp

lemma distinct_items: "distinct (items v)"
proof (induction v rule: children_induct)
  case (children v)
  then have "distinct (map fst (child_sites (\<lambda>q. Unbound) 0 (children v)))"
    using distinct_child_sites [of "children v" "\<lambda>q. Unbound" 0] by force
  then show ?case by (simp add: items_def sites_children)
qed


subsection \<open>Operations on the view\<close>

definition flip :: "control \<Rightarrow> control" where
  "flip c = (if c = Hidden then Shown else Hidden)"

definition bound :: "controls \<Rightarrow> json \<Rightarrow> bool" where
  "bound st v \<longleftrightarrow> (\<forall>q \<in> set (items v). st q \<noteq> Unbound)"

definition is_element :: "dom \<Rightarrow> bool" where
  "is_element d = (case d of El tag as hidden ds \<Rightarrow> True | Txt s \<Rightarrow> False)"

lemma acts_collapse: "c \<noteq> Unbound \<Longrightarrow> acts (collapse 0) c Hidden"
  by (simp add: acts_def collapse_item)

lemma acts_expand: "c \<noteq> Unbound \<Longrightarrow> acts (expand 0) c Shown"
  by (simp add: acts_def expand_item)

lemma acts_toggle: "c \<noteq> Unbound \<Longrightarrow> \<not> recursive_collapser opts \<Longrightarrow> acts (toggle opts 0) c (flip c)"
  by (simp add: acts_def toggle_item flip_def)

lemma acts_bind:
  "acts (\<lambda>item. if is_li item then bindEvent opts item else Inr item) Unbound (initial_control opts)"
proof -
  have "is_li (item_node c pre cls items post)" for c pre cls items post
    by (simp add: is_li_def item_node_def)
  then show ?thesis by (simp add: acts_def bind_item)
qed

text \<open>The controls in use decide; the others count as bound.\<close>

definition completed :: "controls \<Rightarrow> controls" where
  "completed st = (\<lambda>q. if st q = Unbound then Shown else st q)"

lemma shown_completed: "bound st v \<Longrightarrow> shown_in host (completed st) v = shown_in host st v"
  by (rule shown_in_cong) (simp add: completed_def bound_def)

lemma collapser_shown:
  assumes "is_element host" "bound st v" "n < length (items v)" "acts (f 0) (st (items v ! n)) c"
  shows "at_class (js ''collapser'') f n (shown_in host st v) = Inr (shown_in host (st(items v ! n := c)) v)"
proof -
  obtain tag as h ds where host: "host = El tag as h ds" using assms(1) by (cases host) (auto simp: is_element_def)
  have item: "completed st (items v ! n) = st (items v ! n)" and some: "\<And>q. completed st q \<noteq> Unbound"
    using assms(2,3) by (simp_all add: completed_def bound_def)
  have "at_class (js ''collapser'') f n (shown_in host (completed st) v) =
      Inr (shown_in host ((completed st)(items v ! n := c)) v)"
    unfolding host
    by (rule at_class_acts [where ks = "{0}"])
      (use assms(3,4) some in \<open>auto simp: item intro!: sited_collapser\<close>)
  moreover have "shown_in host ((completed st)(items v ! n := c)) v = shown_in host (st(items v ! n := c)) v"
    by (rule shown_in_cong) (use assms(2) in \<open>simp add: completed_def bound_def\<close>)
  ultimately show ?thesis using shown_completed [OF assms(2)] by simp
qed

lemma collapsible_shown:
  assumes "is_element host" "n < length (items v)" "\<And>k. acts (f k) (st (items v ! n)) c"
  shows "at_class (js ''collapsible'') f n (shown_in host st v) = Inr (shown_in host (st(items v ! n := c)) v)"
proof -
  obtain tag as h ds where host: "host = El tag as h ds" using assms(1) by (cases host) (auto simp: is_element_def)
  show ?thesis unfolding host
    by (rule at_class_acts [where ks = UNIV]) (use assms(2,3) in \<open>auto intro!: sited_collapsible\<close>)
qed

lemma count_shown:
  assumes "is_element host"
  shows "length (by_class (js ''collapsible'') (shown_in host st v)) = length (items v)"
    and "bound st v \<Longrightarrow> length (by_class (js ''collapser'') (shown_in host st v)) = length (items v)"
proof -
  obtain tag as h ds where host: "host = El tag as h ds" using assms(1) by (cases host) (auto simp: is_element_def)
  have none: "length (by_class c (shown_in host st v)) = length (items v)" if "\<not> is_list v" "c \<in> set marker_classes" for c st
    using neutralD [of "[json_page st v]" c] page_no_list [OF that(1), of st st] items_list [of v] that by (auto simp: host shown_in_def)
  have some: "completed st q \<noteq> Unbound" for q by (simp add: completed_def)
  show "length (by_class (js ''collapsible'') (shown_in host st v)) = length (items v)"
    using none sited_shown(1) [OF sited_collapsible] by (cases "is_list v") (simp_all add: host)
  have "length (by_class (js ''collapser'') (shown_in host (completed st) v)) = length (items v)"
    using none sited_shown(1) [OF sited_collapser [OF _ some]] by (cases "is_list v") (simp_all add: host)
  then show "bound st v \<Longrightarrow> length (by_class (js ''collapser'') (shown_in host st v)) = length (items v)"
    by (simp add: shown_completed)
qed

fun all_set :: "(control \<Rightarrow> control) \<Rightarrow> nat list list \<Rightarrow> controls \<Rightarrow> controls" where
  "all_set g [] st = st"
| "all_set g (q # qs) st = all_set g qs (st(q := g (st q)))"

lemma all_set_eq: "distinct qs \<Longrightarrow> all_set g qs st = (\<lambda>q. if q \<in> set qs then g (st q) else st q)"
  by (induction qs arbitrary: st) auto


text \<open>A loop whose rounds each set one control.\<close>

lemma in_turn_sets:
  assumes "\<And>n st. n \<in> set ns \<Longrightarrow> ok st \<Longrightarrow> F n (drawn st) = Inr (drawn (st(it n := g (st (it n))))) \<and> ok (st(it n := g (st (it n))))"
    and "ok st"
  shows "in_turn F ns (drawn st) = Inr (drawn (all_set g (map it ns) st)) \<and> ok (all_set g (map it ns) st)"
  using assms
proof (induction ns arbitrary: st)
  case (Cons n ns)
  then show ?case using Cons.IH [of "st(it n := g (st (it n)))"] Cons.prems(1) [of n st] by (simp del: fun_upd_apply)
qed simp

lemma bound_update: "bound st v \<Longrightarrow> c \<noteq> Unbound \<Longrightarrow> bound (st(q := c)) v"
  by (simp add: bound_def)

lemma in_turn_collapsers:
  assumes "is_element host" "bound st v" "\<And>n. n \<in> set ns \<Longrightarrow> n < length (items v)"
    and g: "\<And>c. c \<noteq> Unbound \<Longrightarrow> acts (f 0) c (g c) \<and> g c \<noteq> Unbound"
  shows "in_turn (at_class (js ''collapser'') f) ns (shown_in host st v) =
    Inr (shown_in host (all_set g (map ((!) (items v)) ns) st) v)"
proof -
  have "at_class (js ''collapser'') f n (shown_in host st v) =
      Inr (shown_in host (st(items v ! n := g (st (items v ! n)))) v) \<and> bound (st(items v ! n := g (st (items v ! n)))) v"
    if "n \<in> set ns" "bound st v" for n st
  proof -
    have c: "st (items v ! n) \<noteq> Unbound" using assms(3) [OF that(1)] that(2) by (simp add: bound_def)
    show ?thesis
      using collapser_shown [OF assms(1) that(2) assms(3) [OF that(1)]] bound_update [OF that(2)] g [OF c] by blast
  qed
  from in_turn_sets [of ns "\<lambda>st. bound st v" "at_class (js ''collapser'') f" "\<lambda>st. shown_in host st v" "(!) (items v)" g, OF this assms(2)]
  show ?thesis by blast
qed

text \<open>\<open>JSONView\<close> gives every item that holds a list a control.\<close>

lemma in_turn_bind:
  assumes "is_element host" "set ns \<subseteq> {..< length (items v)}" "distinct ns" "\<And>n. n \<in> set ns \<Longrightarrow> st (items v ! n) = Unbound"
    and f: "\<And>k. acts (f k) Unbound c"
  shows "in_turn (at_class (js ''collapsible'') f) ns (shown_in host st v) =
    Inr (shown_in host (all_set (\<lambda>_. c) (map ((!) (items v)) ns) st) v)"
  using assms(2-4)
proof (induction ns arbitrary: st)
  case (Cons n ns)
  let ?q = "items v ! n"
  have "at_class (js ''collapsible'') f n (shown_in host st v) = Inr (shown_in host (st(?q := c)) v)"
    by (rule collapsible_shown [OF assms(1)]) (use Cons.prems f in auto)
  moreover have "(st(?q := c)) (items v ! m) = Unbound" if "m \<in> set ns" for m
    using Cons.prems that nth_eq_iff_index_eq [OF distinct_items, of m v n] by auto
  ultimately show ?case using Cons.IH [of "st(?q := c)"] Cons.prems by (simp del: fun_upd_apply)
qed simp

lemma all_set_items:
  "shown_in host (all_set g (map ((!) (items v)) [0..<length (items v)]) st) v = shown_in host (\<lambda>q. g (st q)) v"
  by (rule shown_in_cong) (simp add: map_nth all_set_eq distinct_items)

theorem bind_items_shown:
  assumes "is_element host"
  shows "bind_items opts (shown_in host (\<lambda>q. Unbound) v) = Inr (shown_in host (\<lambda>q. initial_control opts) v)"
proof -
  have "in_turn (at_class (js ''collapsible'') (\<lambda>k item. if is_li item then bindEvent opts item else Inr item))
       [0..<length (items v)] (shown_in host (\<lambda>q. Unbound) v) =
     Inr (shown_in host (all_set (\<lambda>_. initial_control opts) (map ((!) (items v)) [0..<length (items v)]) (\<lambda>q. Unbound)) v)"
    by (rule in_turn_bind [OF assms]) (auto simp: acts_bind)
  then show ?thesis
    by (simp add: bind_items_def count_shown(1) [OF assms] all_set_items [of host "\<lambda>_. initial_control opts"])
qed

theorem click_toggles_item:
  assumes "is_element host" "bound st v" "n < length (items v)" "\<not> recursive_collapser opts"
  shows "click_collapser opts n (shown_in host st v) =
    Inr (shown_in host (st(items v ! n := flip (st (items v ! n)))) v)"
  unfolding click_collapser_def
  by (rule collapser_shown [OF assms(1-3)]) (use assms in \<open>simp add: acts_toggle bound_def\<close>)

lemma flip_bound [simp]: "flip c \<noteq> Unbound"
  by (simp add: flip_def)

lemma flip_flip: "c \<noteq> Unbound \<Longrightarrow> flip (flip c) = c"
  by (cases c) (simp_all add: flip_def)


text \<open>The recursive collapser: the controls inside of an item.\<close>

definition inner_items :: "nat \<Rightarrow> json \<Rightarrow> nat list list" where
  "inner_items i w = [i] # map ((#) i) (items w)"

lemma li_step:
  assumes "is_list w" "0 < level" "\<And>q. st q \<noteq> Unbound" "n < length (inner_items i w)" "acts (f 0) (st (inner_items i w ! n)) c"
  shows "at_class (js ''collapser'') f n (li_node st i level key follows w) =
    Inr (li_node (st(inner_items i w ! n := c)) i level key follows w)"
proof -
  let ?u = "ul_pos (st [i]) (front_length key)"
  define K where "K = kids_by_class (js ''collapser'') 0 (draw_children (\<lambda>q. st (i # q)) 0 (level + 1) (children w))"
  have by_class: "by_class (js ''collapser'') (li_node st i level key follows w) = [0] # map ((#) ?u) K"
    unfolding K_def by (rule li_collapser) (rule assms)+
  have sited: "sited {0} K (sites (\<lambda>q. st (i # q)) w)"
    unfolding K_def by (rule sited_collapser) (use assms(3) in auto)
  then have len: "length K = length (items w)"
    unfolding sited_def by (simp add: list_all2_lengthD flip: site_items [of "\<lambda>q. st (i # q)"])
  show ?thesis
  proof (cases n)
    case 0
    then show ?thesis using acts_li [of "f 0" st i c w level key follows] assms
      by (simp add: at_class_def by_class inner_items_def del: fun_upd_apply)
  next
    case (Suc m)
    then have m: "m < length (items w)" using assms(4) by (simp add: inner_items_def)
    let ?s = "sites (\<lambda>q. st (i # q)) w ! m"
    have m': "m < length (sites (\<lambda>q. st (i # q)) w)" using m by (simp flip: site_items [of "\<lambda>q. st (i # q)"])
    have K: "K ! m = snd ?s @ [0]" using sited m' unfolding sited_def list_all2_conv_all_nth by auto
    have s: "fst ?s = items w ! m" using m' by (simp flip: site_items [of "\<lambda>q. st (i # q)"])
    have "?s \<in> set (sites (\<lambda>q. st (i # q)) w)" using m' by simp
    then have "(items w ! m, snd ?s) \<in> set (sites (\<lambda>q. st (i # q)) w)" using s by (metis prod.collapse)
    from change_site [OF this, of "f 0" c "level + 1"] assms(5)
    have "change_at (snd ?s) (f 0) (El tag as h (draw_children (\<lambda>q. st (i # q)) 0 (level + 1) (children w))) =
        Inr (El tag as h (draw_children ((\<lambda>q. st (i # q))(items w ! m := c)) 0 (level + 1) (children w)))" for tag as h
      using m by (simp add: Suc inner_items_def)
    note change = change_in_item [OF this, where pre = "item_front key w"]
    have "(st(i # items w ! m := c)) [i] = st [i]" using items_nonempty m nth_mem by fastforce
    moreover have "(\<lambda>q. (st(i # items w ! m := c)) (i # q)) = (\<lambda>q. st (i # q))(items w ! m := c)" by auto
    ultimately have "change_at (?u # snd ?s) (f 0) (li_node st i level key follows w) =
        Inr (li_node (st(i # items w ! m := c)) i level key follows w)"
      using change unfolding li_list [OF assms(1)] by simp
    then show ?thesis using m len
      by (simp add: at_class_def by_class Suc inner_items_def K butlast_append del: fun_upd_apply)
  qed
qed

lemma li_node_items:
  assumes "is_list w" "\<And>q. q \<in> set (inner_items i w) \<Longrightarrow> st q = st' q"
  shows "li_node st i level key follows w = li_node st' i level key follows w"
proof -
  have "draw_children (\<lambda>q. st (i # q)) 0 (level + 1) (children w) = draw_children (\<lambda>q. st' (i # q)) 0 (level + 1) (children w)"
    by (rule draw_children_items) (simp add: assms(2) inner_items_def)
  then show ?thesis using assms by (simp add: li_list inner_items_def)
qed

lemma distinct_inner: "distinct (inner_items i w)"
  using items_nonempty [of w] distinct_items [of w] by (auto simp: inner_items_def distinct_map)

text \<open>Everything from an item downwards.\<close>

definition set_from :: "nat list \<Rightarrow> control \<Rightarrow> controls \<Rightarrow> controls" where
  "set_from q c st = (\<lambda>r. if take (length q) r = q then c else st r)"

lemma toggle_inner:
  assumes "is_list w" "0 < level" "\<And>q. st q \<noteq> Unbound" "recursive_collapser opts"
  shows "toggle opts 0 (li_node st i level key follows w) =
    Inr (li_node (set_from [i] (flip (st [i])) st) i level key follows w)"
proof -
  let ?li = "\<lambda>st. li_node st i level key follows w"
  let ?c = "flip (st [i])"
  let ?f = "if st [i] = Hidden then expand else collapse"
  let ?its = "inner_items i w"
  have act: "acts (?f 0) c ?c" if "c \<noteq> Unbound" for c
    using that by (simp add: flip_def acts_collapse acts_expand)
  have len: "length (by_class (js ''collapser'') (?li st)) = length ?its"
  proof -
    have "length (kids_by_class (js ''collapser'') 0 (draw_children (\<lambda>q. st (i # q)) 0 (level + 1) (children w))) = length (items w)"
      using sited_collapser [of "level + 1" "\<lambda>q. st (i # q)" w] assms(3)
      unfolding sited_def by (simp add: list_all2_lengthD flip: site_items [of "\<lambda>q. st (i # q)"])
    then show ?thesis using assms(1-3) by (simp add: li_collapser inner_items_def)
  qed
  have "in_turn (at_class (js ''collapser'') ?f) [0..<length ?its] (?li st) =
      Inr (?li (all_set (\<lambda>_. ?c) (map ((!) ?its) [0..<length ?its]) st))"
  proof -
    have "at_class (js ''collapser'') ?f n (?li st') = Inr (?li (st'(?its ! n := ?c))) \<and> (\<forall>q. (st'(?its ! n := ?c)) q \<noteq> Unbound)"
      if "n \<in> set [0..<length ?its]" "\<forall>q. st' q \<noteq> Unbound" for n st'
      using li_step [OF assms(1,2), of st' n i ?f ?c key follows] that act by simp
    from in_turn_sets [of "[0..<length ?its]" "\<lambda>st. \<forall>q. st q \<noteq> Unbound" _ ?li "(!) ?its" "\<lambda>_. ?c", OF this] assms(3)
    show ?thesis by blast
  qed
  moreover have "?li (all_set (\<lambda>_. ?c) (map ((!) ?its) [0..<length ?its]) st) = ?li (set_from [i] ?c st)"
    by (rule li_node_items [OF assms(1)])
      (auto simp: map_nth all_set_eq distinct_inner set_from_def, auto simp: inner_items_def)
  moreover have "collapseTarget (?li st) = Some [ul_pos (st [i]) (front_length key)]"
      "is_hidden (?li st) [ul_pos (st [i]) (front_length key)] \<longleftrightarrow> st [i] = Hidden"
    using item_target [OF neutral_front list_words_level [OF assms(2)], of "st [i]" key w] 
      item_hidden [of "st [i]" "item_front key w"]
    by (simp_all add: li_list [OF assms(1)])
  ultimately show ?thesis using assms(4) by (simp add: toggle_def len Let_def)
qed


lemma toggle_shown_recursive:
  assumes "is_element host" "bound st v" "n < length (items v)" "recursive_collapser opts"
  shows "at_class (js ''collapser'') (toggle opts) n (shown_in host st v) =
    Inr (shown_in host (set_from (items v ! n) (flip (st (items v ! n))) st) v)"
proof -
  let ?q = "items v ! n"
  obtain tag as h ds where host: "host = El tag as h ds" using assms(1) by (cases host) (auto simp: is_element_def)
  have item: "completed st ?q = st ?q" and some: "\<And>q. completed st q \<noteq> Unbound"
    using assms(2,3) by (simp_all add: completed_def bound_def)
  let ?st' = "set_from ?q (flip (st ?q)) (completed st)"
  have q: "?q \<noteq> []" using items_nonempty assms(3) nth_mem by fastforce
  obtain b l where bl: "?q = b @ [l]" using q by (metis append_butlast_last_id)
  have inner: "(\<lambda>r. ?st' (butlast ?q @ r)) = set_from [last ?q] (flip (st ?q)) (\<lambda>r. completed st (butlast ?q @ r))"
    by (simp add: set_from_def fun_eq_iff bl)
  have li: "toggle opts 0 (li_node (\<lambda>r. completed st (butlast ?q @ r)) (last ?q) level key follows w) =
      Inr (li_node (\<lambda>r. ?st' (butlast ?q @ r)) (last ?q) level key follows w)"
    if "is_list w" "0 < level" for level key follows w
    unfolding inner using toggle_inner [OF that, of "\<lambda>r. completed st (butlast ?q @ r)" opts "last ?q"] some assms(4) q item by simp
  have outer: "?st' r = completed st r" if "take (length ?q) r \<noteq> ?q" for r
    using that by (simp add: set_from_def)
  have "at_class (js ''collapser'') (toggle opts) n (shown_in host (completed st) v) = Inr (shown_in host ?st' v)"
    unfolding host
  proof (rule at_class_shown [where ks = "{0}"])
    fix k p tag as h assume "k \<in> {0 :: nat}" "(?q, p) \<in> set (sites (completed st) v)"
    then show "change_at p (toggle opts k) (El tag as h (draw_children (completed st) 0 1 (children v))) =
        Inr (El tag as h (draw_children ?st' 0 1 (children v)))"
      using change_subtree [OF _ _ outer li] by simp
  qed (use assms(3) some in \<open>auto intro!: sited_collapser\<close>)
  moreover have "shown_in host ?st' v = shown_in host (set_from ?q (flip (st ?q)) st) v"
    by (rule shown_in_cong) (use assms(2) in \<open>simp add: set_from_def completed_def bound_def\<close>)
  ultimately show ?thesis using shown_completed [OF assms(2)] by simp
qed

subsection \<open>The methods of the view\<close>

lemma neutral_no_class: "neutral ds \<Longrightarrow> c \<in> set marker_classes \<Longrightarrow> d \<in> set ds \<Longrightarrow> \<not> has_class c d"
proof -
  assume "neutral ds" "c \<in> set marker_classes" "d \<in> set ds"
  moreover have "kids_by_class c i ds = [] \<Longrightarrow> d \<in> set ds \<Longrightarrow> \<not> has_class c d" for i
    by (induction ds arbitrary: i) (auto split: if_splits)
  ultimately show ?thesis unfolding neutral_def by blast
qed

lemma node_site:
  assumes "(q, p) \<in> set (sites st v)" "0 < level"
  shows "\<exists>c pre w ds post. neutral pre \<and>
    dom_at (El tag as h (draw_children st 0 level (children v))) p =
      Some (item_node c pre (list_class (kind_of w) (level + length q - 1)) ds post)"
  using assms
proof (induction v arbitrary: st q p level tag as h rule: children_induct)
  case (children v)
  obtain j where j: "j < length (children v)" "child_site st j (fst (children v ! j)) (snd (children v ! j)) q p"
    using children.prems(1) unfolding sites_iff by blast
  obtain key w where w: "children v ! j = (key, w)" by (cases "children v ! j")
  have list: "is_list w" using j(2) by (auto simp: child_site_def w)
  have li: "dom_at (El tag as h (draw_children st 0 level (children v))) (j # p') =
      dom_at (item_node (st [j]) (item_front key w) (list_class (kind_of w) level)
        (draw_children (\<lambda>q. st (j # q)) 0 (level + 1) (children w))
        (closing_text w @ (if Suc j < length (children v) then js '','' else []))) p'" for p'
    using j(1) by (simp add: nth_draw_children w li_list [OF list])
  show ?case
  proof (cases "q = [j]")
    case True
    then have p: "p = [j]" using j(2) site_nonempty by (auto simp: child_site_def)
    show ?thesis unfolding p li dom_at.simps(1) using neutral_front [of key w]
      by (intro exI conjI) (assumption, simp add: True)
  next
    case False
    then obtain q' p' where qp: "q = j # q'" "p = j # ul_pos (st [j]) (front_length key) # p'"
        "(q', p') \<in> set (sites (\<lambda>r. st (j # r)) w)"
      using j(2) by (auto simp: child_site_def w)
    have "dom_at (item_node c pre cls ds post) (ul_pos c (length pre) # p') = dom_at (El (js ''ul'') [class_attr cls] (c = Hidden) ds) p'"
      for c pre cls ds post
      by (auto simp: item_node_def list_nodes_def ul_pos_def nth_append)
    note below = this [where pre = "item_front key w"]
    have "(key, w) \<in> set (children v)" using j(1) w by (metis nth_mem)
    from children.IH [OF this qp(3), of "level + 1" "js ''ul''"] have
      "\<exists>c pre w' ds post. neutral pre \<and>
        dom_at (El (js ''ul'') as h (draw_children (\<lambda>r. st (j # r)) 0 (level + 1) (children w))) p' =
          Some (item_node c pre (list_class (kind_of w') (level + length q - 1)) ds post)" for as h
      by (simp add: qp(1))
    then show ?thesis unfolding qp(2) li using below by simp
  qed
qed

lemma level_class:
  "js ''level'' @ show_base 10 m \<in> set (class_words [] (list_class (kind_of w) n)) \<longleftrightarrow> m = n"
proof -
  have "js ''level'' @ show_base 10 m \<noteq> kind_of w" "js ''level'' @ show_base 10 m \<noteq> js ''collapsible''"
    by (auto simp: kind_of_def js_def split: json.splits)
  then show ?thesis using show_base_inj [of 10 m n] by (auto simp: level_words [OF kind_space])
qed

definition at_level :: "nat option \<Rightarrow> nat list \<Rightarrow> bool" where
  "at_level level q \<longleftrightarrow> (case level of None \<Rightarrow> True | Some n \<Rightarrow> length q = n)"

lemma selected_item:
  assumes "neutral pre" "0 < n" "dom_at d (butlast p) = Some (item_node c pre (list_class (kind_of w) n) ds post)"
  shows "selected level d p \<longleftrightarrow> (case level of None \<Rightarrow> True | Some m \<Rightarrow> m = n)"
proof -
  have "\<not> has_class (js ''collapsible'') x" if "x \<in> set (controls_of c) \<union> set pre" for x
    using that neutral_no_class [OF assms(1)]
    by (auto simp: controls_of_def collapser_node_def marker_words simp del: has_class.simps(2) split: control.splits)
  moreover have "\<not> has_class (js ''collapsible'') ellipsis_node"
    by (simp add: ellipsis_node_def marker_words del: has_class.simps(2))
  moreover have "has_class (js ''collapsible'') (El (js ''ul'') [class_attr (list_class (kind_of w) n)] h ds)" for h
    using list_words_level [OF assms(2), of w] by (simp add: list_words_def del: has_class.simps(2))
  ultimately show ?thesis
    by (auto simp: selected_def assms(3) item_node_def list_nodes_def list_ex_iff level_class
        simp del: has_class.simps(2) split: option.splits)
qed


lemma selected_shown:
  assumes "is_element host" "bound st v" "n < length (items v)"
  shows "selected level (shown_in host st v) (by_class (js ''collapser'') (shown_in host st v) ! n) \<longleftrightarrow>
    at_level level (items v ! n)"
proof -
  obtain tag as h ds where host: "host = El tag as h ds" using assms(1) by (cases host) (auto simp: is_element_def)
  have list: "is_list v" using assms(3) items_list by force
  have some: "\<And>q. completed st q \<noteq> Unbound" by (simp add: completed_def)
  let ?d = "shown_in host (completed st) v"
  obtain p where p: "by_class (js ''collapser'') ?d ! n = [0, 1] @ p @ [0]" "(items v ! n, p) \<in> set (sites (completed st) v)"
    using sited_shown(2) [OF sited_collapser [of 1 "completed st" v] list _ assms(3), of tag as h ds] some
    by (auto simp: host)
  have "0 < length (items v ! n)" using items_nonempty assms(3) nth_mem by fastforce
  moreover obtain c pre w ds post where "neutral pre"
     "dom_at ?d ([0, 1] @ p) = Some (item_node c pre (list_class (kind_of w) (length (items v ! n))) ds post)"
    using node_site [OF p(2), of 1 "js ''ul''" "[class_attr (list_class (kind_of v) 0)]" False]
    by (auto simp: shown_in_def host page_list [OF list])
  ultimately have "selected level ?d ([0, 1] @ p @ [0]) \<longleftrightarrow> at_level level (items v ! n)"
    using selected_item [of pre "length (items v ! n)" ?d "[0, 1] @ p @ [0]" c w ds post level]
    by (cases level) (auto simp: butlast_append at_level_def)
  then show ?thesis using p(1) by (simp add: shown_completed [OF assms(2)])
qed

fun method_control :: "view_method \<Rightarrow> control \<Rightarrow> control" where
  "method_control Method_collapse c = Hidden"
| "method_control Method_expand c = Shown"
| "method_control Method_toggle c = flip c"

lemma mark_item: "c \<noteq> Unbound \<Longrightarrow> mark_of 0 (item_node c pre cls ds post) = (if c = Hidden then js ''+'' else js ''-'')"
  by (cases c) (simp_all add: mark_of_def item_node_def controls_of_def collapser_node_def)

lemma acts_method:
  assumes "c \<noteq> Unbound"
  shows "acts (method_action m 0) c (method_control m c)"
proof -
  have "js ''+'' \<noteq> js ''-''" by (simp add: js_def)
  then show ?thesis
    using assms
    by (cases m; cases c)
      (simp_all add: acts_def method_action_def mark_item collapse_item expand_item toggle_item flip_def defaultOptions_def)
qed

theorem method_shown:
  assumes "is_element host" "bound st v"
  shows "JSONView_method m level (shown_in host st v) =
    Inr (shown_in host (\<lambda>q. if at_level level q then method_control m (st q) else st q) v)"
proof -
  let ?ns = "filter (\<lambda>n. selected level (shown_in host st v) (by_class (js ''collapser'') (shown_in host st v) ! n)) [0..<length (items v)]"
  have ns: "?ns = filter (\<lambda>n. at_level level (items v ! n)) [0..<length (items v)]"
    by (rule filter_cong) (simp_all add: selected_shown [OF assms])
  have its: "map ((!) (items v)) ?ns = filter (at_level level) (items v)"
    unfolding ns by (metis filter_map map_nth comp_apply filter_cong)
  have g: "c \<noteq> Unbound \<Longrightarrow> acts (method_action m 0) c (method_control m c) \<and> method_control m c \<noteq> Unbound" for c
    using acts_method [of c m] by (cases m) auto
  have "in_turn (at_class (js ''collapser'') (method_action m)) ?ns (shown_in host st v) =
      Inr (shown_in host (all_set (method_control m) (filter (at_level level) (items v)) st) v)"
    unfolding its [symmetric] by (rule in_turn_collapsers [OF assms]) (use g in auto)
  moreover have "shown_in host (all_set (method_control m) (filter (at_level level) (items v)) st) v =
      shown_in host (\<lambda>q. if at_level level q then method_control m (st q) else st q) v"
    by (rule shown_in_cong) (simp add: all_set_eq distinct_items)
  ultimately show ?thesis
    by (simp add: JSONView_method_def Let_def count_shown(2) [OF assms])
qed

subsection \<open>From the markup to the document\<close>

fun is_txt :: "dom \<Rightarrow> bool" where
  "is_txt (Txt s) = True"
| "is_txt (El tag as h ds) = False"

text \<open>Trees as a parser builds them: no text is empty and no two texts are next to each other.\<close>

fun normal :: "dom \<Rightarrow> bool"
  and normals :: "dom list \<Rightarrow> bool" where
  "normal (Txt s) = (s \<noteq> [])"
| "normal (El tag as h ds) = (\<not> h \<and> normals ds)"
| "normals [] = True"
| "normals (d # ds) = (normal d \<and> normals ds \<and> (is_txt d \<longrightarrow> ds = [] \<or> \<not> is_txt (hd ds)))"

lemma put_after_txt: "put_after (ds @ [Txt t]) s = ds @ [Txt (t @ s)]"
  by (induction ds) (simp_all add: put_after_Cons)

lemma put_after_new: "ds = [] \<or> \<not> is_txt (last ds) \<Longrightarrow> put_after ds s = ds @ [Txt s]"
proof (induction ds)
  case (Cons d ds)
  then show ?case by (cases ds; cases d) (simp_all add: put_after_Cons)
qed simp

lemma build_text: "build (ds @ [Txt t]) fs (map Unit s @ ts) = build (ds @ [Txt (t @ s)]) fs ts"
  by (induction s arbitrary: t) (simp_all add: put_after_txt)

lemma build_tokens:
  "normal d \<Longrightarrow> (is_txt d \<Longrightarrow> ds = [] \<or> \<not> is_txt (last ds)) \<Longrightarrow> build ds fs (tokens d @ ts) = build (ds @ [d]) fs ts"
  "normals es \<Longrightarrow> (es \<noteq> [] \<Longrightarrow> is_txt (hd es) \<Longrightarrow> ds = [] \<or> \<not> is_txt (last ds)) \<Longrightarrow>
     build ds fs (concat (map tokens es) @ ts) = build (ds @ es) fs ts"
proof (induction d and es arbitrary: ds fs ts and ds fs ts rule: normal_normals.induct)
  case (1 s)
  then obtain u s' where s: "s = u # s'" by (cases s) auto
  then show ?case using 1 build_text [of ds "[u]" fs s' ts] by (simp add: put_after_new)
next
  case (4 d es)
  then show ?case by (cases es) auto
qed auto


lemma normals_put_after: "normals ds \<Longrightarrow> s \<noteq> [] \<Longrightarrow> normals (put_after ds s)"
proof (induction ds)
  case (Cons d ds)
  have "is_txt (hd (put_after (a # es) s)) \<longleftrightarrow> is_txt a" for a es
    by (cases es; cases a) simp_all
  with Cons show ?case by (cases ds; cases d) (auto simp: put_after_Cons)
qed simp

lemma normals_put_before: "normals ds \<Longrightarrow> s \<noteq> [] \<Longrightarrow> normals (put_before s ds)"
  by (cases "(s, ds)" rule: put_before.cases) auto

lemma normals_comma: "normals ds \<Longrightarrow> normals (comma b ds)"
  by (simp add: comma_def normals_put_after js_def)

lemma quote_units_Nil: "quote_units s = [] \<longleftrightarrow> s = []"
  by (induction s rule: quote_units.induct) (simp_all add: quote_unit_def unicode_escape_def)

lemma normals_quoted: "normals (quoted_nodes s)"
  by (simp add: quoted_nodes_def quote_node_def quote_units_Nil)

lemma normals_value:
  "printable v \<Longrightarrow> normals (value_nodes level v)"
  "all_printable vs \<Longrightarrow> normals (array_items level vs) \<and> (\<forall>d \<in> set (array_items level vs). \<not> is_txt d)"
  "members_printable ms \<Longrightarrow> normals (object_items level ms) \<and> (\<forall>d \<in> set (object_items level ms). \<not> is_txt d)"
proof (induction level v and level vs and level ms rule: value_nodes_array_items_object_items.induct)
  case (4 level s)
  then show ?case by (simp add: string_nodes_def plain_span_def normals_quoted stringify_def)
next
  case (12 level k v ms)
  then show ?case
    by (simp add: key_node_def normals_quoted normals_put_before normals_comma js_def)
qed (auto simp: plain_span_def list_node_def normals_comma js_def)

lemma normal_view: "printable v \<Longrightarrow> normal (view v)"
  by (simp add: view_def normals_value)

theorem JSONView_shows:
  assumes "is_element host" "escaping_options opts" "printable v"
  shows "JSONView opts host v = Some (Inr (shown_in host (\<lambda>q. initial_control opts) v))"
proof -
  obtain html where html: "jsonToHTML opts v = Inr html" "read_html html = Some (tokens (view v))"
    using json_view_reads [OF assms(2,3)] by blast
  have "build [] [] (tokens (view v)) = Some [view v]"
    using build_tokens(1) [OF normal_view [OF assms(3)], of "[]" "[]" "[]"] by simp
  then have "parse_markup html = Some [view v]" by (simp add: parse_markup_def html(2))
  then show ?thesis
    using bind_items_shown [OF assms(1), of opts v] assms(1)
    by (cases host) (simp_all add: JSONView_def html(1) is_element_def shown_in_def view_page)
qed

subsection \<open>What the user does\<close>

definition clicked :: "view_options \<Rightarrow> json \<Rightarrow> nat \<Rightarrow> controls \<Rightarrow> controls" where
  "clicked opts v n st =
     (let q = items v ! n; c = flip (st q)
      in if recursive_collapser opts then set_from q c st else st(q := c))"

definition called :: "view_method \<Rightarrow> nat option \<Rightarrow> controls \<Rightarrow> controls" where
  "called m level st = (\<lambda>q. if at_level level q then method_control m (st q) else st q)"

text \<open>A click on a collapser, or a call of a method by a script.\<close>

datatype view_action = Click nat | Call view_method "nat option"

fun act :: "view_options \<Rightarrow> view_action \<Rightarrow> dom \<Rightarrow> dom res" where
  "act opts (Click n) d = click_collapser opts n d"
| "act opts (Call m level) d = JSONView_method m level d"

fun acted :: "view_options \<Rightarrow> json \<Rightarrow> view_action \<Rightarrow> controls \<Rightarrow> controls" where
  "acted opts v (Click n) st = clicked opts v n st"
| "acted opts v (Call m level) st = called m level st"

fun possible :: "json \<Rightarrow> view_action \<Rightarrow> bool" where
  "possible v (Click n) = (n < length (items v))"
| "possible v (Call m level) = True"

lemma act_shown:
  assumes "is_element host" "bound st v" "possible v a"
  shows "act opts a (shown_in host st v) = Inr (shown_in host (acted opts v a st) v)"
    and "bound (acted opts v a st) v"
proof -
  have "method_control m c \<noteq> Unbound" for m c by (cases m) simp_all
  then show "bound (acted opts v a st) v"
    using assms(2) by (cases a) (auto simp: clicked_def called_def Let_def bound_def set_from_def)
  show "act opts a (shown_in host st v) = Inr (shown_in host (acted opts v a st) v)"
    using assms(3) toggle_shown_recursive [OF assms(1,2)] click_toggles_item [OF assms(1,2)] method_shown [OF assms(1,2)]
    by (cases a) (auto simp: clicked_def called_def click_collapser_def Let_def)
qed

lemma acts_shown:
  assumes "is_element host" "bound st v" "list_all (possible v) as"
  shows "in_turn (act opts) as (shown_in host st v) = Inr (shown_in host (fold (acted opts v) as st) v)"
  using assms(2,3)
  by (induction as arbitrary: st) (simp_all add: act_shown [OF assms(1)])

text \<open>
  C20: The view of a value is put into the page with a control on each list in the value, and from
  then on every click on a collapser and every call of \<open>collapse\<close>, \<open>expand\<close> or \<open>toggle\<close>, with or without
  a level, in any order, changes the document exactly as it changes the controls: the item of the
  click, or everything below it with the recursive collapser, or all items of the level. In
  the document that belongs to the controls an item has a plus sign and an ellipsis just when its
  list is hidden; no operation fails and none touches another item.
\<close>

theorem json_view_session:
  assumes "is_element host" "escaping_options opts" "printable v" "list_all (possible v) as"
  shows "\<exists>d. JSONView opts host v = Some (Inr d) \<and>
    in_turn (act opts) as d = Inr (shown_in host (fold (acted opts v) as (\<lambda>q. initial_control opts)) v)"
  using JSONView_shows [OF assms(1-3)] acts_shown [OF assms(1) _ assms(4), of "\<lambda>q. initial_control opts" opts]
  by (simp add: bound_def initial_control_def)

text \<open>Two lists, one in the other; the inner one is opened again by a click.\<close>

definition nested_sample :: json where
  "nested_sample = JObject [(js ''sessions'', JArray [JObject [(js ''id'', JNumber (js ''7''))], JArray []])]"

definition some_element :: dom where
  "some_element = El (js ''div'') [(js ''id'', js ''api-detail-resp'')] False []"

theorem json_view_session_witness:
  "\<exists>d. JSONView defaultOptions some_element nested_sample = Some (Inr d) \<and>
    in_turn (act defaultOptions) [Call Method_collapse None, Click 1] d =
      Inr (shown_in some_element
        (fold (acted defaultOptions nested_sample) [Call Method_collapse None, Click 1] (\<lambda>q. initial_control defaultOptions)) nested_sample)"
  by (rule json_view_session) (code_simp+)

text \<open>
  The listener on the key of an item is meant to toggle the item as well. It goes by the target of
  the click: on one of the quotes around the key that is an element inside of the key, its parent
  has no list, and the handler throws. On the rest of the key it works.
\<close>

lemma toggle_key_fails: "toggle opts 0 (key_node k) = Inl TypeError"
proof -
  have "by_class (js ''collapsible'') (key_node k) = []"
    using neutralD [OF neutral_key, of "js ''collapsible''" 0 k] by simp
  then show ?thesis by (simp add: toggle_def collapseTarget_def)
qed

theorem click_on_quote_fails:
  assumes "dom_at d (butlast p) = Some (key_node k)"
  shows "click_first_child opts p d = Inl TypeError"
proof -
  have "dom_at d p = Some x \<Longrightarrow> change_at p f d = Inl e" if "f x = Inl e" for d p f x e
    using that by (induction p f d rule: change_at.induct) (auto split: if_splits)
  from this [where f = "toggle opts 0", OF toggle_key_fails assms] show ?thesis by (simp add: click_first_child_def)
qed

definition key_sample :: json where
  "key_sample = JObject [(js ''a'', JArray [JNull])]"

theorem key_clicks:
  "click_first_child defaultOptions [0, 1, 0, 1, 0] (shown_in some_element (\<lambda>q. Shown) key_sample) = Inl TypeError"
  "click_first_child defaultOptions [0, 1, 0, 1] (shown_in some_element (\<lambda>q. Shown) key_sample) =
     Inr (shown_in some_element (\<lambda>q. Hidden) key_sample)"
  by code_simp+

end
