(* ===== verification/Notify.thy ===== *)
theory Notify
  imports Console
begin

text \<open>
  The notifications of the console: \<open>showNotify\<close> of \<open>ui/js/common.js\<close> and the library it uses
  (\<open>static/components/bootstrap-notify/js/bootstrap-notify.js\<close>). The state is the notifications in
  the order of the document, each with its place on the screen, and the timers that run. What the
  browser measures is an argument: the height of a new notification, and the place of one that
  closes, which differs from the place it was given while the transition of the style runs.
\<close>

subsection \<open>Settings and markup\<close>

record notify_content =
  c_message :: js_string
  c_title :: js_string
  c_icon :: js_string
  c_url :: js_string
  c_target :: js_string

record notify_settings =
  s_content :: notify_content
  s_type :: js_string
  s_allow_dismiss :: bool
  s_newest_on_top :: bool
  s_from :: js_string
  s_align :: js_string
  s_offset :: int
  s_spacing :: int
  s_delay :: int
  s_timer :: int
  s_url_target :: js_string
  s_pause :: bool \<comment> \<open>\<open>mouse_over == "pause"\<close>\<close>

definition no_content :: notify_content where
  "no_content = \<lparr>c_message = [], c_title = [], c_icon = [], c_url = js ''#'', c_target = js ''-''\<rparr>"

definition notify_defaults :: notify_settings where
  "notify_defaults =
     \<lparr>s_content = no_content, s_type = js ''info'', s_allow_dismiss = True, s_newest_on_top = False,
      s_from = js ''top'', s_align = js ''right'', s_offset = 20, s_spacing = 10, s_delay = 5000,
      s_timer = 1000, s_url_target = js ''_blank'', s_pause = False\<rparr>"

text \<open>A template is written with a tilde for each double quote.\<close>

definition quoted :: "string \<Rightarrow> js_string" where
  "quoted s = map (\<lambda>c. if c = CHR ''~'' then 34 else of_char c) s"

definition template :: js_string where
  "template = quoted (
     ''<div data-notify=~container~ class=~col-xs-11 col-sm-4 alert alert-{0}~ role=~alert~>'' @
     ''<button type=~button~ aria-hidden=~true~ class=~close~ data-notify=~dismiss~>&times;</button>'' @
     ''<span data-notify=~icon~></span> <span data-notify=~title~>{1}</span> '' @
     ''<span data-notify=~message~>{2}</span><div class=~progress~ data-notify=~progressbar~>'' @
     ''<div class=~progress-bar progress-bar-{0}~ role=~progressbar~ aria-valuenow=~0~ aria-valuemin=~0~ '' @
     ''aria-valuemax=~100~ style=~width: 0%;~></div></div><a href=~{3}~ target=~{4}~ data-notify=~url~></a></div>'')"

text \<open>
  The replacement text of \<open>replace\<close>: a dollar sign followed by one of four characters stands for
  itself, the match, the text before and the text after.
\<close>

fun expand_replacement :: "js_string \<Rightarrow> js_string \<Rightarrow> js_string \<Rightarrow> js_string \<Rightarrow> js_string" where
  "expand_replacement m b a [] = []"
| "expand_replacement m b a [u] = [u]"
| "expand_replacement m b a (u # v # s) =
     (if u = 36 \<and> v = 36 then 36 # expand_replacement m b a s
      else if u = 36 \<and> v = 38 then m @ expand_replacement m b a s
      else if u = 36 \<and> v = 96 then b @ expand_replacement m b a s
      else if u = 36 \<and> v = 39 then a @ expand_replacement m b a s
      else u # expand_replacement m b a (v # s))"

function replace_placeholder :: "js_string \<Rightarrow> js_string \<Rightarrow> js_string \<Rightarrow> js_string \<Rightarrow> js_string" where
  "replace_placeholder m r pre [] = []"
| "replace_placeholder m r pre (u # s) =
     (if prefix_of m (u # s)
      then (let rest = drop (length m - 1) s
            in expand_replacement m (rev pre) rest r @ replace_placeholder m r (rev m @ pre) rest)
      else u # replace_placeholder m r (u # pre) s)"
  by pat_completeness auto
termination by (relation "measure (\<lambda>(m, r, pre, s). length s)") auto

definition placeholder :: "nat \<Rightarrow> js_string" where
  "placeholder i = js ''{'' @ show_base 10 i @ js ''}''"

fun notify_format_from :: "nat \<Rightarrow> js_string \<Rightarrow> js_string list \<Rightarrow> js_string" where
  "notify_format_from i str [] = str"
| "notify_format_from i str (x # xs) = notify_format_from (i + 1) (replace_placeholder (placeholder i) x [] str) xs"

definition string_format :: "js_string \<Rightarrow> js_string list \<Rightarrow> js_string" where
  "string_format str xs = notify_format_from 0 str xs"

subsection \<open>The notifications of a page\<close>

record notification =
  n_id :: nat
  n_settings :: notify_settings
  n_markup :: js_string
  n_icon_class :: js_string
  n_top :: int
  n_height :: int
  n_data_closing :: bool \<comment> \<open>\<open>data('closing')\<close>\<close>
  n_attr_closing :: bool \<comment> \<open>the attribute \<open>data-closing\<close>\<close>
  n_delay :: int \<comment> \<open>\<open>data('notify-delay')\<close>\<close>
  n_hover :: bool \<comment> \<open>\<open>data('data-hover')\<close>\<close>

record notify_page =
  p_shown :: "notification list" \<comment> \<open>in the order of the document\<close>
  p_made :: nat \<comment> \<open>how many were made so far\<close>
  p_timers :: "nat list" \<comment> \<open>the intervals that run, by their notification\<close>

definition empty_page :: notify_page where
  "empty_page = \<lparr>p_shown = [], p_made = 0, p_timers = []\<rparr>"

definition set_top :: "nat \<Rightarrow> int \<Rightarrow> notification list \<Rightarrow> notification list" where
  "set_top i x ns = map (\<lambda>n. if n_id n = i then n\<lparr>n_top := x\<rparr> else n) ns"

text \<open>The attribute selector: same place, and not marked as closing by the attribute.\<close>

definition notifies :: "notify_settings \<Rightarrow> notification \<Rightarrow> bool" where
  "notifies s n \<longleftrightarrow>
     s_from (n_settings n) = s_from s \<and> s_align (n_settings n) = s_align s \<and> \<not> n_attr_closing n"

text \<open>\<open>nextAll\<close> and \<open>prevAll\<close>: the siblings after an element, and those before it, nearest first.\<close>

definition nextAll :: "nat \<Rightarrow> notification list \<Rightarrow> notification list" where
  "nextAll i ns = tl (dropWhile (\<lambda>n. n_id n \<noteq> i) ns)"

definition prevAll :: "nat \<Rightarrow> notification list \<Rightarrow> notification list" where
  "prevAll i ns = (if i \<in> n_id ` set ns then rev (takeWhile (\<lambda>n. n_id n \<noteq> i) ns) else [])"

fun stack_from :: "int \<Rightarrow> int \<Rightarrow> notification list \<Rightarrow> notification list \<Rightarrow> notification list" where
  "stack_from spacing posX [] ns = ns"
| "stack_from spacing posX (e # es) ns =
     stack_from spacing (posX + spacing + n_height e) es (set_top (n_id e) posX ns)"

definition reposition :: "notification \<Rightarrow> int \<Rightarrow> notification list \<Rightarrow> notification list" where
  "reposition self posX ns =
     (let s = n_settings self;
          elements = (if s_newest_on_top s then prevAll (n_id self) ns else nextAll (n_id self) ns)
      in stack_from (s_spacing s) posX (filter (notifies s) elements) ns)"

text \<open>\<open>tops\<close> is what the browser computes for the place of an element.\<close>

definition placement_offset :: "(notification \<Rightarrow> int) \<Rightarrow> notify_settings \<Rightarrow> notification list \<Rightarrow> int" where
  "placement_offset tops s ns =
     (if s_newest_on_top s then s_offset s
      else fold (\<lambda>n offsetAmt. max offsetAmt (tops n + n_height n + s_spacing s)) (filter (notifies s) ns) (s_offset s))"

definition placement :: "(notification \<Rightarrow> int) \<Rightarrow> notification \<Rightarrow> notification list \<Rightarrow> notification list" where
  "placement tops self ns =
     (let s = n_settings self;
          offsetAmt = placement_offset tops s ns;
          ns = ns @ [self\<lparr>n_top := offsetAmt\<rparr>]
      in if s_newest_on_top s then reposition self (offsetAmt + s_spacing s + n_height self) ns else ns)"

definition buildNotify :: "nat \<Rightarrow> notify_settings \<Rightarrow> int \<Rightarrow> notification" where
  "buildNotify i s height =
     (let c = s_content s
      in \<lparr>n_id = i, n_settings = s,
          n_markup = string_format template [s_type s, c_title c, c_message c, c_url c, c_target c],
          n_icon_class = c_icon c, n_top = 0, n_height = height, n_data_closing = False, n_attr_closing = False,
          n_delay = s_delay s, n_hover = False\<rparr>)"

definition notify_init :: "(notification \<Rightarrow> int) \<Rightarrow> notify_settings \<Rightarrow> int \<Rightarrow> notify_page \<Rightarrow> notify_page" where
  "notify_init tops s height p =
     (let c = s_content s;
          s = s\<lparr>s_content := c\<lparr>c_target := (if c_target c = js ''-'' then s_url_target s else c_target c)\<rparr>\<rparr>;
          n = buildNotify (p_made p) s height
      in p\<lparr>p_shown := placement tops n (p_shown p), p_made := p_made p + 1,
           p_timers := (if s_delay s > 0 then n_id n # p_timers p else p_timers p)\<rparr>)"

definition mark_closing :: "nat \<Rightarrow> notification list \<Rightarrow> notification list" where
  "mark_closing i ns = map (\<lambda>n. if n_id n = i then n\<lparr>n_data_closing := True\<rparr> else n) ns"

text \<open>
  \<open>close\<close>; the element leaves the document later (\<open>notify_remove\<close>), and jQuery drops its data with
  it. From then on the delay that the timer reads is no number, so the timer does nothing.
\<close>

definition find_notification :: "nat \<Rightarrow> notify_page \<Rightarrow> notification option" where
  "find_notification i p = List.find (\<lambda>n. n_id n = i) (p_shown p)"

definition notify_close :: "(notification \<Rightarrow> int) \<Rightarrow> nat \<Rightarrow> notify_page \<Rightarrow> notify_page" where
  "notify_close tops i p =
     (case find_notification i p of
        None \<Rightarrow> p
      | Some n \<Rightarrow> p\<lparr>p_shown := reposition n (tops n) (mark_closing i (p_shown p))\<rparr>)"

definition notify_remove :: "nat \<Rightarrow> notify_page \<Rightarrow> notify_page" where
  "notify_remove i p = p\<lparr>p_shown := filter (\<lambda>n. n_id n \<noteq> i) (p_shown p)\<rparr>"

definition set_delay :: "nat \<Rightarrow> int \<Rightarrow> notification list \<Rightarrow> notification list" where
  "set_delay i d ns = map (\<lambda>n. if n_id n = i then n\<lparr>n_delay := d\<rparr> else n) ns"

text \<open>The function of the interval timer.\<close>

definition notify_tick :: "(notification \<Rightarrow> int) \<Rightarrow> nat \<Rightarrow> notify_page \<Rightarrow> notify_page" where
  "notify_tick tops i p =
     (if i \<notin> set (p_timers p) then p
      else (case find_notification i p of
              None \<Rightarrow> p
            | Some n \<Rightarrow>
                (let s = n_settings n;
                     delay = n_delay n - s_timer s;
                     p = (if \<not> n_hover n \<or> \<not> s_pause s then p\<lparr>p_shown := set_delay i delay (p_shown p)\<rparr> else p)
                 in if delay \<le> - s_timer s
                    then notify_close tops i (p\<lparr>p_timers := removeAll i (p_timers p)\<rparr>) else p)))"

definition notify_hover :: "nat \<Rightarrow> bool \<Rightarrow> notify_page \<Rightarrow> notify_page" where
  "notify_hover i b p = p\<lparr>p_shown := map (\<lambda>n. if n_id n = i then n\<lparr>n_hover := b\<rparr> else n) (p_shown p)\<rparr>"

text \<open>The end of \<open>update\<close>, after a change that left the notification with a new height.\<close>

definition update_height :: "nat \<Rightarrow> int \<Rightarrow> notify_page \<Rightarrow> notify_page" where
  "update_height i height p =
     (case List.find (\<lambda>n. n_id n = i) (p_shown p) of
        None \<Rightarrow> p
      | Some n \<Rightarrow>
          (let s = n_settings n;
               ns = map (\<lambda>n. if n_id n = i then n\<lparr>n_height := height\<rparr> else n) (p_shown p)
           in p\<lparr>p_shown := reposition n (height + s_spacing s + s_offset s) ns\<rparr>))"

text \<open>What \<open>showNotify\<close> of the console asks for.\<close>

definition console_settings :: "string \<times> js_string \<times> string \<Rightarrow> notify_settings" where
  "console_settings = (\<lambda>(icon, message, type).
     notify_defaults\<lparr>s_content := no_content\<lparr>c_message := message, c_icon := js icon\<rparr>,
       s_type := js type, s_newest_on_top := True, s_allow_dismiss := True, s_delay := 1000\<rparr>)"

definition console_notify :: "(notification \<Rightarrow> int) \<Rightarrow> js_string \<Rightarrow> string \<Rightarrow> int \<Rightarrow> notify_page \<Rightarrow> notify_page" where
  "console_notify tops message type height p =
     (case showNotify True message type of
        None \<Rightarrow> p
      | Some request \<Rightarrow> notify_init tops (console_settings request) height p)"

subsection \<open>What happens to the page\<close>

datatype notify_event =
    Show js_string string int
  | Dismiss nat
  | Tick nat
  | Hover nat bool
  | Removed nat

fun happens :: "(notification \<Rightarrow> int) \<Rightarrow> notify_event \<Rightarrow> notify_page \<Rightarrow> notify_page" where
  "happens tops (Show message type height) p = console_notify tops message type height p"
| "happens tops (Dismiss i) p = notify_close tops i p"
| "happens tops (Tick i) p = notify_tick tops i p"
| "happens tops (Hover i b) p = notify_hover i b p"
| "happens tops (Removed i) p = (if list_ex (\<lambda>n. n_id n = i \<and> n_data_closing n) (p_shown p) then notify_remove i p else p)"

definition tops_of :: "notify_page \<Rightarrow> (nat \<times> int \<times> int) list" where
  "tops_of p = map (\<lambda>n. (n_id n, n_top n, n_height n)) (p_shown p)"

subsection \<open>The stack\<close>

text \<open>The list of the notifications from the newest to the oldest, which is from top to bottom.\<close>

definition below :: "notification \<Rightarrow> notification \<Rightarrow> bool" where
  "below n m \<longleftrightarrow> n_top n + (if n_data_closing n then 0 else n_height n + 10) \<le> n_top m"

definition console_like :: "notify_settings \<Rightarrow> bool" where
  "console_like s \<longleftrightarrow>
     s_newest_on_top s \<and> s_from s = js ''top'' \<and> s_align s = js ''right'' \<and> s_spacing s = 10 \<and> s_offset s = 20 \<and>
     s_timer s = 1000 \<and> s_delay s = 1000 \<and> \<not> s_pause s"

definition of_console :: "notification \<Rightarrow> bool" where
  "of_console n \<longleftrightarrow> console_like (n_settings n) \<and> \<not> n_attr_closing n \<and> 0 \<le> n_height n \<and> 20 \<le> n_top n"

definition stack_inv :: "notify_page \<Rightarrow> bool" where
  "stack_inv p \<longleftrightarrow>
     sorted_wrt below (rev (p_shown p)) \<and> distinct (map n_id (p_shown p)) \<and>
     (\<forall>n \<in> set (p_shown p). n_id n < p_made p \<and> of_console n)"

primrec stacked :: "int \<Rightarrow> notification list \<Rightarrow> notification list" where
  "stacked x [] = []"
| "stacked x (e # es) = e\<lparr>n_top := x\<rparr> # stacked (x + 10 + n_height e) es"

lemma map_id_stacked [simp]: "map n_id (stacked x es) = map n_id es"
  by (induction es arbitrary: x) simp_all

lemma length_stacked [simp]: "length (stacked x es) = length es"
  by (induction es arbitrary: x) simp_all

lemma set_top_rev: "set_top i x (rev ns) = rev (set_top i x ns)"
  by (simp add: set_top_def rev_map)

lemma set_top_other: "i \<notin> n_id ` set ns \<Longrightarrow> set_top i x ns = ns"
  by (auto simp: set_top_def intro!: map_idI)

lemma set_top_append: "set_top i x (ns @ ms) = set_top i x ns @ set_top i x ms"
  by (simp add: set_top_def)

lemma stack_from_rev:
  "distinct (map n_id (front @ es)) \<Longrightarrow> stack_from 10 x es (rev (front @ es)) = rev (front @ stacked x es)"
proof (induction es arbitrary: front x)
  case (Cons e es)
  have "set_top (n_id e) x (rev (front @ e # es)) = rev (front @ e\<lparr>n_top := x\<rparr> # es)"
    unfolding set_top_rev using Cons.prems
    by (simp add: set_top_append set_top_other) (simp add: set_top_def set_top_other [unfolded set_top_def])
  then show ?case using Cons.IH [of "front @ [e\<lparr>n_top := x\<rparr>]" "x + 10 + n_height e"] Cons.prems by simp
qed simp

lemma prevAll_rev:
  assumes "distinct (map n_id (front @ n # es))"
  shows "prevAll (n_id n) (rev (front @ n # es)) = es"
proof -
  have "n_id x \<noteq> n_id n" if "x \<in> set (rev es)" for x using assms that by (auto simp: image_iff)
  then have "takeWhile (\<lambda>x. n_id x \<noteq> n_id n) (rev es @ n # rev front) = rev es"
    by (subst takeWhile_append2) auto
  then show ?thesis by (simp add: prevAll_def)
qed

lemma reposition_rev:
  assumes "distinct (map n_id (front @ n' # es))" "n_id n = n_id n'" "console_like (n_settings n)" "\<forall>m \<in> set es. of_console m"
  shows "reposition n x (rev (front @ n' # es)) = rev (front @ n' # stacked x es)"
proof -
  have "filter (notifies (n_settings n)) es = es"
    using assms(3,4) by (auto simp: notifies_def console_like_def of_console_def intro!: filter_True)
  then show ?thesis
    using prevAll_rev [OF assms(1)] stack_from_rev [of "front @ [n']" es x] assms
    by (simp add: reposition_def console_like_def Let_def)
qed

lemma stacked_below:
  "\<forall>e \<in> set es. of_console e \<Longrightarrow> sorted_wrt below (stacked x es) \<and> (\<forall>m \<in> set (stacked x es). x \<le> n_top m)"
proof (induction es arbitrary: x)
  case (Cons e es)
  have "0 \<le> n_height e" using Cons.prems by (simp add: of_console_def)
  moreover have "sorted_wrt below (stacked (x + 10 + n_height e) es)" "\<forall>m \<in> set (stacked (x + 10 + n_height e) es). x + 10 + n_height e \<le> n_top m"
    using Cons by auto
  ultimately show ?case by (fastforce simp: below_def [of "e\<lparr>n_top := x\<rparr>"])
qed simp

lemma of_console_top: "of_console e \<Longrightarrow> 20 \<le> x \<Longrightarrow> of_console (e\<lparr>n_top := x\<rparr>)"
  by (simp add: of_console_def)

lemma stacked_console: "\<forall>e \<in> set es. of_console e \<Longrightarrow> 20 \<le> x \<Longrightarrow> \<forall>e \<in> set (stacked x es). of_console e"
proof (induction es arbitrary: x)
  case (Cons e es)
  have "0 \<le> n_height e" using Cons.prems by (simp add: of_console_def)
  then show ?case using Cons.IH [of "x + 10 + n_height e"] Cons.prems by (simp add: of_console_top)
qed simp

lemma stacked_ids: "n_id ` set (stacked x es) = n_id ` set es"
  by (metis map_id_stacked set_map)

lemma stacked_id: "m \<in> set (stacked x es) \<Longrightarrow> \<exists>e \<in> set es. n_id m = n_id e"
  by (metis stacked_ids imageE imageI)

lemma stack_inv_empty: "stack_inv empty_page"
  by (simp add: stack_inv_def empty_page_def)

text \<open>Changes that leave place, size and closing alone.\<close>

lemma stack_inv_map:
  assumes "stack_inv p" "\<And>n. n_id (f n) = n_id n \<and> n_top (f n) = n_top n \<and> n_height (f n) = n_height n \<and>
      n_data_closing (f n) = n_data_closing n \<and> n_attr_closing (f n) = n_attr_closing n \<and> n_settings (f n) = n_settings n"
  shows "stack_inv (p\<lparr>p_shown := map f (p_shown p)\<rparr>)"
proof -
  have "below (f n) (f m) \<longleftrightarrow> below n m" for n m using assms(2) by (simp add: below_def)
  then have "sorted_wrt below (rev (map f (p_shown p)))"
    using assms(1) by (simp add: stack_inv_def rev_map sorted_wrt_map)
  moreover have "map n_id (map f ns) = map n_id ns" for ns using assms(2) by simp
  moreover have "of_console (f n) \<longleftrightarrow> of_console n" for n using assms(2) by (simp add: of_console_def)
  ultimately show ?thesis using assms by (auto simp: stack_inv_def simp del: map_map)
qed

lemma stack_inv_timers [simp]: "stack_inv (p\<lparr>p_timers := ts\<rparr>) \<longleftrightarrow> stack_inv p"
  by (simp add: stack_inv_def)

text \<open>The page after the notifications below a place of the stack were moved.\<close>

lemma stack_inv_stacked:
  assumes "sorted_wrt below (front @ [n])" "\<forall>m \<in> set (front @ n # es). n_id m < k \<and> of_console m"
    and "distinct (map n_id (front @ n # es))" "n_top n + (if n_data_closing n then 0 else n_height n + 10) \<le> x"
  shows "stack_inv \<lparr>p_shown = rev (front @ n # stacked x es), p_made = k, p_timers = ts\<rparr>"
proof -
  have n: "0 \<le> n_height n" "20 \<le> n_top n" "of_console n" using assms(2) by (auto simp: of_console_def)
  then have x: "n_top n \<le> x" "20 \<le> x" using assms(4) by (auto split: if_splits)
  have es: "sorted_wrt below (stacked x es)" "\<forall>m \<in> set (stacked x es). x \<le> n_top m" "\<forall>m \<in> set (stacked x es). of_console m"
    using stacked_below [of es x] stacked_console [OF _ x(2)] assms(2) by auto
  have "below n m" if "m \<in> set (stacked x es)" for m
    using es(2) that assms(4) unfolding below_def by fastforce
  moreover have "below m m'" if "m \<in> set front" "m' \<in> set (stacked x es)" for m m'
    using es(2) that x(1) assms(1) unfolding below_def by (fastforce simp: sorted_wrt_append below_def)
  ultimately have "sorted_wrt below (front @ n # stacked x es)"
    using assms(1) es(1) by (auto simp: sorted_wrt_append)
  moreover have "\<forall>m \<in> set (front @ n # stacked x es). n_id m < k \<and> of_console m"
    using assms(2) es(3) stacked_id [of _ x es] by fastforce
  moreover have "distinct (map n_id (front @ n # stacked x es))"
    using assms(3) by simp
  ultimately show ?thesis by (auto simp: stack_inv_def simp flip: rev_map)
qed

lemma stack_inv_show:
  assumes "stack_inv p" "0 \<le> height"
  shows "stack_inv (console_notify tops message type height p)"
proof -
  let ?L = "rev (p_shown p)"
  obtain s where s: "console_notify tops message type height p =
      (let n = buildNotify (p_made p) s height
       in p\<lparr>p_shown := placement tops n (p_shown p), p_made := p_made p + 1, p_timers := n_id n # p_timers p\<rparr>)" "console_like s"
    by (rule that [of "(console_settings (notify_icon type, message, type))\<lparr>s_content := (s_content (console_settings (notify_icon type, message, type)))
         \<lparr>c_target := (if c_target (s_content (console_settings (notify_icon type, message, type))) = js ''-''
           then s_url_target (console_settings (notify_icon type, message, type)) else c_target (s_content (console_settings (notify_icon type, message, type))))\<rparr>\<rparr>"])
      (simp_all add: console_notify_def showNotify_def notify_init_def Let_def console_settings_def notify_defaults_def console_like_def buildNotify_def)
  define n where "n = buildNotify (p_made p) s height"
  have n: "n_id n = p_made p" "n_settings n = s" "n_height n = height" "\<not> n_data_closing n" "\<not> n_attr_closing n"
    by (simp_all add: n_def buildNotify_def Let_def)
  have L: "\<forall>m \<in> set ?L. n_id m < p_made p \<and> of_console m" "distinct (map n_id ?L)"
    using assms(1) by (auto simp: stack_inv_def simp flip: rev_map)
  let ?n = "n\<lparr>n_top := 20\<rparr>"
  have ids: "distinct (map n_id ([] @ ?n # ?L))" using L n by (auto simp: image_iff simp flip: rev_map)
  have console: "of_console ?n" using s(2) n assms(2) by (simp add: of_console_def)
  have "placement tops n (p_shown p) = rev ([] @ ?n # stacked (20 + 10 + height) ?L)"
    using reposition_rev [OF ids, of n "20 + 10 + height"] L(1) s(2) n
    by (auto simp: placement_def placement_offset_def console_like_def Let_def)
  moreover have "stack_inv \<lparr>p_shown = rev ([] @ ?n # stacked (20 + 10 + height) ?L), p_made = p_made p + 1, p_timers = ts\<rparr>" for ts
    by (rule stack_inv_stacked) (use L n console ids in \<open>auto simp: less_Suc_eq\<close>)
  ultimately show ?thesis unfolding s n_def [symmetric] Let_def by (cases p) simp
qed

lemma mark_closing_other: "i \<notin> n_id ` set ns \<Longrightarrow> mark_closing i ns = ns"
  by (auto simp: mark_closing_def intro!: map_idI)

lemma find_notification_Some: "find_notification i p = Some n \<Longrightarrow> n \<in> set (p_shown p) \<and> n_id n = i"
  unfolding find_notification_def find_Some_iff by (metis nth_mem)

lemma stack_inv_close:
  assumes "stack_inv p"
  shows "stack_inv (notify_close n_top i p)"
proof (cases "find_notification i p")
  case (Some n)
  note found = find_notification_Some [OF Some]
  then have "n \<in> set (rev (p_shown p))" by simp
  then obtain front es where split: "rev (p_shown p) = front @ n # es" by (meson split_list)
  then have shown: "p_shown p = rev (front @ n # es)" by (metis rev_rev_ident)
  let ?n = "n\<lparr>n_data_closing := True\<rparr>"
  have ids: "distinct (map n_id (front @ n # es))" and below: "sorted_wrt below (front @ n # es)"
      and console: "\<forall>m \<in> set (front @ n # es). n_id m < p_made p \<and> of_console m"
    using assms unfolding stack_inv_def shown by (auto simp flip: rev_map)
  have ids': "distinct (map n_id (front @ ?n # es))" using ids by simp
  have "mark_closing i (p_shown p) = rev (front @ ?n # es)"
    using ids found mark_closing_other [of i "rev front"] mark_closing_other [of i "rev es"]
    by (auto simp: shown mark_closing_def)
  then have closed: "notify_close n_top i p = \<lparr>p_shown = rev (front @ ?n # stacked (n_top n) es), p_made = p_made p, p_timers = p_timers p\<rparr>"
    using reposition_rev [OF ids', of n "n_top n"] found console
    by (intro notify_page.equality) (simp_all add: notify_close_def Some of_console_def)
  show ?thesis unfolding closed
    by (rule stack_inv_stacked) (use below console ids' in \<open>auto simp: sorted_wrt_append below_def of_console_def\<close>)
qed (simp add: notify_close_def assms)

lemma stack_inv_remove: "stack_inv p \<Longrightarrow> stack_inv (notify_remove i p)"
  by (auto simp: stack_inv_def notify_remove_def rev_filter sorted_wrt_filter distinct_map_filter)

lemma stack_inv_tick:
  assumes "stack_inv p"
  shows "stack_inv (notify_tick n_top i p)"
  using assms stack_inv_map [OF assms, of "\<lambda>n. if n_id n = i then n\<lparr>n_delay := d\<rparr> else n" for d]
  by (auto simp: notify_tick_def Let_def set_delay_def intro!: stack_inv_close split: option.split)


fun measured :: "notify_event \<Rightarrow> bool" where
  "measured (Show message type height) \<longleftrightarrow> 0 \<le> height"
| "measured _ \<longleftrightarrow> True"

lemma stack_inv_happens: "stack_inv p \<Longrightarrow> measured e \<Longrightarrow> stack_inv (happens n_top e p)"
  using stack_inv_map [of p "\<lambda>n. if n_id n = i then n\<lparr>n_hover := b\<rparr> else n" for i b]
  by (cases e) (auto simp: notify_hover_def stack_inv_show stack_inv_close stack_inv_tick stack_inv_remove)

lemma stack_inv_fold: "stack_inv p \<Longrightarrow> \<forall>e \<in> set es. measured e \<Longrightarrow> stack_inv (fold (happens n_top) es p)"
  by (induction es arbitrary: p) (auto intro: stack_inv_happens)

definition three_shown :: "notify_event list" where
  "three_shown = [Show (js ''a'') ''info'' 3, Show (js ''b'') ''error'' 4, Dismiss 0, Show (js ''c'') ''info'' 2]"

text \<open>
  C21: Where the browser measures a notification at the place it was given, which it does when no
  transition of the style is under way (\<open>transition_overlaps\<close> shows the other case), a notification
  that is not closing covers no older one: whatever is shown, with a height that is not negative, dismissed, hovered over,
  closed by its timer or taken out of the document, in any order, the older one starts at least the
  spacing below it; and every notification on the page, closing or not, keeps the distance to the edge of the window.
\<close>

theorem notifications_never_overlap:
  assumes "\<forall>e \<in> set es. measured e" "shown = p_shown (fold (happens n_top) es empty_page)"
  shows "(\<forall>n \<in> set shown. 20 \<le> n_top n) \<and>
    (\<forall>newer < length shown. \<not> n_data_closing (shown ! newer) \<longrightarrow>
       (\<forall>older < newer. n_top (shown ! newer) + n_height (shown ! newer) + 10 \<le> n_top (shown ! older)))"
proof -
  have inv: "sorted_wrt below (rev shown)" "\<forall>n \<in> set shown. of_console n"
    using stack_inv_fold [OF stack_inv_empty assms(1)] by (auto simp: stack_inv_def assms(2))
  have "n_top (shown ! newer) + n_height (shown ! newer) + 10 \<le> n_top (shown ! older)"
    if "older < newer" "newer < length shown" "\<not> n_data_closing (shown ! newer)" for older newer
  proof -
    define i where "i = length shown - 1 - newer"
    define j where "j = length shown - 1 - older"
    have "i < j" "j < length (rev shown)" "rev shown ! i = shown ! newer" "rev shown ! j = shown ! older"
      using that by (auto simp: i_def j_def rev_nth)
    then have "below (shown ! newer) (shown ! older)" using sorted_wrt_nth_less [OF inv(1)] by metis
    then show ?thesis using that(3) by (simp add: below_def)
  qed
  then show ?thesis using inv(2) by (simp add: of_console_def)
qed

lemmas run_simps = empty_page_def console_notify_def showNotify_def notify_init_def placement_def placement_offset_def reposition_def
  prevAll_def nextAll_def notifies_def notify_close_def find_notification_def mark_closing_def set_top_def buildNotify_def
  console_settings_def notify_defaults_def no_content_def notify_tick_def set_delay_def notify_remove_def notify_hover_def
  update_height_def tops_of_def Let_def

theorem notifications_never_overlap_witness:
  "let shown = p_shown (fold (happens n_top) three_shown empty_page) in
   length shown = 3 \<and> (\<forall>n \<in> set shown. 20 \<le> n_top n) \<and>
   n_top (shown ! 2) + n_height (shown ! 2) + 10 \<le> n_top (shown ! 1)"
proof -
  define shown where "shown = p_shown (fold (happens n_top) three_shown empty_page)"
  have facts: "\<forall>e \<in> set three_shown. measured e" "length shown = 3" "\<not> n_data_closing (shown ! 2)"
    by (simp_all add: shown_def three_shown_def run_simps)
  then show ?thesis
    using notifications_never_overlap [OF facts(1) shown_def] unfolding Let_def shown_def [symmetric] by simp
qed

text \<open>A timer that runs goes on for ever once its notification has left the document.\<close>

lemma find_notification_None: "find_notification i p = None \<longleftrightarrow> i \<notin> n_id ` set (p_shown p)"
  by (auto simp: find_notification_def find_None_iff)

lemma ids_set_top [simp]: "map n_id (set_top i x ns) = map n_id ns"
  by (simp add: set_top_def)

lemma ids_stack_from [simp]: "map n_id (stack_from s x es ns) = map n_id ns"
  by (induction es arbitrary: x ns) simp_all

lemma ids_reposition [simp]: "map n_id (reposition n x ns) = map n_id ns"
  by (simp add: reposition_def Let_def)

lemma ids_close: "map n_id (p_shown (notify_close tops i p)) = map n_id (p_shown p)"
proof (cases "find_notification i p")
  case (Some n)
  then show ?thesis by (simp add: notify_close_def) (simp add: mark_closing_def)
qed (simp add: notify_close_def)

lemma ids_tick: "map n_id (p_shown (notify_tick tops i p)) = map n_id (p_shown p)"
  by (auto simp: notify_tick_def Let_def ids_close set_delay_def split: option.split)

lemma ids_happens:
  "map n_id (p_shown (happens tops e p)) = map n_id (p_shown p) \<or> (\<exists>i. p_shown (happens tops e p) = filter (\<lambda>n. n_id n \<noteq> i) (p_shown p)) \<or>
   map n_id (p_shown (happens tops e p)) = map n_id (p_shown p) @ [p_made p]"
  by (cases e) (auto simp: console_notify_def showNotify_def notify_init_def placement_def buildNotify_def notify_hover_def notify_remove_def
      ids_close ids_tick Let_def)

lemma made_happens: "p_made p \<le> p_made (happens tops e p)"
  by (cases e) (auto simp: console_notify_def showNotify_def notify_init_def notify_hover_def notify_close_def notify_remove_def
      notify_tick_def Let_def split: option.split)

lemma timers_close [simp]: "p_timers (notify_close tops i p) = p_timers p"
  by (simp add: notify_close_def split: option.split)

lemma timers_happens:
  assumes "i \<in> set (p_timers p)" "i \<notin> n_id ` set (p_shown p)"
  shows "i \<in> set (p_timers (happens tops e p))"
proof (cases e)
  case (Tick j)
  show ?thesis
  proof (cases "j = i")
    case True
    then have "find_notification j p = None" using assms(2) by (simp add: find_notification_None)
    then show ?thesis using assms(1) by (simp add: Tick notify_tick_def)
  next
    case False
    then show ?thesis using assms(1) by (auto simp: Tick notify_tick_def Let_def split: option.split)
  qed
qed (use assms(1) in \<open>auto simp: console_notify_def showNotify_def notify_init_def notify_hover_def notify_remove_def Let_def\<close>)

lemma gone_happens:
  assumes "i < p_made p" "i \<notin> n_id ` set (p_shown p)"
  shows "i \<notin> n_id ` set (p_shown (happens tops e p))"
proof -
  consider "map n_id (p_shown (happens tops e p)) = map n_id (p_shown p)"
    | k where "p_shown (happens tops e p) = filter (\<lambda>n. n_id n \<noteq> k) (p_shown p)"
    | "map n_id (p_shown (happens tops e p)) = map n_id (p_shown p) @ [p_made p]"
    using ids_happens [of tops e p] by blast
  then show ?thesis
  proof cases
    case 1
    then show ?thesis using assms(2) by (metis set_map)
  next
    case 2
    then show ?thesis using assms(2) by auto
  next
    case 3
    then have "n_id ` set (p_shown (happens tops e p)) = set (map n_id (p_shown p) @ [p_made p])" by (metis set_map)
    then show ?thesis using assms by auto
  qed
qed

theorem dismissed_timer_never_stops:
  "i < p_made p \<Longrightarrow> i \<notin> n_id ` set (p_shown p) \<Longrightarrow> i \<in> set (p_timers p) \<Longrightarrow>
   i \<in> set (p_timers (fold (happens tops) es p))"
proof (induction es arbitrary: p)
  case (Cons e es)
  have "i < p_made (happens tops e p)" using Cons.prems(1) made_happens by (rule less_le_trans)
  then show ?case
    using Cons.IH gone_happens [OF Cons.prems(1,2)] timers_happens [OF Cons.prems(3,2)] by simp
qed simp

lemma dismissed_timer_example:
  "p_timers (fold (happens n_top) [Show (js ''a'') ''info'' 3, Dismiss 0, Removed 0, Tick 0, Tick 0, Tick 0] empty_page) = [0]"
  by (simp add: run_simps)

text \<open>A delay of one second closes the notification after two.\<close>

lemma console_notification_closes:
  "map n_data_closing (p_shown (fold (happens n_top) [Show (js ''a'') ''info'' 3, Tick 0] empty_page)) = [False]"
  "map n_data_closing (p_shown (fold (happens n_top) [Show (js ''a'') ''info'' 3, Tick 0, Tick 0] empty_page)) = [True]"
  by (simp_all add: run_simps)

text \<open>
  The mark of a closing notification is data of the element, the selector asks for an attribute. So a
  notification that is on its way out is moved like the others, and its place stays empty behind it.
\<close>

lemma closing_leaves_a_gap:
  "tops_of (fold (happens n_top) [Show (js ''a'') ''info'' 2, Show (js ''b'') ''info'' 2,
     Show (js ''c'') ''info'' 2, Dismiss 1, Show (js ''d'') ''info'' 2, Removed 1] empty_page) =
   [(0, 56, 2), (2, 32, 2), (3, 20, 2)]"
  by (simp add: run_simps)

text \<open>\<open>update\<close> moves the later notifications as if the updated one were the first.\<close>

lemma update_overlaps:
  "tops_of (update_height 1 4 (fold (happens n_top) [Show (js ''a'') ''info'' 3, Show (js ''b'') ''info'' 3,
     Show (js ''c'') ''info'' 3] empty_page)) = [(0, 34, 3), (1, 33, 4), (2, 20, 3)]"
  by (simp add: run_simps)

text \<open>
  While the transition of the style runs, the browser reports an earlier place: a notification that is
  dismissed as it begins to move from 20 to 33 sends the one below it to 20, where the newest is.
\<close>

lemma transition_overlaps:
  "tops_of (fold (happens (\<lambda>n. if n_id n = 1 then 20 else n_top n)) [Show (js ''a'') ''info'' 3,
     Show (js ''b'') ''info'' 3, Show (js ''c'') ''info'' 3, Dismiss 1] empty_page) =
   [(0, 20, 3), (1, 33, 3), (2, 20, 3)]"
  by (simp add: run_simps)

text \<open>A placeholder in the message is replaced in its turn.\<close>

lemma placeholder_in_message:
  "string_format (quoted ''{2}<a href=~{3}~>'') [js ''info'', [], js ''see {3}'', js ''#'', []] = quoted ''see #<a href=~#~>''"
  by code_simp

lemma dollar_in_message: "string_format (quoted ''<p>{0}</p>'') [js ''a$&b''] = quoted ''<p>a{0}b</p>''"
  by code_simp

end
