(* ===== verification/Spec2Isabelle.thy ===== *)
theory Spec2Isabelle
  imports Api Connection Trace Messages Tables Dates Reorder End_To_End Checksums Json_Collapser Notify
begin

text \<open>
  \<^bold>\<open>Stuart\<close> is an MQTT broker with a web console. This development models the JavaScript that
  runs in the browser: the MQTT client that the console's web socket page uses
  (\<open>static/components/paho-mqtt/mqttws31.js\<close>) and the console's own scripts, with the parts of
  the validation and table libraries that the scripts rest on (paths are relative to
  \<open>src/src/main/resources/webroot\<close>); and of the broker, which is written in Java
  (\<open>src/src/main/java/io/stuart\<close>), the parts that decide who gets a message and when: topic
  matching, routing, retained messages, access control, the sessions with their queues and windows,
  and the handlers of the standalone broker that put them together.

  \<^bold>\<open>Theories, from the bottom up.\<close>

  \<^item> \<open>Prelude\<close>: JavaScript numbers (integers and \<open>NaN\<close>), UTF-16 strings as lists of 16-bit
    words, byte arrays with their out-of-range reads and writes, exceptions, results
    \<open>exn + 'a\<close>, the 32-bit bit operations, number printing and \<open>indexOf\<close>.
  \<^item> \<open>Errors\<close>: \<open>ERROR\<close>, \<open>CONNACK_RC\<close> and \<open>format\<close>.
  \<^item> \<open>Utf8\<close>: \<open>UTF8Length\<close>, \<open>stringToUTF8\<close>, \<open>parseUTF8\<close>; the round trip and the exact failure
    condition.
  \<^item> \<open>Wire\<close>, \<open>Wire_Correct\<close>: \<open>Message\<close>, \<open>WireMessage\<close>, \<open>encode\<close>, \<open>decodeMessage\<close>; the encoder
    fills exactly the buffer it sized and writes the abstract packet format (\<open>wire_body\<close>).
  \<^item> \<open>Framing\<close>: \<open>_deframeMessages\<close>. The locale \<open>packet_stream\<close> says what reassembly needs of a
    decoder and is interpreted on the decoder of the client.
  \<^item> \<open>Objects\<close>: tables keyed by numbers and local storage, with their laws as the locale
    \<open>js_object\<close>, interpreted for both.
  \<^item> \<open>Store\<close>: the stored form of a message, \<open>store\<close> and \<open>restore\<close>.
  \<^item> \<open>Client\<close>: the state of \<open>ClientImpl\<close> as a record and each of its methods, timers and socket
    handlers as an action that returns or throws. What the client does to the outside (sockets,
    callbacks) is appended to the field \<open>out\<close>.
  \<^item> \<open>Client_Invariants\<close>: application calls, assigned callbacks, socket events and timers as inputs, the reachable
    states, and the connection invariant.
  \<^item> \<open>Session\<close>: the invariant that ties the messages in flight to their stored form, kept by every
    input (the locale \<open>session_predicate\<close> deals with those that do not touch the session), and the
    restart of a client on the storage of another.
  \<^item> \<open>Delivery\<close>: QoS 1 and 2 over a connection that is up: the refinement of an abstract QoS 2
    receiver, the completion of a send, the overflow of the identifiers.
  \<^item> \<open>Connection\<close>: host failover, keep-alive, resending on a resumed session.
  \<^item> \<open>Api\<close>: the public classes: argument checks, the URI, the connect options.
  \<^item> \<open>Trace\<close>: the trace buffer.
  \<^item> \<open>Topics\<close>: \<open>utils/TopicUtil\<close>, \<open>functions/TopicMatchFunction\<close>, \<open>utils/QosUtil\<close> and
    \<open>caches/impl/RetainCacheImpl\<close>; the equivalence with the matching of the protocol.
  \<^item> \<open>Router\<close>: \<open>caches/impl/RouterCacheImpl\<close>: the trie is a function of the subscriptions, and
    its walk finds those that match: what it finds matches, and what matches is found unless its
    filter is a single slash or ends in two.
  \<^item> \<open>Acl\<close>: \<open>caches/impl/AclCacheImpl\<close>, \<open>utils/AuthUtil\<close>, \<open>LocalAuthServiceImpl\<close>.
  \<^item> \<open>Wrappers\<close>: \<open>sessions/impl/TransientSessionWrapper\<close> and \<open>PersistentSessionWrapper\<close>: a
    session as a record of its queue, its in-flight window with the pending retries, the QoS 2
    messages that wait for their PUBREL, and its connection. The bounded collections share the
    locale \<open>session_queue\<close>, interpreted for the two queues; the invariant \<open>wrapper_ok\<close> bounds all
    three and is kept by every operation.
  \<^item> \<open>Wrapper_Delivery\<close>: the order of the messages of a session, what an acknowledgement sends, the
    agreement of the two classes of session, and the flaws that modelling them showed.
  \<^item> \<open>Broker\<close>: \<open>verticles/mqtt/AbstractMqttVerticle\<close>, \<open>StandardMqttVerticle\<close> and
    \<open>services/session/impl/StdSessionServiceImpl\<close>: the broker as a record of sessions, stored sessions,
    wills, connections, router, retained messages and access entries; one definition per packet
    handler, and \<open>broker_step\<close> for one event.
  \<^item> \<open>Broker_Runs\<close>: invariants of the runs of the broker (each session is a run of a session, the
    connections are those of the clients that are connected by the history of events, the router is one
    the subscriptions produce), and on top of them whom
    a publication reaches.
  \<^item> \<open>End_To_End\<close>: the client of the console and the broker, composed through the packets of the
    protocol: a message travels from one application to another.
  \<^item> \<open>Forms\<close>: the rules of \<open>ui/js/validation.js\<close> and their evaluation by \<open>jquery.validate.js\<close>.
  \<^item> \<open>Regex\<close>: the regular expressions of JavaScript: patterns, their parser, the backtracking
    matcher and its agreement with the language of a pattern.
  \<^item> \<open>Methods\<close>, \<open>Checksums\<close>: the validation methods of \<open>additional-methods.js\<close> and the pattern
    methods of \<open>jquery.validate.js\<close>: those that test patterns, and those that compute check
    digits (IBAN, credit cards, tax and vehicle numbers) or consult the calendar.
  \<^item> \<open>Console\<close>: \<open>string.js\<close>, \<open>language.js\<close>, \<open>common.js\<close>, \<open>index.js\<close>, \<open>login.js\<close>.
  \<^item> \<open>Paging\<close>: paging of \<open>jquery.dataTables.js\<close> and its use by \<open>datatablesReload\<close>.
  \<^item> \<open>Tables\<close>: the tables of the console over their requests to the broker (\<open>_fnDraw\<close>,
    \<open>_fnAjaxUpdate\<close>, \<open>_fnAjaxUpdateDraw\<close> of \<open>jquery.dataTables.js\<close>, the \<open>ajax\<close> function of the pages,
    \<open>AdminCacheImpl.query\<close>): answers in any order, the invariant of the request numbers, what is shown.
  \<^item> \<open>Reorder\<close>: the order of the access entries, from \<open>dataTables.rowReorder.js\<close> over the page
    \<open>acl.html\<close> and \<open>WebAdminVerticle.reorderAcls\<close> to the decisions of \<open>Acl\<close>.
  \<^item> \<open>Json_View\<close>, \<open>Json_Document\<close>, \<open>Json_Items\<close>, \<open>Json_Collapser\<close>: the view of JSON data of the page
    \<open>api.html\<close> (\<open>jquery.jsonview.js\<close>): \<open>JSONFormatter\<close> and how a browser reads what it writes; the
    document with \<open>Collapser\<close> and the methods of the view; the document as a function of one control
    for each list, which every operation updates.
  \<^item> \<open>Notify\<close>: the notifications of the console (\<open>bootstrap-notify.js\<close>): their places on the page, their
    timers, the invariant of the stack, and that a notification covers no older one.
  \<^item> \<open>Dates\<close>: \<open>ui/js/date.ext.js\<close>.
  \<^item> \<open>Messages\<close>: the message tables \<open>static/i18n/messages.en.js\<close> and \<open>messages.zh.js\<close>.

  \<^bold>\<open>Conventions.\<close> An exception is the left value of a result; an action keeps the changes made
  before a throw. Loops are structural recursion or functions with a termination proof: there
  is fuel in the replacement of placeholders, in the successive matches of a pattern and in its
  parser, where the length of the text is enough because every round consumes a character, and
  and in the normalisation of a day number, where every round takes at least 28 of at most 99 days.
  The loop of a session over its queue ends because every round takes a message out.
  Numbers are integers or \<open>NaN\<close>; fractions
  do not occur in the modelled code.

  \<^bold>\<open>Parameters.\<close> \<open>JSON.stringify\<close> of an object, the table of upper case beyond ASCII, the number a malformed
  vehicle number is converted to, the clock, the geometry of a page, the conversion of time stamps to local dates,
  the answers of the broker to the console and its configuration are arguments of the definitions
  that use them. A connection of the broker is an endpoint of Vert.x, whose methods are the record
  \<open>endpoint_ops\<close>; what is relied on is \<open>publishes\<close>, \<open>counts\<close> and \<open>releases\<close>, and
  \<open>counter_endpoint\<close> is an instance. The codec of its MQTT server is the record
  \<open>mqtt_codec\<close>, relied on in \<open>End_To_End\<close> as \<open>speaks_mqtt\<close>, with \<open>own_codec\<close> as an instance. The authentication service and the order in which a set of the
  cache is enumerated are arguments too. The field \<open>sent_log\<close> of a session is an auxiliary variable.

  \<^bold>\<open>Not modelled.\<close> The rest of the broker: cluster, metrics and administration, which
  are Vert.x and Ignite code around the parts above; the expiry of QoS 2 messages that wait for
  their PUBREL; the interleaving of two handlers of the broker, each of which is one step here, and of
  two operations of a session, which its flags make atomic; callbacks that call back into the client; the document
  tree beyond the records of the console theories and the view of JSON data; the user-interface libraries (jQuery,
  Bootstrap, Select2, AdminLTE); the validation methods that read other fields or floating point
  numbers; the rest of the table library.
\<close>

end
